(* ===== verification/Proxy_Prelude.thy ===== *)
theory Proxy_Prelude
  imports Main "HOL-Library.Word"
begin

text \<open>
  Shared vocabulary of the development: the machine types of the Go sources, the byte orders of
  \<^verbatim>\<open>encoding/binary\<close>, the part of \<^verbatim>\<open>io.ReadFull\<close> the sources use, Go's signed 64-bit
  arithmetic, serial-number arithmetic on wrapping counters, and the list lemmas that the ring
  buffers and the heap share.  Nothing here models a component; every component imports it.
\<close>

unbundle bit_operations_syntax

named_theorems wire_simps \<open>encoders and decoders of the wire formats\<close>
named_theorems inv_intros \<open>preservation lemmas of component invariants\<close>

type_synonym byte = "8 word"
type_synonym u16 = "16 word"
type_synonym u32 = "32 word"
type_synonym u64 = "64 word"
type_synonym bytes = "8 word list"

subsection \<open>Big-endian integers (\<^verbatim>\<open>encoding/binary\<close>)\<close>

definition PutUint16 :: "u16 \<Rightarrow> bytes" where
  "PutUint16 v = [ucast (drop_bit 8 v), ucast v]"

definition PutUint32 :: "u32 \<Rightarrow> bytes" where
  "PutUint32 v = [ucast (drop_bit 24 v), ucast (drop_bit 16 v), ucast (drop_bit 8 v), ucast v]"

definition PutUint64 :: "u64 \<Rightarrow> bytes" where
  "PutUint64 v =
     [ucast (drop_bit 56 v), ucast (drop_bit 48 v), ucast (drop_bit 40 v), ucast (drop_bit 32 v),
      ucast (drop_bit 24 v), ucast (drop_bit 16 v), ucast (drop_bit 8 v), ucast v]"

text \<open>The decoders read the first bytes of a slice that is long enough; every caller slices first.\<close>

definition Uint16 :: "bytes \<Rightarrow> u16" where
  "Uint16 b = push_bit 8 (ucast (b ! 0)) OR ucast (b ! 1)"

definition Uint32 :: "bytes \<Rightarrow> u32" where
  "Uint32 b = push_bit 24 (ucast (b ! 0)) OR push_bit 16 (ucast (b ! 1))
     OR push_bit 8 (ucast (b ! 2)) OR ucast (b ! 3)"

definition Uint64 :: "bytes \<Rightarrow> u64" where
  "Uint64 b = push_bit 56 (ucast (b ! 0)) OR push_bit 48 (ucast (b ! 1))
     OR push_bit 40 (ucast (b ! 2)) OR push_bit 32 (ucast (b ! 3))
     OR push_bit 24 (ucast (b ! 4)) OR push_bit 16 (ucast (b ! 5))
     OR push_bit 8 (ucast (b ! 6)) OR ucast (b ! 7)"

text \<open>The slice \<^verbatim>\<open>b[lo:hi]\<close> for bounds that are in range.\<close>

definition bslice :: "nat \<Rightarrow> nat \<Rightarrow> 'a list \<Rightarrow> 'a list" where
  "bslice lo hi b = take (hi - lo) (drop lo b)"

subsection \<open>Streams of bytes (\<^verbatim>\<open>io.ReadFull\<close>)\<close>

text \<open>
  A reader is the list of bytes it will still deliver before it ends.  \<^verbatim>\<open>io.ReadFull\<close> fills the
  whole buffer or fails: \<^verbatim>\<open>io.EOF\<close> when nothing could be read, \<^verbatim>\<open>io.ErrUnexpectedEOF\<close> when only
  a part could; a buffer of length 0 is full at once.
\<close>

datatype io_error = EOF | UnexpectedEOF

definition ReadFull :: "nat \<Rightarrow> bytes \<Rightarrow> io_error + (bytes \<times> bytes)" where
  "ReadFull n r =
     (if n \<le> length r then Inr (take n r, drop n r)
      else if r = [] then Inl EOF else Inl UnexpectedEOF)"

subsection \<open>Signed 64-bit arithmetic\<close>

text \<open>
  Go's \<^verbatim>\<open>int64\<close> (and \<^verbatim>\<open>int\<close> on 64-bit targets) as an integer with the wrap-around written out;
  \<open>quot64\<close> is Go's division, which truncates towards zero (the divisor is not zero where it is
  used, and the one overflowing quotient wraps).
\<close>

definition i64 :: "int \<Rightarrow> int" where
  "i64 x = (x + 2 ^ 63) mod 2 ^ 64 - 2 ^ 63"

definition quot64 :: "int \<Rightarrow> int \<Rightarrow> int" where
  "quot64 a b = i64 (sgn a * sgn b * (\<bar>a\<bar> div \<bar>b\<bar>))"

definition minInt64 :: int where
  "minInt64 = - (2 ^ 63)"

subsection \<open>Run-time panics\<close>

text \<open>An operation that Go would abort with a run-time panic returns \<open>Inl\<close> of its reason.\<close>

datatype panic = IndexOutOfRange | SendOnClosedChannel | CloseOfClosedChannel | SliceBounds | NilDereference

subsection \<open>Serial numbers\<close>

text \<open>\<^verbatim>\<open>int32(a-b) < 0\<close> and \<^verbatim>\<open>int16(a-b) > 0\<close>: comparisons of wrapping counters (RFC 1982).\<close>

definition serial_lt :: "'a::len word \<Rightarrow> 'a word \<Rightarrow> bool" where
  "serial_lt a b \<longleftrightarrow> sint (a - b) < 0"

section \<open>Lemmas\<close>

subsection \<open>Integers on the wire\<close>

lemma length_PutUint [simp]:
  "length (PutUint16 a) = 2" "length (PutUint32 b) = 4" "length (PutUint64 c) = 8"
  by (simp_all add: PutUint16_def PutUint32_def PutUint64_def)

lemma Uint16_Put [simp, wire_simps]: "Uint16 (PutUint16 v @ r) = v"
proof (rule bit_word_eqI)
  fix n assume n: "n < LENGTH(16)"
  then have "n < 16" by simp
  then consider "n < 8" | "8 \<le> n" "n < 16" by linarith
  then show "bit (Uint16 (PutUint16 v @ r)) n \<longleftrightarrow> bit v n"
    by cases (auto simp: Uint16_def PutUint16_def bit_simps)
qed

lemma Uint32_Put [simp, wire_simps]: "Uint32 (PutUint32 v @ r) = v"
proof (rule bit_word_eqI)
  fix n assume n: "n < LENGTH(32)"
  then have "n < 32" by simp
  then consider "n < 8" | "8 \<le> n" "n < 16" | "16 \<le> n" "n < 24" | "24 \<le> n" "n < 32" by linarith
  then show "bit (Uint32 (PutUint32 v @ r)) n \<longleftrightarrow> bit v n"
    by cases (auto simp: Uint32_def PutUint32_def bit_simps)
qed

lemma Uint64_Put [simp, wire_simps]: "Uint64 (PutUint64 v @ r) = v"
proof (rule bit_word_eqI)
  fix n assume n: "n < LENGTH(64)"
  then have "n < 64" by simp
  then consider "n < 8" | "8 \<le> n" "n < 16" | "16 \<le> n" "n < 24" | "24 \<le> n" "n < 32"
    | "32 \<le> n" "n < 40" | "40 \<le> n" "n < 48" | "48 \<le> n" "n < 56" | "56 \<le> n" "n < 64" by linarith
  then show "bit (Uint64 (PutUint64 v @ r)) n \<longleftrightarrow> bit v n"
    by cases (simp_all add: Uint64_def PutUint64_def bit_or_iff bit_push_bit_iff bit_drop_bit_eq
        bit_unsigned_iff less_diff_conv2)
qed

lemma Uint_Put_Nil [simp, wire_simps]:
  "Uint16 (PutUint16 a) = a" "Uint32 (PutUint32 b) = b" "Uint64 (PutUint64 c) = c"
  using Uint16_Put [of a "[]"] Uint32_Put [of b "[]"] Uint64_Put [of c "[]"] by simp_all

lemma bit_byte_beyond [simp]: "8 \<le> n \<Longrightarrow> \<not> bit (b :: byte) n"
  using bit_imp_le_length [of b n] by auto

lemma PutUint16_Uint16 [wire_simps]: "length b = 2 \<Longrightarrow> PutUint16 (Uint16 b) = b"
proof -
  assume "length b = 2"
  then obtain x y where b: "b = [x, y]"
    by (auto simp: length_Suc_conv numeral_2_eq_2)
  show ?thesis
    unfolding b PutUint16_def Uint16_def
    by (simp, intro conjI; rule bit_word_eqI; simp add: bit_simps)
qed

lemma PutUint32_Uint32 [wire_simps]: "length b = 4 \<Longrightarrow> PutUint32 (Uint32 b) = b"
proof -
  assume "length b = 4"
  then obtain x y z w where b: "b = [x, y, z, w]"
    by (auto simp: length_Suc_conv eval_nat_numeral)
  show ?thesis
    unfolding b PutUint32_def Uint32_def
    by (simp only: list.inject simp_thms, intro conjI; rule bit_word_eqI; simp add: bit_simps)
qed

subsection \<open>Slices and reads\<close>

lemma bslice_0 [simp]: "bslice 0 n b = take n b"
  by (simp add: bslice_def)

lemma length_bslice [simp]: "hi \<le> length b \<Longrightarrow> length (bslice lo hi b) = hi - lo"
  by (simp add: bslice_def)

lemma bslice_append_right: "length a \<le> lo \<Longrightarrow> bslice lo hi (a @ b) = bslice (lo - length a) (hi - length a) b"
  by (simp add: bslice_def)

lemma bslice_append_left: "hi \<le> length a \<Longrightarrow> bslice lo hi (a @ b) = bslice lo hi a"
  by (simp add: bslice_def)

lemma ReadFull_append [simp, wire_simps]: "length a = n \<Longrightarrow> ReadFull n (a @ r) = Inr (a, r)"
  by (simp add: ReadFull_def)

lemma ReadFull_InrD: "ReadFull n r = Inr (a, r') \<Longrightarrow> r = a @ r' \<and> length a = n"
  by (auto simp: ReadFull_def split: if_splits)

lemma ReadFull_Inl_iff: "(\<exists>e. ReadFull n r = Inl e) \<longleftrightarrow> length r < n"
  by (auto simp: ReadFull_def)

lemma ReadFull_0 [simp]: "ReadFull 0 r = Inr ([], r)"
  by (simp add: ReadFull_def)

subsection \<open>Signed arithmetic\<close>

lemma i64_id [simp]: "- (2 ^ 63) \<le> x \<Longrightarrow> x < 2 ^ 63 \<Longrightarrow> i64 x = x"
  by (simp add: i64_def)

lemma i64_range: "- (2 ^ 63) \<le> i64 x" "i64 x < 2 ^ 63"
  using pos_mod_bound [of "2 ^ 64" "x + 2 ^ 63"] pos_mod_sign [of "2 ^ 64" "x + 2 ^ 63"]
  by (simp_all add: i64_def)

lemma serial_lt_of_nat:
  assumes "- (2 ^ (LENGTH('a::len) - 1)) \<le> int i - int j" "int i - int j < 2 ^ (LENGTH('a) - 1)"
  shows "serial_lt (of_nat i :: 'a word) (of_nat j) \<longleftrightarrow> i < j"
proof -
  have "(of_nat i :: 'a word) - of_nat j = word_of_int (int i - int j)" by simp
  then have "sint ((of_nat i :: 'a word) - of_nat j) = signed_take_bit (LENGTH('a) - 1) (int i - int j)"
    by (simp only: sint_sbintrunc')
  also have "\<dots> = int i - int j" using assms by (simp add: signed_take_bit_int_eq_self)
  finally show ?thesis by (simp add: serial_lt_def)
qed

lemma unat_of_nat_diff:
  "n \<le> i \<Longrightarrow> i - n < 2 ^ LENGTH('a::len) \<Longrightarrow> unat (of_nat i - of_nat n :: 'a word) = i - n"
proof -
  assume *: "n \<le> i" "i - n < 2 ^ LENGTH('a)"
  then have "(of_nat i - of_nat n :: 'a word) = of_nat (i - n)" by (simp add: of_nat_diff)
  then have "unat (of_nat i - of_nat n :: 'a word) = (i - n) mod 2 ^ LENGTH('a)"
    by (simp only: unat_of_nat)
  then show ?thesis using * by simp
qed

lemma quot64_pos: "0 \<le> a \<Longrightarrow> a < 2 ^ 63 \<Longrightarrow> 0 < b \<Longrightarrow> quot64 a b = a div b"
proof -
  assume a: "0 \<le> a" "a < 2 ^ 63" and b: "0 < b"
  have "a div b \<le> a" using a b zdiv_mono2 [of a 1 b] by simp
  moreover have "0 \<le> a div b" using a b by (simp add: pos_imp_zdiv_nonneg_iff)
  ultimately have "i64 (a div b) = a div b" using a by (intro i64_id) auto
  then show ?thesis using a b by (cases "a = 0") (simp_all add: quot64_def)
qed

end
