(* ===== verification/Mux_Frame.thy ===== *)
theory Mux_Frame
  imports Proxy_Prelude
begin

text \<open>
  The wire formats of the multiplexer (\<^verbatim>\<open>internal/mux/protocol.go\<close>, \<^verbatim>\<open>session.go\<close> and the ping
  payload of \<^verbatim>\<open>mux.go\<close>): frames, keepalive payloads, the session preamble and its HMAC
  authentication, the batching of frames by \<^verbatim>\<open>writeLoop\<close> and their recovery by \<^verbatim>\<open>readLoop\<close>.
  HMAC-SHA256 is a parameter: a function from key and message to the 32-byte tag.
\<close>

section \<open>Frames\<close>

definition headerSize :: nat where "headerSize = 13"
definition maxPayload :: nat where "maxPayload = 65535"

definition FrameData :: byte where "FrameData = 1"
definition FrameOpen :: byte where "FrameOpen = 2"
definition FrameClose :: byte where "FrameClose = 3"
definition FramePing :: byte where "FramePing = 4"
definition FramePong :: byte where "FramePong = 5"

record Frame =
  StreamID :: u32
  Type :: byte
  Sequence :: u32
  Length :: u32
  Payload :: bytes
  connIdx :: int

datatype mux_error =
    PayloadExceedsMaximum
  | FrameLengthExceedsMaximum
  | Io io_error
  | NoConnections
  | WriteFailed
  | StreamClosed
  | AuthTokenMismatch
  | MuxClosed

definition MarshalBinary :: "Frame \<Rightarrow> mux_error + bytes" where
  "MarshalBinary f =
     (if length (Payload f) > maxPayload then Inl PayloadExceedsMaximum
      else Inr (PutUint32 (StreamID f) @ [Type f] @ PutUint32 (Sequence f)
                @ PutUint32 (of_nat (length (Payload f))) @ Payload f))"

definition ReadFrame :: "bytes \<Rightarrow> mux_error + (Frame \<times> bytes)" where
  "ReadFrame r =
     (case ReadFull headerSize r of
        Inl e \<Rightarrow> Inl (Io e)
      | Inr (hdr, r1) \<Rightarrow>
          let f = \<lparr>StreamID = Uint32 (bslice 0 4 hdr), Type = hdr ! 4,
                   Sequence = Uint32 (bslice 5 9 hdr), Length = Uint32 (bslice 9 13 hdr),
                   Payload = [], connIdx = 0\<rparr>
          in if unat (Length f) > maxPayload then Inl FrameLengthExceedsMaximum
             else if unat (Length f) > 0 then
               (case ReadFull (unat (Length f)) r1 of
                  Inl e \<Rightarrow> Inl (Io e)
                | Inr (p, r2) \<Rightarrow> Inr (f\<lparr>Payload := p\<rparr>, r2))
             else Inr (f, r1))"

text \<open>What arrives is the sent frame with its length field filled in and no connection index.\<close>

definition on_wire :: "Frame \<Rightarrow> Frame" where
  "on_wire f = f\<lparr>Length := of_nat (length (Payload f)), connIdx := 0\<rparr>"

section \<open>Keepalive payloads\<close>

definition pingPayloadSize :: nat where "pingPayloadSize = 12"

text \<open>The timestamp is \<^verbatim>\<open>uint64(ts.UnixNano())\<close>, the index \<^verbatim>\<open>uint32(connIdx)\<close>: both conversions wrap.\<close>

definition encodePingPayload :: "int \<Rightarrow> int \<Rightarrow> bytes" where
  "encodePingPayload ts idx = PutUint64 (word_of_int ts) @ PutUint32 (word_of_int idx)"

definition decodePingPayload :: "bytes \<Rightarrow> (int \<times> int) option" where
  "decodePingPayload p =
     (if length p < pingPayloadSize then None
      else Some (sint (Uint64 (bslice 0 8 p)), uint (Uint32 (bslice 8 12 p))))"

section \<open>Session preamble\<close>

definition sessionIDSize :: nat where "sessionIDSize = 16"
definition nonceSize :: nat where "nonceSize = 16"
definition hmacSize :: nat where "hmacSize = 32"

text \<open>
  The writers return the byte strings they hand to the connection, one per \<^verbatim>\<open>Write\<close>; the readers
  take the stream of the connection and return what is left of it.
\<close>

definition WriteSessionID :: "bytes \<Rightarrow> bytes list" where
  "WriteSessionID sid = [sid]"

definition ReadSessionID :: "bytes \<Rightarrow> mux_error + (bytes \<times> bytes)" where
  "ReadSessionID r =
     (case ReadFull sessionIDSize r of Inl e \<Rightarrow> Inl (Io e) | Inr (sid, r') \<Rightarrow> Inr (sid, r'))"

definition WriteAuthToken :: "(bytes \<Rightarrow> bytes \<Rightarrow> bytes) \<Rightarrow> bytes \<Rightarrow> bytes \<Rightarrow> bytes list" where
  "WriteAuthToken hmac nonce token = [nonce, hmac token nonce]"

definition ValidateAuthToken :: "(bytes \<Rightarrow> bytes \<Rightarrow> bytes) \<Rightarrow> bytes \<Rightarrow> bytes \<Rightarrow> mux_error + bytes" where
  "ValidateAuthToken hmac expectedToken r =
     (case ReadFull nonceSize r of
        Inl e \<Rightarrow> Inl (Io e)
      | Inr (nonce, r1) \<Rightarrow>
          (case ReadFull hmacSize r1 of
             Inl e \<Rightarrow> Inl (Io e)
           | Inr (received, r2) \<Rightarrow>
               if received \<noteq> hmac expectedToken nonce then Inl AuthTokenMismatch else Inr r2))"

section \<open>Batches\<close>

definition maxBatchBytes :: nat where "maxBatchBytes = 4 * 1024"

text \<open>
  The inner loop of \<^verbatim>\<open>writeLoop\<close>: after the first request has been taken from the channel, more are
  taken while the batch has fewer than 64 of them and fewer than \<open>maxBatchBytes\<close> bytes.  The second
  argument is what the channel holds; an empty channel ends the batch.
\<close>

fun drain_batch :: "bytes list \<Rightarrow> nat \<Rightarrow> bytes list \<Rightarrow> bytes list \<times> bytes list" where
  "drain_batch batch totalLen [] = (batch, [])"
| "drain_batch batch totalLen (r # ch) =
     (if length batch < 64 \<and> totalLen < maxBatchBytes
      then drain_batch (batch @ [r]) (totalLen + length r) ch
      else (batch, r # ch))"

definition next_batch :: "bytes \<Rightarrow> bytes list \<Rightarrow> bytes list \<times> bytes list" where
  "next_batch req ch = drain_batch [req] (length req) ch"

lemma drain_batch_append: "drain_batch b n ch = (b', ch') \<Longrightarrow> b' @ ch' = b @ ch"
  by (induction b n ch rule: drain_batch.induct) (auto split: if_splits)

lemma drain_batch_length: "drain_batch b n ch = (b', ch') \<Longrightarrow> length ch' \<le> length ch"
  by (induction b n ch rule: drain_batch.induct) (auto split: if_splits)

text \<open>The buffers that \<^verbatim>\<open>writeLoop\<close> writes while it empties a channel that is no longer filled.\<close>

function write_batches :: "bytes list \<Rightarrow> bytes list" where
  "write_batches [] = []"
| "write_batches (req # ch) =
     (let (batch, ch') = next_batch req ch in concat batch # write_batches ch')"
  by pat_completeness auto
termination
  by (relation "measure length")
     (auto simp: next_batch_def less_Suc_eq_le dest: drain_batch_length [OF sym])

lemma ReadFrame_consumes: "ReadFrame r = Inr (f, r') \<Longrightarrow> length r = 13 + length (Payload f) + length r'"
  by (auto simp: ReadFrame_def headerSize_def Let_def dest!: ReadFull_InrD
      split: sum.splits prod.splits if_splits)

text \<open>
  The frames that \<^verbatim>\<open>readLoop\<close> passes on from a connection that delivers \<open>r\<close> and then ends, with
  the error that stops it.
\<close>

function read_frames :: "int \<Rightarrow> bytes \<Rightarrow> Frame list \<times> mux_error" where
  "read_frames idx r =
     (case ReadFrame r of
        Inl e \<Rightarrow> ([], e)
      | Inr (f, r') \<Rightarrow>
          (let (fs, e) = read_frames idx r' in (f\<lparr>connIdx := idx\<rparr> # fs, e)))"
  by pat_completeness auto

termination
  by (relation "measure (\<lambda>(_, r). length r)") (auto dest: ReadFrame_consumes)

declare read_frames.simps [simp del]

section \<open>Frame lemmas\<close>

lemma unat_of_payload [simp]:
  "n \<le> maxPayload \<Longrightarrow> unat (of_nat n :: u32) = n"
  by (simp add: maxPayload_def unsigned_of_nat take_bit_nat_eq_self)

lemma ReadFull_header:
  "ReadFull headerSize (PutUint32 a @ t # PutUint32 b @ PutUint32 c @ r)
   = Inr (PutUint32 a @ [t] @ PutUint32 b @ PutUint32 c, r)"
  by (simp add: ReadFull_def headerSize_def)

lemma header_fields [simp]:
  "Uint32 (take 4 (PutUint32 a @ r)) = a"
  "(PutUint32 a @ t # r') ! 4 = t"
  "Uint32 (bslice 5 9 (PutUint32 a @ t # PutUint32 b @ r)) = b"
  "Uint32 (bslice 9 13 (PutUint32 a @ t # PutUint32 b @ PutUint32 c)) = c"
proof -
  show "Uint32 (take 4 (PutUint32 a @ r)) = a" by simp
  show "(PutUint32 a @ t # r') ! 4 = t" by (simp add: nth_append)
  show "Uint32 (bslice 5 9 (PutUint32 a @ t # PutUint32 b @ r)) = b" by (simp add: bslice_def)
  show "Uint32 (bslice 9 13 (PutUint32 a @ t # PutUint32 b @ PutUint32 c)) = c"
    by (simp add: bslice_def)
qed

lemma ReadFrame_Marshal:
  assumes "MarshalBinary f = Inr b"
  shows "ReadFrame (b @ r) = Inr (on_wire f, r)"
proof -
  from assms have len: "length (Payload f) \<le> maxPayload"
    and b: "b @ r = PutUint32 (StreamID f) @ Type f # PutUint32 (Sequence f)
      @ PutUint32 (of_nat (length (Payload f))) @ Payload f @ r"
    by (auto simp: MarshalBinary_def split: if_splits)
  show ?thesis
    unfolding ReadFrame_def b ReadFull_header
    using len by (simp add: on_wire_def Let_def)
qed

lemma ReadFrame_Inr_Marshal:
  assumes "ReadFrame r = Inr (f, r')"
  shows "\<exists>b. MarshalBinary f = Inr b \<and> r = b @ r' \<and> on_wire f = f"
proof -
  from assms obtain hdr r1 where rd: "ReadFull headerSize r = Inr (hdr, r1)"
    by (auto simp: ReadFrame_def split: sum.splits)
  then have r: "r = hdr @ r1" and h13: "length hdr = 13"
    by (auto simp: headerSize_def dest: ReadFull_InrD)
  have hdr: "hdr = PutUint32 (Uint32 (bslice 0 4 hdr)) @ hdr ! 4
      # PutUint32 (Uint32 (bslice 5 9 hdr)) @ PutUint32 (Uint32 (bslice 9 13 hdr))"
  proof -
    have "hdr = take 4 hdr @ drop 4 hdr" by simp
    also have "drop 4 hdr = hdr ! 4 # drop 5 hdr"
      using h13 by (simp flip: Cons_nth_drop_Suc)
    also have "drop 5 hdr = bslice 5 9 hdr @ bslice 9 13 hdr"
      using h13 append_take_drop_id [of 4 "drop 5 hdr"] by (simp add: bslice_def)
    finally show ?thesis using h13 by (simp add: PutUint32_Uint32)
  qed
  from assms rd have f: "StreamID f = Uint32 (bslice 0 4 hdr)" "Type f = hdr ! 4"
      "Sequence f = Uint32 (bslice 5 9 hdr)" "Length f = Uint32 (bslice 9 13 hdr)"
      "connIdx f = 0" "length (Payload f) = unat (Length f)" "r1 = Payload f @ r'"
      "unat (Length f) \<le> maxPayload"
    by (auto simp: ReadFrame_def Let_def dest!: ReadFull_InrD split: sum.splits if_splits prod.splits)
  then have "(of_nat (length (Payload f)) :: u32) = Length f" by simp
  then show ?thesis
    using f hdr r by (simp add: MarshalBinary_def on_wire_def)
qed

lemma read_frames_Nil [simp]: "read_frames idx [] = ([], Io EOF)"
  by (simp add: read_frames.simps ReadFrame_def ReadFull_def headerSize_def)

lemma read_frames_Cons:
  "MarshalBinary f = Inr b \<Longrightarrow>
   read_frames idx (b @ r) = ((on_wire f)\<lparr>connIdx := idx\<rparr> # fst (read_frames idx r), snd (read_frames idx r))"
  by (subst read_frames.simps) (simp add: ReadFrame_Marshal case_prod_beta Let_def)

lemma read_frames_marshalled:
  "list_all2 (\<lambda>f b. MarshalBinary f = Inr b) fs bs \<Longrightarrow>
   read_frames idx (concat bs) = (map (\<lambda>f. (on_wire f)\<lparr>connIdx := idx\<rparr>) fs, Io EOF)"
  by (induction rule: list_all2_induct) (simp_all add: read_frames_Cons)

lemma concat_write_batches: "concat (write_batches ch) = concat ch"
proof (induction ch rule: write_batches.induct)
  case (2 req ch)
  obtain b ch' where nb: "next_batch req ch = (b, ch')" by fastforce
  then have "b @ ch' = req # ch"
    by (simp add: next_batch_def drain_batch_append)
  then have "concat b @ concat ch' = req @ concat ch"
    by (metis concat.simps(2) concat_append)
  with 2 nb show ?case by simp
qed simp

lemma drain_batch_bound:
  "drain_batch b n ch = (b', ch') \<Longrightarrow> length (concat b) = n \<Longrightarrow> \<forall>x\<in>set ch. length x \<le> L \<Longrightarrow>
   0 < L \<Longrightarrow> n < maxBatchBytes + L \<Longrightarrow> length b \<le> 64 \<Longrightarrow>
   length (concat b') < maxBatchBytes + L \<and> length b' \<le> 64"
  by (induction b n ch rule: drain_batch.induct) (auto split: if_splits)

lemma write_batches_bound:
  "\<forall>x\<in>set ch. length x \<le> L \<Longrightarrow> 0 < L \<Longrightarrow> buf \<in> set (write_batches ch) \<Longrightarrow>
   length buf < maxBatchBytes + L"
proof (induction ch rule: write_batches.induct)
  case (2 req ch)
  obtain b ch' where nb: "next_batch req ch = (b, ch')" by fastforce
  then have app: "b @ ch' = req # ch" and
    "length (concat b) < maxBatchBytes + L"
    using drain_batch_bound [of "[req]" "length req" ch b ch' L] 2(2,3)
    by (auto simp: next_batch_def drain_batch_append maxBatchBytes_def)
  moreover from app have "set ch' \<subseteq> set (req # ch)" by (metis Un_upper2 set_append)
  ultimately show ?case using 2 nb by (auto simp: subset_iff)
qed simp

lemma ValidateAuthToken_Inr_iff:
  assumes "\<And>k m. length (hmac k m) = hmacSize"
  shows "ValidateAuthToken hmac tok r = Inr r' \<longleftrightarrow>
    (\<exists>nonce. length nonce = nonceSize \<and> r = nonce @ hmac tok nonce @ r')"
proof
  assume "ValidateAuthToken hmac tok r = Inr r'"
  then show "\<exists>nonce. length nonce = nonceSize \<and> r = nonce @ hmac tok nonce @ r'"
    by (fastforce simp: ValidateAuthToken_def dest!: ReadFull_InrD split: sum.splits if_splits)
next
  assume "\<exists>nonce. length nonce = nonceSize \<and> r = nonce @ hmac tok nonce @ r'"
  then show "ValidateAuthToken hmac tok r = Inr r'"
    using assms by (auto simp: ValidateAuthToken_def)
qed

section \<open>Properties\<close>

text \<open>
  frames that \<^verbatim>\<open>writeLoop\<close> takes from a connection's channel, coalesces into batches and writes
  arrive at the peer's \<^verbatim>\<open>readLoop\<close> as exactly the same frames, in the same order and none twice,
  each with its length field set, whatever the batch boundaries are.
\<close>

theorem batched_frames_roundtrip:
  assumes "list_all2 (\<lambda>f b. MarshalBinary f = Inr b) fs bs"
  shows "read_frames idx (concat (write_batches bs))
    = (map (\<lambda>f. (on_wire f)\<lparr>connIdx := idx\<rparr>) fs, Io EOF)"
  using assms by (simp add: concat_write_batches read_frames_marshalled)

text \<open>
  C32: \<^verbatim>\<open>ReadFrame\<close> accepts a stream if and only if it starts with the encoding of the frame it
  returns: decoding is the exact inverse of \<^verbatim>\<open>MarshalBinary\<close>, it consumes precisely the bytes of
  that frame, and no frame has two encodings.
\<close>

theorem ReadFrame_exact_inverse:
  "ReadFrame r = Inr (f, r') \<longleftrightarrow> on_wire f = f \<and> (\<exists>b. MarshalBinary f = Inr b \<and> r = b @ r')"
proof
  assume "ReadFrame r = Inr (f, r')"
  then show "on_wire f = f \<and> (\<exists>b. MarshalBinary f = Inr b \<and> r = b @ r')"
    by (auto dest: ReadFrame_Inr_Marshal)
next
  assume "on_wire f = f \<and> (\<exists>b. MarshalBinary f = Inr b \<and> r = b @ r')"
  then show "ReadFrame r = Inr (f, r')"
    by (auto dest: ReadFrame_Marshal)
qed

text \<open>
  when no queued frame is longer than \<open>L\<close> bytes, every buffer that \<^verbatim>\<open>writeLoop\<close> writes (one DTLS
  record each) is shorter than \<open>maxBatchBytes + L\<close>; with the default frame size the records stay below
  the 8192 bytes that the receiving side's buffer holds.
\<close>

theorem write_batch_size:
  assumes "\<forall>x\<in>set ch. length x \<le> L" and "0 < L" and "buf \<in> set (write_batches ch)"
  shows "length buf < maxBatchBytes + L"
  using assms by (rule write_batches_bound)

text \<open>
  authentication accepts exactly the streams that begin with some 16-byte nonce followed by its HMAC
  under the expected token; everything else is refused, and what follows is left for the session
  identifier.  (Nothing in the check depends on the connection: a recorded preamble is accepted again.)
\<close>

theorem auth_preamble_exact:
  assumes "\<And>k m. length (hmac k m) = hmacSize"
  shows "ValidateAuthToken hmac tok r = Inr r' \<longleftrightarrow>
    (\<exists>nonce. length nonce = nonceSize \<and> r = nonce @ hmac tok nonce @ r')"
  using assms by (rule ValidateAuthToken_Inr_iff)

text \<open>
  The peer that echoes a ping payload returns the sender's timestamp and connection index
  unchanged, for every 64-bit timestamp and every index that fits in 32 bits.
\<close>

theorem ping_payload_roundtrip:
  assumes "- (2 ^ 63) \<le> ts" "ts < 2 ^ 63" "0 \<le> idx" "idx < 2 ^ 32"
  shows "decodePingPayload (encodePingPayload ts idx) = Some (ts, idx)"
  using assms
  by (simp add: decodePingPayload_def encodePingPayload_def pingPayloadSize_def bslice_def
      signed_of_int unsigned_of_int signed_take_bit_int_eq_self take_bit_int_eq_self)

end
