(* ===== verification/Ring_Buffers.thy ===== *)
theory Ring_Buffers
  imports Mux_Frame
begin

text \<open>
  The two ring buffers of the multiplexer: \<^verbatim>\<open>retransmitRing\<close> (\<^verbatim>\<open>protocol.go\<close>), which keeps the last
  frames written to a connection for retransmission, and \<^verbatim>\<open>RawRingBuffer\<close> (\<^verbatim>\<open>ringbuf.go\<close>), which
  queues raw IP packets and evicts the oldest.  Both are arrays with a position and a count; both
  are shown to implement the same abstract queue, a list that forgets its oldest elements.
\<close>

section \<open>The retransmission ring\<close>

definition retransmitRingSize :: nat where "retransmitRingSize = 128"

record retransmitRing =
  rbuf :: "bytes option list"
  rwrite :: nat
  rcount :: nat

definition new_ring :: retransmitRing where
  "new_ring = \<lparr>rbuf = replicate retransmitRingSize None, rwrite = 0, rcount = 0\<rparr>"

definition ring_Push :: "bytes \<Rightarrow> retransmitRing \<Rightarrow> retransmitRing" where
  "ring_Push data r =
     r\<lparr>rbuf := (rbuf r)[rwrite r := Some data],
       rwrite := (rwrite r + 1) mod retransmitRingSize,
       rcount := (if rcount r < retransmitRingSize then rcount r + 1 else rcount r)\<rparr>"

text \<open>The loop of \<^verbatim>\<open>Drain\<close>: the remaining iterations, the next index, the buffer and what was taken.\<close>

fun drain_ring :: "nat \<Rightarrow> nat \<Rightarrow> nat \<Rightarrow> bytes option list \<Rightarrow> bytes option list
    \<Rightarrow> bytes option list \<times> bytes option list" where
  "drain_ring start i 0 buf out = (buf, out)"
| "drain_ring start i (Suc n) buf out =
     (let idx = (start + i) mod retransmitRingSize
      in drain_ring start (Suc i) n (buf[idx := None]) (out @ [buf ! idx]))"

definition ring_Drain :: "retransmitRing \<Rightarrow> bytes option list \<times> retransmitRing" where
  "ring_Drain r =
     (if rcount r = 0 then ([], r)
      else let start = (rwrite r + retransmitRingSize - rcount r) mod retransmitRingSize;
               (buf, out) = drain_ring start 0 (rcount r) (rbuf r) []
           in (out, r\<lparr>rbuf := buf, rcount := 0, rwrite := 0\<rparr>))"

section \<open>The raw packet ring\<close>

text \<open>
  \<open>notify\<close> is the one-element channel \<^verbatim>\<open>notify\<close>: whether it holds a token.  It is closed exactly when
  \<open>closed\<close> is set, since only \<^verbatim>\<open>Close\<close> closes it, under the same lock.
\<close>

record RawRingBuffer =
  buf :: "Frame option list"
  cap :: nat
  head :: nat
  count :: nat
  notify :: bool
  closed :: bool

definition NewRawRingBuffer :: "nat \<Rightarrow> RawRingBuffer" where
  "NewRawRingBuffer capacity =
     \<lparr>buf = replicate capacity None, cap = capacity, head = 0, count = 0, notify = False, closed = False\<rparr>"

text \<open>
  \<^verbatim>\<open>Push\<close> has two parts that other goroutines can run between: the update under the mutex, and the
  signal to the consumer after the mutex is released.  The update returns the number of evicted frames
  and whether the signal follows; an array of capacity 0 makes it panic on its first index.
\<close>

definition raw_push_locked :: "Frame \<Rightarrow> RawRingBuffer \<Rightarrow> panic + (RawRingBuffer \<times> nat \<times> bool)" where
  "raw_push_locked f rb =
     (if closed rb then Inr (rb, 0, False)
      else if count rb = cap rb then
        (if head rb < length (buf rb)
         then Inr (rb\<lparr>buf := (buf rb)[head rb := Some f], head := (head rb + 1) mod cap rb\<rparr>, 1, True)
         else Inl IndexOutOfRange)
      else
        let idx = (head rb + count rb) mod cap rb
        in if idx < length (buf rb)
           then Inr (rb\<lparr>buf := (buf rb)[idx := Some f], count := count rb + 1\<rparr>, 0, True)
           else Inl IndexOutOfRange)"

definition raw_push_signal :: "RawRingBuffer \<Rightarrow> panic + RawRingBuffer" where
  "raw_push_signal rb = (if closed rb then Inl SendOnClosedChannel else Inr (rb\<lparr>notify := True\<rparr>))"

definition raw_Push :: "Frame \<Rightarrow> RawRingBuffer \<Rightarrow> panic + (RawRingBuffer \<times> nat)" where
  "raw_Push f rb =
     (case raw_push_locked f rb of
        Inl p \<Rightarrow> Inl p
      | Inr (rb', evicted, signal) \<Rightarrow>
          if signal
          then (case raw_push_signal rb' of Inl p \<Rightarrow> Inl p | Inr rb'' \<Rightarrow> Inr (rb'', evicted))
          else Inr (rb', evicted))"

definition raw_Pop :: "RawRingBuffer \<Rightarrow> (Frame option \<times> bool) \<times> RawRingBuffer" where
  "raw_Pop rb =
     (if count rb = 0 then ((None, False), rb)
      else ((buf rb ! head rb, True),
            rb\<lparr>buf := (buf rb)[head rb := None], head := (head rb + 1) mod cap rb, count := count rb - 1\<rparr>))"

definition raw_Drain :: "RawRingBuffer \<Rightarrow> nat \<times> RawRingBuffer" where
  "raw_Drain rb = (count rb, rb\<lparr>buf := map (\<lambda>_. None) (buf rb), head := 0, count := 0\<rparr>)"

definition raw_Len :: "RawRingBuffer \<Rightarrow> nat" where
  "raw_Len rb = count rb"

definition raw_Close :: "RawRingBuffer \<Rightarrow> RawRingBuffer" where
  "raw_Close rb = (if closed rb then rb else rb\<lparr>closed := True\<rparr>)"

definition raw_IsClosed :: "RawRingBuffer \<Rightarrow> bool" where
  "raw_IsClosed rb = closed rb"

section \<open>Arrays read as rings\<close>

definition ring_view :: "nat \<Rightarrow> nat \<Rightarrow> nat \<Rightarrow> 'a list \<Rightarrow> 'a list" where
  "ring_view N start n b = map (\<lambda>i. b ! ((start + i) mod N)) [0..<n]"

lemma length_ring_view [simp]: "length (ring_view N s n b) = n"
  by (simp add: ring_view_def)

lemma ring_view_0 [simp]: "ring_view N s 0 b = []"
  by (simp add: ring_view_def)

lemma ring_index_inj_le:
  assumes "i \<le> j" "j < N" "(s + i) mod N = (s + j) mod (N :: nat)"
  shows "i = j"
proof -
  have "N dvd (s + j) - (s + i)"
    using assms by (subst mod_eq_dvd_iff_nat [symmetric]) auto
  then have "N dvd j - i" by simp
  then have "j - i = 0" using assms(2) by (metis dvd_imp_le less_imp_diff_less linorder_not_le neq0_conv)
  with assms(1) show ?thesis by simp
qed

lemma ring_index_inj:
  assumes "i < N" "j < N" "(s + i) mod N = (s + j) mod (N :: nat)"
  shows "i = j"
  using ring_index_inj_le [of i j N s] ring_index_inj_le [of j i N s] assms by (cases "i \<le> j") auto

lemma ring_view_update_other:
  assumes "n \<le> m" "m < N"
  shows "ring_view N s n (b[(s + m) mod N := x]) = ring_view N s n b"
  unfolding ring_view_def
proof (rule map_cong [OF refl])
  fix i assume "i \<in> set [0..<n]"
  then have "(s + m) mod N \<noteq> (s + i) mod N"
    using ring_index_inj [of m N i s] assms by auto
  then show "b[(s + m) mod N := x] ! ((s + i) mod N) = b ! ((s + i) mod N)"
    by simp
qed

lemma ring_view_snoc:
  assumes "n < N" "length b = N"
  shows "ring_view N s (Suc n) (b[(s + n) mod N := x]) = ring_view N s n b @ [x]"
proof -
  have "(s + n) mod N < length b" using assms by simp
  then have "ring_view N s (Suc n) (b[(s + n) mod N := x]) = ring_view N s n (b[(s + n) mod N := x]) @ [x]"
    by (simp add: ring_view_def)
  with assms show ?thesis by (simp add: ring_view_update_other)
qed

lemma ring_view_Cons:
  "ring_view N s (Suc n) b = b ! (s mod N) # ring_view N ((s + 1) mod N) n b"
proof -
  have "[0..<Suc n] = 0 # map Suc [0..<n]"
    by (metis map_Suc_upt upt_conv_Cons zero_less_Suc)
  moreover have "(s + Suc i) mod N = ((s + 1) mod N + i) mod N" for i
    by (metis add_Suc_right mod_add_left_eq plus_1_eq_Suc add.commute add_Suc)
  ultimately show ?thesis by (simp add: ring_view_def)
qed

lemma ring_view_pop:
  assumes "Suc n \<le> N" "s < N"
  shows "ring_view N ((s + 1) mod N) n (b[s := y]) = tl (ring_view N s (Suc n) b)"
proof -
  have "b[s := y] ! (((s + 1) mod N + i) mod N) = b ! (((s + 1) mod N + i) mod N)" if "i < n" for i
  proof -
    have e: "((s + 1) mod N + i) mod N = (s + Suc i) mod N"
      by (metis add_Suc_right mod_add_left_eq plus_1_eq_Suc add.commute add_Suc)
    have "(s + 0) mod N \<noteq> (s + Suc i) mod N"
      using ring_index_inj [of 0 N "Suc i" s] assms that by auto
    then show ?thesis unfolding e using assms by simp
  qed
  then show ?thesis by (simp add: ring_view_Cons) (simp add: ring_view_def)
qed

lemma ring_view_evict:
  assumes "0 < N" "length b = N" "s < N"
  shows "ring_view N ((s + 1) mod N) N (b[s := x]) = tl (ring_view N s N b) @ [x]"
proof -
  obtain m where N: "N = Suc m" using assms by (cases N) auto
  have "((s + 1) mod N + m) mod N = s"
    using assms N by (metis add.assoc add.commute mod_add_left_eq mod_add_self2 mod_less plus_1_eq_Suc)
  then have "ring_view N ((s + 1) mod N) (Suc m) (b[s := x])
      = ring_view N ((s + 1) mod N) m (b[s := x]) @ [x]"
    using assms by (simp add: ring_view_def)
  also have "\<dots> = tl (ring_view N s (Suc m) b) @ [x]"
    using assms N ring_view_pop [of m N s b x] by simp
  finally show ?thesis by (simp add: N)
qed

section \<open>The abstract queue\<close>

text \<open>
  A queue of bounded capacity whose \<open>push\<close> forgets the oldest element when it is full.  Its
  clients rely on these laws only: however many elements were pushed, exactly the most recent ones
  are left, oldest first.
\<close>

locale evicting_queue =
  fixes push :: "'b \<Rightarrow> 'q \<Rightarrow> 'q"
    and elem :: "'b \<Rightarrow> 'a"
    and contents :: "'q \<Rightarrow> 'a list"
    and invar :: "'q \<Rightarrow> bool"
    and capacity :: "'q \<Rightarrow> nat"
  assumes push_contents: "invar q \<Longrightarrow> contents (push x q) =
      (if length (contents q) < capacity q then contents q @ [elem x] else tl (contents q) @ [elem x])"
    and push_invar: "invar q \<Longrightarrow> invar (push x q)"
    and push_capacity: "invar q \<Longrightarrow> capacity (push x q) = capacity q"
    and capacity_pos: "invar q \<Longrightarrow> 0 < capacity q"
    and length_contents: "invar q \<Longrightarrow> length (contents q) \<le> capacity q"
begin

lemma fold_push_invar: "invar q \<Longrightarrow> invar (fold push xs q)"
  by (induction xs arbitrary: q) (simp_all add: push_invar)

lemma fold_push_capacity: "invar q \<Longrightarrow> capacity (fold push xs q) = capacity q"
  by (induction xs arbitrary: q) (simp_all add: push_invar push_capacity)

lemma push_most_recent:
  assumes "invar q"
  shows "contents (push x q) = drop (Suc (length (contents q)) - capacity q) (contents q @ [elem x])"
proof (cases "length (contents q) < capacity q")
  case True
  then show ?thesis using assms by (simp add: push_contents)
next
  case False
  then have "length (contents q) = capacity q" using length_contents [OF assms] by simp
  then show ?thesis using assms capacity_pos [OF assms]
    by (cases "contents q") (simp_all add: push_contents)
qed

lemma fold_push_most_recent:
  "invar q \<Longrightarrow> contents (fold push xs q)
     = drop (length (contents q) + length xs - capacity q) (contents q @ map elem xs)"
proof (induction xs arbitrary: q)
  case Nil
  then show ?case using length_contents [of q] by simp
next
  case (Cons x xs)
  let ?c = "contents q" and ?k = "capacity q"
  have "contents (fold push xs (push x q))
      = drop (length (contents (push x q)) + length xs - ?k) (contents (push x q) @ map elem xs)"
    using Cons by (simp add: push_invar push_capacity)
  also have "contents (push x q) = drop (Suc (length ?c) - ?k) (?c @ [elem x])"
    using Cons.prems by (rule push_most_recent)
  also have "drop (length (drop (Suc (length ?c) - ?k) (?c @ [elem x])) + length xs - ?k)
      (drop (Suc (length ?c) - ?k) (?c @ [elem x]) @ map elem xs)
      = drop (length ?c + Suc (length xs) - ?k) (?c @ elem x # map elem xs)"
  proof (cases "length ?c < ?k")
    case True
    then show ?thesis by simp
  next
    case False
    then have k: "length ?c = ?k" using length_contents [OF Cons.prems] by simp
    then obtain c cs where c: "?c = c # cs" using capacity_pos [OF Cons.prems] by (cases ?c) auto
    with k have "Suc (length cs) = ?k" by simp
    then show ?thesis unfolding c by (simp add: algebra_simps)
  qed
  finally show ?case by simp
qed

end

section \<open>Both rings are evicting queues\<close>

definition ring_inv :: "retransmitRing \<Rightarrow> bool" where
  "ring_inv r \<longleftrightarrow> length (rbuf r) = retransmitRingSize \<and> rwrite r < retransmitRingSize
     \<and> rcount r \<le> retransmitRingSize"

definition ring_start :: "retransmitRing \<Rightarrow> nat" where
  "ring_start r = (rwrite r + retransmitRingSize - rcount r) mod retransmitRingSize"

definition ring_contents :: "retransmitRing \<Rightarrow> bytes option list" where
  "ring_contents r = ring_view retransmitRingSize (ring_start r) (rcount r) (rbuf r)"

lemma ringSize_pos [simp]: "0 < retransmitRingSize"
  by (simp add: retransmitRingSize_def)

lemma ring_start_write:
  assumes "ring_inv r" shows "(ring_start r + rcount r) mod retransmitRingSize = rwrite r"
  using assms by (simp add: ring_inv_def ring_start_def mod_add_left_eq)

lemma ring_Push_inv [inv_intros]: "ring_inv r \<Longrightarrow> ring_inv (ring_Push d r)"
  by (auto simp: ring_inv_def ring_Push_def)

lemma ring_start_step:
  assumes "w < N" "c < N"
  shows "(Suc w mod N + N - Suc c) mod N = (w + N - c) mod (N :: nat)"
proof (cases "Suc w = N")
  case True
  have "(w + N - c) mod N = ((N - Suc c) + N) mod N" using True assms by (auto intro: arg_cong [where f = "\<lambda>x. x mod N"])
  then show ?thesis using True by simp
next
  case False
  then show ?thesis using assms by simp
qed

lemma ring_Push_contents:
  assumes "ring_inv r"
  shows "ring_contents (ring_Push d r) =
    (if rcount r < retransmitRingSize then ring_contents r @ [Some d] else tl (ring_contents r) @ [Some d])"
proof (cases "rcount r < retransmitRingSize")
  case True
  have "ring_start (ring_Push d r) = ring_start r"
    using True assms ring_start_step [of "rwrite r" retransmitRingSize "rcount r"]
    by (simp add: ring_start_def ring_Push_def ring_inv_def)
  with True assms show ?thesis
    using ring_view_snoc [of "rcount r" retransmitRingSize "rbuf r" "ring_start r" "Some d"]
    by (simp add: ring_contents_def ring_Push_def ring_inv_def ring_start_write)
next
  case False
  with assms have c: "rcount r = retransmitRingSize" by (simp add: ring_inv_def)
  then have "ring_start r = rwrite r" "ring_start (ring_Push d r) = (rwrite r + 1) mod retransmitRingSize"
    using assms by (simp_all add: ring_start_def ring_Push_def ring_inv_def)
  with c assms show ?thesis
    using ring_view_evict [of retransmitRingSize "rbuf r" "rwrite r" "Some d"]
    by (simp add: ring_contents_def ring_Push_def ring_inv_def)
qed

lemma length_ring_contents [simp]: "length (ring_contents r) = rcount r"
  by (simp add: ring_contents_def)

lemma ring_inv_count: "ring_inv r \<Longrightarrow> rcount r \<le> retransmitRingSize"
  by (simp add: ring_inv_def)

interpretation rtx: evicting_queue ring_Push Some ring_contents ring_inv "\<lambda>_. retransmitRingSize"
  by unfold_locales (simp_all add: ring_Push_contents ring_Push_inv ring_inv_count)

lemma new_ring_inv [simp]: "ring_inv new_ring" "ring_contents new_ring = []"
  by (simp_all add: new_ring_def ring_inv_def ring_contents_def)

lemma ring_view_mod [simp]: "ring_view N (s mod N) n b = ring_view N s n b"
  by (simp add: ring_view_def mod_add_left_eq)

lemma ring_view_Suc_mod [simp]: "ring_view N (Suc (s mod N)) n b = ring_view N (Suc s) n b"
proof -
  have "Suc (s mod N + i) mod N = Suc (s + i) mod N" for i
    by (metis mod_Suc_eq mod_add_left_eq)
  then show ?thesis by (simp add: ring_view_def)
qed

lemma drain_ring_out:
  "n \<le> retransmitRingSize \<Longrightarrow>
   snd (drain_ring s i n b out) = out @ ring_view retransmitRingSize (s + i) n b"
proof (induction n arbitrary: i b out)
  case (Suc n)
  let ?N = retransmitRingSize and ?s = "(s + i) mod retransmitRingSize"
  have "ring_view ?N (s + Suc i) n (b[?s := None]) = ring_view ?N ((?s + 1) mod ?N) n (b[?s := None])"
    by (simp add: ring_view_def mod_simps)
  also have "\<dots> = tl (ring_view ?N ?s (Suc n) b)"
    using Suc.prems by (intro ring_view_pop) simp_all
  finally have "ring_view ?N (s + i) (Suc n) b = b ! ?s # ring_view ?N (s + Suc i) n (b[?s := None])"
    by (simp add: ring_view_Cons)
  with Suc show ?case by (simp add: Let_def)
qed simp

lemma ring_Drain_contents:
  "ring_inv r \<Longrightarrow> fst (ring_Drain r) = ring_contents r"
  by (auto simp: ring_Drain_def ring_contents_def ring_start_def ring_inv_def Let_def case_prod_beta
      drain_ring_out)

lemma ring_Drain_empty:
  "ring_inv r \<Longrightarrow> rcount (snd (ring_Drain r)) = 0"
  by (simp add: ring_Drain_def Let_def case_prod_beta)

subsection \<open>Raw packets\<close>

definition raw_inv :: "RawRingBuffer \<Rightarrow> bool" where
  "raw_inv rb \<longleftrightarrow> 0 < cap rb \<and> length (buf rb) = cap rb \<and> head rb < cap rb \<and> count rb \<le> cap rb \<and> \<not> closed rb"

definition raw_contents :: "RawRingBuffer \<Rightarrow> Frame option list" where
  "raw_contents rb = ring_view (cap rb) (head rb) (count rb) (buf rb)"

text \<open>A run of pushes, with the total number of evicted frames; a panic ends it.\<close>

fun raw_pushes :: "Frame list \<Rightarrow> RawRingBuffer \<Rightarrow> panic + (RawRingBuffer \<times> nat)" where
  "raw_pushes [] rb = Inr (rb, 0)"
| "raw_pushes (f # fs) rb =
     (case raw_Push f rb of
        Inl p \<Rightarrow> Inl p
      | Inr (rb', n) \<Rightarrow>
          (case raw_pushes fs rb' of Inl p \<Rightarrow> Inl p | Inr (rb'', m) \<Rightarrow> Inr (rb'', n + m)))"

fun raw_pops :: "nat \<Rightarrow> RawRingBuffer \<Rightarrow> Frame option list \<times> RawRingBuffer" where
  "raw_pops 0 rb = ([], rb)"
| "raw_pops (Suc n) rb =
     (case raw_Pop rb of
        ((f, ok), rb') \<Rightarrow> if ok then (let (fs, rb'') = raw_pops n rb' in (f # fs, rb'')) else ([], rb'))"

definition raw_next :: "Frame \<Rightarrow> RawRingBuffer \<Rightarrow> RawRingBuffer" where
  "raw_next f rb = (case raw_Push f rb of Inl _ \<Rightarrow> rb | Inr (rb', _) \<Rightarrow> rb')"

lemma raw_Push_Inr:
  "raw_inv rb \<Longrightarrow> raw_Push f rb = Inr (raw_next f rb, if count rb < cap rb then 0 else 1)"
  by (auto simp: raw_inv_def raw_next_def raw_Push_def raw_push_locked_def raw_push_signal_def Let_def
      split: if_splits)

lemma raw_next_inv [inv_intros]: "raw_inv rb \<Longrightarrow> raw_inv (raw_next f rb)"
  by (auto simp: raw_inv_def raw_next_def raw_Push_def raw_push_locked_def raw_push_signal_def Let_def)

lemma raw_next_cap: "raw_inv rb \<Longrightarrow> cap (raw_next f rb) = cap rb"
  by (auto simp: raw_inv_def raw_next_def raw_Push_def raw_push_locked_def raw_push_signal_def Let_def)

lemma length_raw_contents [simp]: "length (raw_contents rb) = count rb"
  by (simp add: raw_contents_def)

lemma raw_next_contents:
  assumes "raw_inv rb"
  shows "raw_contents (raw_next f rb) =
    (if count rb < cap rb then raw_contents rb @ [Some f] else tl (raw_contents rb) @ [Some f])"
proof (cases "count rb < cap rb")
  case True
  then have "raw_next f rb = rb\<lparr>buf := (buf rb)[(head rb + count rb) mod cap rb := Some f],
      count := count rb + 1, notify := True\<rparr>"
    using assms by (simp add: raw_inv_def raw_next_def raw_Push_def raw_push_locked_def
        raw_push_signal_def Let_def)
  then show ?thesis
    using True assms ring_view_snoc [of "count rb" "cap rb" "buf rb" "head rb" "Some f"]
    by (simp add: raw_contents_def raw_inv_def)
next
  case False
  then have c: "count rb = cap rb" using assms by (simp add: raw_inv_def)
  then have "raw_next f rb = rb\<lparr>buf := (buf rb)[head rb := Some f],
      head := (head rb + 1) mod cap rb, notify := True\<rparr>"
    using assms by (simp add: raw_inv_def raw_next_def raw_Push_def raw_push_locked_def
        raw_push_signal_def)
  then show ?thesis
    using c assms ring_view_evict [of "cap rb" "buf rb" "head rb" "Some f"]
    by (simp add: raw_contents_def raw_inv_def)
qed

lemma raw_inv_bounds: "raw_inv rb \<Longrightarrow> 0 < cap rb" "raw_inv rb \<Longrightarrow> count rb \<le> cap rb"
  by (simp_all add: raw_inv_def)

interpretation raw: evicting_queue raw_next Some raw_contents raw_inv cap
  by unfold_locales (simp_all add: raw_next_contents raw_next_inv raw_next_cap raw_inv_bounds)

lemma raw_pushes_fold:
  "raw_inv rb \<Longrightarrow> raw_pushes fs rb = Inr (fold raw_next fs rb, count rb + length fs - cap rb)"
proof (induction fs arbitrary: rb)
  case Nil
  then show ?case by (simp add: raw_inv_def)
next
  case (Cons f fs)
  have "count (raw_next f rb) = (if count rb < cap rb then count rb + 1 else count rb)"
    using raw_next_contents [OF Cons.prems, of f, THEN arg_cong [where f = length]] Cons.prems
    by (auto simp: raw_inv_def)
  moreover have "count rb \<le> cap rb" using Cons.prems by (simp add: raw_inv_def)
  ultimately show ?case
    using Cons by (simp add: raw_Push_Inr raw_next_inv raw_next_cap)
qed

lemma new_raw_inv [simp]:
  "0 < c \<Longrightarrow> raw_inv (NewRawRingBuffer c)" "raw_contents (NewRawRingBuffer c) = []"
  "cap (NewRawRingBuffer c) = c" "count (NewRawRingBuffer c) = 0"
  by (simp_all add: NewRawRingBuffer_def raw_inv_def raw_contents_def)

lemma raw_Pop_contents:
  assumes "raw_inv rb" "raw_contents rb = x # xs"
  shows "\<exists>rb'. raw_Pop rb = ((x, True), rb') \<and> raw_inv rb' \<and> raw_contents rb' = xs"
proof -
  obtain n where n: "count rb = Suc n"
    using arg_cong [OF assms(2), of length] by (cases "count rb") auto
  have x: "x = buf rb ! head rb"
    using assms n by (simp add: raw_contents_def ring_view_Cons raw_inv_def)
  have "ring_view (cap rb) ((head rb + 1) mod cap rb) n ((buf rb)[head rb := None]) = xs"
    using ring_view_pop [of n "cap rb" "head rb" "buf rb" None] assms n
    by (simp add: raw_contents_def raw_inv_def)
  with assms n x show ?thesis
    by (simp add: raw_Pop_def raw_inv_def raw_contents_def)
qed

lemma raw_pops_contents:
  "raw_inv rb \<Longrightarrow> count rb = n \<Longrightarrow> fst (raw_pops n rb) = raw_contents rb"
proof (induction n arbitrary: rb)
  case 0
  then show ?case by (simp add: raw_contents_def)
next
  case (Suc n)
  then obtain x xs where c: "raw_contents rb = x # xs"
    by (metis length_raw_contents length_Suc_conv)
  with Suc.prems obtain rb' where rb': "raw_Pop rb = ((x, True), rb')" "raw_inv rb'" "raw_contents rb' = xs"
    using raw_Pop_contents by blast
  then have "count rb' = n" using Suc.prems(2) c by (metis length_raw_contents length_Cons nat.inject)
  with Suc.IH [of rb'] rb' c show ?case
    by (simp add: case_prod_beta Let_def)
qed

section \<open>Properties\<close>

text \<open>
  whatever frames were pushed since the last drain, draining the retransmission ring returns the
  most recent 128 of them, oldest first and each once, and leaves the ring empty.
\<close>

theorem retransmit_ring_most_recent:
  "fst (ring_Drain (fold ring_Push ds new_ring)) = map Some (drop (length ds - retransmitRingSize) ds)
   \<and> fst (ring_Drain (snd (ring_Drain (fold ring_Push ds new_ring)))) = []"
proof -
  let ?r = "fold ring_Push ds new_ring"
  have inv: "ring_inv ?r" by (rule rtx.fold_push_invar) simp
  have "fst (ring_Drain ?r) = ring_contents ?r" using inv by (rule ring_Drain_contents)
  also have "\<dots> = map Some (drop (length ds - retransmitRingSize) ds)"
    using rtx.fold_push_most_recent [of new_ring ds] by (simp add: drop_map)
  finally have d: "fst (ring_Drain ?r) = map Some (drop (length ds - retransmitRingSize) ds)" .
  have "fst (ring_Drain (snd (ring_Drain ?r))) = []"
    using ring_Drain_empty [OF inv] by (subst ring_Drain_def) simp
  with d show ?thesis by blast
qed

text \<open>
  C31: pushing raw packets one after another never blocks and never panics; afterwards the consumer pops
  exactly the most recent packets, as many as the capacity allows, in arrival order, and the reported
  evictions are exactly the packets that were lost.
\<close>

theorem raw_ring_keeps_newest:
  assumes "0 < c"
  shows "\<exists>rb. raw_pushes fs (NewRawRingBuffer c) = Inr (rb, length fs - c)
    \<and> fst (raw_pops (raw_Len rb) rb) = map Some (drop (length fs - c) fs)"
proof (intro exI conjI)
  let ?rb = "fold raw_next fs (NewRawRingBuffer c)"
  show "raw_pushes fs (NewRawRingBuffer c) = Inr (?rb, length fs - c)"
    using assms by (simp add: raw_pushes_fold)
  have "raw_inv ?rb" using assms by (intro raw.fold_push_invar) simp
  then have "fst (raw_pops (raw_Len ?rb) ?rb) = raw_contents ?rb"
    by (simp add: raw_Len_def raw_pops_contents)
  also have "\<dots> = map Some (drop (length fs - c) fs)"
    using raw.fold_push_most_recent [of "NewRawRingBuffer c" fs] assms by (simp add: drop_map)
  finally show "fst (raw_pops (raw_Len ?rb) ?rb) = map Some (drop (length fs - c) fs)" .
qed

theorem raw_ring_keeps_newest_witness:
  "\<forall>f g. \<exists>rb. raw_pushes [f, g] (NewRawRingBuffer 1) = Inr (rb, 1)
     \<and> fst (raw_pops (raw_Len rb) rb) = [Some g]"
proof (intro allI)
  fix f g :: Frame
  show "\<exists>rb. raw_pushes [f, g] (NewRawRingBuffer 1) = Inr (rb, 1)
     \<and> fst (raw_pops (raw_Len rb) rb) = [Some g]"
    using raw_ring_keeps_newest [of 1 "[f, g]"] by simp
qed

text \<open>
  the signal of \<^verbatim>\<open>Push\<close> is sent after the mutex is released, so closing the buffer between the two
  parts (\<^verbatim>\<open>Mux.Close\<close> while \<^verbatim>\<open>DispatchLoop\<close> pushes) sends on a closed channel: the run-time panics,
  from every open buffer, although no uninterrupted push can panic.
\<close>

theorem raw_push_close_race:
  assumes "raw_inv rb"
  shows "\<exists>rb' n. raw_push_locked f rb = Inr (rb', n, True)
    \<and> raw_push_signal (raw_Close rb') = Inl SendOnClosedChannel
    \<and> (\<exists>r. raw_Push f rb = Inr r)"
proof -
  have "\<exists>rb' n. raw_push_locked f rb = Inr (rb', n, True) \<and> \<not> closed rb'"
    using assms by (auto simp: raw_inv_def raw_push_locked_def Let_def)
  then show ?thesis
    using raw_Push_Inr [OF assms] by (auto simp: raw_push_signal_def raw_Close_def)
qed

end
