(* ===== verification/Go_Heap.thy ===== *)
theory Go_Heap
  imports Proxy_Prelude "HOL-Library.Multiset"
begin

text \<open>
  The binary heap of Go's \<^verbatim>\<open>container/heap\<close> on a slice, as \<^verbatim>\<open>reorderHeap\<close> uses it: \<^verbatim>\<open>heap.Push\<close>
  appends and sifts up, \<^verbatim>\<open>heap.Pop\<close> swaps the root with the last element, sifts down and takes
  the last.  The comparison is any function that agrees with a numeric key on the elements in the heap;
  on a wrapping sequence space no key works for all values, so the laws are stated for a window.
\<close>

section \<open>The algorithm\<close>

definition swap :: "'a list \<Rightarrow> nat \<Rightarrow> nat \<Rightarrow> 'a list" where
  "swap xs i j = xs[i := xs ! j, j := xs ! i]"

text \<open>\<^verbatim>\<open>(j - 1) / 2\<close>; Go's quotient of -1 by 2 is 0, so the root is its own parent.\<close>

definition parent :: "nat \<Rightarrow> nat" where
  "parent j = (j - 1) div 2"

lemma parent_less [simp]: "0 < j \<Longrightarrow> parent j < j"
  by (auto simp: parent_def)

lemma parent_0 [simp]: "parent 0 = 0"
  by (simp add: parent_def)

lemma parent_le: "parent j \<le> j"
  by (simp add: parent_def)

lemma parent_bound [simp]: "j < n \<Longrightarrow> parent j < n"
  using parent_le [of j] by simp

lemma parent_neq [simp]: "parent j \<noteq> j \<Longrightarrow> parent j < j"
  using parent_le [of j] by simp

lemma parent_iff: "0 < k \<Longrightarrow> parent k = i \<longleftrightarrow> k = 2 * i + 1 \<or> k = 2 * i + 2"
  by (auto simp: parent_def)

function heap_up :: "('a \<Rightarrow> 'a \<Rightarrow> bool) \<Rightarrow> 'a list \<Rightarrow> nat \<Rightarrow> 'a list" where
  "heap_up lt xs j =
     (let i = parent j
      in if i = j \<or> \<not> lt (xs ! j) (xs ! i) then xs else heap_up lt (swap xs i j) i)"
  by pat_completeness auto
termination
  by (relation "measure (\<lambda>(_, _, j). j)") auto

function heap_down :: "('a \<Rightarrow> 'a \<Rightarrow> bool) \<Rightarrow> 'a list \<Rightarrow> nat \<Rightarrow> nat \<Rightarrow> 'a list" where
  "heap_down lt xs i n =
     (let j1 = 2 * i + 1
      in if j1 \<ge> n then xs
         else let j2 = j1 + 1;
                  j = (if j2 < n \<and> lt (xs ! j2) (xs ! j1) then j2 else j1)
              in if \<not> lt (xs ! j) (xs ! i) then xs else heap_down lt (swap xs i j) j n)"
  by pat_completeness auto
termination
  by (relation "measure (\<lambda>(_, _, i, n). n - i)") (auto split: if_splits)

declare heap_up.simps [simp del] heap_down.simps [simp del]

definition heap_Push :: "('a \<Rightarrow> 'a \<Rightarrow> bool) \<Rightarrow> 'a \<Rightarrow> 'a list \<Rightarrow> 'a list" where
  "heap_Push lt x xs = heap_up lt (xs @ [x]) (length xs)"

text \<open>Callers check that the heap is not empty.\<close>

definition heap_Pop :: "('a \<Rightarrow> 'a \<Rightarrow> bool) \<Rightarrow> 'a list \<Rightarrow> 'a \<times> 'a list" where
  "heap_Pop lt xs =
     (let n = length xs - 1; ys = heap_down lt (swap xs 0 n) 0 n in (ys ! n, take n ys))"

section \<open>Permutation and length\<close>

lemma length_swap [simp]: "length (swap xs i j) = length xs"
  by (simp add: swap_def)

lemma mset_swap' [simp]: "i < length xs \<Longrightarrow> j < length xs \<Longrightarrow> mset (swap xs i j) = mset xs"
  by (simp add: swap_def mset_swap)

lemma nth_swap: "i < length xs \<Longrightarrow> j < length xs \<Longrightarrow>
    swap xs i j ! k = (if k = j then xs ! i else if k = i then xs ! j else xs ! k)"
  by (auto simp: swap_def nth_list_update)

lemma length_heap_up [simp]: "length (heap_up lt xs j) = length xs"
  by (induction lt xs j rule: heap_up.induct) (subst heap_up.simps, auto simp: Let_def)

lemma mset_heap_up: "j < length xs \<Longrightarrow> mset (heap_up lt xs j) = mset xs"
proof (induction lt xs j rule: heap_up.induct)
  case (1 lt xs j)
  then show ?case by (subst heap_up.simps) (auto simp: Let_def)
qed

lemma length_heap_down [simp]: "length (heap_down lt xs i n) = length xs"
  by (induction lt xs i n rule: heap_down.induct) (subst heap_down.simps, auto simp: Let_def)

lemma heap_down_step:
  assumes "2 * i + 1 < n" and "j = (if 2 * i + 2 < n \<and> lt (xs ! (2 * i + 2)) (xs ! (2 * i + 1)) then 2 * i + 2 else 2 * i + 1)"
  shows "heap_down lt xs i n = (if lt (xs ! j) (xs ! i) then heap_down lt (swap xs i j) j n else xs)"
  using assms by (subst heap_down.simps) (simp add: Let_def)

lemma heap_down_stop: "n \<le> 2 * i + 1 \<Longrightarrow> heap_down lt xs i n = xs"
  by (subst heap_down.simps) simp

lemma heap_down_frame:
  "n \<le> length xs \<Longrightarrow> i < n \<or> n \<le> 2 * i + 1 \<Longrightarrow>
   mset (heap_down lt xs i n) = mset xs \<and> (\<forall>k\<ge>n. k < length xs \<longrightarrow> heap_down lt xs i n ! k = xs ! k)"
proof (induction lt xs i n rule: heap_down.induct)
  case (1 lt xs i n)
  show ?case
  proof (cases "2 * i + 1 < n")
    case True
    define j where "j = (if 2 * i + 2 < n \<and> lt (xs ! (2 * i + 2)) (xs ! (2 * i + 1)) then 2 * i + 2 else 2 * i + 1)"
    have j: "j < n" "i < j" using True by (auto simp: j_def)
    have st: "heap_down lt xs i n = (if lt (xs ! j) (xs ! i) then heap_down lt (swap xs i j) j n else xs)"
      using True by (rule heap_down_step) (fact j_def)
    show ?thesis
    proof (cases "lt (xs ! j) (xs ! i)")
      case sm: True
      have IH: "mset (heap_down lt (swap xs i j) j n) = mset (swap xs i j) \<and>
          (\<forall>k\<ge>n. k < length (swap xs i j) \<longrightarrow> heap_down lt (swap xs i j) j n ! k = swap xs i j ! k)"
        using "1.IH" [of "2 * i + 1" "2 * i + 2" j] True sm j "1.prems" by (simp add: j_def)
      then show ?thesis
        using sm j "1.prems" by (auto simp: st nth_swap)
    qed (simp add: st)
  qed (simp add: heap_down_stop)
qed

section \<open>The heap order\<close>

text \<open>
  \<open>lt\<close> is the slice's \<^verbatim>\<open>Less\<close>, \<open>key\<close> a number that orders the same way the elements of \<open>D\<close>.
\<close>

locale heap_order =
  fixes lt :: "'a \<Rightarrow> 'a \<Rightarrow> bool"
    and key :: "'a \<Rightarrow> nat"
    and D :: "'a set"
  assumes lt_key: "a \<in> D \<Longrightarrow> b \<in> D \<Longrightarrow> lt a b \<longleftrightarrow> key a < key b"
begin

definition is_heap :: "'a list \<Rightarrow> bool" where
  "is_heap xs \<longleftrightarrow> (\<forall>k<length xs. 0 < k \<longrightarrow> key (xs ! parent k) \<le> key (xs ! k))"

definition up_inv :: "'a list \<Rightarrow> nat \<Rightarrow> bool" where
  "up_inv xs j \<longleftrightarrow> (\<forall>k<length xs. 0 < k \<longrightarrow> k \<noteq> j \<longrightarrow> key (xs ! parent k) \<le> key (xs ! k))
     \<and> (\<forall>k<length xs. 0 < k \<longrightarrow> parent k = j \<longrightarrow> 0 < j \<longrightarrow> key (xs ! (parent j)) \<le> key (xs ! k))"

definition down_inv :: "'a list \<Rightarrow> nat \<Rightarrow> nat \<Rightarrow> bool" where
  "down_inv xs i n \<longleftrightarrow> (\<forall>k<n. 0 < k \<longrightarrow> parent k \<noteq> i \<longrightarrow> key (xs ! parent k) \<le> key (xs ! k))
     \<and> (\<forall>k<n. 0 < k \<longrightarrow> parent k = i \<longrightarrow> 0 < i \<longrightarrow> key (xs ! (parent i)) \<le> key (xs ! k))"

lemma up_inv_step:
  assumes inv: "up_inv xs j" and j: "j < length xs" "0 < j" and kl: "key (xs ! j) < key (xs ! (parent j))"
  shows "up_inv (swap xs (parent j) j) (parent j)"
proof -
  let ?p = "parent j"
  have p: "?p < j" "?p < length xs" using j by auto
  have sw: "swap xs ?p j ! k = (if k = j then xs ! ?p else if k = ?p then xs ! j else xs ! k)" for k
    using p j by (simp add: nth_swap)
  have h1: "key (xs ! parent k) \<le> key (xs ! k)" if "k < length xs" "0 < k" "k \<noteq> j" for k
    using inv that by (simp add: up_inv_def)
  have h2: "key (xs ! ?p) \<le> key (xs ! k)" if "k < length xs" "0 < k" "parent k = j" for k
    using inv that j by (simp add: up_inv_def)
  show ?thesis
    unfolding up_inv_def length_swap
  proof (intro conjI allI impI)
    fix k assume k: "k < length xs" "0 < k" "k \<noteq> ?p"
    have pk: "parent k < k" using k by simp
    show "key (swap xs ?p j ! (parent k)) \<le> key (swap xs ?p j ! k)"
    proof (cases "k = j")
      case True
      with kl p show ?thesis by (simp add: sw)
    next
      case False
      then have "key (xs ! parent k) \<le> key (xs ! k)" using k by (intro h1)
      with False k kl h2 [of k] show ?thesis by (auto simp: sw)
    qed
  next
    fix k assume k: "k < length xs" "0 < k" "parent k = ?p" and p0: "0 < ?p"
    have pp: "parent ?p < ?p" using p0 by simp
    have "key (xs ! (parent ?p)) \<le> key (xs ! ?p)" using p p0 by (intro h1) linarith+
    moreover have "key (xs ! ?p) \<le> key (xs ! k)" if "k \<noteq> j" using h1 [of k] k that by simp
    moreover have "k \<noteq> ?p" using pp k(3) by auto
    ultimately show "key (swap xs ?p j ! (parent ?p)) \<le> key (swap xs ?p j ! k)"
      using pp p by (auto simp: sw)
  qed
qed

lemma heap_up_heap:
  "j < length xs \<Longrightarrow> set xs \<subseteq> D \<Longrightarrow> up_inv xs j \<Longrightarrow> is_heap (heap_up lt xs j)"
proof (induction j arbitrary: xs rule: less_induct)
  case (less j)
  let ?p = "parent j"
  show ?case
  proof (cases "?p = j \<or> \<not> lt (xs ! j) (xs ! ?p)")
    case True
    then have *: "heap_up lt xs j = xs" by (subst heap_up.simps) (simp add: Let_def)
    have "is_heap xs" unfolding is_heap_def
    proof (intro allI impI)
      fix k assume k: "k < length xs" "0 < k"
      show "key (xs ! parent k) \<le> key (xs ! k)"
      proof (cases "k = j")
        case True2: True
        have "xs ! j \<in> D" "xs ! ?p \<in> D" using less.prems by (auto intro!: nth_mem subsetD [of "set xs" D])
        with True True2 k show ?thesis by (auto simp: lt_key)
      next
        case False
        with less.prems k show ?thesis by (simp add: up_inv_def)
      qed
    qed
    with * show ?thesis by simp
  next
    case False
    have j: "0 < j" "?p < j" using False parent_le [of j] by (auto intro: gr0I)
    have "xs ! j \<in> D" "xs ! ?p \<in> D" using less.prems j by (auto intro!: nth_mem subsetD [of "set xs" D])
    with False have kl: "key (xs ! j) < key (xs ! ?p)" by (simp add: lt_key)
    have "set (swap xs ?p j) = set xs"
      using less.prems j by (metis mset_swap' dual_order.strict_trans set_mset_mset)
    then have "is_heap (heap_up lt (swap xs ?p j) ?p)"
      using less.prems j kl by (intro less.IH up_inv_step) simp_all
    with False show ?thesis by (subst heap_up.simps) (simp add: Let_def)
  qed
qed

lemma down_inv_step:
  assumes inv: "down_inv xs i n" and n: "n \<le> length xs" "i < n"
    and j: "parent j = i" "0 < j" "j < n"
    and min: "\<And>k. k < n \<Longrightarrow> 0 < k \<Longrightarrow> parent k = i \<Longrightarrow> key (xs ! j) \<le> key (xs ! k)"
    and kl: "key (xs ! j) < key (xs ! i)"
  shows "down_inv (swap xs i j) j n"
proof -
  have ij: "i < j" using j by auto
  have sw: "swap xs i j ! k = (if k = j then xs ! i else if k = i then xs ! j else xs ! k)" for k
    using n j by (simp add: nth_swap)
  have h1: "key (xs ! parent k) \<le> key (xs ! k)" if "k < n" "0 < k" "parent k \<noteq> i" for k
    using inv that by (simp add: down_inv_def)
  have h2: "key (xs ! parent i) \<le> key (xs ! k)" if "k < n" "0 < k" "parent k = i" "0 < i" for k
    using inv that by (simp add: down_inv_def)
  show ?thesis
    unfolding down_inv_def
  proof (intro conjI allI impI)
    fix k assume k: "k < n" "0 < k" "parent k \<noteq> j"
    show "key (swap xs i j ! parent k) \<le> key (swap xs i j ! k)"
    proof (cases "parent k = i")
      case True
      then have "k \<noteq> i" using parent_less [OF k(2)] by auto
      with True k min [of k] kl ij show ?thesis by (auto simp: sw)
    next
      case False
      then have "k \<noteq> j" using j by auto
      moreover have "key (xs ! parent k) \<le> key (xs ! k)" using k False by (intro h1)
      moreover have "key (xs ! parent i) \<le> key (xs ! j)" if "k = i" using h2 [of j] j k that by simp
      ultimately show ?thesis using k False by (auto simp: sw)
    qed
  next
    fix k assume k: "k < n" "0 < k" "parent k = j"
    then have "k \<noteq> i" "k \<noteq> j" using ij parent_less [OF k(2)] by auto
    with k h1 [of k] j ij show "key (swap xs i j ! parent j) \<le> key (swap xs i j ! k)"
      by (auto simp: sw)
  qed
qed

lemma down_inv_heap:
  assumes "down_inv xs i n" and "\<And>k. k < n \<Longrightarrow> 0 < k \<Longrightarrow> parent k = i \<Longrightarrow> key (xs ! i) \<le> key (xs ! k)"
    and "k < n" "0 < k"
  shows "key (xs ! parent k) \<le> key (xs ! k)"
  using assms by (cases "parent k = i") (auto simp: down_inv_def)

lemma heap_down_heap:
  "n \<le> length xs \<Longrightarrow> i < n \<Longrightarrow> set xs \<subseteq> D \<Longrightarrow> down_inv xs i n \<Longrightarrow>
   \<forall>k<n. 0 < k \<longrightarrow> key (heap_down lt xs i n ! parent k) \<le> key (heap_down lt xs i n ! k)"
proof (induction "n - i" arbitrary: xs i rule: less_induct)
  case less
  have D: "xs ! k \<in> D" if "k < n" for k using less.prems that by (auto intro!: nth_mem subsetD [of "set xs" D])
  show ?case
  proof (cases "2 * i + 1 < n")
    case True
    define j where "j = (if 2 * i + 2 < n \<and> lt (xs ! (2 * i + 2)) (xs ! (2 * i + 1)) then 2 * i + 2 else 2 * i + 1)"
    have st: "heap_down lt xs i n = (if lt (xs ! j) (xs ! i) then heap_down lt (swap xs i j) j n else xs)"
      using True by (rule heap_down_step) (fact j_def)
    have j: "parent j = i" "0 < j" "j < n" using True by (auto simp: j_def parent_def)
    have min: "key (xs ! j) \<le> key (xs ! k)" if "k < n" "0 < k" "parent k = i" for k
    proof -
      have "k = 2 * i + 1 \<or> k = 2 * i + 2" using that by (simp add: parent_iff)
      then show ?thesis using that True D by (auto simp: j_def lt_key)
    qed
    show ?thesis
    proof (cases "lt (xs ! j) (xs ! i)")
      case sm: True
      then have kl: "key (xs ! j) < key (xs ! i)" using D less.prems j by (simp add: lt_key)
      have "set (swap xs i j) = set xs"
        using less.prems j by (metis mset_swap' dual_order.strict_trans1 set_mset_mset)
      moreover have "i < j" using j by auto
      ultimately have "\<forall>k<n. 0 < k \<longrightarrow> key (heap_down lt (swap xs i j) j n ! parent k)
          \<le> key (heap_down lt (swap xs i j) j n ! k)"
        using less.prems j kl min by (intro less.hyps down_inv_step) simp_all
      with sm show ?thesis by (simp add: st)
    next
      case False
      then have "key (xs ! i) \<le> key (xs ! k)" if "k < n" "0 < k" "parent k = i" for k
        using min [OF that] D less.prems j by (simp add: lt_key)
      with False less.prems show ?thesis using down_inv_heap [of xs i n] by (simp add: st)
    qed
  next
    case False
    then have "\<not> parent k = i" if "k < n" "0 < k" for k using that by (auto simp: parent_iff)
    then show ?thesis using False less.prems down_inv_heap [of xs i n] by (simp add: heap_down_stop)
  qed
qed

lemma heap_root: "is_heap xs \<Longrightarrow> k < length xs \<Longrightarrow> key (xs ! 0) \<le> key (xs ! k)"
proof (induction k rule: less_induct)
  case (less k)
  show ?case
  proof (cases "k = 0")
    case False
    then have "key (xs ! 0) \<le> key (xs ! parent k)" using less by simp
    also have "\<dots> \<le> key (xs ! k)" using less.prems False by (simp add: is_heap_def)
    finally show ?thesis .
  qed simp
qed

lemma heap_Push_heap:
  assumes "is_heap xs" "set xs \<subseteq> D" "x \<in> D"
  shows "is_heap (heap_Push lt x xs)" "mset (heap_Push lt x xs) = add_mset x (mset xs)"
proof -
  have "up_inv (xs @ [x]) (length xs)"
    using assms(1) by (auto simp: up_inv_def is_heap_def nth_append parent_iff)
  then show "is_heap (heap_Push lt x xs)"
    unfolding heap_Push_def using assms by (intro heap_up_heap) auto
  show "mset (heap_Push lt x xs) = add_mset x (mset xs)"
    by (simp add: heap_Push_def mset_heap_up)
qed

lemma heap_Pop_heap:
  assumes "is_heap xs" "set xs \<subseteq> D" "xs \<noteq> []" "heap_Pop lt xs = (x, ys)"
  shows "x = xs ! 0" "mset xs = add_mset x (mset ys)" "is_heap ys"
proof -
  define n where "n = length xs - 1"
  define zs where "zs = heap_down lt (swap xs 0 n) 0 n"
  have n: "length xs = Suc n" using assms(3) by (simp add: n_def)
  have pop: "x = zs ! n" "ys = take n zs" using assms(4) by (auto simp: heap_Pop_def Let_def n_def zs_def)
  have fr: "mset zs = mset xs" "zs ! n = swap xs 0 n ! n" and len: "length zs = Suc n"
    using heap_down_frame [of n "swap xs 0 n" 0 lt] n by (cases "n = 0"; auto simp: zs_def)+
  then show x: "x = xs ! 0" using pop n by (simp add: nth_swap)
  have "zs = take n zs @ [zs ! n]" using len by (metis lessI take_Suc_conv_app_nth take_all_iff order_refl)
  then show "mset xs = add_mset x (mset ys)" using fr pop by (metis add_mset_add_single mset.simps mset_append union_mset_add_mset_right)
  show "is_heap ys"
  proof (cases "n = 0")
    case True
    then show ?thesis by (simp add: pop is_heap_def)
  next
    case False
    have "key (swap xs 0 n ! parent k) \<le> key (swap xs 0 n ! k)" if "k < n" "0 < k" "parent k \<noteq> 0" for k
      using assms(1) that n parent_less [OF that(2)] by (auto simp: is_heap_def nth_swap)
    then have "down_inv (swap xs 0 n) 0 n" by (simp add: down_inv_def)
    moreover have "set (swap xs 0 n) \<subseteq> D" using assms(2) n by (metis mset_swap' set_mset_mset lessI zero_less_Suc)
    ultimately have "\<forall>k<n. 0 < k \<longrightarrow> key (zs ! parent k) \<le> key (zs ! k)"
      unfolding zs_def using n False by (intro heap_down_heap) simp_all
    then show ?thesis using len by (simp add: pop is_heap_def)
  qed
qed

end

end
