(* ===== verification/Reorder_Buffer.thy ===== *)
theory Reorder_Buffer
  imports Go_Heap
begin

text \<open>
  The reorder buffer of striped streams (\<^verbatim>\<open>internal/mux/protocol.go\<close>).  A striped stream sends
  its frames over several connections, each tagged with a 32-bit \<^verbatim>\<open>stripSeq\<close>; the receiver holds
  frames that are ahead of the expected number in a heap ordered by serial-number comparison and
  delivers them in order.  The model keeps the heap as the slice it is, the expected number at its
  width, the duplicate set, and the time the gap timer was started; the clock is an argument.
\<close>

section \<open>Model\<close>

record reorderEntry =
  stripSeq :: u32
  data :: bytes

definition reorder_Less :: "reorderEntry \<Rightarrow> reorderEntry \<Rightarrow> bool" where
  "reorder_Less a b \<longleftrightarrow> serial_lt (stripSeq a) (stripSeq b)"

type_synonym time = int

record reorderBuffer =
  h :: "reorderEntry list"
  nextSeq :: u32
  gapSince :: "time option"
  seenSet :: "u32 set"

definition reorderMaxFrames :: nat where
  "reorderMaxFrames = 4096"

definition reorderGapTimeout :: int where
  "reorderGapTimeout = 5 * 10 ^ 9"

definition newReorderBuffer :: reorderBuffer where
  "newReorderBuffer = \<lparr>h = [], nextSeq = 0, gapSince = None, seenSet = {}\<rparr>"

text \<open>The loop of \<^verbatim>\<open>Insert\<close> that delivers consecutive frames from \<^verbatim>\<open>nextSeq\<close> on.\<close>

function flush_ready :: "reorderBuffer \<Rightarrow> bytes list \<Rightarrow> reorderBuffer \<times> bytes list" where
  "flush_ready rb flushed =
     (if h rb \<noteq> [] \<and> stripSeq (h rb ! 0) = nextSeq rb then
        (let (entry, h') = heap_Pop reorder_Less (h rb)
         in flush_ready (rb\<lparr>h := h', seenSet := seenSet rb - {stripSeq entry}, nextSeq := nextSeq rb + 1\<rparr>)
              (flushed @ [data entry]))
      else (rb, flushed))"
  by pat_completeness auto
termination
  by (relation "measure (\<lambda>(rb, _). length (h rb))") (auto simp: heap_Pop_def Let_def min_def not_le)

declare flush_ready.simps [simp del]

definition Insert :: "time \<Rightarrow> u32 \<Rightarrow> bytes \<Rightarrow> reorderBuffer \<Rightarrow> reorderBuffer \<times> bytes list" where
  "Insert now seq d rb =
     (if serial_lt seq (nextSeq rb) then (rb, [])
      else if seq \<in> seenSet rb then (rb, [])
      else
        let rb1 = rb\<lparr>seenSet := insert seq (seenSet rb),
                     h := heap_Push reorder_Less \<lparr>stripSeq = seq, data = d\<rparr> (h rb)\<rparr>;
            rb2 = (if seq \<noteq> nextSeq rb1 \<and> gapSince rb1 = None then rb1\<lparr>gapSince := Some now\<rparr> else rb1);
            (rb3, flushed) = flush_ready rb2 [];
            rb4 = (if h rb3 = [] then rb3\<lparr>gapSince := None\<rparr> else rb3)
        in (rb4, flushed))"

definition Len :: "reorderBuffer \<Rightarrow> nat" where
  "Len rb = length (h rb)"

definition Overflowed :: "reorderBuffer \<Rightarrow> bool" where
  "Overflowed rb \<longleftrightarrow> length (h rb) > reorderMaxFrames"

definition GapTimedOut :: "time \<Rightarrow> int \<Rightarrow> reorderBuffer \<Rightarrow> bool" where
  "GapTimedOut now timeout rb \<longleftrightarrow>
     (case gapSince rb of None \<Rightarrow> False | Some t \<Rightarrow> h rb \<noteq> [] \<and> now - t > timeout)"

text \<open>
  \<^verbatim>\<open>sort.Slice\<close> with a comparison function; the order it leaves is unique because the sequence
  numbers in the heap are distinct.
\<close>

fun slice_insert :: "('a \<Rightarrow> 'a \<Rightarrow> bool) \<Rightarrow> 'a \<Rightarrow> 'a list \<Rightarrow> 'a list" where
  "slice_insert lt x [] = [x]"
| "slice_insert lt x (y # ys) = (if lt y x then y # slice_insert lt x ys else x # y # ys)"

definition sort_Slice :: "('a \<Rightarrow> 'a \<Rightarrow> bool) \<Rightarrow> 'a list \<Rightarrow> 'a list" where
  "sort_Slice lt xs = foldr (slice_insert lt) xs []"

definition FlushAll :: "reorderBuffer \<Rightarrow> reorderBuffer \<times> bytes list" where
  "FlushAll rb =
     (if h rb = [] then (rb, [])
      else (rb\<lparr>h := [], seenSet := {}, gapSince := None\<rparr>, map data (sort_Slice reorder_Less (h rb))))"

text \<open>
  A stream's receiver: the frames with index \<open>i\<close> (sent as \<open>of_nat i\<close>) arrive in some order, each at
  some time; what \<^verbatim>\<open>Insert\<close> returns is delivered to the reader.
\<close>

fun insert_all :: "(nat \<Rightarrow> bytes) \<Rightarrow> (time \<times> nat) list \<Rightarrow> reorderBuffer \<Rightarrow> reorderBuffer \<times> bytes list" where
  "insert_all d [] rb = (rb, [])"
| "insert_all d ((now, i) # as) rb =
     (let (rb1, out1) = Insert now (of_nat i) (d i) rb; (rb2, out2) = insert_all d as rb1
      in (rb2, out1 @ out2))"

section \<open>The heap on a window of the sequence space\<close>

definition window :: "u32 \<Rightarrow> reorderEntry set" where
  "window b = {e. unat (stripSeq e - b) < 2 ^ 31}"

lemma serial_lt_small: "i < 2 ^ 31 \<Longrightarrow> j < 2 ^ 31 \<Longrightarrow> serial_lt (of_nat i :: u32) (of_nat j) \<longleftrightarrow> i < j"
  by (intro serial_lt_of_nat) auto

lemma reorder_Less_key:
  assumes "x \<in> window b" "y \<in> window b"
  shows "reorder_Less x y \<longleftrightarrow> unat (stripSeq x - b) < unat (stripSeq y - b)"
proof -
  let ?i = "unat (stripSeq x - b)" and ?j = "unat (stripSeq y - b)"
  have "stripSeq x - stripSeq y = of_nat ?i - of_nat ?j" by simp
  then have "reorder_Less x y \<longleftrightarrow> serial_lt (of_nat ?i :: u32) (of_nat ?j)"
    by (simp only: reorder_Less_def serial_lt_def)
  also have "\<dots> \<longleftrightarrow> ?i < ?j"
    using assms by (intro serial_lt_small) (auto simp: window_def)
  finally show ?thesis .
qed

interpretation reorder: heap_order reorder_Less "\<lambda>e. unat (stripSeq e - b)" "window b" for b
  by unfold_locales (rule reorder_Less_key)

text \<open>Stated by \<^verbatim>\<open>Less\<close> alone, the heap order does not depend on where the window starts.\<close>

definition heap_ok :: "reorderEntry list \<Rightarrow> bool" where
  "heap_ok xs \<longleftrightarrow> (\<forall>k<length xs. 0 < k \<longrightarrow> \<not> reorder_Less (xs ! k) (xs ! parent k))"

lemma heap_ok_iff: "set xs \<subseteq> window b \<Longrightarrow> heap_ok xs \<longleftrightarrow> reorder.is_heap b xs"
proof -
  assume "set xs \<subseteq> window b"
  then have "xs ! k \<in> window b" if "k < length xs" for k using that by auto
  then have "reorder_Less (xs ! k) (xs ! parent k) \<longleftrightarrow>
      unat (stripSeq (xs ! k) - b) < unat (stripSeq (xs ! parent k) - b)" if "k < length xs" for k
    using that by (intro reorder_Less_key) auto
  then show ?thesis by (auto simp: heap_ok_def reorder.is_heap_def not_less)
qed

definition entry :: "(nat \<Rightarrow> bytes) \<Rightarrow> nat \<Rightarrow> reorderEntry" where
  "entry d i = \<lparr>stripSeq = of_nat i, data = d i\<rparr>"

lemma entry_simps [simp]: "stripSeq (entry d i) = of_nat i" "data (entry d i) = d i"
  by (simp_all add: entry_def)

lemma of_nat_window_eq:
  assumes "n \<le> i" "i < n + 2 ^ 31" "n \<le> j" "j < n + 2 ^ 31"
  shows "(of_nat i :: u32) = of_nat j \<longleftrightarrow> i = j"
proof
  assume "(of_nat i :: u32) = of_nat j"
  then have "unat (of_nat i - of_nat n :: u32) = unat (of_nat j - of_nat n :: u32)" by simp
  then show "i = j" using assms by (simp add: unat_of_nat_diff)
qed simp

lemma entry_window: "n \<le> i \<Longrightarrow> i < n + 2 ^ 31 \<Longrightarrow> entry d i \<in> window (of_nat n)"
  by (simp add: window_def unat_of_nat_diff)

section \<open>The buffer holds a set of indices\<close>

text \<open>
  \<open>holds d n S rb\<close>: the buffer expects index \<open>n\<close> and holds exactly the frames with indices in \<open>S\<close>.
\<close>

definition holds :: "(nat \<Rightarrow> bytes) \<Rightarrow> nat \<Rightarrow> nat set \<Rightarrow> reorderBuffer \<Rightarrow> bool" where
  "holds d n S rb \<longleftrightarrow> finite S \<and> S \<subseteq> {n..<n + 2 ^ 31} \<and> nextSeq rb = of_nat n
     \<and> mset (h rb) = image_mset (entry d) (mset_set S) \<and> heap_ok (h rb) \<and> seenSet rb = of_nat ` S"

lemma holds_gapSince [simp]: "holds d n S (rb\<lparr>gapSince := g\<rparr>) \<longleftrightarrow> holds d n S rb"
  by (simp add: holds_def)

lemma holds_set: "holds d n S rb \<Longrightarrow> set (h rb) = entry d ` S"
  by (metis finite_set_mset_mset_set holds_def set_image_mset set_mset_mset)

lemma holds_window: "holds d n S rb \<Longrightarrow> set (h rb) \<subseteq> window (of_nat n)"
  using holds_set [of d n S rb] by (auto simp: holds_def intro!: entry_window)

lemma holds_empty: "holds d n S rb \<Longrightarrow> h rb = [] \<longleftrightarrow> S = {}"
  using holds_set [of d n S rb] by auto

lemma holds_root:
  assumes "holds d n S rb" "h rb \<noteq> []"
  shows "stripSeq (h rb ! 0) = nextSeq rb \<longleftrightarrow> n \<in> S" "n \<in> S \<Longrightarrow> h rb ! 0 = entry d n"
proof -
  have S: "S \<subseteq> {n..<n + 2 ^ 31}" "nextSeq rb = of_nat n" using assms by (auto simp: holds_def)
  have "h rb ! 0 \<in> set (h rb)" using assms(2) by auto
  then obtain i where i: "i \<in> S" "h rb ! 0 = entry d i" using holds_set [OF assms(1)] by auto
  have eq: "stripSeq (h rb ! 0) = nextSeq rb \<longleftrightarrow> i = n"
    using i S of_nat_window_eq [of n i n] by auto
  have min: "i = n" if n: "n \<in> S"
  proof -
    have "entry d n \<in> set (h rb)" using n holds_set [OF assms(1)] by auto
    then obtain k where k: "k < length (h rb)" "h rb ! k = entry d n" by (auto simp: in_set_conv_nth)
    have "reorder.is_heap (of_nat n) (h rb)"
      using assms heap_ok_iff [OF holds_window] by (auto simp: holds_def)
    from reorder.heap_root [OF this k(1)] k i have "unat (of_nat i - of_nat n :: u32) = 0" by simp
    moreover have "n \<le> i" "i < n + 2 ^ 31" using i(1) S(1) by (auto dest: subsetD)
    ultimately show "i = n" using unat_of_nat_diff [of n i, where 'a = 32] by simp
  qed
  then show "stripSeq (h rb ! 0) = nextSeq rb \<longleftrightarrow> n \<in> S" using eq i by blast
  show "n \<in> S \<Longrightarrow> h rb ! 0 = entry d n" using min i by simp
qed

lemma holds_pop:
  assumes "holds d n S rb" "n \<in> S" "heap_Pop reorder_Less (h rb) = (e, h')"
  shows "e = entry d n"
    and "holds d (Suc n) (S - {n}) (rb\<lparr>h := h', seenSet := seenSet rb - {stripSeq e}, nextSeq := nextSeq rb + 1\<rparr>)"
proof -
  have ne: "h rb \<noteq> []" using assms by (auto simp: holds_empty)
  have S: "S \<subseteq> {n..<n + 2 ^ 31}" "finite S" using assms by (auto simp: holds_def)
  have w: "set (h rb) \<subseteq> window (of_nat n)" using assms(1) by (rule holds_window)
  then have hp: "reorder.is_heap (of_nat n) (h rb)" using assms heap_ok_iff [OF w] by (simp add: holds_def)
  note P = reorder.heap_Pop_heap [OF hp w ne assms(3)]
  show e: "e = entry d n" using P(1) holds_root [OF assms(1) ne] assms(2) by simp
  have "mset h' = image_mset (entry d) (mset_set (S - {n}))"
    using P(2) assms(1,2) S e by (simp add: holds_def mset_set.remove)
  moreover have "set h' \<subseteq> window (of_nat n)" using P(2) w
    by (metis set_mset_add_mset_insert set_mset_mset subset_insertI subset_trans)
  then have "heap_ok h'" using P(3) heap_ok_iff by blast
  moreover have "of_nat ` S - {of_nat n :: u32} = of_nat ` (S - {n})"
  proof -
    have "(of_nat i :: u32) \<noteq> of_nat n" if "i \<in> S - {n}" for i
      using that S of_nat_window_eq [of n i n] assms(2) by auto
    then show ?thesis using assms(2) by auto
  qed
  ultimately show "holds d (Suc n) (S - {n})
      (rb\<lparr>h := h', seenSet := seenSet rb - {stripSeq e}, nextSeq := nextSeq rb + 1\<rparr>)"
    using assms S e by (auto simp: holds_def add.commute Suc_le_eq order.strict_iff_order)
qed

lemma flush_ready_holds:
  assumes "holds d n S rb"
  shows "\<exists>n' rb'. flush_ready rb fl = (rb', fl @ map d [n..<n']) \<and> holds d n' (S - {n..<n'}) rb'
    \<and> n \<le> n' \<and> {n..<n'} \<subseteq> S \<and> n' \<notin> S \<and> gapSince rb' = gapSince rb"
  using assms
proof (induction "card S" arbitrary: S n rb fl rule: less_induct)
  case less
  show ?case
  proof (cases "n \<in> S")
    case False
    then have "flush_ready rb fl = (rb, fl)"
      using holds_root(1) [OF less.prems] by (cases "h rb = []") (simp_all add: flush_ready.simps)
    with False less.prems show ?thesis by (intro exI [of _ n]) auto
  next
    case True
    obtain e h' where pop: "heap_Pop reorder_Less (h rb) = (e, h')" by fastforce
    define rb1 where "rb1 = rb\<lparr>h := h', seenSet := seenSet rb - {stripSeq e}, nextSeq := nextSeq rb + 1\<rparr>"
    have ne: "h rb \<noteq> []" using less.prems True by (auto simp: holds_empty)
    have e: "e = entry d n" and rb1: "holds d (Suc n) (S - {n}) rb1"
      using holds_pop [OF less.prems True pop] by (auto simp: rb1_def)
    have st: "flush_ready rb fl = flush_ready rb1 (fl @ [d n])"
      using ne True holds_root(1) [OF less.prems ne] pop e
      by (subst flush_ready.simps) (simp add: rb1_def)
    have "card (S - {n}) < card S"
      using True less.prems by (intro psubset_card_mono) (auto simp: holds_def)
    from less.hyps [OF this rb1, of "fl @ [d n]"] obtain n' rb' where
      *: "flush_ready rb1 (fl @ [d n]) = (rb', (fl @ [d n]) @ map d [Suc n..<n'])"
         "holds d n' (S - {n} - {Suc n..<n'}) rb'" "Suc n \<le> n'" "{Suc n..<n'} \<subseteq> S - {n}"
         "n' \<notin> S - {n}" "gapSince rb' = gapSince rb1" by blast
    have un: "{n..<n'} = insert n {Suc n..<n'}" using *(3) by auto
    then have "S - {n} - {Suc n..<n'} = S - {n..<n'}" by auto
    moreover have "[n..<n'] = n # [Suc n..<n']" using *(3) by (simp add: upt_conv_Cons)
    ultimately show ?thesis using * True un
      by (intro exI [of _ n'] exI [of _ rb']) (auto simp: st rb1_def)
  qed
qed

lemma holds_push:
  assumes "holds d n S rb" "n \<le> i" "i < n + 2 ^ 31" "i \<notin> S"
  shows "holds d n (insert i S) (rb\<lparr>seenSet := insert (of_nat i) (seenSet rb),
           h := heap_Push reorder_Less \<lparr>stripSeq = of_nat i, data = d i\<rparr> (h rb)\<rparr>)"
proof -
  have w: "set (h rb) \<subseteq> window (of_nat n)" using assms(1) by (rule holds_window)
  have hp: "reorder.is_heap (of_nat n) (h rb)" using assms heap_ok_iff [OF w] by (simp add: holds_def)
  have e: "entry d i \<in> window (of_nat n)" using assms by (intro entry_window)
  note P = reorder.heap_Push_heap [OF hp w e]
  have "set (heap_Push reorder_Less (entry d i) (h rb)) = insert (entry d i) (set (h rb))"
    using P(2) by (metis set_mset_add_mset_insert set_mset_mset)
  then have "heap_ok (heap_Push reorder_Less (entry d i) (h rb))"
    using P(1) w e heap_ok_iff [of "heap_Push reorder_Less (entry d i) (h rb)" "of_nat n"] by simp
  then show ?thesis using assms P(2) by (simp add: holds_def flip: entry_def)
qed

section \<open>Insert\<close>

lemma Insert_holds:
  assumes R: "holds d n S rb" "n \<notin> S" "gapSince rb = None \<longleftrightarrow> h rb = []"
    and i: "i < n + 2 ^ 31" "n \<le> i + 2 ^ 31"
  shows "\<exists>n' rb'. Insert now (of_nat i) (d i) rb = (rb', map d [n..<n'])
    \<and> holds d n' ((if i < n then S else insert i S) - {n..<n'}) rb' \<and> n \<le> n'
    \<and> {n..<n'} \<subseteq> insert i S \<and> n' \<notin> insert i S - {..<n} \<and> (gapSince rb' = None \<longleftrightarrow> h rb' = [])"
proof (cases "i < n \<or> i \<in> S")
  case True
  have sl: "serial_lt (of_nat i :: u32) (nextSeq rb) \<longleftrightarrow> i < n"
    using R i by (simp add: holds_def serial_lt_of_nat)
  have "Insert now (of_nat i) (d i) rb = (rb, [])"
    using True R sl by (auto simp: Insert_def holds_def)
  then show ?thesis using True R by (intro exI [of _ n] exI [of _ rb]) (auto simp: insert_absorb)
next
  case False
  have S: "S \<subseteq> {n..<n + 2 ^ 31}" "nextSeq rb = of_nat n" using R by (auto simp: holds_def)
  have sl: "\<not> serial_lt (of_nat i :: u32) (nextSeq rb)"
    using False R i by (simp add: holds_def serial_lt_of_nat)
  have "(of_nat i :: u32) \<noteq> of_nat j" if "j \<in> S" for j
    using that S i False of_nat_window_eq [of n i j] by auto
  then have fresh: "(of_nat i :: u32) \<notin> seenSet rb" using R by (auto simp: holds_def)
  define rb1 where "rb1 = rb\<lparr>seenSet := insert (of_nat i) (seenSet rb),
      h := heap_Push reorder_Less \<lparr>stripSeq = of_nat i, data = d i\<rparr> (h rb)\<rparr>"
  define rb2 where "rb2 = (if of_nat i \<noteq> nextSeq rb1 \<and> gapSince rb1 = None then rb1\<lparr>gapSince := Some now\<rparr> else rb1)"
  have "holds d n (insert i S) rb1" unfolding rb1_def using R i False by (intro holds_push) auto
  then have rb2: "holds d n (insert i S) rb2" by (simp add: rb2_def)
  from flush_ready_holds [OF this, of "[]"] obtain n' rb3 where
    fl: "flush_ready rb2 [] = (rb3, map d [n..<n'])" and rb3: "holds d n' (insert i S - {n..<n'}) rb3"
    and n': "n \<le> n'" "{n..<n'} \<subseteq> insert i S" "n' \<notin> insert i S" and g3: "gapSince rb3 = gapSince rb2"
    by auto
  define rb4 where "rb4 = (if h rb3 = [] then rb3\<lparr>gapSince := None\<rparr> else rb3)"
  have ins: "Insert now (of_nat i) (d i) rb = (rb4, map d [n..<n'])"
    by (simp only: Insert_def sl fresh if_False Let_def flip: rb1_def, simp only: fl flip: rb2_def)
      (simp add: rb4_def)
  have rb4: "holds d n' (insert i S - {n..<n'}) rb4" using rb3 by (simp add: rb4_def)
  have "gapSince rb3 \<noteq> None" if ne: "h rb3 \<noteq> []"
  proof (cases "i = n")
    case True
    have "S \<noteq> {}" using rb3 ne True n' by (auto simp: holds_empty)
    then show ?thesis using R g3 by (auto simp: holds_empty rb2_def rb1_def)
  next
    case False2: False
    then have "(of_nat i :: u32) \<noteq> of_nat n" using of_nat_window_eq [of n i n] i False by auto
    then show ?thesis using g3 S by (auto simp: rb2_def rb1_def)
  qed
  then have "gapSince rb4 = None \<longleftrightarrow> h rb4 = []" by (auto simp: rb4_def)
  then show ?thesis using ins rb4 n' False by (intro exI [of _ n'] exI [of _ rb4]) auto
qed

section \<open>Arrivals in any order\<close>

text \<open>The least index that has not arrived.\<close>

fun mex_from :: "nat \<Rightarrow> nat \<Rightarrow> nat list \<Rightarrow> nat" where
  "mex_from 0 n xs = n"
| "mex_from (Suc k) n xs = (if n \<in> set xs then mex_from k (Suc n) xs else n)"

definition mex :: "nat list \<Rightarrow> nat" where
  "mex xs = mex_from (length xs) 0 xs"

lemma mex_from_spec:
  assumes "{..<n} \<subseteq> set xs" "length xs \<le> n + k"
  shows "mex_from k n xs \<notin> set xs \<and> {..<mex_from k n xs} \<subseteq> set xs"
  using assms
proof (induction k arbitrary: n)
  case 0
  have "n \<notin> set xs"
  proof
    assume "n \<in> set xs"
    then have "{..n} \<subseteq> set xs" using 0(1) by (auto simp: less_le)
    from card_mono [OF _ this] have "Suc n \<le> card (set xs)" by simp
    then show False using card_length [of xs] 0(2) by simp
  qed
  with 0 show ?case by simp
next
  case (Suc k)
  show ?case
  proof (cases "n \<in> set xs")
    case True
    with Suc.prems have "{..<Suc n} \<subseteq> set xs" by (auto simp: less_Suc_eq)
    with Suc.IH [of "Suc n"] Suc.prems True show ?thesis by simp
  next
    case False
    with Suc.prems show ?thesis by simp
  qed
qed

lemma mex_spec: "mex xs \<notin> set xs" "{..<mex xs} \<subseteq> set xs"
  using mex_from_spec [of 0 xs "length xs"] by (auto simp: mex_def)

lemma mex_unique: "n \<notin> set xs \<Longrightarrow> {..<n} \<subseteq> set xs \<Longrightarrow> mex xs = n"
  using mex_spec [of xs] by (metis lessThan_iff linorder_neqE_nat subsetD)

text \<open>
  Each arrival is within half the sequence space of the index expected at that moment: less than
  $2^{31}$ ahead of it, at most $2^{31}$ behind it.
\<close>

fun in_window :: "nat list \<Rightarrow> nat list \<Rightarrow> bool" where
  "in_window seen [] \<longleftrightarrow> True"
| "in_window seen (i # is) \<longleftrightarrow> i < mex seen + 2 ^ 31 \<and> mex seen \<le> i + 2 ^ 31 \<and> in_window (i # seen) is"

lemma insert_all_holds:
  assumes "holds d (mex seen) (set seen - {..<mex seen}) rb" "gapSince rb = None \<longleftrightarrow> h rb = []"
    and "in_window seen (map snd as)"
  shows "\<exists>rb'. insert_all d as rb = (rb', map d [mex seen..<mex (map snd as @ seen)])
    \<and> mex seen \<le> mex (map snd as @ seen)
    \<and> holds d (mex (map snd as @ seen)) (set (map snd as @ seen) - {..<mex (map snd as @ seen)}) rb'
    \<and> (gapSince rb' = None \<longleftrightarrow> h rb' = [])"
  using assms
proof (induction as arbitrary: seen rb)
  case (Cons a as)
  obtain now i where a: "a = (now, i)" by fastforce
  let ?n = "mex seen" and ?S = "set seen - {..<mex seen}"
  have w: "i < ?n + 2 ^ 31" "?n \<le> i + 2 ^ 31" "in_window (i # seen) (map snd as)"
    using Cons.prems(3) by (simp_all add: a)
  have ms: "?n \<notin> ?S" using mex_spec by auto
  from Insert_holds [OF Cons.prems(1) ms Cons.prems(2) w(1,2), of now] obtain n' rb1 where
    ins: "Insert now (of_nat i) (d i) rb = (rb1, map d [?n..<n'])"
    and h1: "holds d n' ((if i < ?n then ?S else insert i ?S) - {?n..<n'}) rb1"
    and n': "?n \<le> n'" "{?n..<n'} \<subseteq> insert i ?S" "n' \<notin> insert i ?S - {..<?n}"
    and g1: "gapSince rb1 = None \<longleftrightarrow> h rb1 = []" by (elim exE conjE) (rule that)
  have "n' \<notin> set (i # seen)" using n' by auto
  moreover have "{..<n'} \<subseteq> set (i # seen)"
  proof
    fix m assume "m \<in> {..<n'}"
    then have "m < ?n \<or> m \<in> {?n..<n'}" by auto
    then show "m \<in> set (i # seen)" using mex_spec(2) [of seen] n'(2) by auto
  qed
  ultimately have m: "mex (i # seen) = n'" by (rule mex_unique)
  have "(if i < ?n then ?S else insert i ?S) - {?n..<n'} = set (i # seen) - {..<n'}"
    using n'(1) by auto
  then have "holds d (mex (i # seen)) (set (i # seen) - {..<mex (i # seen)}) rb1"
    using h1 m by simp
  from Cons.IH [OF this g1 w(3)] obtain rb' where IH:
    "insert_all d as rb1 = (rb', map d [n'..<mex (map snd as @ i # seen)])"
    "n' \<le> mex (map snd as @ i # seen)"
    "holds d (mex (map snd as @ i # seen)) (set (map snd as @ i # seen) - {..<mex (map snd as @ i # seen)}) rb'"
    "gapSince rb' = None \<longleftrightarrow> h rb' = []" by (auto simp: m)
  have eq: "set (map snd (a # as) @ seen) = set (map snd as @ i # seen)" by (auto simp: a)
  then have me: "mex (map snd (a # as) @ seen) = mex (map snd as @ i # seen)"
    using mex_spec [of "map snd as @ i # seen"] by (intro mex_unique) auto
  have "[?n..<n'] @ [n'..<mex (map snd as @ i # seen)] = [?n..<mex (map snd as @ i # seen)]"
    using n'(1) IH(2) by (metis le_Suc_ex upt_add_eq_append)
  then have "map d [?n..<n'] @ map d [n'..<mex (map snd as @ i # seen)]
      = map d [?n..<mex (map snd as @ i # seen)]" by (metis map_append)
  then show ?case using IH n'(1) ins unfolding eq me by (intro exI [of _ rb']) (simp add: a)
qed auto

lemma holds_new: "holds d (mex []) (set [] - {..<mex []}) newReorderBuffer"
  by (simp add: holds_def newReorderBuffer_def mex_def heap_ok_def)

section \<open>Draining the buffer\<close>

lemma mset_eq_map: "mset xs = image_mset f M \<Longrightarrow> \<exists>ys. xs = map f ys \<and> mset ys = M"
proof (induction xs arbitrary: M)
  case (Cons x xs)
  then have "image_mset f M = add_mset x (mset xs)" by simp
  then obtain M1 a where "M = add_mset a M1" "f a = x" "image_mset f M1 = mset xs"
    using msed_map_invR [of f M x "mset xs"] by auto
  then obtain ys where "xs = map f ys" "mset ys = M1" using Cons.IH [of M1] by auto
  then show ?case using \<open>M = _\<close> \<open>f a = x\<close> by (intro exI [of _ "a # ys"]) auto
qed simp

lemma sort_Slice_entries:
  assumes "set is \<subseteq> {n..<n + 2 ^ 31}"
  shows "sort_Slice reorder_Less (map (entry d) is) = map (entry d) (sort is)"
proof -
  have ins: "slice_insert reorder_Less (entry d i) (map (entry d) xs) = map (entry d) (insort i xs)"
    if "i \<in> {n..<n + 2 ^ 31}" "set xs \<subseteq> {n..<n + 2 ^ 31}" for i xs
    using that
  proof (induction xs)
    case (Cons j xs)
    then have "reorder_Less (entry d j) (entry d i) \<longleftrightarrow> j < i"
      by (simp add: reorder_Less_def serial_lt_of_nat)
    with Cons show ?case by auto
  qed simp
  have "foldr (slice_insert reorder_Less) (map (entry d) is) [] = map (entry d) (foldr insort is [])"
    using assms
  proof (induction "is")
    case (Cons i "is")
    have "foldr insort is [] = sort is" by (simp add: sort_key_def)
    with Cons show ?case by (simp add: ins)
  qed simp
  then show ?thesis by (simp add: sort_Slice_def sort_key_def)
qed

lemma FlushAll_holds:
  assumes "holds d n S rb"
  shows "snd (FlushAll rb) = map d (sorted_list_of_set S)"
proof (cases "h rb = []")
  case True
  with assms show ?thesis by (simp add: FlushAll_def holds_empty)
next
  case False
  have S: "finite S" "S \<subseteq> {n..<n + 2 ^ 31}" using assms by (auto simp: holds_def)
  obtain "is" where eq: "h rb = map (entry d) is" "mset is = mset_set S"
    using mset_eq_map [of "h rb" "entry d" "mset_set S"] assms by (auto simp: holds_def)
  then have "set is = S" using S by (metis finite_set_mset_mset_set set_mset_mset)
  moreover have "sort is = sorted_list_of_set S"
    using eq by (metis sorted_list_of_multiset_mset sorted_list_of_mset_set)
  ultimately show ?thesis
    using False S eq sort_Slice_entries [of "is" n d] by (simp add: FlushAll_def comp_def)
qed

lemma insert_all_new:
  assumes "in_window [] (map snd as)"
  obtains rb where "insert_all d as newReorderBuffer = (rb, map d [0..<mex (map snd as)])"
    "holds d (mex (map snd as)) (set (map snd as) - {..<mex (map snd as)}) rb"
    "gapSince rb = None \<longleftrightarrow> h rb = []"
  using insert_all_holds [OF holds_new _ assms, of d] by (auto simp: mex_def newReorderBuffer_def)

lemma sorted_list_split:
  assumes "finite A" "{..<n} \<subseteq> A"
  shows "sorted_list_of_set A = [0..<n] @ sorted_list_of_set (A - {..<n})"
proof (rule sorted_distinct_set_unique)
  show "sorted ([0..<n] @ sorted_list_of_set (A - {..<n}))"
    using assms by (auto simp: sorted_append)
  show "set (sorted_list_of_set A) = set ([0..<n] @ sorted_list_of_set (A - {..<n}))"
    using assms by auto
qed (use assms in auto)

section \<open>Properties\<close>

text \<open>
  C10: Whatever the order in which the frames of a striped stream arrive, with whatever repetitions and
  at whatever times, the buffer has delivered exactly the frames before the first missing index, in
  order and each once, as long as every arrival lies within half the 32-bit sequence space of the
  index expected then; draining it at the end (\<^verbatim>\<open>FlushAll\<close>) gives the remaining frames that
  arrived, again in order and once.  Sequence numbers wrap around any number of times.
\<close>

theorem reorder_delivers_in_order:
  assumes "in_window [] (map snd as)"
  shows "case insert_all d as newReorderBuffer of (rb, out) \<Rightarrow>
           out = map d [0..<mex (map snd as)]
           \<and> out @ snd (FlushAll rb) = map d (sorted_list_of_set (set (map snd as)))"
proof -
  obtain rb where rb: "insert_all d as newReorderBuffer = (rb, map d [0..<mex (map snd as)])"
    "holds d (mex (map snd as)) (set (map snd as) - {..<mex (map snd as)}) rb"
    using assms by (rule insert_all_new)
  have "sorted_list_of_set (set (map snd as)) =
      [0..<mex (map snd as)] @ sorted_list_of_set (set (map snd as) - {..<mex (map snd as)})"
    by (intro sorted_list_split mex_spec finite_set)
  then show ?thesis unfolding rb(1) prod.case FlushAll_holds [OF rb(2)] by simp
qed

theorem reorder_delivers_in_order_witness:
  "case insert_all (\<lambda>i. [of_nat i]) [(0, 2), (1, 0), (2, 0), (3, 1), (4, 5)] newReorderBuffer of (rb, out) \<Rightarrow>
     out = map (\<lambda>i. [of_nat i]) [0..<mex (map snd [(0, 2), (1, 0), (2, 0), (3, 1), (4 :: int, 5)])]
     \<and> out @ snd (FlushAll rb)
         = map (\<lambda>i. [of_nat i]) (sorted_list_of_set (set (map snd [(0, 2), (1, 0), (2, 0), (3, 1), (4 :: int, 5)])))"
  by (rule reorder_delivers_in_order) (simp add: mex_def)

text \<open>
  After any such arrivals the buffer holds exactly the frames that arrived beyond the first
  missing index, the overflow test counts them, and the gap timer runs exactly when there is one.
\<close>

theorem reorder_pending:
  assumes "in_window [] (map snd as)"
  shows "let rb = fst (insert_all d as newReorderBuffer); m = mex (map snd as)
         in Len rb = card {i \<in> set (map snd as). m < i} \<and> nextSeq rb = of_nat m
            \<and> (Overflowed rb \<longleftrightarrow> card {i \<in> set (map snd as). m < i} > 4096)
            \<and> (gapSince rb = None \<longleftrightarrow> (\<forall>i\<in>set (map snd as). i < m))"
proof -
  let ?m = "mex (map snd as)"
  obtain rb where rb: "insert_all d as newReorderBuffer = (rb, map d [0..<?m])"
    "holds d ?m (set (map snd as) - {..<?m}) rb" "gapSince rb = None \<longleftrightarrow> h rb = []"
    using assms by (rule insert_all_new)
  have eq: "set (map snd as) - {..<?m} = {i \<in> set (map snd as). ?m < i}"
    using mex_spec(1) [of "map snd as"] by (auto simp: not_less le_less simp del: set_map)
  have "length (h rb) = size (image_mset (entry d) (mset_set (set (map snd as) - {..<?m})))"
    using rb(2) by (metis holds_def size_mset)
  then have len: "Len rb = card {i \<in> set (map snd as). ?m < i}" 
    unfolding Len_def eq [symmetric] by simp
  have "h rb = [] \<longleftrightarrow> (\<forall>i\<in>set (map snd as). i < ?m)"
    using holds_empty [OF rb(2)] by auto
  moreover have "nextSeq rb = of_nat ?m" using rb(2) by (simp add: holds_def)
  ultimately show ?thesis
    using len rb by (simp add: Let_def Overflowed_def reorderMaxFrames_def Len_def)
qed

text \<open>
  The timer is started when the first gap appears and cleared only when the heap empties: after
  indices 1 (at 0 s), 3 (at 4 s) and 0 (at 5 s) the only missing index is 2, seen missing since 4 s,
  but the buffer reports a gap older than 5 s already at 6 s.
\<close>

lemma gap_timer_not_restarted:
  "let rb = fst (insert_all (\<lambda>i. [of_nat i]) [(0, 1), (4 * 10 ^ 9, 3), (5 * 10 ^ 9, 0)] newReorderBuffer)
   in nextSeq rb = 2 \<and> gapSince rb = Some 0 \<and> GapTimedOut (6 * 10 ^ 9) reorderGapTimeout rb"
  by code_simp

end
