(* ===== verification/Mux_State.thy ===== *)
theory Mux_State
  imports Ring_Buffers Reorder_Buffer "HOL-Library.AList"
begin

text \<open>
  The multiplexer of \<^verbatim>\<open>internal/mux/mux.go\<close>: its objects, the choice of a connection, the writing of
  frames and the bookkeeping of connections.  Connections and streams are shared by pointer in the
  source (a slot of \<^verbatim>\<open>Mux.conns\<close>, \<^verbatim>\<open>Stream.assignedConn\<close>, the map of streams, the channel of accepted
  streams), so both live in stores, lists indexed by address, and every reference is an address.

  The transport below a connection (\<^verbatim>\<open>io.ReadWriteCloser\<close>: DTLS over TURN) is a parameter \<open>wok\<close>:
  whether the \<open>n\<close>-th \<^verbatim>\<open>Write\<close> on the connection at an address succeeds; a \<^verbatim>\<open>Write\<close> on a closed
  connection fails.  \<open>wire\<close> records what was written.  The clock is the argument \<open>now\<close> (nanoseconds).
  Counters of goroutines and streams are integers; counters of bytes and weights are 64-bit.
\<close>

section \<open>Objects\<close>

text \<open>A request in the write channel of a connection: the frame and the stream whose wait group it holds.\<close>

type_synonym writeReq = "bytes \<times> nat"

record muxConn =
  c_index :: int
  latency :: int
  bytesSent :: int
  bytesRecv :: int
  errors :: int
  lastUsed :: int
  prevSent :: int
  createdAt :: int
  wrrCurrent :: int
  rtxRing :: retransmitRing
  writeCh :: "writeReq list"
  writeChClosed :: bool
  connClosed :: bool
  wire :: "bytes list"
  nwrites :: nat

definition new_muxConn :: "int \<Rightarrow> int \<Rightarrow> muxConn" where
  "new_muxConn idx now =
     \<lparr>c_index = idx, latency = 0, bytesSent = 0, bytesRecv = 0, errors = 0, lastUsed = now, prevSent = 0,
      createdAt = 0, wrrCurrent = 0, rtxRing = new_ring, writeCh = [], writeChClosed = False,
      connClosed = False, wire = [], nwrites = 0\<rparr>"

record Stream =
  s_ID :: u32
  recv :: "bytes list"
  recvClosed :: bool
  s_closed :: bool
  doneClosed :: bool
  leftover :: bytes
  assignedConn :: "nat option"
  striping :: bool
  nextStripSeq :: u32
  reorder :: "reorderBuffer option"
  closePending :: bool
  inflight :: int

definition new_Stream :: "u32 \<Rightarrow> nat option \<Rightarrow> bool \<Rightarrow> Stream" where
  "new_Stream i assigned strip =
     \<lparr>s_ID = i, recv = [], recvClosed = False, s_closed = False, doneClosed = False, leftover = [],
      assignedConn = assigned, striping = strip, nextStripSeq = 0,
      reorder = (if strip then Some newReorderBuffer else None), closePending = False, inflight = 0\<rparr>"

text \<open>
  The channels are the lists of what they hold, with a flag once they are closed; \<open>acceptedStreams\<close>
  is \<open>None\<close> until \<^verbatim>\<open>EnableStreamAccept\<close> makes it, with the capacity it was given.
\<close>

record Mux =
  conns :: "nat option list"
  cstore :: "muxConn list"
  sstore :: "Stream list"
  streams :: "(u32 \<times> nat) list"
  mux_nextSeq :: u32
  inFrames :: "Frame list"
  inFramesClosed :: bool
  ctxDone :: bool
  activeReaders :: int
  allDead :: bool
  idleTimeoutNs :: int
  rawPackets :: "RawRingBuffer option"
  rawEvictions :: int
  acceptedStreams :: "(nat \<times> nat list) option"
  acceptClosed :: bool
  connDied :: "int list"
  reconnecting :: int
  lastPongAt :: int
  maxStreams :: int
  streamCount :: int
  disableStriping :: bool
  adaptiveStripe :: bool
  prevThroughput :: int

text \<open>\<^verbatim>\<open>New\<close>: one connection object per transport, their readers and writers started.\<close>

definition New :: "bool \<Rightarrow> int \<Rightarrow> nat \<Rightarrow> Mux" where
  "New enable_striping_env now n =
     \<lparr>conns = map Some [0..<n], cstore = map (\<lambda>i. new_muxConn (int i) now) [0..<n], sstore = [],
      streams = [], mux_nextSeq = 0, inFrames = [], inFramesClosed = False, ctxDone = False,
      activeReaders = int n, allDead = False, idleTimeoutNs = 0, rawPackets = None, rawEvictions = 0,
      acceptedStreams = None, acceptClosed = False, connDied = [], reconnecting = 0, lastPongAt = 0,
      maxStreams = 0, streamCount = 0, disableStriping = \<not> enable_striping_env,
      adaptiveStripe = False, prevThroughput = 0\<rparr>"

definition SetIdleTimeout :: "int \<Rightarrow> Mux \<Rightarrow> Mux" where
  "SetIdleTimeout d m = m\<lparr>idleTimeoutNs := d\<rparr>"

definition SetMaxStreams :: "int \<Rightarrow> Mux \<Rightarrow> Mux" where
  "SetMaxStreams n m = m\<lparr>maxStreams := n\<rparr>"

definition EnableStriping :: "Mux \<Rightarrow> Mux" where
  "EnableStriping m = m\<lparr>disableStriping := False, adaptiveStripe := True\<rparr>"

definition EnableRawPackets :: "nat \<Rightarrow> Mux \<Rightarrow> Mux" where
  "EnableRawPackets bufSize m = m\<lparr>rawPackets := Some (NewRawRingBuffer bufSize)\<rparr>"

definition EnableStreamAccept :: "nat \<Rightarrow> Mux \<Rightarrow> Mux" where
  "EnableStreamAccept bufSize m = m\<lparr>acceptedStreams := Some (bufSize, [])\<rparr>"

definition NextSeq :: "Mux \<Rightarrow> Mux \<times> u32" where
  "NextSeq m = (m\<lparr>mux_nextSeq := mux_nextSeq m + 1\<rparr>, mux_nextSeq m + 1)"

section \<open>Connections in slots\<close>

fun somes :: "'a option list \<Rightarrow> 'a list" where
  "somes [] = []"
| "somes (None # xs) = somes xs"
| "somes (Some x # xs) = x # somes xs"

definition live_conns :: "Mux \<Rightarrow> nat list" where
  "live_conns m = somes (conns m)"

definition upd_conn :: "nat \<Rightarrow> (muxConn \<Rightarrow> muxConn) \<Rightarrow> Mux \<Rightarrow> Mux" where
  "upd_conn a f m = m\<lparr>cstore := (cstore m)[a := f (cstore m ! a)]\<rparr>"

definition upd_stream :: "nat \<Rightarrow> (Stream \<Rightarrow> Stream) \<Rightarrow> Mux \<Rightarrow> Mux" where
  "upd_stream p f m = m\<lparr>sstore := (sstore m)[p := f (sstore m ! p)]\<rparr>"

definition TotalConns :: "Mux \<Rightarrow> nat" where
  "TotalConns m = length (live_conns m)"

definition ActiveConns :: "Mux \<Rightarrow> int" where
  "ActiveConns m = activeReaders m"

definition IsHealthy :: "int \<Rightarrow> int \<Rightarrow> Mux \<Rightarrow> bool" where
  "IsHealthy now timeout m =
     (if lastPongAt m = 0 then activeReaders m > 0 else now - lastPongAt m < timeout)"

definition shouldStripe :: "Mux \<Rightarrow> bool" where
  "shouldStripe m =
     (if TotalConns m \<le> 1 then False else if \<not> disableStriping m then True else adaptiveStripe m)"

record ConnStat =
  cs_Index :: int
  cs_BytesSent :: int
  cs_BytesRecv :: int
  cs_LatencyNs :: int
  cs_Alive :: bool

definition ConnStats :: "Mux \<Rightarrow> ConnStat list" where
  "ConnStats m =
     map (\<lambda>i. case conns m ! i of
            None \<Rightarrow> \<lparr>cs_Index = 0, cs_BytesSent = 0, cs_BytesRecv = 0, cs_LatencyNs = 0, cs_Alive = False\<rparr>
          | Some a \<Rightarrow> let mc = cstore m ! a
                     in \<lparr>cs_Index = int i, cs_BytesSent = bytesSent mc, cs_BytesRecv = bytesRecv mc,
                         cs_LatencyNs = latency mc, cs_Alive = True\<rparr>)
       [0..<length (conns m)]"

section \<open>Choosing a connection\<close>

text \<open>An unmeasured latency counts as 1 ms.\<close>

definition effLat :: "muxConn \<Rightarrow> int" where
  "effLat mc = (if latency mc = 0 then 1000000 else latency mc)"

definition min_latency :: "Mux \<Rightarrow> int" where
  "min_latency m =
     foldl (\<lambda>minLat a. let lat = effLat (cstore m ! a)
                       in if minLat = 0 \<or> lat < minLat then lat else minLat) 0 (live_conns m)"

definition eligible :: "Mux \<Rightarrow> nat list" where
  "eligible m =
     (let threshold = i64 (min_latency m * 3);
          el = filter (\<lambda>a. effLat (cstore m ! a) \<le> threshold) (live_conns m)
      in if el = [] then live_conns m else el)"

definition conn_weight :: "muxConn \<Rightarrow> int" where
  "conn_weight mc =
     (let weight = i64 (quot64 1000000000 (effLat mc) - i64 (errors mc * 10))
      in if weight < 1 then 1 else weight)"

fun swrr_pass :: "nat list \<Rightarrow> muxConn list \<Rightarrow> nat option \<Rightarrow> int \<Rightarrow> int
    \<Rightarrow> muxConn list \<times> nat option \<times> int" where
  "swrr_pass [] cs best bestCW totalWeight = (cs, best, totalWeight)"
| "swrr_pass (a # el) cs best bestCW totalWeight =
     (let weight = conn_weight (cs ! a);
          cw = i64 (wrrCurrent (cs ! a) + weight);
          cs' = cs[a := (cs ! a)\<lparr>wrrCurrent := cw\<rparr>];
          totalWeight' = i64 (totalWeight + weight)
      in if cw > bestCW then swrr_pass el cs' (Some a) cw totalWeight'
         else swrr_pass el cs' best bestCW totalWeight')"

definition selectConn :: "Mux \<Rightarrow> Mux \<times> nat option" where
  "selectConn m =
     (if conns m = [] then (m, None)
      else let (cs, best, totalWeight) = swrr_pass (eligible m) (cstore m) None minInt64 0
           in case best of
                None \<Rightarrow> (m\<lparr>cstore := cs\<rparr>, None)
              | Some b \<Rightarrow>
                  (m\<lparr>cstore := cs[b := (cs ! b)\<lparr>wrrCurrent := i64 (wrrCurrent (cs ! b) - totalWeight)\<rparr>]\<rparr>, Some b))"

section \<open>Writing frames\<close>

type_synonym write_oracle = "nat \<Rightarrow> nat \<Rightarrow> bool"

definition conn_write :: "write_oracle \<Rightarrow> nat \<Rightarrow> bytes \<Rightarrow> Mux \<Rightarrow> Mux \<times> bool" where
  "conn_write wok a d m =
     (let mc = cstore m ! a; ok = (\<not> connClosed mc \<and> wok a (nwrites mc))
      in (upd_conn a (\<lambda>c. c\<lparr>nwrites := nwrites c + 1, wire := (if ok then wire c @ [d] else wire c)\<rparr>) m, ok))"

definition count_sent :: "int \<Rightarrow> nat \<Rightarrow> bytes \<Rightarrow> Mux \<Rightarrow> Mux" where
  "count_sent now a d m =
     upd_conn a (\<lambda>c. c\<lparr>bytesSent := i64 (bytesSent c + int (length d)), lastUsed := now\<rparr>) m"

definition count_error :: "nat \<Rightarrow> Mux \<Rightarrow> Mux" where
  "count_error a m = upd_conn a (\<lambda>c. c\<lparr>errors := i64 (errors c + 1)\<rparr>) m"

text \<open>A result \<open>None\<close> is the nil error.\<close>

definition sendFrameOn :: "write_oracle \<Rightarrow> int \<Rightarrow> nat option \<Rightarrow> Frame \<Rightarrow> Mux \<Rightarrow> Mux \<times> mux_error option" where
  "sendFrameOn wok now mc f m =
     (let (m1, mc1) = (case mc of None \<Rightarrow> selectConn m | Some a \<Rightarrow> (m, Some a))
      in case mc1 of
           None \<Rightarrow> (m1, Some NoConnections)
         | Some a \<Rightarrow>
             (case MarshalBinary f of
                Inl e \<Rightarrow> (m1, Some e)
              | Inr d \<Rightarrow>
                  (let (m2, ok) = conn_write wok a d m1
                   in if ok then (count_sent now a d m2, None)
                      else
                        let m3 = count_error a m2; (m4, fallback) = selectConn m3
                        in case fallback of
                             None \<Rightarrow> (m4, Some WriteFailed)
                           | Some b \<Rightarrow>
                               if b = a then (m4, Some WriteFailed)
                               else
                                 let (m5, ok2) = conn_write wok b d m4
                                 in if ok2 then (count_sent now b d m5, None)
                                    else (count_error b m5, Some WriteFailed))))"

definition SendFrame :: "write_oracle \<Rightarrow> int \<Rightarrow> Frame \<Rightarrow> Mux \<Rightarrow> Mux \<times> mux_error option" where
  "SendFrame wok now f m = (let (m1, mc) = selectConn m in sendFrameOn wok now mc f m1)"

definition SendRawPacket :: "write_oracle \<Rightarrow> int \<Rightarrow> Frame \<Rightarrow> Mux \<Rightarrow> Mux \<times> mux_error option" where
  "SendRawPacket wok now f m =
     (let (m1, mc) = selectConn m
      in case mc of
           None \<Rightarrow> (m1, Some NoConnections)
         | Some a \<Rightarrow>
             (case MarshalBinary f of
                Inl e \<Rightarrow> (m1, Some e)
              | Inr d \<Rightarrow>
                  (let (m2, ok) = conn_write wok a d m1
                   in if ok then (count_sent now a d m2, None) else (m2, Some WriteFailed))))"

end
