(* ===== verification/Mux_Swrr.thy ===== *)
theory Mux_Swrr
  imports Mux_State
begin

text \<open>
  Correctness of the smooth weighted round-robin choice of a connection (\<^verbatim>\<open>selectConn\<close>): a live
  connection is found whenever there is one, and over a full cycle, as many rounds as the weights add up
  to, every eligible connection is chosen exactly as often as its weight says, after which all current
  weights are back where they started.
\<close>

fun select_rounds :: "nat \<Rightarrow> Mux \<Rightarrow> Mux \<times> nat option list" where
  "select_rounds 0 m = (m, [])"
| "select_rounds (Suc n) m =
     (let (m1, rs) = select_rounds n m; (m2, r) = selectConn m1 in (m2, rs @ [r]))"

section \<open>Connections in order\<close>

text \<open>The slots hold different, allocated connections, and their measurements are plausible.\<close>

definition conns_ok :: "Mux \<Rightarrow> bool" where
  "conns_ok m \<longleftrightarrow> distinct (live_conns m) \<and> (\<forall>a\<in>set (live_conns m). a < length (cstore m))"

definition stats_ok :: "Mux \<Rightarrow> bool" where
  "stats_ok m \<longleftrightarrow> (\<forall>a\<in>set (live_conns m). 0 \<le> latency (cstore m ! a) \<and> latency (cstore m ! a) < 2 ^ 61
     \<and> 0 \<le> errors (cstore m ! a) \<and> errors (cstore m ! a) < 2 ^ 59)"

lemma set_somes: "set (somes xs) = {x. Some x \<in> set xs}"
  by (induction xs rule: somes.induct) auto

lemma length_somes: "length (somes xs) \<le> length xs"
  by (induction xs rule: somes.induct) auto

lemma live_conns_iff: "a \<in> set (live_conns m) \<longleftrightarrow> Some a \<in> set (conns m)"
  by (simp add: live_conns_def set_somes)

lemma eligible_subset: "set (eligible m) \<subseteq> set (live_conns m)"
  by (auto simp: eligible_def Let_def)

lemma eligible_distinct: "conns_ok m \<Longrightarrow> distinct (eligible m)"
  by (auto simp: eligible_def Let_def conns_ok_def)

lemma eligible_length: "length (eligible m) \<le> length (conns m)"
proof -
  have "length (eligible m) \<le> length (live_conns m)" by (simp add: eligible_def Let_def)
  also have "\<dots> \<le> length (conns m)" by (simp add: live_conns_def length_somes)
  finally show ?thesis .
qed

lemma eligible_Nil [simp]: "eligible m = [] \<longleftrightarrow> live_conns m = []"
  by (auto simp: eligible_def Let_def)

lemma conn_weight_bounds:
  assumes "0 \<le> latency mc" "latency mc < 2 ^ 61" "0 \<le> errors mc" "errors mc < 2 ^ 59"
  shows "1 \<le> conn_weight mc" "conn_weight mc \<le> 10 ^ 9"
proof -
  have l: "0 < effLat mc" "effLat mc < 2 ^ 62" using assms by (auto simp: effLat_def)
  have q: "quot64 1000000000 (effLat mc) = 1000000000 div effLat mc" using l by (simp add: quot64_pos)
  have "1000000000 div effLat mc \<le> 1000000000" using l zdiv_mono2 [of 1000000000 1 "effLat mc"] by simp
  moreover have "0 \<le> 1000000000 div effLat mc" using l by (simp add: pos_imp_zdiv_nonneg_iff)
  ultimately have "i64 (quot64 1000000000 (effLat mc) - i64 (errors mc * 10)) \<le> 10 ^ 9"
    using assms unfolding q by (subst i64_id) (auto intro: order_trans)
  then show "1 \<le> conn_weight mc" "conn_weight mc \<le> 10 ^ 9" by (auto simp: conn_weight_def Let_def)
qed

section \<open>One round\<close>

definition total_weight :: "muxConn list \<Rightarrow> nat list \<Rightarrow> int" where
  "total_weight cs el = (\<Sum>a\<leftarrow>el. conn_weight (cs ! a))"

definition raised :: "nat list \<Rightarrow> muxConn list \<Rightarrow> nat \<Rightarrow> muxConn" where
  "raised el cs i = (if i \<in> set el then (cs ! i)\<lparr>wrrCurrent := wrrCurrent (cs ! i) + conn_weight (cs ! i)\<rparr> else cs ! i)"

lemma conn_weight_wrr [simp]: "conn_weight (mc\<lparr>wrrCurrent := x\<rparr>) = conn_weight mc"
  by (simp add: conn_weight_def effLat_def)

lemma effLat_wrr [simp]: "effLat (mc\<lparr>wrrCurrent := x\<rparr>) = effLat mc"
  by (simp add: effLat_def)

lemma total_weight_upd [simp]: "a \<notin> set el \<Longrightarrow> total_weight (cs[a := c]) el = total_weight cs el"
  unfolding total_weight_def
  by (intro arg_cong [where f = sum_list] map_cong refl) (metis nth_list_update_neq)

lemma total_weight_nonneg:
  "\<forall>a\<in>set el. 1 \<le> conn_weight (cs ! a) \<Longrightarrow> int (length el) \<le> total_weight cs el"
  by (induction el) (auto simp: total_weight_def)

lemma swrr_pass_spec:
  assumes "distinct el" "\<forall>a\<in>set el. a < length cs \<and> 1 \<le> conn_weight (cs ! a) \<and> \<bar>wrrCurrent (cs ! a)\<bar> \<le> 2 ^ 62"
    "0 \<le> tot" "tot + total_weight cs el \<le> 2 ^ 61"
  shows "\<exists>cs' best'. swrr_pass el cs best cw tot = (cs', best', tot + total_weight cs el)
    \<and> length cs' = length cs \<and> (\<forall>i<length cs. cs' ! i = raised el cs i)
    \<and> ((\<exists>b\<in>set el. best' = Some b \<and> cw < wrrCurrent (raised el cs b)
          \<and> (\<forall>a\<in>set el. wrrCurrent (raised el cs a) \<le> wrrCurrent (raised el cs b)))
       \<or> (best' = best \<and> (\<forall>a\<in>set el. wrrCurrent (raised el cs a) \<le> cw)))"
  using assms
proof (induction el arbitrary: cs best cw tot)
  case Nil
  then show ?case by (simp add: total_weight_def raised_def)
next
  case (Cons a el)
  let ?w = "conn_weight (cs ! a)" and ?c = "wrrCurrent (cs ! a)"
  let ?cs = "cs[a := (cs ! a)\<lparr>wrrCurrent := ?c + ?w\<rparr>]"
  have tw: "total_weight cs (a # el) = ?w + total_weight cs el" by (simp add: total_weight_def)
  have nn: "0 \<le> total_weight cs el" using total_weight_nonneg [of el cs] Cons.prems by auto
  have w: "1 \<le> ?w" "a < length cs" "\<bar>?c\<bar> \<le> 2 ^ 62" "?w \<le> 2 ^ 61" using Cons.prems tw nn by auto
  have c: "i64 (?c + ?w) = ?c + ?w" using w by (intro i64_id) auto
  have t: "i64 (tot + ?w) = tot + ?w" using w Cons.prems tw nn by (intro i64_id) auto
  have a: "a \<notin> set el" using Cons.prems by auto
  have pre: "distinct el"
    "\<forall>i\<in>set el. i < length ?cs \<and> 1 \<le> conn_weight (?cs ! i) \<and> \<bar>wrrCurrent (?cs ! i)\<bar> \<le> 2 ^ 62"
    "0 \<le> tot + ?w" "tot + ?w + total_weight ?cs el \<le> 2 ^ 61"
    using Cons.prems w a tw by (auto simp: nth_list_update)
  have ra: "raised el ?cs i = raised (a # el) cs i" if "i < length cs" for i
    using a w that by (auto simp: raised_def nth_list_update)
  have lt: "i < length cs" if "i \<in> set el" for i using Cons.prems that by auto
  let ?b = "if ?c + ?w > cw then Some a else best" and ?cw = "if ?c + ?w > cw then ?c + ?w else cw"
  have st: "swrr_pass (a # el) cs best cw tot = swrr_pass el ?cs ?b ?cw (tot + ?w)"
    by (simp add: c t Let_def)
  have ra_a: "wrrCurrent (raised (a # el) cs a) = ?c + ?w" by (simp add: raised_def)
  from Cons.IH [OF pre, of ?b ?cw] obtain cs' best' where IH:
    "swrr_pass el ?cs ?b ?cw (tot + ?w) = (cs', best', tot + ?w + total_weight cs el)"
    "length cs' = length cs" "\<forall>i<length cs. cs' ! i = raised (a # el) cs i"
    "(\<exists>b\<in>set el. best' = Some b \<and> ?cw < wrrCurrent (raised (a # el) cs b)
        \<and> (\<forall>x\<in>set el. wrrCurrent (raised (a # el) cs x) \<le> wrrCurrent (raised (a # el) cs b)))
      \<or> (best' = ?b \<and> (\<forall>x\<in>set el. wrrCurrent (raised (a # el) cs x) \<le> ?cw))"
    by (auto simp: ra lt a)
  show ?case
  proof (intro exI conjI)
    show "swrr_pass (a # el) cs best cw tot = (cs', best', tot + total_weight cs (a # el))"
      unfolding st IH(1) by (simp add: tw)
    show "(\<exists>b\<in>set (a # el). best' = Some b \<and> cw < wrrCurrent (raised (a # el) cs b)
        \<and> (\<forall>x\<in>set (a # el). wrrCurrent (raised (a # el) cs x) \<le> wrrCurrent (raised (a # el) cs b)))
      \<or> (best' = best \<and> (\<forall>x\<in>set (a # el). wrrCurrent (raised (a # el) cs x) \<le> cw))"
      using IH(4) by (auto simp: ra_a split: if_splits)
  qed (use IH in auto)
qed

lemma selectConn_spec:
  assumes ok: "conns_ok m" "stats_ok m" "live_conns m \<noteq> []"
    and b: "\<forall>a\<in>set (eligible m). \<bar>wrrCurrent (cstore m ! a)\<bar> \<le> 2 ^ 61"
    and W: "total_weight (cstore m) (eligible m) \<le> 2 ^ 61"
  obtains b cs where "selectConn m = (m\<lparr>cstore := cs\<rparr>, Some b)" "b \<in> set (eligible m)" "length cs = length (cstore m)"
    "\<forall>a\<in>set (eligible m). wrrCurrent (cstore m ! a) + conn_weight (cstore m ! a)
        \<le> wrrCurrent (cstore m ! b) + conn_weight (cstore m ! b)"
    "\<forall>i<length cs. cs ! i = (cstore m ! i)\<lparr>wrrCurrent := wrrCurrent (cstore m ! i)
        + (if i \<in> set (eligible m) then conn_weight (cstore m ! i) else 0)
        - (if i = b then total_weight (cstore m) (eligible m) else 0)\<rparr>"
proof -
  let ?el = "eligible m" and ?cs = "cstore m" and ?W = "total_weight (cstore m) (eligible m)"
  have el: "distinct ?el" "?el \<noteq> []" "conns m \<noteq> []"
    using ok eligible_distinct by (auto simp: live_conns_def)
  have st: "a < length ?cs \<and> 1 \<le> conn_weight (?cs ! a)" if "a \<in> set ?el" for a
    using that ok eligible_subset [of m] conn_weight_bounds(1) [of "?cs ! a"] by (auto simp: conns_ok_def stats_ok_def)
  have pre: "\<forall>a\<in>set ?el. a < length ?cs \<and> 1 \<le> conn_weight (?cs ! a) \<and> \<bar>wrrCurrent (?cs ! a)\<bar> \<le> 2 ^ 62"
    using st b by fastforce
  have W0: "0 \<le> ?W" using total_weight_nonneg [of ?el ?cs] st by auto
  have wle: "conn_weight (?cs ! a) \<le> ?W" if "a \<in> set ?el" for a
    unfolding total_weight_def using that st by (intro member_le_sum_list) fastforce+
  obtain cs' best' where ps: "swrr_pass ?el ?cs None minInt64 0 = (cs', best', ?W)"
    "length cs' = length ?cs" "\<forall>i<length ?cs. cs' ! i = raised ?el ?cs i"
    and bst: "(\<exists>b\<in>set ?el. best' = Some b \<and> (\<forall>a\<in>set ?el. wrrCurrent (raised ?el ?cs a) \<le> wrrCurrent (raised ?el ?cs b)))
       \<or> (best' = None \<and> (\<forall>a\<in>set ?el. wrrCurrent (raised ?el ?cs a) \<le> minInt64))"
    using swrr_pass_spec [OF el(1) pre, of 0 None minInt64] W by auto
  have "wrrCurrent (raised ?el ?cs a) > minInt64" if "a \<in> set ?el" for a
    using that b st [OF that] by (force simp: raised_def minInt64_def)
  then obtain b where b': "b \<in> set ?el" "best' = Some b"
    "\<forall>a\<in>set ?el. wrrCurrent (raised ?el ?cs a) \<le> wrrCurrent (raised ?el ?cs b)"
    using bst el(2) by (metis list.set_intros(1) neq_Nil_conv not_less)
  have bl: "b < length ?cs" using st b' by auto
  have cb: "wrrCurrent (cs' ! b) = wrrCurrent (?cs ! b) + conn_weight (?cs ! b)"
    using ps(3) bl b' by (simp add: raised_def)
  have i: "i64 (wrrCurrent (cs' ! b) - ?W) = wrrCurrent (cs' ! b) - ?W"
    unfolding cb using b b'(1) W W0 wle [OF b'(1)] st [OF b'(1)] by (intro i64_id) fastforce+
  let ?cs2 = "cs'[b := (cs' ! b)\<lparr>wrrCurrent := wrrCurrent (cs' ! b) - ?W\<rparr>]"
  show thesis
  proof (rule that)
    show "selectConn m = (m\<lparr>cstore := ?cs2\<rparr>, Some b)"
      using el ps b' i by (simp add: selectConn_def)
    show "b \<in> set ?el" "length ?cs2 = length ?cs" using b' ps by auto
    show "\<forall>a\<in>set ?el. wrrCurrent (?cs ! a) + conn_weight (?cs ! a) \<le> wrrCurrent (?cs ! b) + conn_weight (?cs ! b)"
      using b' by (auto simp: raised_def)
    show "\<forall>i<length ?cs2. ?cs2 ! i = (?cs ! i)\<lparr>wrrCurrent := wrrCurrent (?cs ! i)
        + (if i \<in> set ?el then conn_weight (?cs ! i) else 0) - (if i = b then ?W else 0)\<rparr>"
      using ps bl b'(1) cb by (auto simp: nth_list_update raised_def)
  qed
qed

section \<open>A cycle of rounds\<close>

lemma eligible_cong:
  assumes "\<forall>a\<in>set (live_conns m). effLat (cs ! a) = effLat (cstore m ! a)"
  shows "eligible (m\<lparr>cstore := cs\<rparr>) = eligible m"
proof -
  have lc: "live_conns (m\<lparr>cstore := cs\<rparr>) = live_conns m" by (simp add: live_conns_def)
  have "min_latency (m\<lparr>cstore := cs\<rparr>) = min_latency m"
    unfolding min_latency_def lc using assms by (intro foldl_cong) (simp_all add: Let_def)
  then show ?thesis
    using assms unfolding eligible_def lc by (simp add: Let_def cong: filter_cong)
qed

definition after_rounds :: "Mux \<Rightarrow> nat option list \<Rightarrow> nat \<Rightarrow> int" where
  "after_rounds m rs i = int (length rs) * conn_weight (cstore m ! i)
     - total_weight (cstore m) (eligible m) * int (count_list rs (Some i))"

text \<open>The state after some rounds: only current weights have moved, and by how much is determined.\<close>

definition rounds_inv :: "Mux \<Rightarrow> Mux \<Rightarrow> nat option list \<Rightarrow> bool" where
  "rounds_inv m m' rs \<longleftrightarrow> (\<exists>cs. m' = m\<lparr>cstore := cs\<rparr> \<and> length cs = length (cstore m)
     \<and> (\<forall>i<length cs. cs ! i = (cstore m ! i)\<lparr>wrrCurrent := wrrCurrent (cstore m ! i)
           + (if i \<in> set (eligible m) then after_rounds m rs i else 0)\<rparr>))
     \<and> set rs \<subseteq> Some ` set (eligible m)
     \<and> (\<forall>i\<in>set (eligible m). - total_weight (cstore m) (eligible m) < after_rounds m rs i)"

lemma sum_after_rounds:
  assumes "distinct (eligible m)" "set rs \<subseteq> Some ` set (eligible m)"
  shows "(\<Sum>i\<in>set (eligible m). after_rounds m rs i) = 0"
proof -
  let ?E = "set (eligible m)"
  have W: "total_weight (cstore m) (eligible m) = (\<Sum>i\<in>?E. conn_weight (cstore m ! i))"
    using assms(1) by (simp add: total_weight_def sum_list_distinct_conv_sum_set)
  have "(\<Sum>i\<in>?E. count_list rs (Some i)) = (\<Sum>r\<in>Some ` ?E. count_list rs r)"
    by (simp add: sum.reindex)
  also have "\<dots> = length rs" using assms(2) by (intro sum_count_set) auto
  finally have "(\<Sum>i\<in>?E. int (count_list rs (Some i))) = int (length rs)" by (metis of_nat_sum)
  then show ?thesis
    by (simp add: after_rounds_def sum_subtractf W flip: sum_distrib_left)
qed

lemma after_rounds_upper:
  assumes "distinct (eligible m)" "set rs \<subseteq> Some ` set (eligible m)"
    and low: "\<forall>i\<in>set (eligible m). - total_weight (cstore m) (eligible m) < after_rounds m rs i"
    and a: "a \<in> set (eligible m)" and W: "0 \<le> total_weight (cstore m) (eligible m)"
  shows "after_rounds m rs a \<le> int (length (eligible m)) * total_weight (cstore m) (eligible m)"
proof -
  let ?E = "set (eligible m)" and ?W = "total_weight (cstore m) (eligible m)"
  have "after_rounds m rs a + ?W \<le> (\<Sum>i\<in>?E. after_rounds m rs i + ?W)"
    using a low by (intro member_le_sum) (auto simp: add_increasing)
  also have "\<dots> = int (length (eligible m)) * ?W"
    using sum_after_rounds [OF assms(1,2)] assms(1) by (simp add: sum.distrib distinct_card)
  finally show ?thesis using W by simp
qed

text \<open>A start from which a cycle is fair: nothing out of range, and the eligible connections at zero.\<close>

definition fair_start :: "Mux \<Rightarrow> bool" where
  "fair_start m \<longleftrightarrow> conns_ok m \<and> stats_ok m \<and> live_conns m \<noteq> [] \<and> length (conns m) \<le> 2 ^ 15
     \<and> (\<forall>a\<in>set (eligible m). wrrCurrent (cstore m ! a) = 0)"

lemma fair_start_weights:
  assumes "fair_start m"
  shows "\<forall>a\<in>set (eligible m). 1 \<le> conn_weight (cstore m ! a) \<and> conn_weight (cstore m ! a) \<le> 10 ^ 9 \<and> a < length (cstore m)"
    and "0 < total_weight (cstore m) (eligible m)"
    and "int (length (eligible m)) * total_weight (cstore m) (eligible m) \<le> 2 ^ 61"
    and "total_weight (cstore m) (eligible m) \<le> 2 ^ 61"
proof -
  let ?el = "eligible m" and ?W = "total_weight (cstore m) (eligible m)"
  show w: "\<forall>a\<in>set ?el. 1 \<le> conn_weight (cstore m ! a) \<and> conn_weight (cstore m ! a) \<le> 10 ^ 9 \<and> a < length (cstore m)"
    using assms eligible_subset [of m] conn_weight_bounds
    by (auto simp: fair_start_def stats_ok_def conns_ok_def)
  have ne: "?el \<noteq> []" using assms by (simp add: fair_start_def)
  have W1: "int (length ?el) \<le> ?W" using total_weight_nonneg w by auto
  then show W0: "0 < ?W" using ne by (cases ?el) auto
  have len: "int (length ?el) \<le> 2 ^ 15" using assms eligible_length [of m] by (simp add: fair_start_def)
  have "?W \<le> (\<Sum>a\<leftarrow>?el. 10 ^ 9)" unfolding total_weight_def using w by (intro sum_list_mono) auto
  also have "\<dots> = int (length ?el) * 10 ^ 9" by (simp add: sum_list_triv)
  also have "\<dots> \<le> 2 ^ 15 * 10 ^ 9" using len by (intro mult_right_mono) auto
  finally have W: "?W \<le> 2 ^ 15 * 10 ^ 9" .
  then have "int (length ?el) * ?W \<le> 2 ^ 15 * (2 ^ 15 * 10 ^ 9)"
    using len W0 by (intro mult_mono) auto
  then show "int (length ?el) * ?W \<le> 2 ^ 61" by simp
  show "?W \<le> 2 ^ 61" using W by simp
qed

lemma rounds_inv_step:
  assumes f: "fair_start m" and inv: "rounds_inv m m' rs" and sel: "selectConn m' = (m'', r)"
  shows "rounds_inv m m'' (rs @ [r])"
proof -
  let ?el = "eligible m" and ?W = "total_weight (cstore m) (eligible m)"
  note fw = fair_start_weights [OF f]
  have ok: "conns_ok m" "stats_ok m" "live_conns m \<noteq> []" and z: "\<forall>a\<in>set ?el. wrrCurrent (cstore m ! a) = 0"
    using f by (auto simp: fair_start_def)
  have d: "distinct ?el" using ok by (simp add: eligible_distinct)
  from inv obtain cs where m': "m' = m\<lparr>cstore := cs\<rparr>" "length cs = length (cstore m)"
    and cs: "\<forall>i<length cs. cs ! i = (cstore m ! i)\<lparr>wrrCurrent := wrrCurrent (cstore m ! i)
           + (if i \<in> set ?el then after_rounds m rs i else 0)\<rparr>"
    and rs: "set rs \<subseteq> Some ` set ?el" and low: "\<forall>i\<in>set ?el. - ?W < after_rounds m rs i"
    by (auto simp: rounds_inv_def)
  have lv: "a < length cs" if "a \<in> set (live_conns m)" for a using that ok m' by (auto simp: conns_ok_def)
  have el': "eligible m' = ?el" unfolding m'(1) using cs lv by (intro eligible_cong) simp
  have live': "live_conns m' = live_conns m" by (simp add: m' live_conns_def)
  have ok': "conns_ok m'" "stats_ok m'"
    using ok cs lv unfolding conns_ok_def stats_ok_def live' by (simp_all add: m')
  have cw: "conn_weight (cs ! a) = conn_weight (cstore m ! a)" if "a \<in> set ?el" for a
    using that cs lv eligible_subset [of m] by auto
  have cur: "wrrCurrent (cs ! a) = after_rounds m rs a" if "a \<in> set ?el" for a
    using that cs lv eligible_subset [of m] z by auto
  have cm: "cstore m' = cs" by (simp add: m')
  have W': "total_weight cs ?el = ?W"
    unfolding total_weight_def using cw by (simp cong: map_cong)
  have bnd: "\<bar>wrrCurrent (cstore m' ! a)\<bar> \<le> 2 ^ 61" if "a \<in> set (eligible m')" for a
  proof -
    have a: "a \<in> set ?el" using that el' by simp
    have "after_rounds m rs a \<le> int (length ?el) * ?W"
      using a d rs low fw(2) by (intro after_rounds_upper) auto
    then show ?thesis using cur [OF a] low a fw(3,4) by (fastforce simp: m')
  qed
  obtain b cs2 where s: "selectConn m' = (m'\<lparr>cstore := cs2\<rparr>, Some b)" "b \<in> set ?el" "length cs2 = length cs"
    and mx: "\<forall>a\<in>set ?el. wrrCurrent (cs ! a) + conn_weight (cs ! a) \<le> wrrCurrent (cs ! b) + conn_weight (cs ! b)"
    and c2: "\<forall>i<length cs2. cs2 ! i = (cs ! i)\<lparr>wrrCurrent := wrrCurrent (cs ! i)
        + (if i \<in> set ?el then conn_weight (cs ! i) else 0) - (if i = b then ?W else 0)\<rparr>"
    using selectConn_spec [OF ok'] ok(3) bnd fw(4) unfolding live' el' cm W' by metis
  have r: "r = Some b" "m'' = m\<lparr>cstore := cs2\<rparr>" using sel s(1) by (auto simp: m')
  have step: "after_rounds m (rs @ [r]) i = after_rounds m rs i + conn_weight (cstore m ! i) - (if i = b then ?W else 0)" for i
    by (simp add: after_rounds_def r algebra_simps)
  have pos: "0 < after_rounds m rs b + conn_weight (cstore m ! b)"
  proof (rule ccontr)
    assume "\<not> ?thesis"
    then have "after_rounds m rs a + conn_weight (cstore m ! a) \<le> 0" if "a \<in> set ?el" for a
      using mx that cur cw s(2) by fastforce
    then have "(\<Sum>a\<in>set ?el. after_rounds m rs a + conn_weight (cstore m ! a)) \<le> 0" by (intro sum_nonpos) auto
    then have "?W \<le> 0"
      using sum_after_rounds [OF d rs] d by (simp add: sum.distrib total_weight_def sum_list_distinct_conv_sum_set)
    with fw(2) show False by simp
  qed
  have "- ?W < after_rounds m (rs @ [r]) i" if "i \<in> set ?el" for i
    using pos low that fw(1) step [of i] by fastforce
  moreover have "cs2 ! i = (cstore m ! i)\<lparr>wrrCurrent := wrrCurrent (cstore m ! i)
           + (if i \<in> set ?el then after_rounds m (rs @ [r]) i else 0)\<rparr>" if "i < length cs2" for i
    using c2 cs that s(2,3) cw [of i] step [of i] by auto
  ultimately show ?thesis
    using rs r s m' unfolding rounds_inv_def by (intro conjI exI [of _ cs2]) auto
qed

lemma rounds_inv_rounds:
  assumes "fair_start m" "select_rounds n m = (m', rs)"
  shows "rounds_inv m m' rs \<and> length rs = n"
  using assms(2)
proof (induction n arbitrary: m' rs)
  case 0
  then show ?case using fair_start_weights(2) [OF assms(1)]
    by (auto simp: rounds_inv_def after_rounds_def intro!: exI [of _ "cstore m"])
next
  case (Suc n)
  obtain m1 rs1 where 1: "select_rounds n m = (m1, rs1)" by fastforce
  obtain m2 r where 2: "selectConn m1 = (m2, r)" by fastforce
  from Suc.IH [OF 1] rounds_inv_step [OF assms(1) _ 2] Suc.prems 1 2 show ?case by auto
qed

lemma min_latency_le:
  assumes "\<forall>a\<in>set as. 0 < effLat (cs ! a)" "0 \<le> x"
  shows "let r = foldl (\<lambda>minLat a. let lat = effLat (cs ! a) in if minLat = 0 \<or> lat < minLat then lat else minLat) x as
    in (\<forall>a\<in>set as. r \<le> effLat (cs ! a)) \<and> (x = 0 \<or> r \<le> x) \<and> 0 \<le> r \<and> (r = x \<or> (\<exists>a\<in>set as. r = effLat (cs ! a)))"
  using assms
proof (induction as arbitrary: x)
  case (Cons a as)
  let ?y = "if x = 0 \<or> effLat (cs ! a) < x then effLat (cs ! a) else x"
  have "0 < effLat (cs ! a)" "0 \<le> ?y" "?y \<noteq> 0" using Cons.prems by auto
  with Cons.IH [of ?y] Cons.prems show ?case by (simp add: Let_def) force
qed (simp add: Let_def)

lemma eligible_fast:
  assumes "stats_ok m" "b \<in> set (eligible m)" "a \<in> set (live_conns m)"
  shows "effLat (cstore m ! b) \<le> 3 * effLat (cstore m ! a)"
proof -
  have pos: "\<forall>a\<in>set (live_conns m). 0 < effLat (cstore m ! a)" "\<forall>a\<in>set (live_conns m). effLat (cstore m ! a) < 2 ^ 61"
    using assms(1) by (auto simp: stats_ok_def effLat_def)
  have r: "\<forall>a\<in>set (live_conns m). min_latency m \<le> effLat (cstore m ! a)" "0 \<le> min_latency m"
    "min_latency m = 0 \<or> (\<exists>a\<in>set (live_conns m). min_latency m = effLat (cstore m ! a))"
    using min_latency_le [OF pos(1), of 0] by (auto simp: min_latency_def Let_def)
  have "min_latency m < 2 ^ 61" using r pos(2) by auto
  then have t: "i64 (min_latency m * 3) = min_latency m * 3" using r(2) by (intro i64_id) auto
  obtain c where c: "c \<in> set (live_conns m)" "min_latency m = effLat (cstore m ! c)"
  proof (cases "min_latency m = 0")
    case True
    have "min_latency m \<noteq> 0"
    proof (cases "live_conns m")
      case (Cons x xs)
      let ?e = "effLat (cstore m ! x)"
      have "0 < ?e" using pos Cons by simp
      then show ?thesis
        using min_latency_le [of xs "cstore m" ?e] pos Cons by (auto simp: min_latency_def Let_def)
    qed (use assms in simp)
    with True show ?thesis by simp
  qed (use r that in auto)
  then have "c \<in> set (filter (\<lambda>a. effLat (cstore m ! a) \<le> i64 (min_latency m * 3)) (live_conns m))"
    using t r(2) by auto
  then have "filter (\<lambda>a. effLat (cstore m ! a) \<le> i64 (min_latency m * 3)) (live_conns m) \<noteq> []"
    by (metis empty_iff empty_set)
  then have "eligible m = filter (\<lambda>a. effLat (cstore m ! a) \<le> i64 (min_latency m * 3)) (live_conns m)"
    by (auto simp: eligible_def Let_def)
  then have "effLat (cstore m ! b) \<le> min_latency m * 3" using assms(2) t by simp
  then show ?thesis using r(1) assms(3) by fastforce
qed

lemma total_weight_le:
  assumes "conns_ok m" "stats_ok m" "length (conns m) \<le> 2 ^ 15"
  shows "total_weight (cstore m) (eligible m) \<le> 2 ^ 15 * 10 ^ 9"
proof -
  have "total_weight (cstore m) (eligible m) \<le> (\<Sum>a\<leftarrow>eligible m. 10 ^ 9)"
    unfolding total_weight_def
    using assms eligible_subset [of m] conn_weight_bounds(2) by (intro sum_list_mono) (auto simp: stats_ok_def)
  also have "\<dots> = int (length (eligible m)) * 10 ^ 9" by (simp add: sum_list_triv)
  also have "\<dots> \<le> 2 ^ 15 * 10 ^ 9" using eligible_length [of m] assms(3) by (intro mult_right_mono) auto
  finally show ?thesis .
qed

text \<open>Two connections with latencies 500 ms and 333 ms: weights 2 and 3.\<close>

definition two_conns :: Mux where
  "two_conns = (New False 0 2)\<lparr>cstore := [(new_muxConn 0 0)\<lparr>latency := 500000000\<rparr>,
     (new_muxConn 1 0)\<lparr>latency := 333000000\<rparr>]\<rparr>"

lemma two_conns_simps [simp]:
  "live_conns two_conns = [0, 1]" "conns two_conns = [Some 0, Some 1]"
  "cstore two_conns = [(new_muxConn 0 0)\<lparr>latency := 500000000\<rparr>, (new_muxConn 1 0)\<lparr>latency := 333000000\<rparr>]"
  by (simp_all add: two_conns_def New_def live_conns_def upt_rec)

lemma two_conns_weights:
  "eligible two_conns = [0, 1]" "conn_weight (cstore two_conns ! 0) = 2" "conn_weight (cstore two_conns ! 1) = 3"
  "total_weight (cstore two_conns) [0, 1] = 5"
  by (simp_all add: eligible_def min_latency_def effLat_def conn_weight_def total_weight_def quot64_pos
      new_muxConn_def)

lemma two_conns_ok: "conns_ok two_conns" "stats_ok two_conns" "fair_start two_conns"
  by (simp_all add: conns_ok_def stats_ok_def fair_start_def two_conns_weights(1) new_muxConn_def)

section \<open>Properties\<close>

text \<open>
  C12: over a full cycle of \<^verbatim>\<open>selectConn\<close> calls, as many as the weights of the eligible connections
  add up to, each eligible connection is chosen exactly as many times as its weight (one per nanosecond
  of inverse latency, less ten per error), no other connection is chosen, and every current weight is
  back at its value before the cycle.
\<close>

theorem selectConn_fair:
  assumes "fair_start m"
  shows "\<exists>rs. select_rounds (nat (total_weight (cstore m) (eligible m))) m = (m, rs)
    \<and> set rs \<subseteq> Some ` set (eligible m)
    \<and> (\<forall>a\<in>set (eligible m). int (count_list rs (Some a)) = conn_weight (cstore m ! a))"
proof -
  let ?el = "eligible m" and ?W = "total_weight (cstore m) (eligible m)"
  obtain m' rs where r: "select_rounds (nat ?W) m = (m', rs)" by fastforce
  note fw = fair_start_weights [OF assms]
  have d: "distinct ?el" using assms by (simp add: eligible_distinct fair_start_def)
  from rounds_inv_rounds [OF assms r] have inv: "rounds_inv m m' rs" and len: "int (length rs) = ?W"
    using fw(2) by auto
  then have rs: "set rs \<subseteq> Some ` set ?el" and low: "\<forall>i\<in>set ?el. - ?W < after_rounds m rs i"
    by (auto simp: rounds_inv_def)
  have ar: "after_rounds m rs i = ?W * (conn_weight (cstore m ! i) - int (count_list rs (Some i)))" for i
    by (simp add: after_rounds_def len algebra_simps)
  have le: "int (count_list rs (Some i)) \<le> conn_weight (cstore m ! i)" if "i \<in> set ?el" for i
  proof -
    have "?W * (- 1) < ?W * (conn_weight (cstore m ! i) - int (count_list rs (Some i)))"
      using low that unfolding ar by simp
    then have "- 1 < conn_weight (cstore m ! i) - int (count_list rs (Some i))"
      using fw(2) by (simp only: mult_less_cancel_left_pos)
    then show ?thesis by simp
  qed
  have eq: "(\<Sum>i\<in>set ?el. int (count_list rs (Some i))) = (\<Sum>i\<in>set ?el. conn_weight (cstore m ! i))"
    using sum_after_rounds [OF d rs] fw(2) unfolding ar by (simp add: sum_subtractf flip: sum_distrib_left)
  have cnt: "int (count_list rs (Some a)) = conn_weight (cstore m ! a)" if "a \<in> set ?el" for a
    using sum_mono_inv [OF eq le] that by auto
  then have z: "(if i \<in> set ?el then after_rounds m rs i else 0) = 0" for i by (simp add: ar)
  from inv obtain cs where m': "m' = m\<lparr>cstore := cs\<rparr>" "length cs = length (cstore m)"
    "\<forall>i<length cs. cs ! i = (cstore m ! i)\<lparr>wrrCurrent := wrrCurrent (cstore m ! i)\<rparr>"
    unfolding rounds_inv_def z by auto
  then have "cs = cstore m" by (auto intro!: nth_equalityI)
  then have "m' = m" using m' by simp
  with r rs cnt show ?thesis by auto
qed

theorem selectConn_fair_witness:
  "\<exists>rs. select_rounds 5 two_conns = (two_conns, rs)
    \<and> set rs \<subseteq> Some ` {0, 1} \<and> count_list rs (Some 0) = 2 \<and> count_list rs (Some 1) = 3"
  using selectConn_fair [OF two_conns_ok(3)] two_conns_weights by (auto simp del: two_conns_simps)

text \<open>
  a connection is chosen if and only if there is a live one, and the chosen connection is never
  slower than three times the fastest live connection (unmeasured ones counting as 1 ms).
\<close>

theorem selectConn_choice:
  assumes "conns_ok m" "stats_ok m" "length (conns m) \<le> 2 ^ 15"
    and "\<forall>a\<in>set (live_conns m). \<bar>wrrCurrent (cstore m ! a)\<bar> \<le> 2 ^ 61"
  shows "case snd (selectConn m) of
           None \<Rightarrow> live_conns m = []
         | Some b \<Rightarrow> b \<in> set (live_conns m)
             \<and> (\<forall>a\<in>set (live_conns m). effLat (cstore m ! b) \<le> 3 * effLat (cstore m ! a))"
proof (cases "live_conns m = []")
  case True
  then have "eligible m = []" by simp
  with True show ?thesis by (simp add: selectConn_def del: eligible_Nil)
next
  case False
  have "total_weight (cstore m) (eligible m) \<le> 2 ^ 61"
    using total_weight_le [OF assms(1,2,3)] by simp
  then obtain b cs where b: "selectConn m = (m\<lparr>cstore := cs\<rparr>, Some b)" "b \<in> set (eligible m)"
    using selectConn_spec [OF assms(1,2) False] assms(4) eligible_subset by (metis subsetD)
  then show ?thesis using eligible_fast [OF assms(2)] eligible_subset by auto
qed

end
