(* ===== verification/Mux_Conns.thy ===== *)
theory Mux_Conns
  imports Mux_State
begin

text \<open>
  The life of connections in \<^verbatim>\<open>internal/mux/mux.go\<close>: the loops that read and write them, keepalive and
  latency measurement, adding, rotating and removing them, the closing of streams and the shutdown of
  the multiplexer.  Each definition is one call or one iteration of a loop.
\<close>

section \<open>64-bit floating point\<close>

text \<open>
  The moving average and the degradation test compute in \<^verbatim>\<open>float64\<close>.  A value is an integer at a fixed
  scale \<open>2 ^ -54\<close>; \<open>rnd53\<close> rounds to 53 significant bits, half to even, which is what IEEE 754 binary64
  does to such a value.  0.7 and 0.3 are the nearest doubles, 6305039478318694 / 2^53 and
  5404319552844595 / 2^54.
\<close>

fun bitlen :: "nat \<Rightarrow> nat" where
  "bitlen n = (if n = 0 then 0 else Suc (bitlen (n div 2)))"

declare bitlen.simps [simp del]

definition round_half_even :: "int \<Rightarrow> int \<Rightarrow> int" where
  "round_half_even x d =
     (let q = x div d; r = x mod d
      in if 2 * r < d \<or> (2 * r = d \<and> even q) then q else q + 1)"

definition rnd53 :: "int \<Rightarrow> int" where
  "rnd53 x =
     (let e = bitlen (nat \<bar>x\<bar>) - 53
      in sgn x * (round_half_even \<bar>x\<bar> (2 ^ e) * 2 ^ e))"

definition f0_7 :: int where "f0_7 = 2 * 6305039478318694"
definition f0_3 :: int where "f0_3 = 5404319552844595"

text \<open>\<^verbatim>\<open>int64(x)\<close> of a float at scale \<open>2 ^ -54\<close>: truncation towards zero.\<close>

definition trunc54 :: "int \<Rightarrow> int" where
  "trunc54 x = sgn x * (\<bar>x\<bar> div 2 ^ 54)"

definition ema :: "int \<Rightarrow> int \<Rightarrow> int" where
  "ema old rtt = trunc54 (rnd53 (rnd53 (rnd53 old * f0_7) + rnd53 (rnd53 rtt * f0_3)))"

section \<open>Latency and striping decisions\<close>

definition UpdateLatency :: "int \<Rightarrow> int \<Rightarrow> Mux \<Rightarrow> Mux" where
  "UpdateLatency idx rtt m =
     (if idx < 0 \<or> idx \<ge> int (length (conns m)) then m
      else case conns m ! nat idx of
             None \<Rightarrow> m
           | Some a \<Rightarrow>
               upd_conn a (\<lambda>c. if latency c = 0 then c\<lparr>latency := rtt\<rparr>
                               else c\<lparr>latency := ema (latency c) rtt\<rparr>) m)"

definition stripeSaturationThreshold :: int where
  "stripeSaturationThreshold = 500000"

text \<open>The measuring loop of \<^verbatim>\<open>evalAdaptiveStriping\<close>: the new store, the total and the best rate.\<close>

fun measure_conns :: "nat list \<Rightarrow> muxConn list \<Rightarrow> int \<Rightarrow> int \<Rightarrow> muxConn list \<times> int \<times> int" where
  "measure_conns [] cs totalBps bestBps = (cs, totalBps, bestBps)"
| "measure_conns (a # as) cs totalBps bestBps =
     (let sent = bytesSent (cs ! a);
          prev = prevSent (cs ! a);
          bps0 = quot64 (i64 (i64 (sent - prev) * 10 ^ 9)) (10 * 10 ^ 9);
          bps = (if bps0 < 0 then 0 else bps0)
      in measure_conns as (cs[a := (cs ! a)\<lparr>prevSent := sent\<rparr>]) (i64 (totalBps + bps))
           (if bps > bestBps then bps else bestBps))"

definition evalAdaptiveStriping :: "Mux \<Rightarrow> Mux" where
  "evalAdaptiveStriping m =
     (if \<not> disableStriping m then m
      else if TotalConns m \<le> 1 then m
      else
        let (cs, totalBps, bestBps) = measure_conns (live_conns m) (cstore m) 0 0;
            m1 = m\<lparr>cstore := cs\<rparr>
        in if \<not> adaptiveStripe m1 then
             (if bestBps > stripeSaturationThreshold
              then m1\<lparr>prevThroughput := totalBps, adaptiveStripe := True\<rparr> else m1)
           else
             (let prevBps = prevThroughput m1
              in if prevBps > 0 \<and> totalBps < trunc54 (rnd53 (rnd53 prevBps * f0_7))
                 then m1\<lparr>adaptiveStripe := False\<rparr>
                 else if totalBps > 0 then m1\<lparr>prevThroughput := totalBps\<rparr> else m1))"

section \<open>Keepalive\<close>

text \<open>One tick of \<^verbatim>\<open>StartPingLoop\<close>; slot numbers count from the first argument.\<close>

fun ping_slots :: "write_oracle \<Rightarrow> int \<Rightarrow> nat \<Rightarrow> nat option list \<Rightarrow> Mux \<Rightarrow> Mux" where
  "ping_slots wok now i [] m = m"
| "ping_slots wok now i (None # cs) m = ping_slots wok now (Suc i) cs m"
| "ping_slots wok now i (Some a # cs) m =
     (let (m1, s) = NextSeq m;
          p = encodePingPayload now (int i);
          f = \<lparr>StreamID = 0, Type = FramePing, Sequence = s, Length = of_nat (length p), Payload = p, connIdx = 0\<rparr>
      in case MarshalBinary f of
           Inl e \<Rightarrow> ping_slots wok now (Suc i) cs m1
         | Inr d \<Rightarrow> ping_slots wok now (Suc i) cs (fst (conn_write wok a d m1)))"

definition ping_tick :: "write_oracle \<Rightarrow> int \<Rightarrow> Mux \<Rightarrow> Mux" where
  "ping_tick wok now m = ping_slots wok now 0 (conns m) m"

definition ProbeConnections :: "write_oracle \<Rightarrow> Mux \<Rightarrow> Mux" where
  "ProbeConnections wok m =
     (let (m1, s) = NextSeq m;
          f = \<lparr>StreamID = 0, Type = FramePing, Sequence = s, Length = 0, Payload = [], connIdx = 0\<rparr>
      in case MarshalBinary f of
           Inl e \<Rightarrow> m1
         | Inr d \<Rightarrow> foldl (\<lambda>m a. fst (conn_write wok a d m)) m1 (live_conns m1))"

section \<open>Adding and rotating connections\<close>

fun first_free :: "nat option list \<Rightarrow> nat option" where
  "first_free [] = None"
| "first_free (None # cs) = Some 0"
| "first_free (Some a # cs) = map_option Suc (first_free cs)"

definition AddConn :: "int \<Rightarrow> Mux \<Rightarrow> Mux" where
  "AddConn now m =
     (let a = length (cstore m);
          (idx, conns') = (case first_free (conns m) of
                             Some i \<Rightarrow> (i, (conns m)[i := Some a])
                           | None \<Rightarrow> (length (conns m), conns m @ [Some a]));
          mc = (new_muxConn (int idx) now)\<lparr>createdAt := now\<rparr>
      in m\<lparr>conns := conns', cstore := cstore m @ [mc], activeReaders := activeReaders m + 1\<rparr>)"

text \<open>The scan of \<^verbatim>\<open>CloseOldestConn\<close>: oldest connection, its age, number alive.\<close>

fun oldest_conn :: "int \<Rightarrow> muxConn list \<Rightarrow> nat list \<Rightarrow> nat option \<times> int \<times> int \<Rightarrow> nat option \<times> int \<times> int" where
  "oldest_conn now cs [] r = r"
| "oldest_conn now cs (a # as) (oldest, oldestAge, alive) =
     (let age = i64 (now - createdAt (cs ! a))
      in if age > oldestAge then oldest_conn now cs as (Some a, age, alive + 1)
         else oldest_conn now cs as (oldest, oldestAge, alive + 1))"

definition CloseOldestConn :: "int \<Rightarrow> int \<Rightarrow> int \<Rightarrow> Mux \<Rightarrow> Mux \<times> bool" where
  "CloseOldestConn now maxAge minAlive m =
     (let (oldest, oldestAge, alive) = oldest_conn now (cstore m) (live_conns m) (None, 0, 0)
      in case oldest of
           None \<Rightarrow> (m, False)
         | Some a \<Rightarrow>
             if alive \<le> minAlive \<or> oldestAge < maxAge then (m, False)
             else (upd_conn a (\<lambda>c. c\<lparr>connClosed := True\<rparr>) m, True))"

section \<open>Closing streams, removing connections, shutting down\<close>

definition recvCap :: nat where "recvCap = 1024"

text \<open>
  \<^verbatim>\<open>closeStream\<close>.  The drain of the reorder buffer waits at most 100 ms for room in the channel; here
  no reader makes room while it waits, so what does not fit is lost.
\<close>

definition closeStream :: "nat \<Rightarrow> Mux \<Rightarrow> Mux" where
  "closeStream p m =
     (let s = sstore m ! p
      in if s_closed s then m
         else
           let (rb, ds) = (case reorder s of None \<Rightarrow> (None, []) | Some b \<Rightarrow> (let (b', ds) = FlushAll b in (Some b', ds)));
               s' = s\<lparr>s_closed := True, doneClosed := True, reorder := rb,
                      recv := recv s @ take (recvCap - length (recv s)) ds, recvClosed := True\<rparr>
           in m\<lparr>sstore := (sstore m)[p := s'], streams := AList.delete (s_ID s) (streams m),
                streamCount := streamCount m - 1\<rparr>)"

fun retransmit :: "write_oracle \<Rightarrow> bytes option list \<Rightarrow> Mux \<Rightarrow> Mux" where
  "retransmit wok [] m = m"
| "retransmit wok (d # ds) m =
     (let (m1, mc) = selectConn m
      in case mc of
           None \<Rightarrow> m1
         | Some a \<Rightarrow> retransmit wok ds (fst (conn_write wok a (case d of None \<Rightarrow> [] | Some b \<Rightarrow> b) m1)))"

definition stale_gap :: "int \<Rightarrow> Mux \<Rightarrow> nat \<Rightarrow> bool" where
  "stale_gap now m p =
     (case reorder (sstore m ! p) of
        None \<Rightarrow> False
      | Some b \<Rightarrow> Len b > 0 \<and> GapTimedOut now reorderGapTimeout b)"

definition RemoveConn :: "write_oracle \<Rightarrow> int \<Rightarrow> int \<Rightarrow> Mux \<Rightarrow> Mux" where
  "RemoveConn wok now idx m =
     (let (m1, deadConn) = (if 0 \<le> idx \<and> idx < int (length (conns m))
                            then (m\<lparr>conns := (conns m)[nat idx := None]\<rparr>, conns m ! nat idx)
                            else (m, None))
      in case deadConn of
           None \<Rightarrow> m1
         | Some a \<Rightarrow>
             let (frames, ring) = ring_Drain (rtxRing (cstore m1 ! a));
                 m2 = upd_conn a (\<lambda>c. c\<lparr>rtxRing := ring\<rparr>) m1;
                 m3 = retransmit wok frames m2
             in foldl (\<lambda>m p. if stale_gap now m p then closeStream p m else m) m3 (map snd (streams m3)))"

definition BeginReconnect :: "Mux \<Rightarrow> Mux" where
  "BeginReconnect m = m\<lparr>reconnecting := reconnecting m + 1\<rparr>"

definition EndReconnect :: "Mux \<Rightarrow> Mux" where
  "EndReconnect m =
     (let m1 = m\<lparr>reconnecting := reconnecting m - 1\<rparr>
      in if reconnecting m1 \<le> 0 \<and> activeReaders m1 = 0
         then m1\<lparr>allDead := True, inFramesClosed := True\<rparr> else m1)"

definition connDiedCap :: nat where "connDiedCap = 32"

text \<open>
  What \<^verbatim>\<open>readLoop\<close> defers: the connection is closed, its write channel closed (the write loop has
  drained it by then), the slot freed, its index announced if there is room, and the last reader shuts
  the multiplexer down unless a reconnect is in progress.
\<close>

definition reader_exit :: "write_oracle \<Rightarrow> int \<Rightarrow> int \<Rightarrow> nat \<Rightarrow> Mux \<Rightarrow> Mux" where
  "reader_exit wok now idx a m =
     (let m1 = upd_conn a (\<lambda>c. c\<lparr>connClosed := True, writeChClosed := True\<rparr>) m;
          m2 = RemoveConn wok now idx m1;
          m3 = (if length (connDied m2) < connDiedCap then m2\<lparr>connDied := connDied m2 @ [idx]\<rparr> else m2);
          m4 = m3\<lparr>activeReaders := activeReaders m3 - 1\<rparr>
      in if activeReaders m4 = 0 \<and> reconnecting m4 = 0
         then m4\<lparr>allDead := True, inFramesClosed := True\<rparr> else m4)"

definition inFramesCap :: nat where "inFramesCap = 256"

text \<open>
  One frame read by \<^verbatim>\<open>readLoop\<close>: counted and passed to the dispatcher.  The second component tells
  whether the loop goes on; \<open>None\<close> is a send that waits for room.  A send on the closed channel panics
  and is recovered into a failed send; when both cases of the \<^verbatim>\<open>select\<close> are ready, \<open>pick\<close> is the choice.
\<close>

definition read_step :: "bool \<Rightarrow> int \<Rightarrow> int \<Rightarrow> nat \<Rightarrow> Frame \<Rightarrow> Mux \<Rightarrow> (Mux \<times> bool) option" where
  "read_step pick now idx a f m =
     (let m1 = upd_conn a (\<lambda>c. c\<lparr>bytesRecv := i64 (bytesRecv c + int (headerSize + length (Payload f))),
                                 lastUsed := now\<rparr>) m
      in if inFramesClosed m1 then Some (m1, False)
         else if length (inFrames m1) < inFramesCap \<and> (\<not> ctxDone m1 \<or> pick)
           then Some (m1\<lparr>inFrames := inFrames m1 @ [f\<lparr>connIdx := idx\<rparr>]\<rparr>, True)
         else if ctxDone m1 then Some (m1, False)
         else None)"

definition wg_Done :: "nat list \<Rightarrow> Mux \<Rightarrow> Mux" where
  "wg_Done ps m = foldl (\<lambda>m p. upd_stream p (\<lambda>s. s\<lparr>inflight := inflight s - 1\<rparr>) m) m ps"

text \<open>One iteration of \<^verbatim>\<open>writeLoop\<close> on a channel that holds something: the batch is one \<^verbatim>\<open>Write\<close>.\<close>

definition write_step :: "write_oracle \<Rightarrow> int \<Rightarrow> nat \<Rightarrow> Mux \<Rightarrow> Mux" where
  "write_step wok now a m =
     (case writeCh (cstore m ! a) of
        [] \<Rightarrow> m
      | req # ch \<Rightarrow>
          let (batch, rest) = next_batch (fst req) (map fst ch);
              n = length batch;
              d = concat batch;
              m1 = upd_conn a (\<lambda>c. c\<lparr>writeCh := drop n (writeCh c)\<rparr>) m;
              (m2, ok) = conn_write wok a d m1;
              m3 = wg_Done (map snd (take n (req # ch))) m2
          in if ok then count_sent now a d m3 else count_error a m3)"

definition Mux_Close :: "Mux \<Rightarrow> Mux" where
  "Mux_Close m =
     (let m1 = m\<lparr>ctxDone := True, inFramesClosed := True, rawPackets := map_option raw_Close (rawPackets m),
                 acceptClosed := (acceptedStreams m \<noteq> None \<or> acceptClosed m)\<rparr>
      in foldl (\<lambda>m a. upd_conn a (\<lambda>c. c\<lparr>connClosed := True\<rparr>) m) m1 (live_conns m1))"

end
