(* ===== verification/Mux_Stream.thy ===== *)
theory Mux_Stream
  imports Mux_Conns
begin

text \<open>
  Streams of the multiplexer (\<^verbatim>\<open>internal/mux/mux.go\<close>): opening and accepting, dispatch of received
  frames, the dispatcher's handling of one frame, and a stream's \<^verbatim>\<open>Write\<close>, \<^verbatim>\<open>Read\<close> and \<^verbatim>\<open>Close\<close>.

  An operation returns, waits on a channel or a wait group (\<open>Blocks\<close> with the state it has reached),
  or panics.  Where a \<^verbatim>\<open>select\<close> has two ready cases, the argument \<open>pick\<close> is Go's random choice.
\<close>

datatype ('s, 'a) outcome = Ret 's 'a | Blocks 's | Panics panic

definition stripSeqSize :: nat where "stripSeqSize = 4"

section \<open>Delivery to a stream\<close>

text \<open>\<^verbatim>\<open>select { case s.recv <- d: ... case <-s.done: ... }\<close>: whether the element was sent.\<close>

definition recv_send :: "bool \<Rightarrow> bytes \<Rightarrow> Stream \<Rightarrow> (Stream, bool) outcome" where
  "recv_send pick d s =
     (if (recvClosed s \<or> length (recv s) < recvCap) \<and> (\<not> doneClosed s \<or> pick) then
        (if recvClosed s then Panics SendOnClosedChannel else Ret (s\<lparr>recv := recv s @ [d]\<rparr>) True)
      else if doneClosed s then Ret s False
      else Blocks s)"

fun send_flushed :: "bool \<Rightarrow> bytes list \<Rightarrow> Stream \<Rightarrow> (Stream, bool) outcome" where
  "send_flushed pick [] s = Ret s True"
| "send_flushed pick (d # ds) s =
     (case recv_send pick d s of
        Ret s' ok \<Rightarrow> (if ok then send_flushed pick ds s' else Ret s' False)
      | Blocks s' \<Rightarrow> Blocks s'
      | Panics e \<Rightarrow> Panics e)"

definition dispatchStriped :: "bool \<Rightarrow> int \<Rightarrow> nat \<Rightarrow> reorderBuffer \<Rightarrow> Frame \<Rightarrow> Mux \<Rightarrow> (Mux, unit) outcome" where
  "dispatchStriped pick now p rb f m =
     (if length (Payload f) < stripSeqSize then Ret m ()
      else
        let seq = Uint32 (bslice 0 stripSeqSize (Payload f));
            (rb', flushed) = Insert now seq (drop stripSeqSize (Payload f)) rb
        in case send_flushed pick flushed ((sstore m ! p)\<lparr>reorder := Some rb'\<rparr>) of
             Panics e \<Rightarrow> Panics e
           | Blocks s \<Rightarrow> Blocks (upd_stream p (\<lambda>_. s) m)
           | Ret s ok \<Rightarrow>
               (let m1 = upd_stream p (\<lambda>_. s) m
                in if \<not> ok then Ret m1 ()
                   else if Overflowed rb' \<or> GapTimedOut now reorderGapTimeout rb' then Ret (closeStream p m1) ()
                   else if closePending s \<and> Len rb' = 0 then Ret (closeStream p m1) ()
                   else Ret m1 ()))"

definition dispatch :: "bool \<Rightarrow> int \<Rightarrow> Frame \<Rightarrow> Mux \<Rightarrow> (Mux, unit) outcome" where
  "dispatch pick now f m =
     (case map_of (streams m) (StreamID f) of
        None \<Rightarrow> Ret m ()
      | Some p \<Rightarrow>
          let s = sstore m ! p
          in if Type f = FrameData then
               (case (striping s, reorder s) of
                  (True, Some rb) \<Rightarrow> dispatchStriped pick now p rb f m
                | _ \<Rightarrow>
                   (case recv_send pick (Payload f) s of
                      Ret s' ok \<Rightarrow> Ret (upd_stream p (\<lambda>_. s') m) ()
                    | Blocks s' \<Rightarrow> Blocks m
                    | Panics e \<Rightarrow> Panics e))
             else if Type f = FrameClose then
               (case (striping s, reorder s) of
                  (True, Some rb) \<Rightarrow>
                    if Len rb > 0 then Ret (upd_stream p (\<lambda>s. s\<lparr>closePending := True\<rparr>) m) ()
                    else Ret (closeStream p m) ()
                | _ \<Rightarrow> Ret (closeStream p m) ())
             else Ret m ())"

section \<open>Opening and accepting streams\<close>

definition add_stream :: "Stream \<Rightarrow> Mux \<Rightarrow> Mux \<times> nat" where
  "add_stream s m =
     (m\<lparr>sstore := sstore m @ [s], streamCount := streamCount m + 1,
        streams := AList.update (s_ID s) (length (sstore m)) (streams m)\<rparr>, length (sstore m))"

definition ctl_frame :: "u32 \<Rightarrow> byte \<Rightarrow> u32 \<Rightarrow> Frame" where
  "ctl_frame i t sq = \<lparr>StreamID = i, Type = t, Sequence = sq, Length = 0, Payload = [], connIdx = 0\<rparr>"

text \<open>A stream whose open frame could not be sent is not referenced any more.\<close>

definition OpenStream :: "write_oracle \<Rightarrow> int \<Rightarrow> u32 \<Rightarrow> Mux \<Rightarrow> Mux \<times> (mux_error + nat)" where
  "OpenStream wok now i m =
     (let (m1, assigned) = selectConn m;
          (m2, p) = add_stream (new_Stream i assigned (shouldStripe m1)) m1;
          (m3, sq) = NextSeq m2;
          (m4, err) = sendFrameOn wok now assigned (ctl_frame i FrameOpen sq) m3
      in case err of
           None \<Rightarrow> (m4, Inr p)
         | Some e \<Rightarrow> (m4\<lparr>streams := AList.delete i (streams m4), streamCount := streamCount m4 - 1,
                         sstore := butlast (sstore m4)\<rparr>, Inl e))"

definition max_streams_reached :: "Mux \<Rightarrow> bool" where
  "max_streams_reached m \<longleftrightarrow> maxStreams m > 0 \<and> streamCount m \<ge> maxStreams m"

text \<open>
  The loop of \<^verbatim>\<open>AcceptStream\<close> on the frames in the channel: a new stream, an error, or waiting for more.
\<close>

fun accept_frames :: "bool \<Rightarrow> int \<Rightarrow> Frame list \<Rightarrow> Mux \<Rightarrow> (Mux, mux_error + nat) outcome" where
  "accept_frames pick now [] m = (if inFramesClosed m then Ret (m\<lparr>inFrames := []\<rparr>) (Inl MuxClosed) else Blocks (m\<lparr>inFrames := []\<rparr>))"
| "accept_frames pick now (f # fs) m =
     (if Type f = FrameOpen then
        (if max_streams_reached m then accept_frames pick now fs m
         else let (m1, p) = add_stream (new_Stream (StreamID f) None (shouldStripe m)) m
              in Ret (m1\<lparr>inFrames := fs\<rparr>) (Inr p))
      else case dispatch pick now f m of
             Ret m1 _ \<Rightarrow> accept_frames pick now fs m1
           | Blocks m1 \<Rightarrow> Blocks (m1\<lparr>inFrames := fs\<rparr>)
           | Panics e \<Rightarrow> Panics e)"

definition AcceptStream :: "bool \<Rightarrow> int \<Rightarrow> Mux \<Rightarrow> (Mux, mux_error + nat) outcome" where
  "AcceptStream pick now m = accept_frames pick now (inFrames m) m"

section \<open>The dispatcher\<close>

text \<open>Replay of the frames that arrived before the open frame.\<close>

fun replay :: "bool \<Rightarrow> int \<Rightarrow> Frame list \<Rightarrow> Mux \<Rightarrow> (Mux, unit) outcome" where
  "replay pick now [] m = Ret m ()"
| "replay pick now (f # fs) m =
     (case dispatch pick now f m of
        Ret m1 _ \<Rightarrow> replay pick now fs m1
      | Blocks m1 \<Rightarrow> Blocks m1
      | Panics e \<Rightarrow> Panics e)"

type_synonym pending = "(u32 \<times> Frame list) list"

definition dispatch_ping :: "write_oracle \<Rightarrow> int \<Rightarrow> Frame \<Rightarrow> Mux \<Rightarrow> Mux" where
  "dispatch_ping wok now f m =
     (let (m1, sq) = NextSeq m;
          pong = \<lparr>StreamID = 0, Type = FramePong, Sequence = sq, Length = of_nat (length (Payload f)),
                  Payload = Payload f, connIdx = 0\<rparr>;
          mc = (if 0 \<le> connIdx f \<and> connIdx f < int (length (conns m1)) then conns m1 ! nat (connIdx f) else None)
      in fst (sendFrameOn wok now mc pong m1))"

definition dispatch_pong :: "int \<Rightarrow> Frame \<Rightarrow> Mux \<Rightarrow> Mux" where
  "dispatch_pong now f m =
     (let m1 = m\<lparr>lastPongAt := now\<rparr>
      in case decodePingPayload (Payload f) of
           None \<Rightarrow> m1
         | Some (ts, idx) \<Rightarrow>
             let rtt = i64 (now - ts)
             in if rtt > 0 \<and> rtt < 30 * 10 ^ 9 then UpdateLatency idx rtt m1 else m1)"

definition dispatch_open :: "bool \<Rightarrow> int \<Rightarrow> pending \<Rightarrow> Frame \<Rightarrow> Mux \<Rightarrow> (Mux, pending) outcome" where
  "dispatch_open pick now pend f m =
     (if max_streams_reached m then Ret m pend
      else
        let strip = shouldStripe m;
            (m1, assigned) = selectConn m;
            (m2, p) = add_stream (new_Stream (StreamID f) assigned strip) m1;
            m3 = (case acceptedStreams m2 of
                    None \<Rightarrow> m2
                  | Some (n, q) \<Rightarrow> if length q < n then m2\<lparr>acceptedStreams := Some (n, q @ [p])\<rparr> else m2)
        in if acceptedStreams m2 \<noteq> None \<and> acceptClosed m2 then Panics SendOnClosedChannel
           else case map_of pend (StreamID f) of
                  None \<Rightarrow> Ret m3 pend
                | Some fs \<Rightarrow>
                    (case replay pick now fs m3 of
                       Ret m4 _ \<Rightarrow> Ret m4 (AList.delete (StreamID f) pend)
                     | Blocks m4 \<Rightarrow> Blocks m4
                     | Panics e \<Rightarrow> Panics e))"

text \<open>The body of \<^verbatim>\<open>DispatchLoop\<close> for a frame taken from the channel.\<close>

definition dispatch_frame :: "write_oracle \<Rightarrow> bool \<Rightarrow> int \<Rightarrow> pending \<Rightarrow> Frame \<Rightarrow> Mux \<Rightarrow> (Mux, pending) outcome" where
  "dispatch_frame wok pick now pend f m =
     (if Type f = FramePing then Ret (dispatch_ping wok now f m) pend
      else if Type f = FramePong then Ret (dispatch_pong now f m) pend
      else if StreamID f = 0 \<and> Type f = FrameData \<and> rawPackets m \<noteq> None then
        (case raw_Push f (the (rawPackets m)) of
           Inl e \<Rightarrow> Panics e
         | Inr (rb, evicted) \<Rightarrow>
             Ret (m\<lparr>rawPackets := Some rb, rawEvictions := (if evicted > 0 then i64 (rawEvictions m + 1) else rawEvictions m)\<rparr>) pend)
      else if Type f = FrameOpen then dispatch_open pick now pend f m
      else if StreamID f \<noteq> 0 \<and> Type f = FrameData \<and> map_of (streams m) (StreamID f) = None then
        Ret m (AList.update (StreamID f) ((case map_of pend (StreamID f) of None \<Rightarrow> [] | Some fs \<Rightarrow> fs) @ [f]) pend)
      else case dispatch pick now f m of
             Ret m1 _ \<Rightarrow> Ret m1 pend
           | Blocks m1 \<Rightarrow> Blocks m1
           | Panics e \<Rightarrow> Panics e)"

definition dispatch_exit :: "Mux \<Rightarrow> Mux" where
  "dispatch_exit m =
     m\<lparr>rawPackets := map_option raw_Close (rawPackets m), acceptClosed := (acceptedStreams m \<noteq> None \<or> acceptClosed m)\<rparr>"

section \<open>Writing to a stream\<close>

definition writeChCap :: nat where "writeChCap = 256"

definition trySendWriteCh :: "nat \<Rightarrow> nat \<Rightarrow> bytes \<Rightarrow> Mux \<Rightarrow> Mux \<times> bool" where
  "trySendWriteCh p a d m =
     (let mc = cstore m ! a
      in if \<not> writeChClosed mc \<and> length (writeCh mc) < writeChCap
         then (upd_conn a (\<lambda>c. c\<lparr>writeCh := writeCh c @ [(d, p)]\<rparr>) m, True) else (m, False))"

fun try_alternatives :: "nat \<Rightarrow> nat \<Rightarrow> bytes \<Rightarrow> nat list \<Rightarrow> Mux \<Rightarrow> Mux \<times> bool" where
  "try_alternatives p a d [] m = (m, False)"
| "try_alternatives p a d (b # bs) m =
     (if b \<noteq> a then
        (let (m1, sent) = trySendWriteCh p b d m
         in if sent then (m1, True) else try_alternatives p a d bs m1)
      else try_alternatives p a d bs m)"

definition data_frame :: "u32 \<Rightarrow> u32 \<Rightarrow> bytes \<Rightarrow> Frame" where
  "data_frame i sq d = \<lparr>StreamID = i, Type = FrameData, Sequence = sq, Length = of_nat (length d), Payload = d, connIdx = 0\<rparr>"

text \<open>A striped chunk: queued on the chosen connection, on another one with room, or written directly.\<close>

definition write_striped :: "write_oracle \<Rightarrow> int \<Rightarrow> nat \<Rightarrow> nat \<Rightarrow> Frame \<Rightarrow> Mux \<Rightarrow> Mux \<times> mux_error option" where
  "write_striped wok now p a f m =
     (case MarshalBinary f of
        Inl e \<Rightarrow> (m, Some e)
      | Inr d \<Rightarrow>
          let m1 = upd_conn a (\<lambda>c. c\<lparr>rtxRing := ring_Push d (rtxRing c)\<rparr>) m;
              m2 = upd_stream p (\<lambda>s. s\<lparr>inflight := inflight s + 1\<rparr>) m1;
              (m3, sent) = trySendWriteCh p a d m2
          in if sent then (m3, None)
             else let (m4, sent2) = try_alternatives p a d (live_conns m3) m3
                  in if sent2 then (m4, None)
                     else let (m5, err) = sendFrameOn wok now (Some a) f m4
                          in (upd_stream p (\<lambda>s. s\<lparr>inflight := inflight s - 1\<rparr>) m5, None))"

text \<open>One iteration of the loop of \<^verbatim>\<open>Write\<close>.\<close>

definition write_chunk :: "write_oracle \<Rightarrow> int \<Rightarrow> nat \<Rightarrow> bytes \<Rightarrow> Mux \<Rightarrow> Mux \<times> mux_error option" where
  "write_chunk wok now p chunk m =
     (let s = sstore m ! p
      in if striping s then
           (let m1 = upd_stream p (\<lambda>s. s\<lparr>nextStripSeq := nextStripSeq s + 1\<rparr>) m;
                payload = PutUint32 (nextStripSeq s) @ chunk;
                (m2, sq) = NextSeq m1;
                (m3, mc) = selectConn m2
            in case mc of
                 None \<Rightarrow> (m3, Some NoConnections)
               | Some a \<Rightarrow> write_striped wok now p a (data_frame (s_ID s) sq payload) m3)
         else
           (let (m2, sq) = NextSeq m
            in case assignedConn s of
                 None \<Rightarrow> (m2, Some NoConnections)
               | Some a \<Rightarrow> sendFrameOn wok now (Some a) (data_frame (s_ID s) sq chunk) m2))"

text \<open>
  The loop itself.  \<open>maxChunk\<close> is positive unless \<^verbatim>\<open>MUX_FRAME_SIZE\<close> is set to 4 or less with striping on;
  at 0 the loop does not advance, and a negative bound is out of range for the slice.  A loop that does not
  end has no value (\<open>None\<close>).
\<close>

partial_function (option) write_loop ::
  "write_oracle \<Rightarrow> int \<Rightarrow> nat \<Rightarrow> int \<Rightarrow> bytes \<Rightarrow> nat \<Rightarrow> Mux \<Rightarrow> (panic + (Mux \<times> nat \<times> mux_error option)) option" where
  "write_loop wok now p maxChunk d tot m =
     (if d = [] then Some (Inr (m, tot, None))
      else if int (length d) > maxChunk \<and> maxChunk < 0 then Some (Inl SliceBounds)
      else
        let chunk = (if int (length d) > maxChunk then take (nat maxChunk) d else d);
            (m1, err) = write_chunk wok now p chunk m
        in case err of
             Some e \<Rightarrow> Some (Inr (m1, tot, Some e))
           | None \<Rightarrow> write_loop wok now p maxChunk (drop (length chunk) d) (tot + length chunk) m1)"

text \<open>\<^verbatim>\<open>MaxFramePayload\<close>: the parsed value of \<^verbatim>\<open>MUX_FRAME_SIZE\<close>, if it is set and a number.\<close>

definition MaxFramePayload :: "int option \<Rightarrow> int" where
  "MaxFramePayload env =
     (case env of Some n \<Rightarrow> if 0 < n \<and> n \<le> int maxPayload then n else 1200 | None \<Rightarrow> 1200)"

definition Stream_Write :: "int option \<Rightarrow> write_oracle \<Rightarrow> int \<Rightarrow> nat \<Rightarrow> bytes \<Rightarrow> Mux
    \<Rightarrow> (panic + (Mux \<times> nat \<times> mux_error option)) option" where
  "Stream_Write env wok now p d m =
     (let s = sstore m ! p
      in if s_closed s then Some (Inr (m, 0, Some StreamClosed))
         else write_loop wok now p (MaxFramePayload env - (if striping s then int stripSeqSize else 0)) d 0 m)"

section \<open>Reading and closing a stream\<close>

text \<open>\<^verbatim>\<open>Read\<close> into a buffer of length \<open>n\<close>: the bytes, or \<open>None\<close> for \<^verbatim>\<open>io.EOF\<close>.\<close>

definition Stream_Read :: "nat \<Rightarrow> Stream \<Rightarrow> (Stream, bytes option) outcome" where
  "Stream_Read n s =
     (if leftover s \<noteq> [] then Ret (s\<lparr>leftover := drop n (leftover s)\<rparr>) (Some (take n (leftover s)))
      else case recv s of
             [] \<Rightarrow> if recvClosed s then Ret s None else Blocks s
           | d # ds \<Rightarrow>
               Ret (if n < length d then s\<lparr>recv := ds, leftover := drop n d\<rparr> else s\<lparr>recv := ds\<rparr>) (Some (take n d)))"

text \<open>
  \<^verbatim>\<open>Close\<close> marks the stream closed, waits for queued frames of a striped stream to be written, and then
  (\<open>Stream_Close_finish\<close>) removes the stream and tells the peer.
\<close>

definition Stream_Close_finish :: "write_oracle \<Rightarrow> int \<Rightarrow> nat \<Rightarrow> Mux \<Rightarrow> (Mux, mux_error option) outcome" where
  "Stream_Close_finish wok now p m =
     (let s = sstore m ! p
      in if doneClosed s then Panics CloseOfClosedChannel
         else
           let m2 = upd_stream p (\<lambda>s. s\<lparr>doneClosed := True\<rparr>) m;
               m3 = m2\<lparr>streams := AList.delete (s_ID s) (streams m2), streamCount := streamCount m2 - 1\<rparr>;
               (m4, sq) = NextSeq m3;
               (m5, err) = sendFrameOn wok now (if striping s then None else assignedConn s)
                             (ctl_frame (s_ID s) FrameClose sq) m4
           in Ret m5 err)"

definition Stream_Close :: "write_oracle \<Rightarrow> int \<Rightarrow> nat \<Rightarrow> Mux \<Rightarrow> (Mux, mux_error option) outcome" where
  "Stream_Close wok now p m =
     (let s = sstore m ! p
      in if s_closed s then Ret m None
         else
           let m1 = upd_stream p (\<lambda>s. s\<lparr>s_closed := True\<rparr>) m
           in if striping s \<and> inflight s > 0 then Blocks m1 else Stream_Close_finish wok now p m1)"

end
