(* ===== verification/Mux_Transfer.thy ===== *)
theory Mux_Transfer
  imports Mux_Stream Mux_Swrr
begin

text \<open>
  What one side writes to a stream is what the other side reads.  The writer splits the data into frames
  (\<^verbatim>\<open>Stream.Write\<close>), the frames cross a connection as bytes, and the peer's dispatcher queues them for
  \<^verbatim>\<open>Stream.Read\<close>: in order on the pinned connection of a plain stream, in any order and any number of
  times for a striped one.
\<close>

section \<open>Chunks and frames\<close>

function chunks :: "nat \<Rightarrow> bytes \<Rightarrow> bytes list" where
  "chunks n d = (if d = [] \<or> n = 0 then [] else take n d # chunks n (drop n d))"
  by pat_completeness auto
termination
  by (relation "measure (\<lambda>(_, d). length d)") auto

declare chunks.simps [simp del]

lemma chunks_Nil [simp]: "chunks n [] = []"
  by (simp add: chunks.simps)

lemma concat_chunks: "0 < n \<Longrightarrow> concat (chunks n d) = d"
  by (induction n d rule: chunks.induct) (subst chunks.simps, simp)

lemma chunks_length: "c \<in> set (chunks n d) \<Longrightarrow> length c \<le> n"
proof (induction n d rule: chunks.induct)
  case (1 n d)
  then show ?case by (cases "d = [] \<or> n = 0") (auto simp: chunks.simps [of n d])
qed

fun data_frames :: "u32 \<Rightarrow> u32 \<Rightarrow> bytes list \<Rightarrow> Frame list" where
  "data_frames i sq [] = []"
| "data_frames i sq (c # cs) = data_frame i (sq + 1) c # data_frames i (sq + 1) cs"

lemma data_frame_simps [simp]:
  "StreamID (data_frame i sq d) = i" "Type (data_frame i sq d) = FrameData" "Payload (data_frame i sq d) = d"
  by (simp_all add: data_frame_def)

lemma data_frames_props:
  "length (data_frames i sq cs) = length cs" "map Payload (data_frames i sq cs) = cs"
  "\<forall>f\<in>set (data_frames i sq cs). StreamID f = i \<and> Type f = FrameData"
  by (induction cs arbitrary: sq) auto

lemma frame_types [simp]:
  "FrameData \<noteq> FramePing" "FrameData \<noteq> FramePong" "FrameData \<noteq> FrameOpen" "FrameData \<noteq> FrameClose"
  "FrameOpen \<noteq> FramePing" "FrameOpen \<noteq> FramePong" "FrameClose \<noteq> FramePing" "FrameClose \<noteq> FramePong"
  "FrameClose \<noteq> FrameOpen" "FrameClose \<noteq> FrameData"
  by (simp_all add: FrameData_def FramePing_def FramePong_def FrameOpen_def FrameClose_def)

section \<open>Writing on the pinned connection\<close>

lemma cstore_upd_conn [simp]: "cstore (upd_conn a f m) = (cstore m)[a := f (cstore m ! a)]"
  by (simp add: upd_conn_def)

lemma sstore_upd_conn [simp]: "sstore (upd_conn a f m) = sstore m"
  by (simp add: upd_conn_def)

lemma sstore_upd_stream [simp]: "sstore (upd_stream p f m) = (sstore m)[p := f (sstore m ! p)]"
  by (simp add: upd_stream_def)

lemma NextSeq_simps [simp]: "fst (NextSeq m) = m\<lparr>mux_nextSeq := mux_nextSeq m + 1\<rparr>" "snd (NextSeq m) = mux_nextSeq m + 1"
  by (simp_all add: NextSeq_def)

text \<open>A successful \<^verbatim>\<open>Write\<close>: the connection has the bytes, and nothing else but its counters has changed.\<close>

definition written :: "int \<Rightarrow> nat \<Rightarrow> bytes \<Rightarrow> Mux \<Rightarrow> Mux" where
  "written now a d m = upd_conn a (\<lambda>c. c\<lparr>nwrites := nwrites c + 1, wire := wire c @ [d],
     bytesSent := i64 (bytesSent c + int (length d)), lastUsed := now\<rparr>) m"

lemma sendFrameOn_ok:
  assumes "a < length (cstore m)" "\<not> connClosed (cstore m ! a)" "\<forall>n. wok a n" "MarshalBinary f = Inr d"
  shows "sendFrameOn wok now (Some a) f m = (written now a d m, None)"
  using assms by (simp add: sendFrameOn_def conn_write_def count_sent_def written_def upd_conn_def Let_def)

lemma write_loop_plain:
  assumes "p < length (sstore m)" "\<not> striping (sstore m ! p)" "assignedConn (sstore m ! p) = Some a"
    and "a < length (cstore m)" "\<not> connClosed (cstore m ! a)" "\<forall>n. wok a n" "0 < mc" "mc \<le> int maxPayload"
  shows "\<exists>m' bs. write_loop wok now p mc d t m = Some (Inr (m', t + length d, None))
    \<and> wire (cstore m' ! a) = wire (cstore m ! a) @ bs
    \<and> list_all2 (\<lambda>f b. MarshalBinary f = Inr b)
        (data_frames (s_ID (sstore m ! p)) (mux_nextSeq m) (chunks (nat mc) d)) bs"
  using assms
proof (induction "length d" arbitrary: d t m rule: less_induct)
  case less
  show ?case
  proof (cases "d = []")
    case True
    then show ?thesis by (subst write_loop.simps) simp
  next
    case False
    let ?s = "sstore m ! p"
    define c where "c = (if int (length d) > mc then take (nat mc) d else d)"
    have c: "c = take (nat mc) d" "c \<noteq> []" using less.prems False by (auto simp: c_def)
    define f where "f = data_frame (s_ID ?s) (mux_nextSeq m + 1) c"
    define b where "b = PutUint32 (StreamID f) @ [Type f] @ PutUint32 (Sequence f)
        @ PutUint32 (of_nat (length (Payload f))) @ Payload f"
    have "length c \<le> maxPayload" using less.prems c(1) by auto
    then have b: "MarshalBinary f = Inr b" by (simp add: MarshalBinary_def b_def f_def)
    define m1 where "m1 = written now a b (m\<lparr>mux_nextSeq := mux_nextSeq m + 1\<rparr>)"
    have wc: "write_chunk wok now p c m = (m1, None)"
      using less.prems sendFrameOn_ok [of a "m\<lparr>mux_nextSeq := mux_nextSeq m + 1\<rparr>" wok f b now] b
      by (simp add: write_chunk_def Let_def case_prod_beta m1_def f_def)
    have st: "write_loop wok now p mc d t m = write_loop wok now p mc (drop (length c) d) (t + length c) m1"
      using less.prems False wc by (subst write_loop.simps) (simp add: Let_def flip: c_def)
    have pre: "sstore m1 = sstore m" "length (cstore m1) = length (cstore m)" "\<not> connClosed (cstore m1 ! a)"
      "wire (cstore m1 ! a) = wire (cstore m ! a) @ [b]" "mux_nextSeq m1 = mux_nextSeq m + 1"
      using less.prems by (simp_all add: m1_def written_def) (simp add: upd_conn_def)
    have "length (drop (length c) d) < length d" using c False by simp
    from less.hyps [OF this, of m1 "t + length c"] pre less.prems obtain m' bs where IH:
      "write_loop wok now p mc (drop (length c) d) (t + length c) m1 = Some (Inr (m', t + length d, None))"
      "wire (cstore m' ! a) = wire (cstore m ! a) @ b # bs"
      "list_all2 (\<lambda>f b. MarshalBinary f = Inr b)
        (data_frames (s_ID ?s) (mux_nextSeq m + 1) (chunks (nat mc) (drop (length c) d))) bs"
      using c by auto
    have "chunks (nat mc) d = c # chunks (nat mc) (drop (length c) d)"
      using False less.prems c by (subst chunks.simps) (auto simp: min_def)
    then have "list_all2 (\<lambda>f b. MarshalBinary f = Inr b)
        (data_frames (s_ID ?s) (mux_nextSeq m) (chunks (nat mc) d)) (b # bs)"
      using IH(3) b by (simp add: f_def)
    then show ?thesis using IH(1,2) by (intro exI [of _ m'] exI [of _ "b # bs"]) (simp add: st)
  qed
qed

section \<open>Dispatch to a plain stream\<close>

text \<open>A run of \<^verbatim>\<open>DispatchLoop\<close> over the frames it receives.\<close>

fun dispatch_all :: "write_oracle \<Rightarrow> bool \<Rightarrow> (int \<times> Frame) list \<Rightarrow> pending \<Rightarrow> Mux \<Rightarrow> (Mux, pending) outcome" where
  "dispatch_all wok pick [] pend m = Ret m pend"
| "dispatch_all wok pick ((now, f) # fs) pend m =
     (case dispatch_frame wok pick now pend f m of
        Ret m1 pend1 \<Rightarrow> dispatch_all wok pick fs pend1 m1
      | Blocks m1 \<Rightarrow> Blocks m1
      | Panics e \<Rightarrow> Panics e)"

text \<open>The bytes a reader of a stream has still to read.\<close>

definition unread :: "Stream \<Rightarrow> bytes" where
  "unread s = leftover s @ concat (recv s)"

lemma dispatch_frame_stream:
  assumes "Type f = FrameData" "StreamID f \<noteq> 0" "map_of (streams m) (StreamID f) = Some q"
  shows "dispatch_frame wok pick now pend f m =
    (case dispatch pick now f m of Ret m1 _ \<Rightarrow> Ret m1 pend | Blocks m1 \<Rightarrow> Blocks m1 | Panics e \<Rightarrow> Panics e)"
  using assms by (simp add: dispatch_frame_def)

lemma dispatch_all_plain:
  assumes "map_of (streams m) i = Some q" "i \<noteq> 0" "q < length (sstore m)" "\<not> striping (sstore m ! q)"
    and "\<not> recvClosed (sstore m ! q)" "\<not> doneClosed (sstore m ! q)"
    and "length (recv (sstore m ! q)) + length fs \<le> recvCap"
    and "\<forall>(t, f)\<in>set fs. StreamID f = i \<and> Type f = FrameData"
  shows "dispatch_all wok pick fs pend m =
    Ret (upd_stream q (\<lambda>s. s\<lparr>recv := recv s @ map (\<lambda>x. Payload (snd x)) fs\<rparr>) m) pend"
  using assms
proof (induction fs arbitrary: m)
  case Nil
  then show ?case by (simp add: upd_stream_def)
next
  case (Cons tf fs)
  obtain t f where tf: "tf = (t, f)" by fastforce
  let ?s = "(sstore m ! q)\<lparr>recv := recv (sstore m ! q) @ [Payload f]\<rparr>"
  have f: "StreamID f = i" "Type f = FrameData" using Cons.prems tf by auto
  have "dispatch_frame wok pick t pend f m = Ret (upd_stream q (\<lambda>_. ?s) m) pend"
    using Cons.prems f by (simp add: dispatch_frame_stream dispatch_def Let_def recv_send_def recvCap_def)
  moreover have "dispatch_all wok pick fs pend (upd_stream q (\<lambda>_. ?s) m) =
      Ret (upd_stream q (\<lambda>s. s\<lparr>recv := recv s @ map (\<lambda>x. Payload (snd x)) fs\<rparr>) (upd_stream q (\<lambda>_. ?s) m)) pend"
    using Cons.prems by (intro Cons.IH) (auto simp: upd_stream_def)
  ultimately show ?case using Cons.prems by (simp add: tf upd_stream_def)
qed

section \<open>Reading\<close>

text \<open>A reader that calls \<^verbatim>\<open>Read\<close> with buffers of the given sizes until a call waits or reports the end.\<close>

fun read_many :: "nat list \<Rightarrow> Stream \<Rightarrow> Stream \<times> bytes" where
  "read_many [] s = (s, [])"
| "read_many (n # ns) s =
     (case Stream_Read n s of
        Ret s' (Some b) \<Rightarrow> (let (s2, out) = read_many ns s' in (s2, b @ out))
      | _ \<Rightarrow> (s, []))"

lemma Stream_Read_unread: "Stream_Read n s = Ret s' (Some b) \<Longrightarrow> unread s = b @ unread s'"
  by (auto simp: Stream_Read_def unread_def split: if_splits list.splits)

lemma read_many_unread: "read_many ns s = (s', out) \<Longrightarrow> unread s = out @ unread s'"
  by (induction ns s arbitrary: s' out rule: read_many.induct)
     (auto split: outcome.splits option.splits prod.splits dest!: Stream_Read_unread)

section \<open>Dispatch to a striped stream\<close>

lemma send_flushed_room:
  "\<not> recvClosed s \<Longrightarrow> \<not> doneClosed s \<Longrightarrow> length (recv s) + length ds \<le> recvCap \<Longrightarrow>
   send_flushed pick ds s = Ret (s\<lparr>recv := recv s @ ds\<rparr>) True"
  by (induction ds arbitrary: s) (simp_all add: recv_send_def)

text \<open>No arrival makes the buffer exceed its limits.\<close>

fun within_limits :: "(nat \<Rightarrow> bytes) \<Rightarrow> (int \<times> nat) list \<Rightarrow> reorderBuffer \<Rightarrow> bool" where
  "within_limits d [] rb \<longleftrightarrow> True"
| "within_limits d ((now, i) # as) rb \<longleftrightarrow>
     (let rb1 = fst (Insert now (of_nat i) (d i) rb)
      in \<not> Overflowed rb1 \<and> \<not> GapTimedOut now reorderGapTimeout rb1 \<and> within_limits d as rb1)"

lemma flush_ready_bounds:
  "flush_ready rb fl = (rb', out) \<Longrightarrow> length (h rb') \<le> length (h rb) \<and> gapSince rb' = gapSince rb"
proof (induction rb fl arbitrary: rb' out rule: flush_ready.induct)
  case (1 rb fl)
  obtain e h' where pop: "heap_Pop reorder_Less (h rb) = (e, h')" by fastforce
  then have "length h' \<le> length (h rb)" by (auto simp: heap_Pop_def Let_def)
  with 1 pop show ?case
    by (subst (asm) (2) flush_ready.simps) (fastforce split: if_splits)
qed

lemma length_heap_Push [simp]: "length (heap_Push lt x xs) = Suc (length xs)"
  by (simp add: heap_Push_def)

lemma Insert_bounds:
  assumes "Insert now i d rb = (rb', out)"
  shows "length (h rb') \<le> Suc (length (h rb))" "gapSince rb' = None \<or> gapSince rb' = gapSince rb \<or> gapSince rb' = Some now"
  using assms
  by (auto simp: Insert_def Let_def split: if_splits prod.splits dest!: flush_ready_bounds)

lemma within_limits_recent:
  assumes "length (h rb) + length as \<le> 4096" "gapSince rb = None \<or> (\<exists>t\<ge>t0. gapSince rb = Some t)"
    and "\<forall>(t, i)\<in>set as. t0 \<le> t \<and> t \<le> t0 + 5 * 10 ^ 9"
  shows "within_limits d as rb"
  using assms
proof (induction as arbitrary: rb)
  case (Cons a as)
  obtain t i where a: "a = (t, i)" by fastforce
  obtain rb1 out where ins: "Insert t (of_nat i) (d i) rb = (rb1, out)" by fastforce
  have t: "t0 \<le> t" "t \<le> t0 + 5 * 10 ^ 9" using Cons.prems a by auto
  have len: "length (h rb1) + length as \<le> 4096" using Insert_bounds(1) [OF ins] Cons.prems by simp
  have g: "gapSince rb1 = None \<or> (\<exists>t\<ge>t0. gapSince rb1 = Some t)"
    using Insert_bounds(2) [OF ins] Cons.prems(2) t by auto
  have "\<not> Overflowed rb1" using len by (simp add: Overflowed_def reorderMaxFrames_def)
  moreover have "\<not> GapTimedOut t reorderGapTimeout rb1"
    using g t by (auto simp: GapTimedOut_def reorderGapTimeout_def)
  moreover have "within_limits d as rb1" using len g Cons.prems by (intro Cons.IH) auto
  ultimately show ?case by (simp add: a ins)
qed simp

lemma dispatch_all_striped:
  assumes "map_of (streams m) i = Some q" "i \<noteq> 0" "q < length (sstore m)" "striping (sstore m ! q)"
    and "\<not> recvClosed (sstore m ! q)" "\<not> doneClosed (sstore m ! q)" "\<not> closePending (sstore m ! q)"
    and "reorder (sstore m ! q) = Some rb" "insert_all d as rb = (rb', out)" "within_limits d as rb"
    and "length (recv (sstore m ! q)) + length out \<le> recvCap"
    and "\<forall>k\<in>snd ` set as. StreamID (F k) = i \<and> Type (F k) = FrameData \<and> Payload (F k) = PutUint32 (of_nat k) @ d k"
  shows "dispatch_all wok pick (map (\<lambda>(t, k). (t, F k)) as) pend m =
    Ret (upd_stream q (\<lambda>s. s\<lparr>reorder := Some rb', recv := recv s @ out\<rparr>) m) pend"
  using assms
proof (induction as arbitrary: m rb out)
  case Nil
  then have "(sstore m ! q)\<lparr>reorder := Some rb', recv := recv (sstore m ! q) @ out\<rparr> = sstore m ! q"
    by (cases "sstore m ! q") simp
  then show ?case unfolding upd_stream_def by simp
next
  case (Cons a as)
  obtain t k where a: "a = (t, k)" by fastforce
  obtain rb1 out1 where ins: "Insert t (of_nat k) (d k) rb = (rb1, out1)" by fastforce
  obtain out2 where rest: "insert_all d as rb1 = (rb', out2)" "out = out1 @ out2"
    using Cons.prems(9) ins by (auto simp: a split: prod.splits)
  let ?s = "sstore m ! q"
  let ?s1 = "?s\<lparr>reorder := Some rb1, recv := recv ?s @ out1\<rparr>"
  have F: "StreamID (F k) = i" "Type (F k) = FrameData" "Payload (F k) = PutUint32 (of_nat k) @ d k"
    using Cons.prems(12) a by auto
  have lim: "\<not> Overflowed rb1" "\<not> GapTimedOut t reorderGapTimeout rb1" "within_limits d as rb1"
    using Cons.prems(10) by (simp_all add: a ins)
  have snd1: "send_flushed pick out1 (?s\<lparr>reorder := Some rb1\<rparr>) = Ret ?s1 True"
    using Cons.prems rest by (subst send_flushed_room) simp_all
  have "dispatchStriped pick t q rb (F k) m = Ret (upd_stream q (\<lambda>_. ?s1) m) ()"
    using F ins snd1 lim Cons.prems(7) by (simp add: dispatchStriped_def stripSeqSize_def)
  then have one: "dispatch_frame wok pick t pend (F k) m = Ret (upd_stream q (\<lambda>_. ?s1) m) pend"
    using Cons.prems F by (simp add: dispatch_frame_stream dispatch_def Let_def)
  have "dispatch_all wok pick (map (\<lambda>(t, k). (t, F k)) as) pend (upd_stream q (\<lambda>_. ?s1) m) =
      Ret (upd_stream q (\<lambda>s. s\<lparr>reorder := Some rb', recv := recv s @ out2\<rparr>) (upd_stream q (\<lambda>_. ?s1) m)) pend"
    using Cons.prems rest lim by (intro Cons.IH) (auto simp: upd_stream_def)
  then show ?case using one Cons.prems(3) rest by (simp add: a upd_stream_def)
qed

section \<open>Writing on a striped stream\<close>

text \<open>
  The choice of a connection \<open>k\<close> more times stays clear of 64-bit overflow: a round moves a current weight by
  less than $2^{46}$.
\<close>

definition wrr_room :: "nat \<Rightarrow> Mux \<Rightarrow> bool" where
  "wrr_room k m \<longleftrightarrow> conns_ok m \<and> stats_ok m \<and> length (conns m) \<le> 2 ^ 15
     \<and> (\<forall>a\<in>set (live_conns m). \<bar>wrrCurrent (cstore m ! a)\<bar> + int k * 2 ^ 46 \<le> 2 ^ 61)"

lemma wrr_room_cong:
  assumes "wrr_room k m" "live_conns m' = live_conns m" "length (conns m') = length (conns m)"
    "length (cstore m') = length (cstore m)"
    "\<forall>a\<in>set (live_conns m). latency (cstore m' ! a) = latency (cstore m ! a)
       \<and> errors (cstore m' ! a) = errors (cstore m ! a) \<and> wrrCurrent (cstore m' ! a) = wrrCurrent (cstore m ! a)"
  shows "wrr_room k m'"
  using assms by (simp add: wrr_room_def conns_ok_def stats_ok_def)

lemma wrr_room_select:
  assumes "wrr_room (Suc k) m" "live_conns m \<noteq> []"
  obtains a cs where "selectConn m = (m\<lparr>cstore := cs\<rparr>, Some a)" "a \<in> set (live_conns m)"
    "length cs = length (cstore m)" "\<forall>i<length cs. \<exists>w. cs ! i = (cstore m ! i)\<lparr>wrrCurrent := w\<rparr>"
    "wrr_room k (m\<lparr>cstore := cs\<rparr>)"
proof -
  have ok: "conns_ok m" "stats_ok m" "length (conns m) \<le> 2 ^ 15"
    and w: "\<forall>a\<in>set (live_conns m). \<bar>wrrCurrent (cstore m ! a)\<bar> + int (Suc k) * 2 ^ 46 \<le> 2 ^ 61"
    using assms by (auto simp: wrr_room_def)
  let ?W = "total_weight (cstore m) (eligible m)"
  have W: "?W \<le> 2 ^ 15 * 10 ^ 9" using ok by (rule total_weight_le)
  have cw: "1 \<le> conn_weight (cstore m ! a)" "conn_weight (cstore m ! a) \<le> 10 ^ 9" if "a \<in> set (live_conns m)" for a
    using that ok conn_weight_bounds [of "cstore m ! a"] by (auto simp: stats_ok_def)
  have "\<forall>a\<in>set (eligible m). 1 \<le> conn_weight (cstore m ! a)" using cw(1) eligible_subset [of m] by blast
  then have W0: "0 \<le> ?W" using total_weight_nonneg [of "eligible m" "cstore m"] by linarith
  have lo: "\<bar>wrrCurrent (cstore m ! a)\<bar> \<le> 2 ^ 61" if "a \<in> set (live_conns m)" for a
    using w that by fastforce
  then have el: "\<forall>a\<in>set (eligible m). \<bar>wrrCurrent (cstore m ! a)\<bar> \<le> 2 ^ 61" using eligible_subset [of m] by blast
  have W': "?W \<le> 2 ^ 61" using W by simp
  obtain a cs where s: "selectConn m = (m\<lparr>cstore := cs\<rparr>, Some a)" "a \<in> set (eligible m)" "length cs = length (cstore m)"
    and cs: "\<forall>i<length cs. cs ! i = (cstore m ! i)\<lparr>wrrCurrent := wrrCurrent (cstore m ! i)
        + (if i \<in> set (eligible m) then conn_weight (cstore m ! i) else 0) - (if i = a then ?W else 0)\<rparr>"
    by (rule selectConn_spec [OF ok(1,2) assms(2) el W']) (rule that)
  let ?m = "m\<lparr>cstore := cs\<rparr>"
  have lv: "live_conns ?m = live_conns m" by (simp add: live_conns_def)
  have bd: "b < length cs" if "b \<in> set (live_conns m)" for b using that ok(1) s(3) by (auto simp: conns_ok_def)
  have "\<bar>wrrCurrent (cs ! b)\<bar> + int k * 2 ^ 46 \<le> 2 ^ 61" if b: "b \<in> set (live_conns m)" for b
  proof -
    have "\<bar>wrrCurrent (cstore m ! b)\<bar> + int k * 2 ^ 46 + 2 ^ 46 \<le> 2 ^ 61" using w b by (simp add: algebra_simps)
    moreover have "\<bar>wrrCurrent (cs ! b)\<bar> \<le> \<bar>wrrCurrent (cstore m ! b)\<bar> + 2 ^ 46"
      using cs bd [OF b] cw [OF b] W W0 by auto
    ultimately show ?thesis by linarith
  qed
  moreover have "conns_ok ?m" "stats_ok ?m"
    using ok cs bd s(3) unfolding conns_ok_def stats_ok_def lv by auto
  ultimately have "wrr_room k ?m" using ok(3) by (simp add: wrr_room_def lv)
  then show thesis using that [OF s(1) _ s(3)] s(2) eligible_subset [of m] cs by blast
qed

definition queued :: "Mux \<Rightarrow> bytes multiset" where
  "queued m = (\<Sum>a\<in>set (live_conns m). mset (map fst (writeCh (cstore m ! a))))"

text \<open>A striped stream that can queue \<open>k\<close> more frames whichever connections are chosen.\<close>

definition stripe_ready :: "nat \<Rightarrow> nat \<Rightarrow> Mux \<Rightarrow> bool" where
  "stripe_ready k p m \<longleftrightarrow> wrr_room k m \<and> live_conns m \<noteq> [] \<and> p < length (sstore m) \<and> striping (sstore m ! p)
     \<and> (\<forall>a\<in>set (live_conns m). \<not> writeChClosed (cstore m ! a) \<and> length (writeCh (cstore m ! a)) + k \<le> writeChCap)"

lemma queued_push:
  assumes "a \<in> set (live_conns m)" "conns_ok m"
  shows "queued (upd_conn a (\<lambda>c. c\<lparr>writeCh := writeCh c @ [(d, p)]\<rparr>) m) = add_mset d (queued m)"
proof -
  have a: "a < length (cstore m)" using assms by (auto simp: conns_ok_def)
  have lv: "live_conns (upd_conn a f m) = live_conns m" for f by (simp add: upd_conn_def live_conns_def)
  have "queued (upd_conn a (\<lambda>c. c\<lparr>writeCh := writeCh c @ [(d, p)]\<rparr>) m)
      = mset (map fst (writeCh (cstore m ! a)) @ [d])
        + (\<Sum>b\<in>set (live_conns m) - {a}. mset (map fst (writeCh (cstore m ! b))))"
    unfolding queued_def lv using assms a by (subst sum.remove [of _ a]) (auto intro!: sum.cong)
  also have "\<dots> = add_mset d (queued m)"
    unfolding queued_def using assms by (subst (2) sum.remove [of _ a]) auto
  finally show ?thesis .
qed

lemma write_chunk_striped:
  assumes "stripe_ready (Suc k) p m" "length c + 4 \<le> maxPayload"
    and "MarshalBinary (data_frame (s_ID (sstore m ! p)) (mux_nextSeq m + 1) (PutUint32 (nextStripSeq (sstore m ! p)) @ c)) = Inr b"
  obtains m' where "write_chunk wok now p c m = (m', None)" "stripe_ready k p m'" "queued m' = add_mset b (queued m)"
    "mux_nextSeq m' = mux_nextSeq m + 1" "s_ID (sstore m' ! p) = s_ID (sstore m ! p)"
    "nextStripSeq (sstore m' ! p) = nextStripSeq (sstore m ! p) + 1"
proof -
  let ?s = "sstore m ! p"
  have p: "p < length (sstore m)" "striping ?s" using assms(1) by (auto simp: stripe_ready_def)
  define m2 where "m2 = (upd_stream p (\<lambda>s. s\<lparr>nextStripSeq := nextStripSeq s + 1\<rparr>) m)\<lparr>mux_nextSeq := mux_nextSeq m + 1\<rparr>"
  have m2: "live_conns m2 = live_conns m" "cstore m2 = cstore m" "wrr_room (Suc k) m2" "queued m2 = queued m"
    using assms(1) by (auto simp: m2_def upd_stream_def live_conns_def stripe_ready_def wrr_room_def conns_ok_def
        stats_ok_def queued_def)
  have ne: "live_conns m2 \<noteq> []" using assms(1) m2 by (simp add: stripe_ready_def)
  obtain a cs where "selectConn m2 = (m2\<lparr>cstore := cs\<rparr>, Some a)" "a \<in> set (live_conns m2)"
    "length cs = length (cstore m2)" "\<forall>i<length cs. \<exists>w. cs ! i = (cstore m2 ! i)\<lparr>wrrCurrent := w\<rparr>"
    "wrr_room k (m2\<lparr>cstore := cs\<rparr>)"
    by (rule wrr_room_select [OF m2(3) ne])
  note a = this [unfolded m2]
  define m3 where "m3 = m2\<lparr>cstore := cs\<rparr>"
  have lt: "i < length cs" if "i \<in> set (live_conns m)" for i
    using that m2 a(3) by (auto simp: wrr_room_def conns_ok_def)
  have same: "writeCh (cs ! i) = writeCh (cstore m ! i)" "writeChClosed (cs ! i) = writeChClosed (cstore m ! i)"
    if "i \<in> set (live_conns m)" for i
    using a(4) lt [OF that] by (metis muxConn.select_convs muxConn.update_convs(9) muxConn.surjective)+
  define m4 where "m4 = upd_stream p (\<lambda>s. s\<lparr>inflight := inflight s + 1\<rparr>)
      (upd_conn a (\<lambda>c. c\<lparr>rtxRing := ring_Push b (rtxRing c)\<rparr>) m3)"
  define m5 where "m5 = upd_conn a (\<lambda>c. c\<lparr>writeCh := writeCh c @ [(b, p)]\<rparr>) m4"
  have "trySendWriteCh p a b m4 = (m5, True)"
    using assms(1) a(2) same(1) [OF a(2)] same(2) [OF a(2)] lt [OF a(2)]
    by (auto simp: trySendWriteCh_def m4_def m3_def m5_def stripe_ready_def upd_stream_def)
  then have "write_striped wok now p a (data_frame (s_ID ?s) (mux_nextSeq m + 1) (PutUint32 (nextStripSeq ?s) @ c)) m3 = (m5, None)"
    using assms(3) by (simp add: write_striped_def Let_def flip: m4_def)
  moreover have "NextSeq (upd_stream p (\<lambda>s. s\<lparr>nextStripSeq := nextStripSeq s + 1\<rparr>) m) = (m2, mux_nextSeq m + 1)"
    by (simp add: NextSeq_def m2_def upd_stream_def)
  ultimately have wc: "write_chunk wok now p c m = (m5, None)"
    using p a(1) by (simp add: write_chunk_def Let_def flip: m3_def)
  have lv: "live_conns m3 = live_conns m" "live_conns m4 = live_conns m" "live_conns m5 = live_conns m"
    using m2(1) by (simp_all add: m3_def m4_def m5_def upd_conn_def upd_stream_def live_conns_def)
  have cs4: "cstore m4 = cs[a := (cs ! a)\<lparr>rtxRing := ring_Push b (rtxRing (cs ! a))\<rparr>]"
    by (simp add: m4_def m3_def upd_stream_def)
  have q4: "queued m4 = queued m"
    unfolding queued_def lv using same a(2) lt by (intro sum.cong) (auto simp: cs4 nth_list_update)
  have ok4: "conns_ok m4" using a(5) m2(1) lv by (simp add: wrr_room_def conns_ok_def cs4 m3_def)
  have q5: "queued m5 = add_mset b (queued m)"
    unfolding m5_def using queued_push [OF _ ok4] a(2) lv q4 by simp
  have r5: "wrr_room k m5"
    by (rule wrr_room_cong [OF a(5)], fold m3_def)
      (use lv a(2) lt in \<open>auto simp: m5_def cs4 nth_list_update\<close>, simp_all add: m4_def m3_def upd_conn_def upd_stream_def)
  have ch5: "\<not> writeChClosed (cstore m5 ! i) \<and> length (writeCh (cstore m5 ! i)) + k \<le> writeChCap"
    if "i \<in> set (live_conns m)" for i
    using assms(1) that same [OF that] lt [OF a(2)]
    by (cases "i = a") (auto simp: m5_def cs4 stripe_ready_def)
  have s5: "sstore m5 = (sstore m)[p := ?s\<lparr>nextStripSeq := nextStripSeq ?s + 1, inflight := inflight ?s + 1\<rparr>]"
    "mux_nextSeq m5 = mux_nextSeq m + 1"
    using p by (simp_all add: m5_def m4_def m3_def m2_def upd_stream_def upd_conn_def)
  have "stripe_ready k p m5"
    using assms(1) r5 lv ch5 p unfolding stripe_ready_def by (simp add: s5)
  then show thesis using that [OF wc _ q5] p by (simp add: s5)
qed

fun stripe_frames :: "u32 \<Rightarrow> u32 \<Rightarrow> u32 \<Rightarrow> bytes list \<Rightarrow> Frame list" where
  "stripe_frames i sq k [] = []"
| "stripe_frames i sq k (c # cs) = data_frame i (sq + 1) (PutUint32 k @ c) # stripe_frames i (sq + 1) (k + 1) cs"

lemma stripe_frames_nth:
  "j < length cs \<Longrightarrow> StreamID (stripe_frames i sq k cs ! j) = i \<and> Type (stripe_frames i sq k cs ! j) = FrameData
    \<and> Payload (stripe_frames i sq k cs ! j) = PutUint32 (k + of_nat j) @ cs ! j"
  by (induction cs arbitrary: j sq k) (auto simp: nth_Cons algebra_simps split: nat.splits)

lemma length_stripe_frames [simp]: "length (stripe_frames i sq k cs) = length cs"
  by (induction cs arbitrary: sq k) auto

lemma write_loop_striped:
  assumes "stripe_ready (length (chunks (nat mc) d)) p m" "0 < mc" "mc + 4 \<le> int maxPayload"
  shows "\<exists>m' bs. write_loop wok now p mc d t m = Some (Inr (m', t + length d, None))
    \<and> queued m' = queued m + mset bs
    \<and> list_all2 (\<lambda>f b. MarshalBinary f = Inr b)
        (stripe_frames (s_ID (sstore m ! p)) (mux_nextSeq m) (nextStripSeq (sstore m ! p)) (chunks (nat mc) d)) bs"
  using assms
proof (induction "length d" arbitrary: d t m rule: less_induct)
  case less
  show ?case
  proof (cases "d = []")
    case True
    then show ?thesis by (subst write_loop.simps) simp
  next
    case False
    let ?s = "sstore m ! p"
    define c where "c = (if int (length d) > mc then take (nat mc) d else d)"
    have c: "c = take (nat mc) d" "c \<noteq> []" using less.prems False by (auto simp: c_def)
    have ch: "chunks (nat mc) d = c # chunks (nat mc) (drop (length c) d)"
      using False less.prems c by (subst chunks.simps) (auto simp: min_def)
    define f where "f = data_frame (s_ID ?s) (mux_nextSeq m + 1) (PutUint32 (nextStripSeq ?s) @ c)"
    have lc: "length c + 4 \<le> maxPayload" using less.prems c(1) by auto
    then obtain b where b: "MarshalBinary f = Inr b" by (simp add: MarshalBinary_def f_def)
    obtain m1 where m1: "write_chunk wok now p c m = (m1, None)"
      "stripe_ready (length (chunks (nat mc) (drop (length c) d))) p m1" "queued m1 = add_mset b (queued m)"
      "mux_nextSeq m1 = mux_nextSeq m + 1" "s_ID (sstore m1 ! p) = s_ID ?s"
      "nextStripSeq (sstore m1 ! p) = nextStripSeq ?s + 1"
      using less.prems(1) lc b unfolding ch f_def by (auto elim: write_chunk_striped)
    have st: "write_loop wok now p mc d t m = write_loop wok now p mc (drop (length c) d) (t + length c) m1"
      using less.prems False m1(1) by (subst write_loop.simps) (simp add: Let_def flip: c_def)
    have "length (drop (length c) d) < length d" using c False by simp
    from less.hyps [OF this m1(2) less.prems(2,3), of "t + length c"] obtain m' bs where IH:
      "write_loop wok now p mc (drop (length c) d) (t + length c) m1 = Some (Inr (m', t + length d, None))"
      "queued m' = queued m + mset (b # bs)"
      "list_all2 (\<lambda>f b. MarshalBinary f = Inr b)
        (stripe_frames (s_ID ?s) (mux_nextSeq m + 1) (nextStripSeq ?s + 1) (chunks (nat mc) (drop (length c) d))) bs"
      using c m1 by auto
    then have "list_all2 (\<lambda>f b. MarshalBinary f = Inr b)
        (stripe_frames (s_ID ?s) (mux_nextSeq m) (nextStripSeq ?s) (chunks (nat mc) d)) (b # bs)"
      using b by (simp add: f_def ch)
    then show ?thesis using IH(1,2) by (intro exI [of _ m'] exI [of _ "b # bs"]) (simp add: st)
  qed
qed

lemma mex_le_length: "mex xs \<le> length xs"
proof -
  have "card {..<mex xs} \<le> card (set xs)" using mex_spec(2) by (intro card_mono) auto
  then show ?thesis using card_length [of xs] by simp
qed

lemma in_window_small:
  "\<forall>i\<in>set is. i < 2 ^ 31 \<Longrightarrow> length seen + length is \<le> 2 ^ 31 \<Longrightarrow> in_window seen is"
proof (induction "is" arbitrary: seen)
  case (Cons i "is")
  then show ?case using mex_le_length [of seen] by auto
qed simp

section \<open>Chunk sizes that do not work\<close>

lemma write_loop_zero:
  assumes "write_loop wok now p mc d t m = Some r"
  shows "mc = 0 \<longrightarrow> d \<noteq> [] \<longrightarrow> (\<exists>m' e. r = Inr (m', t, Some e))"
proof (rule write_loop.raw_induct [where P = "\<lambda>wok now p mc d t m r. mc = 0 \<longrightarrow> d \<noteq> [] \<longrightarrow> (\<exists>m' e. r = Inr (m', t, Some e))",
      OF _ assms], intro impI)
  fix wl wok now p and mc :: int and d t m r
  assume IH: "\<And>wok now p mc d t m r. wl wok now p mc d t m = Some r \<Longrightarrow> mc = 0 \<longrightarrow> d \<noteq> [] \<longrightarrow> (\<exists>m' e. r = Inr (m', t, Some e))"
    and eq: "(if d = [] then Some (Inr (m, t, None))
      else if int (length d) > mc \<and> mc < 0 then Some (Inl SliceBounds)
      else let chunk = (if int (length d) > mc then take (nat mc) d else d); (m1, err) = write_chunk wok now p chunk m
        in case err of Some e \<Rightarrow> Some (Inr (m1, t, Some e))
           | None \<Rightarrow> wl wok now p mc (drop (length chunk) d) (t + length chunk) m1) = Some r"
    and z: "mc = 0" "d \<noteq> []"
  obtain m1 err where wc: "write_chunk wok now p [] m = (m1, err)" by fastforce
  show "\<exists>m' e. r = Inr (m', t, Some e)"
  proof (cases err)
    case None
    have "wl wok now p 0 d t m1 = Some r" using eq z wc None by simp
    from IH [OF this] z show ?thesis by simp
  next
    case (Some e)
    then show ?thesis using eq z wc by auto
  qed
qed

text \<open>A plain stream for stream identifier 7 on one connection, and a striped one on two.\<close>

definition plain_demo :: Mux where
  "plain_demo = (New False 0 1)\<lparr>sstore := [new_Stream 7 (Some 0) False], streams := [(7, 0)]\<rparr>"

definition striped_demo :: Mux where
  "striped_demo = (New True 0 2)\<lparr>sstore := [new_Stream 7 None True], streams := [(7, 0)]\<rparr>"

lemma plain_demo_simps [simp]:
  "sstore plain_demo = [new_Stream 7 (Some 0) False]" "cstore plain_demo = [new_muxConn 0 0]"
  "streams plain_demo = [(7, 0)]"
  by (simp_all add: plain_demo_def New_def)

lemma striped_demo_simps [simp]:
  "sstore striped_demo = [new_Stream 7 None True]" "cstore striped_demo = [new_muxConn 0 0, new_muxConn 1 0]"
  "streams striped_demo = [(7, 0)]" "live_conns striped_demo = [0, 1]" "conns striped_demo = [Some 0, Some 1]"
  by (simp_all add: striped_demo_def New_def live_conns_def upt_rec)

lemma new_objects_simps [simp]:
  "s_ID (new_Stream i a b) = i" "recv (new_Stream i a b) = []" "recvClosed (new_Stream i a b) = False"
  "s_closed (new_Stream i a b) = False" "doneClosed (new_Stream i a b) = False" "leftover (new_Stream i a b) = []"
  "assignedConn (new_Stream i a b) = a" "striping (new_Stream i a b) = b" "nextStripSeq (new_Stream i a b) = 0"
  "reorder (new_Stream i a b) = (if b then Some newReorderBuffer else None)"
  "closePending (new_Stream i a b) = False" "inflight (new_Stream i a b) = 0"
  "connClosed (new_muxConn j t) = False" "writeChClosed (new_muxConn j t) = False" "writeCh (new_muxConn j t) = []"
  "latency (new_muxConn j t) = 0" "errors (new_muxConn j t) = 0" "wrrCurrent (new_muxConn j t) = 0"
  by (simp_all add: new_Stream_def new_muxConn_def)

section \<open>Properties\<close>

text \<open>
  C24: what a plain stream writes is what its peer can read.  If the pinned connection takes the writes,
  \<^verbatim>\<open>Write\<close> reports all of the data written, and once the peer's read loop and dispatcher have
  processed the bytes that this put on the connection, exactly that data has been added, in order, to
  what the receiving stream has to read (as long as its channel has room for the frames).
\<close>

theorem plain_stream_transfer:
  assumes "p < length (sstore A)" "\<not> s_closed (sstore A ! p)" "\<not> striping (sstore A ! p)"
    and "assignedConn (sstore A ! p) = Some a" "a < length (cstore A)" "\<not> connClosed (cstore A ! a)" "\<forall>n. wok a n"
    and "map_of (streams B) (s_ID (sstore A ! p)) = Some q" "s_ID (sstore A ! p) \<noteq> 0" "q < length (sstore B)"
    and "\<not> striping (sstore B ! q)" "\<not> recvClosed (sstore B ! q)" "\<not> doneClosed (sstore B ! q)"
    and "length (recv (sstore B ! q)) + length (chunks (nat (MaxFramePayload env)) d) \<le> recvCap"
  shows "\<exists>A' bs B'. Stream_Write env wok now p d A = Some (Inr (A', length d, None))
    \<and> wire (cstore A' ! a) = wire (cstore A ! a) @ bs
    \<and> dispatch_all wok' pick (map (Pair now') (fst (read_frames idx (concat bs)))) pend B = Ret B' pend
    \<and> unread (sstore B' ! q) = unread (sstore B ! q) @ d"
proof -
  let ?mc = "MaxFramePayload env" and ?i = "s_ID (sstore A ! p)"
  have mc: "0 < ?mc" "?mc \<le> int maxPayload" by (auto simp: MaxFramePayload_def maxPayload_def split: option.splits)
  let ?fs = "data_frames ?i (mux_nextSeq A) (chunks (nat ?mc) d)"
  obtain A' bs where w: "write_loop wok now p ?mc d 0 A = Some (Inr (A', length d, None))"
    "wire (cstore A' ! a) = wire (cstore A ! a) @ bs" "list_all2 (\<lambda>f b. MarshalBinary f = Inr b) ?fs bs"
    using write_loop_plain [of p A a wok ?mc now d 0] assms(1,3-7) mc by auto
  let ?rs = "map (\<lambda>f. (on_wire f)\<lparr>connIdx := idx\<rparr>) ?fs"
  have rf: "fst (read_frames idx (concat bs)) = ?rs" using read_frames_marshalled [OF w(3)] by simp
  have pl: "map (\<lambda>x. Payload (snd x)) (map (Pair now') ?rs) = chunks (nat ?mc) d"
    using data_frames_props(2) [of ?i "mux_nextSeq A" "chunks (nat ?mc) d"] by (simp add: on_wire_def comp_def)
  define B' where "B' = upd_stream q (\<lambda>s. s\<lparr>recv := recv s @ chunks (nat ?mc) d\<rparr>) B"
  have "dispatch_all wok' pick (map (Pair now') ?rs) pend B =
      Ret (upd_stream q (\<lambda>s. s\<lparr>recv := recv s @ map (\<lambda>x. Payload (snd x)) (map (Pair now') ?rs)\<rparr>) B) pend"
    using assms(8-14) data_frames_props(1,3) [of ?i "mux_nextSeq A" "chunks (nat ?mc) d"]
    by (intro dispatch_all_plain) (auto simp: on_wire_def)
  then have "dispatch_all wok' pick (map (Pair now') ?rs) pend B = Ret B' pend" unfolding pl B'_def .
  moreover have "unread (sstore B' ! q) = unread (sstore B ! q) @ d"
    using assms(10) mc by (simp add: B'_def unread_def concat_chunks)
  moreover have "Stream_Write env wok now p d A = Some (Inr (A', length d, None))"
    using assms(2,3) w(1) by (simp add: Stream_Write_def)
  ultimately show ?thesis using w(2) rf by auto
qed

theorem plain_stream_transfer_witness:
  "\<exists>A' bs B'. Stream_Write None (\<lambda>_ _. True) 0 0 [1, 2, 3] plain_demo = Some (Inr (A', length [1 :: byte, 2, 3], None))
    \<and> wire (cstore A' ! 0) = wire (cstore plain_demo ! 0) @ bs
    \<and> dispatch_all (\<lambda>_ _. True) True (map (Pair 0) (fst (read_frames 0 (concat bs)))) [] plain_demo = Ret B' []
    \<and> unread (sstore B' ! 0) = unread (sstore plain_demo ! 0) @ [1, 2, 3]"
  by (rule plain_stream_transfer) (simp_all add: chunks.simps MaxFramePayload_def recvCap_def)

text \<open>
  C1: what a striped stream writes is what its peer can read, in whatever order the connections deliver
  the frames and however often each arrives.  \<^verbatim>\<open>Write\<close> queues one frame per chunk on the live
  connections; if the peer's dispatcher gets each of them at least once, within 5 s and with at most 4096
  arrivals, the data is added to what the receiving stream has to read, complete, in order and once.
\<close>

theorem striped_stream_transfer:
  assumes "\<not> s_closed (sstore A ! p)" "nextStripSeq (sstore A ! p) = 0"
    and "stripe_ready (length (chunks (nat (MaxFramePayload env - 4)) d)) p A" "4 < MaxFramePayload env"
    and "map_of (streams B) (s_ID (sstore A ! p)) = Some q" "s_ID (sstore A ! p) \<noteq> 0" "q < length (sstore B)"
    and "striping (sstore B ! q)" "reorder (sstore B ! q) = Some newReorderBuffer" "\<not> closePending (sstore B ! q)"
    and "\<not> recvClosed (sstore B ! q)" "\<not> doneClosed (sstore B ! q)"
    and "length (recv (sstore B ! q)) + length (chunks (nat (MaxFramePayload env - 4)) d) \<le> recvCap"
    and "set (map snd arrivals) = {..<length (chunks (nat (MaxFramePayload env - 4)) d)}" "length arrivals \<le> 4096"
    and "\<forall>(t, k)\<in>set arrivals. t0 \<le> t \<and> t \<le> t0 + 5 * 10 ^ 9"
  shows "\<exists>A' bs B'. Stream_Write env wok now p d A = Some (Inr (A', length d, None))
    \<and> queued A' = queued A + mset bs
    \<and> dispatch_all wok' pick (map (\<lambda>(t, k). (t, hd (fst (read_frames (ix k) (bs ! k))))) arrivals) pend B = Ret B' pend
    \<and> unread (sstore B' ! q) = unread (sstore B ! q) @ d"
proof -
  let ?mc = "MaxFramePayload env - 4" and ?i = "s_ID (sstore A ! p)"
  let ?cs = "chunks (nat ?mc) d"
  have mc: "0 < ?mc" "?mc + 4 \<le> int maxPayload"
    using assms(4) by (auto simp: MaxFramePayload_def maxPayload_def split: option.splits if_splits)
  let ?fs = "stripe_frames ?i (mux_nextSeq A) 0 ?cs"
  obtain A' bs where w: "write_loop wok now p ?mc d 0 A = Some (Inr (A', length d, None))"
    "queued A' = queued A + mset bs" "list_all2 (\<lambda>f b. MarshalBinary f = Inr b) ?fs bs"
    using write_loop_striped [OF assms(3) mc, of wok now 0] assms(2) by auto
  have sw: "Stream_Write env wok now p d A = Some (Inr (A', length d, None))"
    using assms(1,3) w(1) by (simp add: Stream_Write_def stripe_ready_def stripSeqSize_def)
  let ?F = "\<lambda>k. hd (fst (read_frames (ix k) (bs ! k)))"
  let ?d = "\<lambda>k. ?cs ! k"
  have F: "StreamID (?F k) = ?i \<and> Type (?F k) = FrameData \<and> Payload (?F k) = PutUint32 (of_nat k) @ ?d k"
    if "k < length ?cs" for k
  proof -
    have "MarshalBinary (?fs ! k) = Inr (bs ! k)" using list_all2_nthD [OF w(3)] that by simp
    then have "?F k = (on_wire (?fs ! k))\<lparr>connIdx := ix k\<rparr>"
      using read_frames_Cons [of "?fs ! k" "bs ! k" "ix k" "[]"] by simp
    then show ?thesis using stripe_frames_nth [OF that, of ?i "mux_nextSeq A" 0] by (simp add: on_wire_def)
  qed
  have k: "k < length ?cs" if "k \<in> snd ` set arrivals" for k using that assms(14) by simp
  have n: "length ?cs \<le> 1024" using assms(13) by (simp add: recvCap_def)
  have win: "in_window [] (map snd arrivals)"
    using assms(14,15) n by (intro in_window_small) (auto dest: k)
  have mex: "mex (map snd arrivals) = length ?cs"
    by (rule mex_unique) (simp_all only: assms(14), auto)
  obtain rb where rb: "insert_all ?d arrivals newReorderBuffer = (rb, map ?d [0..<length ?cs])"
    using insert_all_new [OF win, of ?d] mex by metis
  have map_d: "map ?d [0..<length ?cs] = ?cs" by (simp add: map_nth)
  have lim: "within_limits ?d arrivals newReorderBuffer"
    using assms(15,16) by (intro within_limits_recent) (auto simp: newReorderBuffer_def)
  define B' where "B' = upd_stream q (\<lambda>s. s\<lparr>reorder := Some rb, recv := recv s @ ?cs\<rparr>) B"
  have "dispatch_all wok' pick (map (\<lambda>(t, k). (t, ?F k)) arrivals) pend B = Ret B' pend"
    unfolding B'_def
    using assms(5-13) rb lim F k map_d by (intro dispatch_all_striped [where rb = newReorderBuffer and d = ?d]) auto
  moreover have "unread (sstore B' ! q) = unread (sstore B ! q) @ d"
    using assms(7) mc by (simp add: B'_def unread_def concat_chunks)
  ultimately show ?thesis using sw w(2) by blast
qed

theorem striped_stream_transfer_witness:
  "\<exists>A' bs B'. Stream_Write (Some 6) (\<lambda>_ _. True) 0 0 [1, 2, 3] striped_demo = Some (Inr (A', length [1 :: byte, 2, 3], None))
    \<and> queued A' = queued striped_demo + mset bs
    \<and> dispatch_all (\<lambda>_ _. True) True
        (map (\<lambda>(t, k). (t, hd (fst (read_frames (int k) (bs ! k))))) [(5, 1), (6, 1), (7, 0)]) [] striped_demo = Ret B' []
    \<and> unread (sstore B' ! 0) = unread (sstore striped_demo ! 0) @ [1, 2, 3]"
proof (rule striped_stream_transfer [where ?t0.0 = 5])
  have c: "chunks (nat (MaxFramePayload (Some 6) - 4)) [1, 2, 3] = [[1, 2], [3 :: byte]]"
    by (simp add: chunks.simps MaxFramePayload_def maxPayload_def)
  show "stripe_ready (length (chunks (nat (MaxFramePayload (Some 6) - 4)) [1 :: byte, 2, 3])) 0 striped_demo"
    unfolding c by (simp add: stripe_ready_def wrr_room_def conns_ok_def stats_ok_def writeChCap_def)
  show "set (map snd [(5 :: int, 1), (6, 1), (7, 0)]) = {..<length (chunks (nat (MaxFramePayload (Some 6) - 4)) [1 :: byte, 2, 3])}"
    unfolding c by auto
  show "length (recv (sstore striped_demo ! 0)) + length (chunks (nat (MaxFramePayload (Some 6) - 4)) [1 :: byte, 2, 3]) \<le> recvCap"
    unfolding c by (simp add: recvCap_def)
qed (simp_all add: MaxFramePayload_def maxPayload_def)

text \<open>
  a reader gets the bytes of its stream in order, without loss or repetition, whatever buffer sizes it
  reads with, and a read waits only when there is nothing to read.
\<close>

theorem stream_read_in_order:
  "(case read_many ns s of (s', out) \<Rightarrow> unread s = out @ unread s')
   \<and> (case Stream_Read n s of Blocks s' \<Rightarrow> unread s = [] | Ret s' r \<Rightarrow> r = None \<longleftrightarrow> leftover s = [] \<and> recv s = [] | Panics e \<Rightarrow> False)"
  using read_many_unread [of ns s]
  by (auto simp: Stream_Read_def unread_def split: prod.split list.splits)

text \<open>
  with striping on, a configured frame size of 4 (which \<^verbatim>\<open>MaxFramePayload\<close> accepts) leaves no room for
  data: \<^verbatim>\<open>Write\<close> of a non-empty buffer never succeeds; it sends empty frames until a connection error stops
  it, or for ever.
\<close>

theorem write_tiny_frames_never_succeeds:
  assumes "Stream_Write (Some 4) wok now p d m = Some r" "striping (sstore m ! p)" "\<not> s_closed (sstore m ! p)" "d \<noteq> []"
  shows "\<exists>m' e. r = Inr (m', 0, Some e)"
  using assms write_loop_zero [of wok now p 0 d 0 m r]
  by (simp add: Stream_Write_def MaxFramePayload_def maxPayload_def stripSeqSize_def)

text \<open>
  a plain stream returned by \<^verbatim>\<open>AcceptStream\<close> has no pinned connection, and every \<^verbatim>\<open>Write\<close> of data to it
  fails with "no connections available", whatever connections there are.
\<close>

theorem accepted_plain_stream_cannot_write:
  assumes "AcceptStream pick now m = Ret m' (Inr p)" "\<not> striping (sstore m' ! p)" "d \<noteq> []"
  shows "\<exists>m''. Stream_Write env wok now' p d m' = Some (Inr (m'', 0, Some NoConnections))"
proof -
  have acc: "accept_frames pick now fs m = Ret m' (Inr p) \<Longrightarrow>
      assignedConn (sstore m' ! p) = None \<and> \<not> s_closed (sstore m' ! p)" for fs
    by (induction fs arbitrary: m)
       (auto simp: add_stream_def nth_append split: if_splits outcome.splits)
  have s: "assignedConn (sstore m' ! p) = None" "\<not> s_closed (sstore m' ! p)"
    using acc assms(1) by (auto simp: AcceptStream_def)
  have mc: "0 < MaxFramePayload env" by (auto simp: MaxFramePayload_def split: option.splits)
  show ?thesis
    using assms(2,3) s mc by (subst Stream_Write_def) (simp add: write_loop.simps write_chunk_def Let_def case_prod_beta)
qed

end
