(* ===== verification/Mux_Invariant.thy ===== *)
theory Mux_Invariant
  imports Mux_Transfer
begin

text \<open>
  Invariants of the multiplexer under every sequence of its operations: a step relation with one rule per
  operation of \<^verbatim>\<open>mux.go\<close> (calls of the application, iterations of the read, write and dispatch loops),
  the invariant that all of them keep, and what follows from it: received frames never make the dispatcher
  panic while the multiplexer is open, the stream limit holds, the count of active readers is right.
\<close>

section \<open>The invariant\<close>

definition stream_ok :: "Stream \<Rightarrow> bool" where
  "stream_ok s \<longleftrightarrow> (recvClosed s \<longrightarrow> doneClosed s) \<and> (doneClosed s \<longrightarrow> s_closed s) \<and> (reorder s = None \<longleftrightarrow> \<not> striping s)"

text \<open>The map of streams: one entry per identifier, an allocated stream of that identifier that is not done.\<close>

definition streams_ok :: "Mux \<Rightarrow> bool" where
  "streams_ok m \<longleftrightarrow> distinct (map fst (streams m))
     \<and> (\<forall>(i, p)\<in>set (streams m). p < length (sstore m) \<and> s_ID (sstore m ! p) = i \<and> \<not> doneClosed (sstore m ! p))"

definition open_streams :: "Mux \<Rightarrow> nat" where
  "open_streams m = length (filter (\<lambda>s. \<not> doneClosed s) (sstore m))"

definition raw_ok :: "Mux \<Rightarrow> bool" where
  "raw_ok m \<longleftrightarrow> (case rawPackets m of None \<Rightarrow> True | Some rb \<Rightarrow> closed rb \<or> raw_inv rb)"

definition mux_inv :: "Mux \<Rightarrow> bool" where
  "mux_inv m \<longleftrightarrow> (\<forall>s\<in>set (sstore m). stream_ok s) \<and> streams_ok m \<and> streamCount m = int (open_streams m)
     \<and> conns_ok m \<and> activeReaders m = int (length (live_conns m)) \<and> (allDead m \<longrightarrow> inFramesClosed m) \<and> raw_ok m"

section \<open>Operations that touch connections only\<close>

definition erase_conns :: "Mux \<Rightarrow> Mux" where
  "erase_conns m = m\<lparr>cstore := [], mux_nextSeq := 0\<rparr>"

definition only_conns :: "Mux \<Rightarrow> Mux \<Rightarrow> bool" where
  "only_conns m m' \<longleftrightarrow> erase_conns m' = erase_conns m \<and> length (cstore m') = length (cstore m)"

lemma only_connsI [intro]: "length cs = length (cstore m) \<Longrightarrow> only_conns m (m\<lparr>cstore := cs\<rparr>)"
  by (simp add: only_conns_def erase_conns_def)

lemma only_conns_refl [simp]: "only_conns m m"
  by (simp add: only_conns_def)

lemma only_conns_trans [trans]: "only_conns m m1 \<Longrightarrow> only_conns m1 m2 \<Longrightarrow> only_conns m m2"
  by (simp add: only_conns_def)

lemma only_conns_upd_conn [simp]: "only_conns m (upd_conn a f m)"
  by (auto simp: upd_conn_def)

lemma only_conns_fields:
  assumes "only_conns m m'"
  shows "conns m' = conns m" "sstore m' = sstore m" "streams m' = streams m" "streamCount m' = streamCount m"
    "activeReaders m' = activeReaders m" "allDead m' = allDead m" "inFramesClosed m' = inFramesClosed m"
    "rawPackets m' = rawPackets m" "maxStreams m' = maxStreams m" "acceptedStreams m' = acceptedStreams m"
    "acceptClosed m' = acceptClosed m" "length (cstore m') = length (cstore m)" "inFrames m' = inFrames m"
    "reconnecting m' = reconnecting m"
proof -
  have e: "f (erase_conns m') = f (erase_conns m)" for f :: "Mux \<Rightarrow> 'b" using assms by (simp add: only_conns_def)
  show "conns m' = conns m" using e [of conns] by (simp add: erase_conns_def)
  show "sstore m' = sstore m" using e [of sstore] by (simp add: erase_conns_def)
  show "streams m' = streams m" using e [of streams] by (simp add: erase_conns_def)
  show "streamCount m' = streamCount m" using e [of streamCount] by (simp add: erase_conns_def)
  show "activeReaders m' = activeReaders m" using e [of activeReaders] by (simp add: erase_conns_def)
  show "allDead m' = allDead m" using e [of allDead] by (simp add: erase_conns_def)
  show "inFramesClosed m' = inFramesClosed m" using e [of inFramesClosed] by (simp add: erase_conns_def)
  show "rawPackets m' = rawPackets m" using e [of rawPackets] by (simp add: erase_conns_def)
  show "maxStreams m' = maxStreams m" using e [of maxStreams] by (simp add: erase_conns_def)
  show "acceptedStreams m' = acceptedStreams m" using e [of acceptedStreams] by (simp add: erase_conns_def)
  show "acceptClosed m' = acceptClosed m" using e [of acceptClosed] by (simp add: erase_conns_def)
  show "inFrames m' = inFrames m" using e [of inFrames] by (simp add: erase_conns_def)
  show "reconnecting m' = reconnecting m" using e [of reconnecting] by (simp add: erase_conns_def)
  show "length (cstore m') = length (cstore m)" using assms by (simp add: only_conns_def)
qed

lemma only_conns_NextSeq: "NextSeq m = (m', sq) \<Longrightarrow> only_conns m m'"
  by (auto simp: NextSeq_def only_conns_def erase_conns_def)

lemma swrr_pass_length: "swrr_pass el cs best cw tot = (cs', best', tot') \<Longrightarrow> length cs' = length cs"
proof (induction el arbitrary: cs best cw tot)
  case (Cons a el)
  then show ?case by (auto simp: Let_def split: if_splits)
qed simp

lemma only_conns_selectConn: "selectConn m = (m', r) \<Longrightarrow> only_conns m m'"
  by (auto simp: selectConn_def split: if_splits prod.splits option.splits dest!: swrr_pass_length)

lemma only_conns_conn_write: "conn_write wok a d m = (m', ok) \<Longrightarrow> only_conns m m'"
  by (auto simp: conn_write_def Let_def)

lemma only_conns_counts [simp]: "only_conns m (count_sent now a d m)" "only_conns m (count_error a m)"
  by (simp_all add: count_sent_def count_error_def)

lemma only_conns_sendFrameOn:
  assumes "sendFrameOn wok now mc f m = (m', e)"
  shows "only_conns m m'"
proof -
  obtain m1 mc1 where s: "(case mc of None \<Rightarrow> selectConn m | Some a \<Rightarrow> (m, Some a)) = (m1, mc1)" by fastforce
  then have 1: "only_conns m m1" by (auto split: option.splits dest: only_conns_selectConn)
  show ?thesis
  proof (cases mc1)
    case None
    then show ?thesis using assms s 1 by (simp add: sendFrameOn_def)
  next
    case (Some a)
    show ?thesis
    proof (cases "MarshalBinary f")
      case (Inl e)
      then show ?thesis using assms s Some 1 by (simp add: sendFrameOn_def)
    next
      case (Inr d)
      obtain m2 ok where w: "conn_write wok a d m1 = (m2, ok)" by fastforce
      have 2: "only_conns m m2" using 1 only_conns_conn_write [OF w] by (rule only_conns_trans)
      show ?thesis
      proof (cases ok)
        case True
        then have "m' = count_sent now a d m2" using assms s Some Inr w by (simp add: sendFrameOn_def)
        then show ?thesis using only_conns_trans [OF 2 only_conns_counts(1)] by simp
      next
        case False
        obtain m4 fb where f: "selectConn (count_error a m2) = (m4, fb)" by fastforce
        have 4: "only_conns m m4"
          using only_conns_trans [OF only_conns_trans [OF 2 only_conns_counts(2)] only_conns_selectConn [OF f]] .
        show ?thesis
        proof (cases "fb = None \<or> fb = Some a")
          case True
          then show ?thesis using assms s Some Inr w f False 4 by (auto simp: sendFrameOn_def)
        next
          case False2: False
          then obtain b where b: "fb = Some b" "b \<noteq> a" by auto
          obtain m5 ok2 where w2: "conn_write wok b d m4 = (m5, ok2)" by fastforce
          have 5: "only_conns m m5" using 4 only_conns_conn_write [OF w2] by (rule only_conns_trans)
          have "m' = (if ok2 then count_sent now b d m5 else count_error b m5)"
            using assms s Some Inr w f False b w2 by (simp add: sendFrameOn_def split: if_splits)
          then show ?thesis using only_conns_trans [OF 5] by simp
        qed
      qed
    qed
  qed
qed

lemma only_conns_retransmit: "only_conns m (retransmit wok ds m)"
proof (induction ds arbitrary: m)
  case (Cons d ds)
  obtain m1 r where s: "selectConn m = (m1, r)" by fastforce
  have 1: "only_conns m m1" using s by (rule only_conns_selectConn)
  have 2: "only_conns m1 (fst (conn_write wok a x m1))" for a x
    using only_conns_conn_write [of wok a x m1] by (cases "conn_write wok a x m1") auto
  show ?case
  proof (cases r)
    case None
    then show ?thesis using s 1 by simp
  next
    case (Some a)
    let ?m2 = "fst (conn_write wok a (case d of None \<Rightarrow> [] | Some b \<Rightarrow> b) m1)"
    have "only_conns m ?m2" using 1 2 by (rule only_conns_trans)
    also have "only_conns ?m2 (retransmit wok ds ?m2)" by (rule Cons.IH)
    finally show ?thesis using s Some by simp
  qed
qed simp

lemma only_conns_ping: "only_conns m (ping_slots wok now i cs m)"
proof (induction cs arbitrary: i m)
  case (Cons c cs)
  show ?case
  proof (cases c)
    case None
    then show ?thesis using Cons.IH by simp
  next
    case (Some a)
    let ?m1 = "m\<lparr>mux_nextSeq := mux_nextSeq m + 1\<rparr>"
    let ?f = "\<lparr>StreamID = 0, Type = FramePing, Sequence = mux_nextSeq m + 1,
      Length = of_nat (length (encodePingPayload now (int i))), Payload = encodePingPayload now (int i), connIdx = 0\<rparr>"
    define m2 where "m2 = (case MarshalBinary ?f of Inl e \<Rightarrow> ?m1 | Inr d \<Rightarrow> fst (conn_write wok a d ?m1))"
    have st: "ping_slots wok now i (c # cs) m = ping_slots wok now (Suc i) cs m2"
      by (simp add: Some NextSeq_def m2_def Let_def split: sum.splits)
    have 1: "only_conns m ?m1" by (simp add: only_conns_def erase_conns_def)
    have 2: "only_conns ?m1 (fst (conn_write wok a d ?m1))" for d
      using only_conns_conn_write [of wok a d ?m1] by (cases "conn_write wok a d ?m1") simp
    have "only_conns m m2" unfolding m2_def using 1 only_conns_trans [OF 1 2] by (simp split: sum.splits)
    then show ?thesis unfolding st using Cons.IH by (rule only_conns_trans)
  qed
qed simp

lemma only_conns_fold_write: "only_conns m (foldl (\<lambda>m a. fst (conn_write wok a d m)) m as)"
proof (induction as arbitrary: m)
  case (Cons a as)
  have "only_conns m (fst (conn_write wok a d m))"
    using only_conns_conn_write [of wok a d m] by (cases "conn_write wok a d m") auto
  then show ?case using Cons.IH by (auto intro: only_conns_trans)
qed simp

lemma only_conns_probe: "only_conns m (ProbeConnections wok m)"
  unfolding ProbeConnections_def Let_def NextSeq_def
  by (auto split: sum.splits intro!: only_conns_trans [OF _ only_conns_fold_write]) (simp_all add: only_conns_def erase_conns_def)

lemma only_conns_fold_upd: "only_conns m (foldl (\<lambda>m a. upd_conn a f m) m as)"
  by (induction as arbitrary: m) (auto intro: only_conns_trans [OF only_conns_upd_conn])

lemma only_conns_inv: "only_conns m m' \<Longrightarrow> mux_inv m \<Longrightarrow> mux_inv m'"
  unfolding mux_inv_def streams_ok_def open_streams_def conns_ok_def live_conns_def raw_ok_def
  by (simp add: only_conns_fields)

section \<open>Operations on streams\<close>

lemma filter_update_same:
  "P y = P (xs ! i) \<Longrightarrow> length (filter P (xs[i := y])) = length (filter P xs)"
  by (induction xs arbitrary: i) (auto simp: nth_Cons split: nat.splits)

lemma filter_update_less:
  "i < length xs \<Longrightarrow> P (xs ! i) \<Longrightarrow> \<not> P y \<Longrightarrow> Suc (length (filter P (xs[i := y]))) = length (filter P xs)"
  by (induction xs arbitrary: i) (auto simp: nth_Cons split: nat.splits)

lemma upd_stream_inv:
  assumes "mux_inv m" "stream_ok (f (sstore m ! p))" "doneClosed (f (sstore m ! p)) = doneClosed (sstore m ! p)"
    "s_ID (f (sstore m ! p)) = s_ID (sstore m ! p)"
  shows "mux_inv (upd_stream p f m)"
proof -
  have "\<forall>s\<in>set (sstore (upd_stream p f m)). stream_ok s"
    using assms by (auto simp: mux_inv_def dest!: set_update_subset_insert [THEN subsetD])
  moreover have "open_streams (upd_stream p f m) = open_streams m"
    unfolding open_streams_def sstore_upd_stream using assms(3) by (intro filter_update_same) simp
  moreover have "streams_ok (upd_stream p f m)"
    using assms by (cases "p < length (sstore m)")
      (auto simp: mux_inv_def streams_ok_def upd_stream_def nth_list_update)
  ultimately show ?thesis
    using assms(1) by (simp add: mux_inv_def upd_stream_def conns_ok_def live_conns_def raw_ok_def)
qed

lemma stream_ok_nth: "mux_inv m \<Longrightarrow> p < length (sstore m) \<Longrightarrow> stream_ok (sstore m ! p)"
  by (simp add: mux_inv_def)

lemma set_delete: "x \<in> set (AList.delete k al) \<longleftrightarrow> x \<in> set al \<and> fst x \<noteq> k"
  by (auto simp: AList.delete_eq)

lemma distinct_delete: "distinct (map fst al) \<Longrightarrow> distinct (map fst (AList.delete k al))"
  by (simp add: distinct_delete)

text \<open>A stream becomes done: it leaves the map and the count.\<close>

lemma finish_stream_inv:
  assumes inv: "mux_inv m" and p: "p < length (sstore m)" "\<not> doneClosed (sstore m ! p)"
    and s': "stream_ok s'" "doneClosed s'"
  shows "mux_inv (m\<lparr>sstore := (sstore m)[p := s'], streams := AList.delete (s_ID (sstore m ! p)) (streams m),
           streamCount := streamCount m - 1\<rparr>)"
proof -
  have "\<forall>s\<in>set ((sstore m)[p := s']). stream_ok s"
    using inv s' by (auto simp: mux_inv_def dest!: set_update_subset_insert [THEN subsetD])
  moreover have "Suc (length (filter (\<lambda>s. \<not> doneClosed s) ((sstore m)[p := s']))) = open_streams m"
    unfolding open_streams_def using p s' by (intro filter_update_less) simp_all
  moreover have nq: "(sstore m)[p := s'] ! q = sstore m ! q" if "(i, q) \<in> set (streams m)" "i \<noteq> s_ID (sstore m ! p)" for i q
  proof -
    have "p \<noteq> q" using inv that by (auto simp: mux_inv_def streams_ok_def)
    then show ?thesis by simp
  qed
  then have "streams_ok (m\<lparr>sstore := (sstore m)[p := s'], streams := AList.delete (s_ID (sstore m ! p)) (streams m),
           streamCount := streamCount m - 1\<rparr>)"
    using inv unfolding streams_ok_def mux_inv_def by (fastforce simp: set_delete distinct_delete)
  ultimately show ?thesis
    using inv unfolding mux_inv_def by (simp add: open_streams_def conns_ok_def live_conns_def raw_ok_def)
qed

lemma closeStream_inv:
  assumes "mux_inv m" "p < length (sstore m)"
  shows "mux_inv (closeStream p m)"
proof (cases "s_closed (sstore m ! p)")
  case True
  then show ?thesis using assms by (simp add: closeStream_def)
next
  case False
  have ok: "stream_ok (sstore m ! p)" using assms by (rule stream_ok_nth)
  then have nd: "\<not> doneClosed (sstore m ! p)" using False by (auto simp: stream_ok_def)
  show ?thesis
    unfolding closeStream_def Let_def case_prod_beta
    using False nd ok by (simp, intro finish_stream_inv [OF assms])
      (auto simp: stream_ok_def split: option.splits prod.splits)
qed

lemma closeStream_frame [simp]:
  "length (sstore (closeStream p m)) = length (sstore m)" "conns (closeStream p m) = conns m"
  "activeReaders (closeStream p m) = activeReaders m" "maxStreams (closeStream p m) = maxStreams m"
  "acceptClosed (closeStream p m) = acceptClosed m" "acceptedStreams (closeStream p m) = acceptedStreams m"
  by (auto simp: closeStream_def Let_def case_prod_beta)

lemma closeStream_count: "streamCount (closeStream p m) \<le> streamCount m"
  by (auto simp: closeStream_def Let_def case_prod_beta)

text \<open>An operation on a sound state returns or waits in a sound state, and does not panic.\<close>

definition sound :: "('s \<Rightarrow> bool) \<Rightarrow> ('s, 'a) outcome \<Rightarrow> bool" where
  "sound P r \<longleftrightarrow> (case r of Ret s _ \<Rightarrow> P s | Blocks s \<Rightarrow> P s | Panics _ \<Rightarrow> False)"

lemma sound_simps [simp]: "sound P (Ret s x) = P s" "sound P (Blocks s) = P s" "sound P (Panics e) = False"
  by (simp_all add: sound_def)

definition same_stream :: "Stream \<Rightarrow> Stream \<Rightarrow> bool" where
  "same_stream s s' \<longleftrightarrow> stream_ok s' \<and> \<not> doneClosed s' \<and> s_ID s' = s_ID s \<and> striping s' = striping s"

lemma recv_send_sound: "stream_ok s \<Longrightarrow> \<not> doneClosed s \<Longrightarrow> sound (same_stream s) (recv_send pick d s)"
  by (auto simp: recv_send_def same_stream_def stream_ok_def)

lemma send_flushed_sound: "stream_ok s \<Longrightarrow> \<not> doneClosed s \<Longrightarrow> sound (same_stream s) (send_flushed pick ds s)"
proof (induction ds arbitrary: s)
  case (Cons d ds)
  have *: "sound (same_stream s) (recv_send pick d s)" using Cons.prems by (rule recv_send_sound)
  show ?case
  proof (cases "recv_send pick d s")
    case (Ret s' ok)
    then have s': "same_stream s s'" using * by simp
    then have "sound (same_stream s') (send_flushed pick ds s')"
      by (intro Cons.IH) (auto simp: same_stream_def)
    then have "sound (same_stream s) (send_flushed pick ds s')"
      using s' by (auto simp: sound_def same_stream_def split: outcome.splits)
    with Ret s' show ?thesis by simp
  qed (use * in auto)
qed (simp add: same_stream_def)

lemma streams_lookup:
  assumes "mux_inv m" "map_of (streams m) i = Some p"
  shows "p < length (sstore m)" "s_ID (sstore m ! p) = i" "\<not> doneClosed (sstore m ! p)" "stream_ok (sstore m ! p)"
proof -
  have "(i, p) \<in> set (streams m)" using assms(2) by (rule map_of_SomeD)
  then show "p < length (sstore m)" "s_ID (sstore m ! p) = i" "\<not> doneClosed (sstore m ! p)"
    using assms(1) by (auto simp: mux_inv_def streams_ok_def)
  then show "stream_ok (sstore m ! p)" using assms(1) by (simp add: stream_ok_nth)
qed

lemma upd_same_stream_inv:
  assumes "mux_inv m" "same_stream (sstore m ! p) s'" "\<not> doneClosed (sstore m ! p)"
  shows "mux_inv (upd_stream p (\<lambda>_. s') m)"
  using assms by (intro upd_stream_inv) (auto simp: same_stream_def)

lemma dispatchStriped_sound:
  assumes "mux_inv m" "map_of (streams m) i = Some p" "reorder (sstore m ! p) = Some rb"
  shows "sound mux_inv (dispatchStriped pick now p rb f m)"
proof (cases "length (Payload f) < stripSeqSize")
  case True
  then show ?thesis using assms(1) by (simp add: dispatchStriped_def)
next
  case False
  note s = streams_lookup [OF assms(1,2)]
  let ?s = "sstore m ! p"
  obtain rb' fl where ins: "Insert now (Uint32 (take stripSeqSize (Payload f))) (drop stripSeqSize (Payload f)) rb = (rb', fl)"
    by fastforce
  have "stream_ok (?s\<lparr>reorder := Some rb'\<rparr>)" using s(4) assms(3) by (simp add: stream_ok_def)
  then have snd: "sound (same_stream (?s\<lparr>reorder := Some rb'\<rparr>)) (send_flushed pick fl (?s\<lparr>reorder := Some rb'\<rparr>))"
    using s(3) by (intro send_flushed_sound) simp_all
  have same: "same_stream ?s s'" if "same_stream (?s\<lparr>reorder := Some rb'\<rparr>) s'" for s'
    using that by (simp add: same_stream_def)
  have inv: "mux_inv (upd_stream p (\<lambda>_. s') m)" if "same_stream (?s\<lparr>reorder := Some rb'\<rparr>) s'" for s'
    using upd_same_stream_inv [OF assms(1) same [OF that] s(3)] .
  have cl: "mux_inv (closeStream p (upd_stream p (\<lambda>_. s') m))" if "same_stream (?s\<lparr>reorder := Some rb'\<rparr>) s'" for s'
    using inv [OF that] s(1) by (intro closeStream_inv) simp_all
  show ?thesis
    using False snd inv cl
    by (cases "send_flushed pick fl (?s\<lparr>reorder := Some rb'\<rparr>)") (simp_all add: dispatchStriped_def ins Let_def)
qed

lemma dispatch_sound:
  assumes "mux_inv m"
  shows "sound mux_inv (dispatch pick now f m)"
proof (cases "map_of (streams m) (StreamID f)")
  case None
  then show ?thesis using assms by (simp add: dispatch_def)
next
  case (Some p)
  note s = streams_lookup [OF assms Some]
  let ?s = "sstore m ! p"
  have plain: "sound mux_inv (case recv_send pick (Payload f) ?s of
      Ret s' ok \<Rightarrow> Ret (upd_stream p (\<lambda>_. s') m) () | Blocks s' \<Rightarrow> Blocks m | Panics e \<Rightarrow> Panics e)"
    using recv_send_sound [OF s(4,3), of pick "Payload f"] upd_same_stream_inv [OF assms _ s(3)] assms
    by (cases "recv_send pick (Payload f) ?s") simp_all
  have cl: "mux_inv (closeStream p m)" using assms s(1) by (rule closeStream_inv)
  have cp: "mux_inv (upd_stream p (\<lambda>s. s\<lparr>closePending := True\<rparr>) m)"
    using assms s(4) by (intro upd_stream_inv) (simp_all add: stream_ok_def)
  show ?thesis
    using Some plain cl cp assms dispatchStriped_sound [OF assms Some, of _ pick now f]
    by (auto simp: dispatch_def Let_def split: option.splits bool.splits)
qed

lemma add_stream_inv:
  assumes "mux_inv m" "stream_ok s" "\<not> doneClosed s" "add_stream s m = (m', p)"
  shows "mux_inv m'"
proof -
  have m': "m' = m\<lparr>sstore := sstore m @ [s], streamCount := streamCount m + 1,
        streams := AList.update (s_ID s) (length (sstore m)) (streams m)\<rparr>"
    using assms(4) by (auto simp: add_stream_def)
  have d: "distinct (map fst (AList.update (s_ID s) (length (sstore m)) (streams m)))"
    using assms(1) by (simp add: mux_inv_def streams_ok_def distinct_update)
  have "q < Suc (length (sstore m)) \<and> s_ID ((sstore m @ [s]) ! q) = i \<and> \<not> doneClosed ((sstore m @ [s]) ! q)"
    if "(i, q) \<in> set (AList.update (s_ID s) (length (sstore m)) (streams m))" for i q
  proof -
    have "map_of (AList.update (s_ID s) (length (sstore m)) (streams m)) i = Some q"
      using that d by simp
    then have "(i = s_ID s \<and> q = length (sstore m)) \<or> map_of (streams m) i = Some q"
      by (auto simp: update_conv' split: if_splits)
    then show ?thesis using streams_lookup [OF assms(1)] assms(3) by (auto simp: nth_append)
  qed
  then have "streams_ok m'" using d by (auto simp: streams_ok_def m')
  then show ?thesis
    using assms(1-3) by (auto simp: mux_inv_def m' open_streams_def conns_ok_def live_conns_def raw_ok_def)
qed

lemma new_Stream_ok [simp]: "stream_ok (new_Stream i a b)"
  by (simp add: stream_ok_def)

lemma replay_sound: "mux_inv m \<Longrightarrow> sound mux_inv (replay pick now fs m)"
proof (induction fs arbitrary: m)
  case (Cons f fs)
  have "sound mux_inv (dispatch pick now f m)" using Cons.prems by (rule dispatch_sound)
  then show ?case using Cons.IH by (cases "dispatch pick now f m") simp_all
qed simp

lemma inFrames_inv [simp]: "mux_inv (m\<lparr>inFrames := fs\<rparr>) = mux_inv m"
  by (simp add: mux_inv_def streams_ok_def open_streams_def conns_ok_def live_conns_def raw_ok_def)

lemma accepted_inv [simp]: "mux_inv (m\<lparr>acceptedStreams := q\<rparr>) = mux_inv m"
  by (simp add: mux_inv_def streams_ok_def open_streams_def conns_ok_def live_conns_def raw_ok_def)

lemma accept_frames_sound: "mux_inv m \<Longrightarrow> sound mux_inv (accept_frames pick now fs m)"
proof (induction fs arbitrary: m)
  case (Cons f fs)
  obtain m1 p where a: "add_stream (new_Stream (StreamID f) None (shouldStripe m)) m = (m1, p)" by fastforce
  have 1: "mux_inv m1" using add_stream_inv [OF Cons.prems _ _ a] by simp
  have 2: "sound mux_inv (dispatch pick now f m)" using Cons.prems by (rule dispatch_sound)
  show ?case
    using Cons.IH Cons.prems a 1 2 by (cases "dispatch pick now f m") simp_all
qed simp

lemma dispatch_open_sound:
  assumes "mux_inv m" "\<not> acceptClosed m"
  shows "sound mux_inv (dispatch_open pick now pend f m)"
proof (cases "max_streams_reached m")
  case True
  then show ?thesis using assms by (simp add: dispatch_open_def)
next
  case False
  obtain m1 asg where 1: "selectConn m = (m1, asg)" by fastforce
  note oc = only_conns_selectConn [OF 1]
  have i1: "mux_inv m1" using only_conns_inv [OF oc assms(1)] .
  obtain m2 p where 2: "add_stream (new_Stream (StreamID f) asg (shouldStripe m)) m1 = (m2, p)" by fastforce
  have i2: "mux_inv m2" using add_stream_inv [OF i1 _ _ 2] by simp
  have ac: "\<not> acceptClosed m2" using 2 assms(2) only_conns_fields(11) [OF oc] by (auto simp: add_stream_def)
  define m3 where "m3 = (case acceptedStreams m2 of None \<Rightarrow> m2
      | Some (n, q) \<Rightarrow> if length q < n then m2\<lparr>acceptedStreams := Some (n, q @ [p])\<rparr> else m2)"
  have i3: "mux_inv m3" using i2 by (auto simp: m3_def split: option.splits)
  have r: "sound mux_inv (replay pick now fs m3)" for fs using i3 by (rule replay_sound)
  have "dispatch_open pick now pend f m = (case map_of pend (StreamID f) of None \<Rightarrow> Ret m3 pend
      | Some fs \<Rightarrow> (case replay pick now fs m3 of Ret m4 _ \<Rightarrow> Ret m4 (AList.delete (StreamID f) pend)
           | Blocks m4 \<Rightarrow> Blocks m4 | Panics e \<Rightarrow> Panics e))"
    unfolding dispatch_open_def 1 2 Let_def prod.case m3_def using False ac by simp
  then show ?thesis
    using i3 r [of "the (map_of pend (StreamID f))"]
    by (cases "map_of pend (StreamID f)"; cases "replay pick now (the (map_of pend (StreamID f))) m3") simp_all
qed

lemma UpdateLatency_only_conns: "only_conns m (UpdateLatency idx rtt m)"
  by (auto simp: UpdateLatency_def split: option.splits)

lemma lastPongAt_inv [simp]: "mux_inv (m\<lparr>lastPongAt := t\<rparr>) = mux_inv m"
  by (simp add: mux_inv_def streams_ok_def open_streams_def conns_ok_def live_conns_def raw_ok_def)

lemma dispatch_ping_inv: "mux_inv m \<Longrightarrow> mux_inv (dispatch_ping wok now f m)"
proof -
  assume inv: "mux_inv m"
  have "only_conns m (fst (sendFrameOn wok now mc pong (m\<lparr>mux_nextSeq := sq\<rparr>)))" for mc pong sq
  proof -
    obtain m' e where "sendFrameOn wok now mc pong (m\<lparr>mux_nextSeq := sq\<rparr>) = (m', e)" by fastforce
    moreover have "only_conns m (m\<lparr>mux_nextSeq := sq\<rparr>)" by (simp add: only_conns_def erase_conns_def)
    ultimately show ?thesis using only_conns_sendFrameOn only_conns_trans by fastforce
  qed
  then show ?thesis by (auto simp: dispatch_ping_def NextSeq_def Let_def intro!: only_conns_inv [OF _ inv])
qed

lemma dispatch_pong_inv: "mux_inv m \<Longrightarrow> mux_inv (dispatch_pong now f m)"
  using only_conns_inv [OF UpdateLatency_only_conns, of "m\<lparr>lastPongAt := now\<rparr>"]
  by (auto simp: dispatch_pong_def Let_def split: option.splits)

lemma raw_Push_sound: "closed rb \<or> raw_inv rb \<Longrightarrow> \<exists>rb' n. raw_Push f rb = Inr (rb', n) \<and> (closed rb' \<or> raw_inv rb')"
proof (cases "closed rb")
  case True
  then show ?thesis by (simp add: raw_Push_def raw_push_locked_def)
next
  case False
  assume "closed rb \<or> raw_inv rb"
  with False have "raw_inv rb" by simp
  then show ?thesis using raw_Push_Inr raw_next_inv by blast
qed

lemma raw_set_inv: "mux_inv m \<Longrightarrow> closed rb \<or> raw_inv rb \<Longrightarrow> mux_inv (m\<lparr>rawPackets := Some rb, rawEvictions := n\<rparr>)"
  by (simp add: mux_inv_def streams_ok_def open_streams_def conns_ok_def live_conns_def raw_ok_def)

lemma dispatch_frame_sound:
  assumes "mux_inv m" "\<not> acceptClosed m"
  shows "sound mux_inv (dispatch_frame wok pick now pend f m)"
proof -
  have d: "sound mux_inv (case dispatch pick now f m of Ret m1 _ \<Rightarrow> Ret m1 pend | Blocks m1 \<Rightarrow> Blocks m1 | Panics e \<Rightarrow> Panics e)"
    using dispatch_sound [OF assms(1), of pick now f] by (cases "dispatch pick now f m") simp_all
  have r: "sound mux_inv (case raw_Push f (the (rawPackets m)) of Inl e \<Rightarrow> Panics e
      | Inr (rb, n) \<Rightarrow> Ret (m\<lparr>rawPackets := Some rb, rawEvictions := (if n > 0 then i64 (rawEvictions m + 1) else rawEvictions m)\<rparr>) pend)"
    if nn: "rawPackets m \<noteq> None"
  proof -
    obtain rb where rb1: "rawPackets m = Some rb" using nn by auto
    then have rb: "rawPackets m = Some rb" "closed rb \<or> raw_inv rb"
      using assms(1) by (simp_all add: mux_inv_def raw_ok_def)
    then show ?thesis using raw_Push_sound [OF rb(2), of f] raw_set_inv [OF assms(1)] by auto
  qed
  show ?thesis
    using assms(1) d r dispatch_open_sound [OF assms] dispatch_ping_inv [OF assms(1)] dispatch_pong_inv [OF assms(1)]
    by (auto simp: dispatch_frame_def)
qed

lemma OpenStream_inv:
  assumes inv: "mux_inv m" and o: "OpenStream wok now i m = (m', r)"
  shows "mux_inv m'"
proof -
  obtain m1 asg where 1: "selectConn m = (m1, asg)" by fastforce
  have i1: "mux_inv m1" using only_conns_inv [OF only_conns_selectConn [OF 1] inv] .
  define s where "s = new_Stream i asg (shouldStripe m1)"
  obtain m2 p where 2: "add_stream s m1 = (m2, p)" by fastforce
  have i2: "mux_inv m2" using add_stream_inv [OF i1 _ _ 2] by (simp add: s_def)
  obtain m3 sq where 3: "NextSeq m2 = (m3, sq)" by fastforce
  obtain m4 e where 4: "sendFrameOn wok now asg (ctl_frame i FrameOpen sq) m3 = (m4, e)" by fastforce
  have oc: "only_conns m2 m4" using only_conns_trans [OF only_conns_NextSeq [OF 3] only_conns_sendFrameOn [OF 4]] .
  have i4: "mux_inv m4" using only_conns_inv [OF oc i2] .
  show ?thesis
  proof (cases e)
    case None
    then show ?thesis using o i4 by (simp add: OpenStream_def 1 2 3 4 flip: s_def)
  next
    case (Some err)
    have f: "sstore m4 = sstore m1 @ [s]" "streamCount m4 = streamCount m1 + 1"
      "streams m4 = AList.update i (length (sstore m1)) (streams m1)"
      using only_conns_fields [OF oc] 2 by (auto simp: add_stream_def s_def)
    have m': "m' = m4\<lparr>streams := AList.delete i (streams m4), streamCount := streamCount m4 - 1, sstore := butlast (sstore m4)\<rparr>"
      using o unfolding OpenStream_def 1 Let_def prod.case s_def [symmetric] 2 3 4 Some by simp
    have "set (AList.delete i (streams m4)) \<subseteq> set (streams m1)"
    proof
      fix x assume "x \<in> set (AList.delete i (streams m4))"
      then have x: "(fst x, snd x) \<in> set (streams m4)" "fst x \<noteq> i" by (auto simp: set_delete)
      have "map_of (streams m4) (fst x) = Some (snd x)"
        using x(1) i4 by (intro map_of_is_SomeI) (simp_all add: mux_inv_def streams_ok_def)
      then show "x \<in> set (streams m1)" using x(2) by (auto simp: f update_conv' dest: map_of_SomeD)
    qed
    then have "streams_ok m'"
      using i4 i1 by (auto simp: streams_ok_def m' mux_inv_def f distinct_delete distinct_update)
    then show ?thesis
      using i4 i1 by (auto simp: mux_inv_def m' f open_streams_def conns_ok_def live_conns_def raw_ok_def)
  qed
qed

lemma Stream_Close_finish_sound:
  assumes "mux_inv m" "p < length (sstore m)" "s_closed (sstore m ! p)" "\<not> doneClosed (sstore m ! p)"
  shows "sound mux_inv (Stream_Close_finish wok now p m)"
proof -
  let ?s = "sstore m ! p"
  define m3 where "m3 = m\<lparr>sstore := (sstore m)[p := ?s\<lparr>doneClosed := True\<rparr>],
      streams := AList.delete (s_ID ?s) (streams m), streamCount := streamCount m - 1\<rparr>"
  have "stream_ok ?s" using assms(1,2) by (rule stream_ok_nth)
  then have "mux_inv m3" unfolding m3_def
    using assms by (intro finish_stream_inv) (auto simp: stream_ok_def)
  moreover obtain m4 sq where 4: "NextSeq m3 = (m4, sq)" by fastforce
  moreover obtain m5 e where 5: "sendFrameOn wok now (if striping ?s then None else assignedConn ?s)
      (ctl_frame (s_ID ?s) FrameClose sq) m4 = (m5, e)" by fastforce
  ultimately have "mux_inv m5"
    using only_conns_inv only_conns_trans [OF only_conns_NextSeq only_conns_sendFrameOn] by blast
  moreover have "Stream_Close_finish wok now p m = Ret m5 e"
    using assms(4) 4 5 by (simp add: Stream_Close_finish_def upd_stream_def Let_def flip: m3_def)
  ultimately show ?thesis by simp
qed

lemma Stream_Close_sound:
  assumes "mux_inv m" "p < length (sstore m)"
  shows "sound mux_inv (Stream_Close wok now p m)"
proof (cases "s_closed (sstore m ! p)")
  case True
  then show ?thesis using assms by (simp add: Stream_Close_def)
next
  case False
  have ok: "stream_ok (sstore m ! p)" using assms by (rule stream_ok_nth)
  then have nd: "\<not> doneClosed (sstore m ! p)" using False by (auto simp: stream_ok_def)
  let ?m1 = "upd_stream p (\<lambda>s. s\<lparr>s_closed := True\<rparr>) m"
  have i: "mux_inv ?m1" using assms(1) ok nd by (intro upd_stream_inv) (auto simp: stream_ok_def)
  have "sound mux_inv (Stream_Close_finish wok now p ?m1)"
    using assms(2) nd by (intro Stream_Close_finish_sound [OF i]) simp_all
  with i False show ?thesis by (simp add: Stream_Close_def Let_def)
qed

section \<open>Writing\<close>

lemma upd_stream_harmless_inv:
  assumes "mux_inv m" "\<And>s. recvClosed (f s) = recvClosed s \<and> doneClosed (f s) = doneClosed s \<and> s_closed (f s) = s_closed s
      \<and> reorder (f s) = reorder s \<and> striping (f s) = striping s \<and> s_ID (f s) = s_ID s"
  shows "mux_inv (upd_stream p f m)"
proof (cases "p < length (sstore m)")
  case True
  then show ?thesis using assms stream_ok_nth [OF assms(1) True]
    by (intro upd_stream_inv) (auto simp: stream_ok_def)
next
  case False
  then have "upd_stream p f m = m" by (simp add: upd_stream_def list_update_beyond)
  then show ?thesis using assms(1) by simp
qed

lemma trySendWriteCh_only_conns: "trySendWriteCh p a d m = (m', ok) \<Longrightarrow> only_conns m m'"
  by (auto simp: trySendWriteCh_def Let_def split: if_splits)

lemma try_alternatives_only_conns: "try_alternatives p a d bs m = (m', ok) \<Longrightarrow> only_conns m m'"
proof (induction bs arbitrary: m)
  case (Cons b bs)
  obtain m1 s where t: "trySendWriteCh p b d m = (m1, s)" by fastforce
  note 1 = trySendWriteCh_only_conns [OF t]
  show ?case using Cons t 1 by (auto split: if_splits intro: only_conns_trans)
qed simp

lemma write_striped_inv:
  assumes inv: "mux_inv m" and w: "write_striped wok now p a f m = (m', e)"
  shows "mux_inv m'"
proof (cases "MarshalBinary f")
  case (Inl e)
  then show ?thesis using assms by (simp add: write_striped_def)
next
  case (Inr d)
  define m1 where "m1 = upd_conn a (\<lambda>c. c\<lparr>rtxRing := ring_Push d (rtxRing c)\<rparr>) m"
  define m2 where "m2 = upd_stream p (\<lambda>s. s\<lparr>inflight := inflight s + 1\<rparr>) m1"
  have i1: "mux_inv m1" using only_conns_inv [OF _ inv] by (simp add: m1_def)
  have i2: "mux_inv m2" unfolding m2_def using i1 by (rule upd_stream_harmless_inv) simp
  obtain m3 s where 3: "trySendWriteCh p a d m2 = (m3, s)" by fastforce
  have i3: "mux_inv m3" using only_conns_inv [OF trySendWriteCh_only_conns [OF 3] i2] .
  obtain m4 s2 where 4: "try_alternatives p a d (live_conns m3) m3 = (m4, s2)" by fastforce
  have i4: "mux_inv m4" using only_conns_inv [OF try_alternatives_only_conns [OF 4] i3] .
  obtain m5 e5 where 5: "sendFrameOn wok now (Some a) f m4 = (m5, e5)" by fastforce
  have i5: "mux_inv m5" using only_conns_inv [OF only_conns_sendFrameOn [OF 5] i4] .
  have i6: "mux_inv (upd_stream p (\<lambda>s. s\<lparr>inflight := inflight s - 1\<rparr>) m5)"
    using i5 by (rule upd_stream_harmless_inv) simp
  show ?thesis
    using w i3 i4 i6 unfolding write_striped_def Inr sum.case Let_def m1_def [symmetric] m2_def [symmetric] 3 prod.case 4 5
    by (auto split: if_splits)
qed

lemma write_chunk_inv:
  assumes inv: "mux_inv m" and w: "write_chunk wok now p c m = (m', e)"
  shows "mux_inv m'"
proof (cases "striping (sstore m ! p)")
  case True
  let ?s = "sstore m ! p"
  define m1 where "m1 = upd_stream p (\<lambda>s. s\<lparr>nextStripSeq := nextStripSeq s + 1\<rparr>) m"
  have i1: "mux_inv m1" unfolding m1_def using inv by (rule upd_stream_harmless_inv) simp
  obtain m2 sq where 2: "NextSeq m1 = (m2, sq)" by fastforce
  obtain m3 mc where 3: "selectConn m2 = (m3, mc)" by fastforce
  have i3: "mux_inv m3"
    using only_conns_inv [OF only_conns_trans [OF only_conns_NextSeq [OF 2] only_conns_selectConn [OF 3]] i1] .
  show ?thesis
    using w True i3 unfolding write_chunk_def Let_def m1_def [symmetric] 2 prod.case 3
    by (auto split: option.splits dest: write_striped_inv)
next
  case False
  obtain m2 sq where 2: "NextSeq m = (m2, sq)" by fastforce
  have i2: "mux_inv m2" using only_conns_inv [OF only_conns_NextSeq [OF 2] inv] .
  show ?thesis
    using w False i2 unfolding write_chunk_def Let_def 2 prod.case
    by (auto split: option.splits dest!: only_conns_sendFrameOn intro: only_conns_inv)
qed

lemma write_loop_inv:
  assumes "write_loop wok now p mc d t m = Some r"
  shows "mux_inv m \<longrightarrow> (case r of Inl _ \<Rightarrow> True | Inr (m', _) \<Rightarrow> mux_inv m')"
proof (rule write_loop.raw_induct [where P = "\<lambda>wok now p mc d t m r. mux_inv m \<longrightarrow> (case r of Inl _ \<Rightarrow> True | Inr (m', _) \<Rightarrow> mux_inv m')",
      OF _ assms], intro impI)
  fix wl wok now p and mc :: int and d t m r
  assume IH: "\<And>wok now p mc d t m r. wl wok now p mc d t m = Some r \<Longrightarrow> mux_inv m \<longrightarrow> (case r of Inl _ \<Rightarrow> True | Inr (m', _) \<Rightarrow> mux_inv m')"
    and eq: "(if d = [] then Some (Inr (m, t, None))
      else if int (length d) > mc \<and> mc < 0 then Some (Inl SliceBounds)
      else let chunk = (if int (length d) > mc then take (nat mc) d else d); (m1, err) = write_chunk wok now p chunk m
        in case err of Some e \<Rightarrow> Some (Inr (m1, t, Some e))
           | None \<Rightarrow> wl wok now p mc (drop (length chunk) d) (t + length chunk) m1) = Some r"
    and inv: "mux_inv m"
  define c where "c = (if int (length d) > mc then take (nat mc) d else d)"
  obtain m1 err where wc: "write_chunk wok now p c m = (m1, err)" by fastforce
  have i1: "mux_inv m1" using write_chunk_inv [OF inv wc] .
  show "case r of Inl _ \<Rightarrow> True | Inr (m', _) \<Rightarrow> mux_inv m'"
  proof (cases "d = [] \<or> (int (length d) > mc \<and> mc < 0)")
    case True
    then show ?thesis using eq inv by (auto split: if_splits)
  next
    case False
    then have "(case err of Some e \<Rightarrow> Some (Inr (m1, t, Some e))
        | None \<Rightarrow> wl wok now p mc (drop (length c) d) (t + length c) m1) = Some r"
      using eq unfolding Let_def c_def [symmetric] wc by (auto split: if_splits)
    then show ?thesis using IH i1 by (cases err) auto
  qed
qed

lemma Stream_Write_inv: "mux_inv m \<Longrightarrow> Stream_Write env wok now p d m = Some (Inr (m', n, e)) \<Longrightarrow> mux_inv m'"
  using write_loop_inv by (fastforce simp: Stream_Write_def Let_def split: if_splits)

lemma wg_Done_inv: "mux_inv m \<Longrightarrow> mux_inv (wg_Done ps m)"
  unfolding wg_Done_def
proof (induction ps arbitrary: m)
  case (Cons p ps)
  have "mux_inv (upd_stream p (\<lambda>s. s\<lparr>inflight := inflight s - 1\<rparr>) m)"
    using Cons.prems by (rule upd_stream_harmless_inv) simp
  then show ?case using Cons.IH by simp
qed simp

lemma write_step_inv:
  assumes "mux_inv m"
  shows "mux_inv (write_step wok now a m)"
proof (cases "writeCh (cstore m ! a)")
  case (Cons req ch)
  obtain batch rest where b: "next_batch (fst req) (map fst ch) = (batch, rest)" by fastforce
  let ?n = "length batch" and ?d = "concat batch"
  obtain m2 ok where 2: "conn_write wok a ?d (upd_conn a (\<lambda>c. c\<lparr>writeCh := drop ?n (writeCh c)\<rparr>) m) = (m2, ok)" by fastforce
  have "mux_inv m2"
    using only_conns_inv [OF only_conns_trans [OF only_conns_upd_conn only_conns_conn_write [OF 2]] assms] .
  then have "mux_inv (wg_Done (map snd (take ?n (req # ch))) m2)" by (rule wg_Done_inv)
  then have "mux_inv (count_sent now a ?d (wg_Done (map snd (take ?n (req # ch))) m2))"
    "mux_inv (count_error a (wg_Done (map snd (take ?n (req # ch))) m2))"
    using only_conns_inv only_conns_counts by blast+
  then show ?thesis by (simp add: write_step_def Cons b 2 Let_def)
qed (use assms in \<open>simp add: write_step_def\<close>)

lemma read_step_inv: "mux_inv m \<Longrightarrow> read_step pick now idx a f m = Some (m', go) \<Longrightarrow> mux_inv m'"
proof -
  assume inv: "mux_inv m" and r: "read_step pick now idx a f m = Some (m', go)"
  define m1 where "m1 = upd_conn a (\<lambda>c. c\<lparr>bytesRecv := i64 (bytesRecv c + int (headerSize + length (Payload f))), lastUsed := now\<rparr>) m"
  have "mux_inv m1" using only_conns_inv [OF _ inv] by (simp add: m1_def)
  then show ?thesis using r unfolding read_step_def Let_def m1_def [symmetric] by (auto split: if_splits)
qed

section \<open>Connections come and go\<close>

lemma somes_append: "somes (xs @ ys) = somes xs @ somes ys"
  by (induction xs rule: somes.induct) simp_all

lemma somes_set_None:
  "i < length xs \<Longrightarrow> xs ! i = Some a \<Longrightarrow> distinct (somes xs) \<Longrightarrow>
   Suc (length (somes (xs[i := None]))) = length (somes xs) \<and> distinct (somes (xs[i := None]))
   \<and> set (somes (xs[i := None])) \<subseteq> set (somes xs)"
proof (induction xs arbitrary: i rule: somes.induct)
  case (2 xs)
  then show ?case by (cases i) auto
next
  case (3 x xs)
  then show ?case by (cases i) auto
qed simp

lemma somes_set_Some:
  "i < length xs \<Longrightarrow> xs ! i = None \<Longrightarrow> distinct (somes xs) \<Longrightarrow> a \<notin> set (somes xs) \<Longrightarrow>
   length (somes (xs[i := Some a])) = Suc (length (somes xs)) \<and> distinct (somes (xs[i := Some a]))
   \<and> set (somes (xs[i := Some a])) = insert a (set (somes xs))"
proof (induction xs arbitrary: i rule: somes.induct)
  case (2 xs)
  then show ?case by (cases i) auto
next
  case (3 x xs)
  then show ?case by (cases i) auto
qed simp

lemma first_free_spec: "first_free cs = Some i \<Longrightarrow> i < length cs \<and> cs ! i = None"
  by (induction cs arbitrary: i rule: first_free.induct) auto

lemma AddConn_inv:
  assumes "mux_inv m"
  shows "mux_inv (AddConn now m)"
proof -
  let ?a = "length (cstore m)"
  have d: "distinct (somes (conns m))" "\<forall>x\<in>set (somes (conns m)). x < ?a" "?a \<notin> set (somes (conns m))"
    using assms by (auto simp: mux_inv_def conns_ok_def live_conns_def)
  show ?thesis
  proof (cases "first_free (conns m)")
    case None
    then have "conns_ok (AddConn now m)" "length (live_conns (AddConn now m)) = Suc (length (live_conns m))"
      using d by (auto simp: AddConn_def Let_def conns_ok_def live_conns_def somes_append)
    then show ?thesis using assms None
      by (simp add: AddConn_def Let_def mux_inv_def streams_ok_def open_streams_def raw_ok_def)
  next
    case (Some i)
    then have "length (somes ((conns m)[i := Some ?a])) = Suc (length (somes (conns m))) \<and>
      distinct (somes ((conns m)[i := Some ?a])) \<and> set (somes ((conns m)[i := Some ?a])) = insert ?a (set (somes (conns m)))"
      using d by (intro somes_set_Some) (auto dest: first_free_spec)
    then have "conns_ok (AddConn now m)" "length (live_conns (AddConn now m)) = Suc (length (live_conns m))"
      using d Some by (auto simp: AddConn_def Let_def conns_ok_def live_conns_def)
    then show ?thesis using assms Some
      by (simp add: AddConn_def Let_def mux_inv_def streams_ok_def open_streams_def raw_ok_def)
  qed
qed

text \<open>
  While a reader exits, its slot is empty before the count of readers goes down; \<open>fix_readers\<close> is the state
  with the count already adjusted.
\<close>

definition fix_readers :: "Mux \<Rightarrow> Mux" where
  "fix_readers m = m\<lparr>activeReaders := int (length (live_conns m))\<rparr>"

lemma fix_readers_only_conns: "only_conns m m' \<Longrightarrow> only_conns (fix_readers m) (fix_readers m')"
proof -
  assume oc: "only_conns m m'"
  have e: "erase_conns (x\<lparr>activeReaders := n\<rparr>) = (erase_conns x)\<lparr>activeReaders := n\<rparr>" for x n
    by (simp add: erase_conns_def)
  have "live_conns m' = live_conns m" using only_conns_fields(1) [OF oc] by (simp add: live_conns_def)
  then show ?thesis using oc by (simp add: only_conns_def fix_readers_def e)
qed

lemma fix_readers_closeStream: "fix_readers (closeStream p m) = closeStream p (fix_readers m)"
  by (simp add: fix_readers_def closeStream_def Let_def case_prod_beta live_conns_def)

lemma close_stale_inv:
  assumes "mux_inv (fix_readers m)" "\<forall>p\<in>set ps. p < length (sstore m)"
  shows "mux_inv (fix_readers (foldl (\<lambda>m p. if stale_gap now m p then closeStream p m else m) m ps))
    \<and> conns (foldl (\<lambda>m p. if stale_gap now m p then closeStream p m else m) m ps) = conns m
    \<and> activeReaders (foldl (\<lambda>m p. if stale_gap now m p then closeStream p m else m) m ps) = activeReaders m"
  using assms
proof (induction ps arbitrary: m)
  case (Cons p ps)
  let ?m = "if stale_gap now m p then closeStream p m else m"
  have "mux_inv (fix_readers ?m)"
    using Cons.prems closeStream_inv [of "fix_readers m" p] by (simp add: fix_readers_closeStream) (simp add: fix_readers_def)
  moreover have "\<forall>p\<in>set ps. p < length (sstore ?m)" using Cons.prems by simp
  ultimately show ?case using Cons.IH [of ?m] by simp
qed simp

lemma RemoveConn_inv:
  assumes inv: "mux_inv (fix_readers m)" and i: "0 \<le> idx" "idx < int (length (conns m))" "conns m ! nat idx = Some a"
  shows "mux_inv (fix_readers (RemoveConn wok now idx m)) \<and> conns (RemoveConn wok now idx m) = (conns m)[nat idx := None]
    \<and> activeReaders (RemoveConn wok now idx m) = activeReaders m"
proof -
  let ?m1 = "m\<lparr>conns := (conns m)[nat idx := None]\<rparr>"
  have ni: "nat idx < length (conns m)" using i by linarith
  have d: "distinct (somes (conns m))" "\<forall>x\<in>set (somes (conns m)). x < length (cstore m)"
    using inv by (auto simp: mux_inv_def conns_ok_def live_conns_def fix_readers_def)
  have "distinct (somes ((conns m)[nat idx := None]))" "\<forall>x\<in>set (somes ((conns m)[nat idx := None])). x < length (cstore m)"
    using somes_set_None [OF ni i(3) d(1)] d by auto
  then have "mux_inv (fix_readers ?m1)"
    using inv by (simp add: mux_inv_def fix_readers_def conns_ok_def live_conns_def streams_ok_def open_streams_def raw_ok_def)
  moreover obtain frames ring where dr: "ring_Drain (rtxRing (cstore m ! a)) = (frames, ring)" by fastforce
  define m3 where "m3 = retransmit wok frames (upd_conn a (\<lambda>c. c\<lparr>rtxRing := ring\<rparr>) ?m1)"
  have oc: "only_conns ?m1 m3" unfolding m3_def
    using only_conns_trans [OF only_conns_upd_conn only_conns_retransmit] .
  ultimately have i3: "mux_inv (fix_readers m3)" using only_conns_inv [OF fix_readers_only_conns] by blast
  have "\<forall>p\<in>set (map snd (streams m3)). p < length (sstore m3)"
    using i3 by (auto simp: mux_inv_def streams_ok_def fix_readers_def)
  from close_stale_inv [OF i3 this, of now] have
    "mux_inv (fix_readers (foldl (\<lambda>m p. if stale_gap now m p then closeStream p m else m) m3 (map snd (streams m3))))
    \<and> conns (foldl (\<lambda>m p. if stale_gap now m p then closeStream p m else m) m3 (map snd (streams m3))) = (conns m)[nat idx := None]
    \<and> activeReaders (foldl (\<lambda>m p. if stale_gap now m p then closeStream p m else m) m3 (map snd (streams m3))) = activeReaders m"
    using only_conns_fields [OF oc] by simp
  moreover have "RemoveConn wok now idx m = foldl (\<lambda>m p. if stale_gap now m p then closeStream p m else m) m3 (map snd (streams m3))"
    using i by (simp add: RemoveConn_def dr Let_def m3_def)
  ultimately show ?thesis by simp
qed

lemma fix_readers_id: "mux_inv m \<Longrightarrow> fix_readers m = m"
  by (simp add: mux_inv_def fix_readers_def)

lemma reader_exit_inv:
  assumes inv: "mux_inv m" and i: "0 \<le> idx" "idx < int (length (conns m))" "conns m ! nat idx = Some a"
  shows "mux_inv (reader_exit wok now idx a m)"
proof -
  have ni: "nat idx < length (conns m)" using i by linarith
  define m1 where "m1 = upd_conn a (\<lambda>c. c\<lparr>connClosed := True, writeChClosed := True\<rparr>) m"
  have i1: "mux_inv m1" "conns m1 = conns m" "activeReaders m1 = activeReaders m"
    using only_conns_inv [OF only_conns_upd_conn inv] only_conns_fields [OF only_conns_upd_conn] by (simp_all add: m1_def)
  define m2 where "m2 = RemoveConn wok now idx m1"
  have i2: "mux_inv (fix_readers m2)" "conns m2 = (conns m)[nat idx := None]" "activeReaders m2 = activeReaders m"
    using RemoveConn_inv [of m1 idx a wok now] i i1 by (simp_all add: fix_readers_id m2_def)
  have d: "distinct (somes (conns m))" using inv by (auto simp: mux_inv_def conns_ok_def live_conns_def)
  have n: "activeReaders m2 - 1 = int (length (live_conns m2))"
    using somes_set_None [OF ni i(3) d] i2(2,3) inv by (simp add: live_conns_def mux_inv_def)
  define m3 where "m3 = (if length (connDied m2) < connDiedCap then m2\<lparr>connDied := connDied m2 @ [idx]\<rparr> else m2)"
  have "mux_inv (m3\<lparr>activeReaders := activeReaders m3 - 1\<rparr>)"
    using i2(1) n by (auto simp: m3_def fix_readers_def mux_inv_def streams_ok_def open_streams_def conns_ok_def live_conns_def raw_ok_def)
  then show ?thesis
    unfolding reader_exit_def Let_def m1_def [symmetric] m2_def [symmetric] m3_def [symmetric]
    by (simp add: mux_inv_def streams_ok_def open_streams_def conns_ok_def live_conns_def raw_ok_def)
qed

lemma EndReconnect_inv: "mux_inv m \<Longrightarrow> mux_inv (EndReconnect m)"
  by (simp add: EndReconnect_def Let_def mux_inv_def streams_ok_def open_streams_def conns_ok_def live_conns_def raw_ok_def)

lemma BeginReconnect_inv: "mux_inv m \<Longrightarrow> mux_inv (BeginReconnect m)"
  by (simp add: BeginReconnect_def mux_inv_def streams_ok_def open_streams_def conns_ok_def live_conns_def raw_ok_def)

lemma raw_Close_closed [simp]: "closed (raw_Close rb)"
  by (simp add: raw_Close_def)

lemma Mux_Close_inv: "mux_inv m \<Longrightarrow> mux_inv (Mux_Close m)"
proof -
  assume "mux_inv m"
  then have "mux_inv (m\<lparr>ctxDone := True, inFramesClosed := True, rawPackets := map_option raw_Close (rawPackets m), acceptClosed := x\<rparr>)" for x
    by (simp add: mux_inv_def streams_ok_def open_streams_def conns_ok_def live_conns_def raw_ok_def split: option.splits)
  then show ?thesis unfolding Mux_Close_def Let_def using only_conns_inv [OF only_conns_fold_upd] by blast
qed

lemma dispatch_exit_inv: "mux_inv m \<Longrightarrow> mux_inv (dispatch_exit m)"
  by (simp add: dispatch_exit_def mux_inv_def streams_ok_def open_streams_def conns_ok_def live_conns_def raw_ok_def split: option.splits)

lemma measure_conns_length: "measure_conns as cs t b = (cs', x) \<Longrightarrow> length cs' = length cs"
  by (induction as arbitrary: cs t b) (auto simp: Let_def)

lemma evalAdaptiveStriping_inv: "mux_inv m \<Longrightarrow> mux_inv (evalAdaptiveStriping m)"
proof -
  assume inv: "mux_inv m"
  obtain cs t b where mc: "measure_conns (live_conns m) (cstore m) 0 0 = (cs, t, b)" by (metis prod.exhaust)
  have "mux_inv (m\<lparr>cstore := cs\<rparr>)" using only_conns_inv [OF only_connsI inv] measure_conns_length [OF mc] by simp
  then have i: "mux_inv (m\<lparr>cstore := cs\<rparr>)" "mux_inv (m\<lparr>cstore := cs, prevThroughput := x\<rparr>)" "mux_inv (m\<lparr>cstore := cs, adaptiveStripe := y\<rparr>)"
    "mux_inv (m\<lparr>cstore := cs, prevThroughput := x, adaptiveStripe := y\<rparr>)" for x y
    by (simp_all add: mux_inv_def streams_ok_def open_streams_def conns_ok_def live_conns_def raw_ok_def)
  show ?thesis using inv i by (simp add: evalAdaptiveStriping_def mc Let_def)
qed

lemma CloseOldestConn_inv: "mux_inv m \<Longrightarrow> CloseOldestConn now a k m = (m', r) \<Longrightarrow> mux_inv m'"
  using only_conns_inv [OF only_conns_upd_conn] by (auto simp: CloseOldestConn_def Let_def split: prod.splits option.splits if_splits)

lemma Stream_Read_inv:
  assumes "mux_inv m" "p < length (sstore m)" "Stream_Read n (sstore m ! p) = Ret s' r"
  shows "mux_inv (upd_stream p (\<lambda>_. s') m)"
  using assms stream_ok_nth [OF assms(1,2)]
  by (intro upd_stream_inv) (auto simp: Stream_Read_def stream_ok_def split: if_splits list.splits)

lemma raw_Pop_inv: "closed rb \<or> raw_inv rb \<Longrightarrow> raw_Pop rb = (x, rb') \<Longrightarrow> closed rb' \<or> raw_inv rb'"
  by (auto simp: raw_Pop_def raw_inv_def split: if_splits)

section \<open>The step relation\<close>

text \<open>
  One rule per operation, each with every argument, clock value, write outcome and random choice it may have.
  The second component of the state is the dispatcher's table of frames that arrived before their stream.
  A call that waits takes its step when it can complete; only \<^verbatim>\<open>Close\<close> of a striped stream changes the state
  before it waits, and gets a rule for each part.
\<close>

inductive mux_step :: "Mux \<times> pending \<Rightarrow> Mux \<times> pending \<Rightarrow> bool" where
  set_idle: "mux_step (m, pd) (SetIdleTimeout t m, pd)"
| set_max: "mux_step (m, pd) (SetMaxStreams k m, pd)"
| enable_striping: "mux_step (m, pd) (EnableStriping m, pd)"
| enable_raw: "0 < n \<Longrightarrow> mux_step (m, pd) (EnableRawPackets n m, pd)"
| enable_accept: "mux_step (m, pd) (EnableStreamAccept n m, pd)"
| raw_pop: "rawPackets m = Some rb \<Longrightarrow> raw_Pop rb = (x, rb') \<Longrightarrow> mux_step (m, pd) (m\<lparr>rawPackets := Some rb'\<rparr>, pd)"
| take_accepted: "acceptedStreams m = Some (n, p # ps) \<Longrightarrow> mux_step (m, pd) (m\<lparr>acceptedStreams := Some (n, ps)\<rparr>, pd)"
| open_stream: "OpenStream wok now i m = (m', r) \<Longrightarrow> mux_step (m, pd) (m', pd)"
| accept_stream: "AcceptStream pick now m = Ret m' r \<Longrightarrow> mux_step (m, pd) (m', pd)"
| dispatcher: "inFrames m = f # fs \<Longrightarrow> \<not> acceptClosed m \<Longrightarrow>
    dispatch_frame wok pick now pd f (m\<lparr>inFrames := fs\<rparr>) = Ret m' pd' \<Longrightarrow> mux_step (m, pd) (m', pd')"
| dispatcher_exit: "mux_step (m, pd) (dispatch_exit m, pd)"
| stream_write: "p < length (sstore m) \<Longrightarrow> Stream_Write env wok now p d m = Some (Inr (m', n, e)) \<Longrightarrow> mux_step (m, pd) (m', pd)"
| stream_read: "p < length (sstore m) \<Longrightarrow> Stream_Read n (sstore m ! p) = Ret s' r \<Longrightarrow> mux_step (m, pd) (upd_stream p (\<lambda>_. s') m, pd)"
| stream_close: "p < length (sstore m) \<Longrightarrow> Stream_Close wok now p m = Ret m' e \<Longrightarrow> mux_step (m, pd) (m', pd)"
| stream_close_wait: "p < length (sstore m) \<Longrightarrow> Stream_Close wok now p m = Blocks m' \<Longrightarrow> mux_step (m, pd) (m', pd)"
| stream_close_finish: "p < length (sstore m) \<Longrightarrow> s_closed (sstore m ! p) \<Longrightarrow> \<not> doneClosed (sstore m ! p) \<Longrightarrow>
    inflight (sstore m ! p) \<le> 0 \<Longrightarrow> Stream_Close_finish wok now p m = Ret m' e \<Longrightarrow> mux_step (m, pd) (m', pd)"
| send_frame: "SendFrame wok now f m = (m', e) \<Longrightarrow> mux_step (m, pd) (m', pd)"
| send_raw: "SendRawPacket wok now f m = (m', e) \<Longrightarrow> mux_step (m, pd) (m', pd)"
| ping: "mux_step (m, pd) (ping_tick wok now m, pd)"
| probe: "mux_step (m, pd) (ProbeConnections wok m, pd)"
| adapt: "mux_step (m, pd) (evalAdaptiveStriping m, pd)"
| add_conn: "mux_step (m, pd) (AddConn now m, pd)"
| rotate: "CloseOldestConn now a k m = (m', r) \<Longrightarrow> mux_step (m, pd) (m', pd)"
| reader_frame: "read_step pick now idx a f m = Some (m', go) \<Longrightarrow> mux_step (m, pd) (m', pd)"
| reader_exit: "0 \<le> idx \<Longrightarrow> idx < int (length (conns m)) \<Longrightarrow> conns m ! nat idx = Some a \<Longrightarrow>
    mux_step (m, pd) (reader_exit wok now idx a m, pd)"
| writer: "mux_step (m, pd) (write_step wok now a m, pd)"
| begin_reconnect: "mux_step (m, pd) (BeginReconnect m, pd)"
| end_reconnect: "mux_step (m, pd) (EndReconnect m, pd)"
| mux_close: "mux_step (m, pd) (Mux_Close m, pd)"

inductive reachable :: "Mux \<times> pending \<Rightarrow> bool" where
  init: "reachable (New strip now n, [])"
| step: "reachable x \<Longrightarrow> mux_step x y \<Longrightarrow> reachable y"

lemma New_inv: "mux_inv (New strip now n)"
proof -
  have "somes (map Some xs) = xs" for xs :: "nat list" by (induction xs) simp_all
  then show ?thesis
    by (simp add: New_def mux_inv_def streams_ok_def open_streams_def conns_ok_def live_conns_def raw_ok_def)
qed

lemma setter_inv:
  assumes "mux_inv m"
  shows "mux_inv (SetIdleTimeout t m)" "mux_inv (SetMaxStreams k m)" "mux_inv (EnableStriping m)"
    "0 < n \<Longrightarrow> mux_inv (EnableRawPackets n m)" "mux_inv (EnableStreamAccept n' m)"
  using assms
  by (simp_all add: SetIdleTimeout_def SetMaxStreams_def EnableStriping_def EnableRawPackets_def EnableStreamAccept_def
      mux_inv_def streams_ok_def open_streams_def conns_ok_def live_conns_def raw_ok_def)

lemma send_only_conns:
  "SendFrame wok now f m = (m', e) \<Longrightarrow> only_conns m m'"
  "SendRawPacket wok now f m = (m', e) \<Longrightarrow> only_conns m m'"
proof -
  obtain m1 mc where 1: "selectConn m = (m1, mc)" by fastforce
  note oc = only_conns_selectConn [OF 1]
  show "SendFrame wok now f m = (m', e) \<Longrightarrow> only_conns m m'"
    using oc by (auto simp: SendFrame_def 1 dest: only_conns_sendFrameOn intro: only_conns_trans)
  assume s: "SendRawPacket wok now f m = (m', e)"
  show "only_conns m m'"
  proof (cases "mc = None \<or> (\<exists>e. MarshalBinary f = Inl e)")
    case True
    then show ?thesis using s oc by (auto simp: SendRawPacket_def 1 split: option.splits)
  next
    case False
    then obtain a d where a: "mc = Some a" "MarshalBinary f = Inr d" by (cases "MarshalBinary f") auto
    obtain m2 ok where 2: "conn_write wok a d m1 = (m2, ok)" by fastforce
    have "only_conns m m2" using oc only_conns_conn_write [OF 2] by (rule only_conns_trans)
    then show ?thesis using s a by (auto simp: SendRawPacket_def 1 2 split: if_splits intro: only_conns_trans)
  qed
qed

lemma sound_Ret: "sound P r \<Longrightarrow> r = Ret s x \<Longrightarrow> P s" and sound_Blocks: "sound P r \<Longrightarrow> r = Blocks s \<Longrightarrow> P s"
  by simp_all

lemma mux_step_inv: "mux_step x y \<Longrightarrow> mux_inv (fst x) \<Longrightarrow> mux_inv (fst y)"
proof (induction rule: mux_step.induct)
  case (raw_pop m rb x rb' pd)
  then have "closed rb' \<or> raw_inv rb'" using raw_Pop_inv [of rb x rb'] by (simp add: mux_inv_def raw_ok_def)
  then show ?case using raw_pop raw_set_inv [of m rb' "rawEvictions m"] by simp
next
  case (accept_stream pick now m m' r pd)
  then show ?case using sound_Ret [OF accept_frames_sound] by (auto simp: AcceptStream_def)
next
  case (dispatcher m f fs wok pick now pd m' pd')
  then show ?case using sound_Ret [OF dispatch_frame_sound [of "m\<lparr>inFrames := fs\<rparr>"]] by auto
next
  case (ping m pd wok now)
  then show ?case using only_conns_inv [OF only_conns_ping] by (simp add: ping_tick_def)
next
  case (stream_close p m wok now m' e pd)
  then show ?case using sound_Ret [OF Stream_Close_sound] by auto
next
  case (stream_close_wait p m wok now m' pd)
  then show ?case using sound_Blocks [OF Stream_Close_sound] by auto
next
  case (stream_close_finish p m wok now m' e pd)
  then show ?case using sound_Ret [OF Stream_Close_finish_sound] by auto
qed (auto simp: setter_inv dispatch_exit_inv AddConn_inv reader_exit_inv write_step_inv BeginReconnect_inv
    EndReconnect_inv Mux_Close_inv evalAdaptiveStriping_inv intro: OpenStream_inv Stream_Write_inv Stream_Read_inv
    only_conns_inv [OF send_only_conns(1)] only_conns_inv [OF send_only_conns(2)] only_conns_inv [OF only_conns_probe]
    CloseOldestConn_inv read_step_inv)

lemma reachable_inv: "reachable x \<Longrightarrow> mux_inv (fst x)"
  by (induction rule: reachable.induct) (auto simp: New_inv intro: mux_step_inv)

section \<open>The stream limit\<close>

definition unless_panic :: "('s \<Rightarrow> bool) \<Rightarrow> ('s, 'a) outcome \<Rightarrow> bool" where
  "unless_panic P r \<longleftrightarrow> (case r of Ret s _ \<Rightarrow> P s | Blocks s \<Rightarrow> P s | Panics _ \<Rightarrow> True)"

lemma unless_panic_simps [simp]: "unless_panic P (Ret s x) = P s" "unless_panic P (Blocks s) = P s" "unless_panic P (Panics e) = True"
  by (simp_all add: unless_panic_def)

definition no_growth :: "Mux \<Rightarrow> Mux \<Rightarrow> bool" where
  "no_growth m m' \<longleftrightarrow> streamCount m' \<le> streamCount m \<and> maxStreams m' = maxStreams m"

lemma upd_stream_no_growth [simp]: "no_growth m (upd_stream p f m)" "no_growth m m"
  by (simp_all add: no_growth_def upd_stream_def)

lemma closeStream_no_growth: "no_growth m m' \<Longrightarrow> no_growth m (closeStream p m')"
  using closeStream_count [of p m'] by (auto simp: no_growth_def)

lemma dispatch_no_growth: "unless_panic (no_growth m) (dispatch pick now f m)"
proof -
  have st: "unless_panic (no_growth m) (dispatchStriped pick now p rb f m)" for p rb
    by (auto simp: dispatchStriped_def Let_def closeStream_no_growth split: prod.split outcome.split)
  then show ?thesis
    by (auto simp: dispatch_def Let_def closeStream_no_growth split: option.split outcome.split bool.split)
qed

lemma no_growth_trans: "unless_panic (no_growth m1) r \<Longrightarrow> no_growth m m1 \<Longrightarrow> unless_panic (no_growth m) r"
  by (cases r) (auto simp: no_growth_def)

lemma replay_no_growth: "unless_panic (no_growth m) (replay pick now fs m)"
proof (induction fs arbitrary: m)
  case (Cons f fs)
  have "unless_panic (no_growth m) (dispatch pick now f m)" by (rule dispatch_no_growth)
  moreover have "unless_panic (no_growth m1) (replay pick now fs m1)" for m1 by (rule Cons.IH)
  then have "unless_panic (no_growth m) (replay pick now fs m1)" if "no_growth m m1" for m1
    using that by (rule no_growth_trans)
  ultimately show ?case by (cases "dispatch pick now f m") simp_all
qed simp

lemma dispatch_open_limit:
  assumes "0 < maxStreams m" "streamCount m \<le> maxStreams m"
  shows "unless_panic (\<lambda>m'. streamCount m' \<le> maxStreams m' \<and> maxStreams m' = maxStreams m) (dispatch_open pick now pend f m)"
proof (cases "max_streams_reached m")
  case True
  then show ?thesis using assms by (simp add: dispatch_open_def)
next
  case False
  obtain m1 asg where 1: "selectConn m = (m1, asg)" by fastforce
  note oc = only_conns_fields [OF only_conns_selectConn [OF 1]]
  obtain m2 p where 2: "add_stream (new_Stream (StreamID f) asg (shouldStripe m)) m1 = (m2, p)" by fastforce
  have c2: "streamCount m2 \<le> maxStreams m" "maxStreams m2 = maxStreams m"
    using 2 False assms oc by (auto simp: add_stream_def max_streams_reached_def)
  define m3 where "m3 = (case acceptedStreams m2 of None \<Rightarrow> m2
      | Some (n, q) \<Rightarrow> if length q < n then m2\<lparr>acceptedStreams := Some (n, q @ [p])\<rparr> else m2)"
  have c3: "streamCount m3 \<le> maxStreams m" "maxStreams m3 = maxStreams m"
    using c2 by (auto simp: m3_def split: option.splits)
  have r: "unless_panic (no_growth m3) (replay pick now fs m3)" for fs by (rule replay_no_growth)
  have d: "dispatch_open pick now pend f m = (if acceptedStreams m2 \<noteq> None \<and> acceptClosed m2 then Panics SendOnClosedChannel
      else case map_of pend (StreamID f) of None \<Rightarrow> Ret m3 pend
      | Some fs \<Rightarrow> (case replay pick now fs m3 of Ret m4 _ \<Rightarrow> Ret m4 (AList.delete (StreamID f) pend)
           | Blocks m4 \<Rightarrow> Blocks m4 | Panics e \<Rightarrow> Panics e))"
    unfolding dispatch_open_def 1 2 Let_def prod.case m3_def using False by simp
  show ?thesis
    unfolding d using c3 r [of "the (map_of pend (StreamID f))"]
    by (cases "map_of pend (StreamID f)"; cases "replay pick now (the (map_of pend (StreamID f))) m3")
       (auto simp: no_growth_def)
qed

section \<open>Properties\<close>





text \<open>
  C33: the limit on concurrent streams holds: when it is set and not exceeded, handling any received frame
  keeps the number of open streams within it.
\<close>

theorem dispatcher_respects_max_streams:
  assumes "reachable (m, pend)" "\<not> acceptClosed m" "0 < maxStreams m" "streamCount m \<le> maxStreams m"
  shows "case dispatch_frame wok pick now pend f m of
           Ret m' _ \<Rightarrow> int (open_streams m') \<le> maxStreams m
         | Blocks m' \<Rightarrow> int (open_streams m') \<le> maxStreams m
         | Panics e \<Rightarrow> False"
proof -
  have inv: "mux_inv m" using reachable_inv [OF assms(1)] by simp
  have ping: "streamCount (dispatch_ping wok now f m) = streamCount m"
  proof -
    have "streamCount (fst (sendFrameOn wok now mc pong (m\<lparr>mux_nextSeq := sq\<rparr>))) = streamCount m" for mc pong sq
      using only_conns_fields(4) [OF only_conns_sendFrameOn] by (metis Mux.select_convs(20) Mux.surjective Mux.update_convs(5) prod.collapse)
    then show ?thesis by (simp add: dispatch_ping_def NextSeq_def Let_def)
  qed
  have pong: "streamCount (dispatch_pong now f m) = streamCount m"
    using only_conns_fields(4) [OF UpdateLatency_only_conns, of _ _ "m\<lparr>lastPongAt := now\<rparr>"]
    by (auto simp: dispatch_pong_def Let_def split: option.splits)
  have d: "unless_panic (\<lambda>m'. streamCount m' \<le> maxStreams m) (dispatch pick now f m)"
    using dispatch_no_growth [of m pick now f] assms(4) by (auto simp: unless_panic_def no_growth_def split: outcome.splits)
  have o: "unless_panic (\<lambda>m'. streamCount m' \<le> maxStreams m) (dispatch_open pick now pend f m)"
    using dispatch_open_limit [OF assms(3,4), of pick now pend f] by (auto simp: unless_panic_def split: outcome.splits)
  have "unless_panic (\<lambda>m'. streamCount m' \<le> maxStreams m) (dispatch_frame wok pick now pend f m)"
    using ping pong d o assms(4) by (auto simp: dispatch_frame_def unless_panic_def split: outcome.splits sum.splits prod.splits)
  moreover have "sound mux_inv (dispatch_frame wok pick now pend f m)"
    using inv assms(2) by (rule dispatch_frame_sound)
  ultimately show ?thesis by (auto simp: unless_panic_def sound_def mux_inv_def split: outcome.splits)
qed

theorem dispatcher_respects_max_streams_witness:
  "case dispatch_frame (\<lambda>_ _. True) True 0 [] (ctl_frame 7 FrameOpen 1) (SetMaxStreams 2 (New False 0 1)) of
     Ret m' _ \<Rightarrow> int (open_streams m') \<le> maxStreams (SetMaxStreams 2 (New False 0 1))
   | Blocks m' \<Rightarrow> int (open_streams m') \<le> maxStreams (SetMaxStreams 2 (New False 0 1))
   | Panics e \<Rightarrow> False"
  by (rule dispatcher_respects_max_streams [OF reachable.step [OF reachable.init mux_step.set_max]])
     (simp_all add: SetMaxStreams_def New_def)

text \<open>
  closing the multiplexer while a peer's open frame is still buffered crashes the dispatcher: \<^verbatim>\<open>Close\<close>
  closes the channel of accepted streams, the buffered frame is still delivered from the closed frame channel,
  and handling it sends on the closed channel.
\<close>

theorem open_frame_after_close_panics:
  assumes "acceptedStreams m \<noteq> None" "Type f = FrameOpen" "\<not> max_streams_reached m" "inFrames m = f # fs"
  shows "inFrames (Mux_Close m) = f # fs
    \<and> dispatch_frame wok pick now pend f ((Mux_Close m)\<lparr>inFrames := fs\<rparr>) = Panics SendOnClosedChannel"
proof -
  define m1 where "m1 = m\<lparr>ctxDone := True, inFramesClosed := True, rawPackets := map_option raw_Close (rawPackets m), acceptClosed := True\<rparr>"
  define m2 where "m2 = foldl (\<lambda>m a. upd_conn a (\<lambda>c. c\<lparr>connClosed := True\<rparr>) m) m1 (live_conns m1)"
  have mc: "Mux_Close m = m2" using assms(1) by (simp add: Mux_Close_def m2_def m1_def Let_def)
  note oc = only_conns_fields [OF only_conns_fold_upd [of m1 "\<lambda>c. c\<lparr>connClosed := True\<rparr>" "live_conns m1"], folded m2_def]
  have f2: "acceptedStreams m2 \<noteq> None" "acceptClosed m2" "inFrames m2 = f # fs" "\<not> max_streams_reached m2"
    using assms oc by (simp_all add: m1_def max_streams_reached_def)
  let ?m = "m2\<lparr>inFrames := fs\<rparr>"
  obtain m3 asg where 3: "selectConn ?m = (m3, asg)" by fastforce
  note oc3 = only_conns_fields [OF only_conns_selectConn [OF 3]]
  obtain m4 p where 4: "add_stream (new_Stream (StreamID f) asg (shouldStripe ?m)) m3 = (m4, p)" by fastforce
  have "acceptedStreams m4 \<noteq> None" "acceptClosed m4" using 4 oc3 f2 by (auto simp: add_stream_def)
  moreover have "\<not> max_streams_reached ?m" using f2(4) by (simp add: max_streams_reached_def)
  ultimately have "dispatch_open pick now pend f ?m = Panics SendOnClosedChannel"
    unfolding dispatch_open_def 3 4 Let_def prod.case by simp
  then show ?thesis using assms(2) f2(3) by (simp add: mc dispatch_frame_def frame_types(3) [symmetric])
qed

end
