(* ===== verification/Mux_Lifecycle.thy ===== *)
theory Mux_Lifecycle
  imports Mux_Conns
begin

text \<open>
  The shutdown decision of the multiplexer under interleaving.  The last lines of \<^verbatim>\<open>readLoop\<close>'s deferred
  function and \<^verbatim>\<open>EndReconnect\<close> each decrement one atomic counter and then load the other; other goroutines
  run between the two.  The model has one step per atomic access.  It shows that a shutdown is never missed,
  and that it can be decided although a connection has come back.
\<close>

section \<open>Atomic steps\<close>

text \<open>
  \<open>exiting\<close> counts the readers that brought the count of readers to zero and have not yet looked at the
  reconnects, \<open>ending\<close> the calls of \<^verbatim>\<open>EndReconnect\<close> that have not yet looked at the readers.
\<close>

record life =
  active :: int
  recon :: int
  exiting :: nat
  ending :: nat
  dead :: bool

definition reader_dec :: "life \<Rightarrow> life" where
  "reader_dec l = (let l1 = l\<lparr>active := active l - 1\<rparr> in if active l1 = 0 then l1\<lparr>exiting := exiting l1 + 1\<rparr> else l1)"

definition reader_check :: "life \<Rightarrow> life" where
  "reader_check l = (let l1 = l\<lparr>exiting := exiting l - 1\<rparr> in if recon l1 = 0 then l1\<lparr>dead := True\<rparr> else l1)"

definition end_dec :: "life \<Rightarrow> life" where
  "end_dec l = (let l1 = l\<lparr>recon := recon l - 1\<rparr> in if recon l1 \<le> 0 then l1\<lparr>ending := ending l1 + 1\<rparr> else l1)"

definition end_check :: "life \<Rightarrow> life" where
  "end_check l = (let l1 = l\<lparr>ending := ending l - 1\<rparr> in if active l1 = 0 then l1\<lparr>dead := True\<rparr> else l1)"

inductive life_step :: "life \<Rightarrow> life \<Rightarrow> bool" where
  conn_added: "life_step l (l\<lparr>active := active l + 1\<rparr>)"
| reconnect_begun: "life_step l (l\<lparr>recon := recon l + 1\<rparr>)"
| reader_leaves: "0 < active l \<Longrightarrow> life_step l (reader_dec l)"
| reader_looks: "0 < exiting l \<Longrightarrow> life_step l (reader_check l)"
| reconnect_over: "0 < recon l \<Longrightarrow> life_step l (end_dec l)"
| reconnect_looks: "0 < ending l \<Longrightarrow> life_step l (end_check l)"

inductive life_reach :: "life \<Rightarrow> bool" where
  start: "0 < n \<Longrightarrow> life_reach \<lparr>active = n, recon = 0, exiting = 0, ending = 0, dead = False\<rparr>"
| next_step: "life_reach l \<Longrightarrow> life_step l l' \<Longrightarrow> life_reach l'"

inductive_cases life_stepE: "life_step l l'"

section \<open>Relation to the sequential operations\<close>

definition life_of :: "Mux \<Rightarrow> life" where
  "life_of m = \<lparr>active = activeReaders m, recon = reconnecting m, exiting = 0, ending = 0, dead = allDead m\<rparr>"

definition end_reconnect_life :: "life \<Rightarrow> life" where
  "end_reconnect_life l = (let l1 = end_dec l in if recon l1 \<le> 0 then end_check l1 else l1)"

lemma EndReconnect_life: "life_of (EndReconnect m) = end_reconnect_life (life_of m)"
  by (simp add: EndReconnect_def end_reconnect_life_def end_dec_def end_check_def life_of_def Let_def)

lemma AddConn_life: "life_of (AddConn now m) = (life_of m)\<lparr>active := active (life_of m) + 1\<rparr>"
  by (simp add: AddConn_def life_of_def Let_def split: option.split)

lemma BeginReconnect_life: "life_of (BeginReconnect m) = (life_of m)\<lparr>recon := recon (life_of m) + 1\<rparr>"
  by (simp add: BeginReconnect_def life_of_def)

section \<open>Properties\<close>

lemma life_inv: "life_reach l \<Longrightarrow> 0 \<le> active l \<and> 0 \<le> recon l \<and> (active l = 0 \<and> recon l = 0 \<longrightarrow> dead l \<or> 0 < exiting l \<or> 0 < ending l)"
proof (induction rule: life_reach.induct)
  case (next_step l l')
  from next_step(2,3) show ?case
    by (cases rule: life_stepE) (auto simp: reader_dec_def reader_check_def end_dec_def end_check_def Let_def split: if_splits)
qed simp

text \<open>
  C30: no shutdown is missed.  In whatever order readers exit, connections are added and reconnects begin and
  end, once no reader is left, no reconnect is pending and every goroutine has finished its check, the
  multiplexer has announced that it is dead.
\<close>

theorem shutdown_not_missed:
  assumes "life_reach l" "active l = 0" "recon l = 0" "exiting l = 0" "ending l = 0"
  shows "dead l"
  using life_inv [OF assms(1)] assms by simp

theorem shutdown_not_missed_witness:
  "dead (reader_check (reader_dec \<lparr>active = 1, recon = 0, exiting = 0, ending = 0, dead = False\<rparr>))"
proof (rule shutdown_not_missed)
  have "life_reach (reader_dec \<lparr>active = 1, recon = 0, exiting = 0, ending = 0, dead = False\<rparr>)"
    by (rule life_reach.next_step [OF life_reach.start life_step.reader_leaves]) simp_all
  then show "life_reach (reader_check (reader_dec \<lparr>active = 1, recon = 0, exiting = 0, ending = 0, dead = False\<rparr>))"
    by (rule life_reach.next_step [OF _ life_step.reader_looks]) (simp add: reader_dec_def)
qed (simp_all add: reader_check_def reader_dec_def)

text \<open>
  a shutdown can be announced although a connection is alive: a reader that saw the count reach zero is
  overtaken by a complete reconnect before it looks at the counter of reconnects.
\<close>

theorem shutdown_can_be_spurious:
  "\<exists>l. life_reach l \<and> dead l \<and> 0 < active l \<and> recon l = 0"
proof -
  define l0 :: life where "l0 = \<lparr>active = 1, recon = 0, exiting = 0, ending = 0, dead = False\<rparr>"
  define l1 where "l1 = reader_dec l0"
  define l2 where "l2 = l1\<lparr>recon := recon l1 + 1\<rparr>"
  define l3 where "l3 = l2\<lparr>active := active l2 + 1\<rparr>"
  define l4 where "l4 = end_dec l3"
  define l5 where "l5 = end_check l4"
  define l6 where "l6 = reader_check l5"
  note defs = l0_def l1_def l2_def l3_def l4_def l5_def l6_def reader_dec_def end_dec_def end_check_def reader_check_def
  have "life_reach l0" unfolding l0_def by (rule life_reach.start) simp
  then have "life_reach l1" unfolding l1_def by (rule life_reach.next_step) (rule life_step.reader_leaves, simp add: l0_def)
  then have "life_reach l2" unfolding l2_def by (rule life_reach.next_step) (rule life_step.reconnect_begun)
  then have "life_reach l3" unfolding l3_def by (rule life_reach.next_step) (rule life_step.conn_added)
  then have "life_reach l4" unfolding l4_def by (rule life_reach.next_step) (rule life_step.reconnect_over, simp add: defs)
  then have "life_reach l5" unfolding l5_def by (rule life_reach.next_step) (rule life_step.reconnect_looks, simp add: defs)
  then have "life_reach l6" unfolding l6_def by (rule life_reach.next_step) (rule life_step.reader_looks, simp add: defs)
  moreover have "dead l6" "0 < active l6" "recon l6 = 0" by (simp_all add: defs)
  ultimately show ?thesis by blast
qed

end
