(* ===== verification/Mux_Conn_Props.thy ===== *)
theory Mux_Conn_Props
  imports Mux_Stream Mux_Swrr
begin

text \<open>
  Properties of the connection measurements of the multiplexer: the floating-point moving average of the
  round-trip time stays between its arguments, received pongs keep all latencies in range, and rotation of the
  oldest connection never goes below the required number of live ones.
\<close>

section \<open>Rounding\<close>

lemma bitlen_pos: "0 < n \<Longrightarrow> bitlen n = Suc (bitlen (n div 2))"
  by (subst bitlen.simps) simp

lemma bitlen_0 [simp]: "bitlen 0 = 0"
  by (subst bitlen.simps) simp

lemma bitlen_le: "0 < n \<Longrightarrow> 2 ^ (bitlen n - 1) \<le> n"
proof (induction n rule: less_induct)
  case (less n)
  show ?case
  proof (cases "n div 2 = 0")
    case True
    then show ?thesis using less.prems by (simp add: bitlen_pos)
  next
    case False
    then have "2 ^ (bitlen (n div 2) - 1) \<le> n div 2" using less by simp
    moreover have "bitlen n - 1 = Suc (bitlen (n div 2) - 1)"
      using False less.prems by (simp add: bitlen_pos [of n] bitlen_pos [of "n div 2"])
    ultimately show ?thesis by simp
  qed
qed

lemma round_half_even_error:
  assumes "0 < d"
  shows "2 * \<bar>round_half_even x d * d - x\<bar> \<le> d"
proof -
  define q r where "q = x div d" and "r = x mod d"
  have x: "x = q * d + r" by (simp add: q_def r_def)
  have r: "0 \<le> r" "r < d" using assms by (simp_all add: r_def)
  have "round_half_even x d = (if 2 * r < d \<or> (2 * r = d \<and> even q) then q else q + 1)"
    by (simp add: round_half_even_def Let_def q_def r_def)
  then have "round_half_even x d * d - x = - r \<and> 2 * r \<le> d \<or> round_half_even x d * d - x = d - r \<and> d \<le> 2 * r"
    by (auto simp: x distrib_right)
  then show ?thesis using r by auto
qed

lemma abs_half_zero: "2 * \<bar>y\<bar> \<le> 1 \<Longrightarrow> y = (0 :: int)"
  by arith

lemma rnd53_error:
  assumes "0 \<le> x"
  shows "x * (2 ^ 53 - 1) \<le> rnd53 x * 2 ^ 53" "rnd53 x * 2 ^ 53 \<le> x * (2 ^ 53 + 1)"
proof -
  define e where "e = bitlen (nat x) - 53"
  have r: "rnd53 x = round_half_even x (2 ^ e) * 2 ^ e"
    using assms by (cases "x = 0") (simp_all add: rnd53_def e_def Let_def round_half_even_def)
  have err: "2 * \<bar>rnd53 x - x\<bar> \<le> 2 ^ e" unfolding r by (rule round_half_even_error) simp
  have "\<bar>rnd53 x - x\<bar> * 2 ^ 53 \<le> x"
  proof (cases "e = 0")
    case True
    then have "2 * \<bar>rnd53 x - x\<bar> \<le> 1" using err by simp
    then have "rnd53 x - x = 0" by (rule abs_half_zero)
    then have "rnd53 x = x" by simp
    then show ?thesis using assms by simp
  next
    case False
    then have pos: "0 < nat x" by (cases "nat x = 0") (simp_all add: e_def)
    have "bitlen (nat x) - 1 = e + 52" using False by (simp add: e_def)
    then have "2 ^ (e + 52) \<le> nat x" using bitlen_le [OF pos] by simp
    then have "int (2 ^ (e + 52)) \<le> x" using assms by linarith
    then have "2 ^ e * 2 ^ 52 \<le> x" by (simp add: power_add)
    moreover have "\<bar>rnd53 x - x\<bar> * 2 ^ 53 = 2 * \<bar>rnd53 x - x\<bar> * 2 ^ 52" by simp
    moreover have "2 * \<bar>rnd53 x - x\<bar> * 2 ^ 52 \<le> 2 ^ e * 2 ^ 52" using err by (intro mult_right_mono) simp_all
    ultimately show ?thesis by linarith
  qed
  then have "\<bar>(rnd53 x - x) * 2 ^ 53\<bar> \<le> x" unfolding abs_mult by simp
  then have "(rnd53 x - x) * 2 ^ 53 \<le> x" "- ((rnd53 x - x) * 2 ^ 53) \<le> x" by (simp_all only: abs_le_iff)
  then show "x * (2 ^ 53 - 1) \<le> rnd53 x * 2 ^ 53" "rnd53 x * 2 ^ 53 \<le> x * (2 ^ 53 + 1)" by (simp_all add: algebra_simps)
qed

lemma rnd53_exact: "0 \<le> x \<Longrightarrow> x < 2 ^ 52 \<Longrightarrow> rnd53 x = x"
  using rnd53_error [of x] by simp

lemma ema_bounds:
  assumes "0 \<le> lo" "lo \<le> old" "lo \<le> rtt" "old \<le> hi" "rtt \<le> hi" "hi \<le> 2 ^ 50"
  shows "lo - 1 \<le> ema old rtt" "ema old rtt \<le> hi" "0 \<le> ema old rtt"
proof -
  define a where "a = rnd53 (old * f0_7)"
  define b where "b = rnd53 (rtt * f0_3)"
  define c where "c = rnd53 (a + b)"
  have e: "ema old rtt = trunc54 c"
    using assms by (simp add: ema_def a_def b_def c_def rnd53_exact)
  have A: "old * f0_7 * (2 ^ 53 - 1) \<le> a * 2 ^ 53" "a * 2 ^ 53 \<le> old * f0_7 * (2 ^ 53 + 1)"
    unfolding a_def using assms by (intro rnd53_error; simp add: f0_7_def)+
  have B: "rtt * f0_3 * (2 ^ 53 - 1) \<le> b * 2 ^ 53" "b * 2 ^ 53 \<le> rtt * f0_3 * (2 ^ 53 + 1)"
    unfolding b_def using assms by (intro rnd53_error; simp add: f0_3_def)+
  have ab: "0 \<le> a + b" using A(1) B(1) assms by (simp add: f0_7_def f0_3_def)
  have C: "(a + b) * (2 ^ 53 - 1) \<le> c * 2 ^ 53" "c * 2 ^ 53 \<le> (a + b) * (2 ^ 53 + 1)"
    unfolding c_def using ab by (intro rnd53_error; simp)+
  have c0: "0 \<le> c" using C(1) ab by simp
  have t: "trunc54 c = c div 2 ^ 54" using c0 by (cases "c = 0") (simp_all add: trunc54_def)
  have up: "c < (hi + 1) * 2 ^ 54"
    using A(2) B(2) C(2) assms by (simp add: f0_7_def f0_3_def)
  have low: "(lo - 1) * 2 ^ 54 \<le> c"
    using A(1) B(1) C(1) assms by (simp add: f0_7_def f0_3_def)
  show "0 \<le> ema old rtt" using c0 by (simp add: e t)
  have d: "c = c div 2 ^ 54 * 2 ^ 54 + c mod 2 ^ 54" "0 \<le> c mod 2 ^ 54" "c mod 2 ^ 54 < 2 ^ 54" by simp_all
  show "ema old rtt \<le> hi" unfolding e t using up d by simp
  show "lo - 1 \<le> ema old rtt" unfolding e t using low d by simp
qed

section \<open>Rotation\<close>

lemma oldest_conn_spec:
  assumes "oldest_conn now cs as (old, age, alive) = (old', age', alive')"
    and "case old of None \<Rightarrow> age = 0 | Some a \<Rightarrow> age = i64 (now - createdAt (cs ! a)) \<and> 0 < age"
  shows "alive' = alive + int (length as) \<and> age \<le> age' \<and> (\<forall>a\<in>set as. i64 (now - createdAt (cs ! a)) \<le> age')
    \<and> (case old' of None \<Rightarrow> age' = 0 | Some a \<Rightarrow> age' = i64 (now - createdAt (cs ! a)) \<and> 0 < age' \<and> (a \<in> set as \<or> old = Some a))"
  using assms
proof (induction as arbitrary: old age alive)
  case Nil
  then show ?case by (auto split: option.splits)
next
  case (Cons a as)
  let ?g = "i64 (now - createdAt (cs ! a))"
  show ?case
  proof (cases "?g > age")
    case True
    then have "0 < ?g" using Cons.prems(2) by (auto split: option.splits)
    with True Cons.IH [of "Some a" ?g "alive + 1"] Cons.prems show ?thesis
      by (auto simp: Let_def split: option.splits)
  next
    case False
    with Cons.IH [of old age "alive + 1"] Cons.prems show ?thesis
      by (auto simp: Let_def split: option.splits)
  qed
qed

section \<open>Properties\<close>

text \<open>
  C34: the moving average of the latency, as computed in 64-bit floating point and truncated, stays between the
  old value and the new sample, up to one nanosecond below the smaller, for all values below \<open>2 ^ 50\<close> ns; so
  processing a pong, whatever it claims, keeps every latency from 0 up to 30 s once they are there.
\<close>

theorem pong_latency_bounds:
  assumes "\<forall>c\<in>set (cstore m). 0 \<le> latency c \<and> latency c < 30 * 10 ^ 9"
  shows "(\<forall>c\<in>set (cstore (dispatch_pong now f m)). 0 \<le> latency c \<and> latency c < 30 * 10 ^ 9)
    \<and> lastPongAt (dispatch_pong now f m) = now"
proof -
  have one: "\<forall>c\<in>set (cstore (UpdateLatency idx rtt m')). 0 \<le> latency c \<and> latency c < 30 * 10 ^ 9"
    if rtt: "0 < rtt" "rtt < 30 * 10 ^ 9" and m': "cstore m' = cstore m" for idx rtt m'
  proof -
    let ?up = "\<lambda>c. if latency c = 0 then c\<lparr>latency := rtt\<rparr> else c\<lparr>latency := ema (latency c) rtt\<rparr>"
    have up: "0 \<le> latency (?up c) \<and> latency (?up c) < 30 * 10 ^ 9" if "0 \<le> latency c" "latency c < 30 * 10 ^ 9" for c
      using that rtt ema_bounds [of 0 "latency c" rtt "30 * 10 ^ 9 - 1"] by auto
    have "0 \<le> latency c \<and> latency c < 30 * 10 ^ 9" if c: "c \<in> set ((cstore m)[a := ?up (cstore m ! a)])" for a c
    proof (cases "a < length (cstore m)")
      case True
      then have "c = ?up (cstore m ! a) \<or> c \<in> set (cstore m)" using c set_update_subset_insert by fastforce
      then show ?thesis using up [of "cstore m ! a"] assms True by auto
    next
      case False
      then show ?thesis using c assms by (simp add: list_update_beyond)
    qed
    moreover have cu: "cstore (upd_conn a f m') = (cstore m')[a := f (cstore m' ! a)]" for a f
      by (simp add: upd_conn_def)
    ultimately have "\<forall>c\<in>set (cstore (upd_conn a ?up m')). 0 \<le> latency c \<and> latency c < 30 * 10 ^ 9" for a
      unfolding cu m' by blast
    then show ?thesis using assms m' by (simp add: UpdateLatency_def split: option.split)
  qed
  have "lastPongAt (UpdateLatency idx rtt m') = lastPongAt m'" for idx rtt m'
    by (simp add: UpdateLatency_def upd_conn_def split: option.split)
  moreover have "\<forall>c\<in>set (cstore (dispatch_pong now f m)). 0 \<le> latency c \<and> latency c < 30 * 10 ^ 9"
  proof (cases "decodePingPayload (Payload f)")
    case None
    then show ?thesis using assms by (simp add: dispatch_pong_def)
  next
    case (Some p)
    then show ?thesis
      using assms one [of "i64 (now - fst p)" "m\<lparr>lastPongAt := now\<rparr>" "snd p"]
      by (cases p) (simp add: dispatch_pong_def Let_def)
  qed
  ultimately show ?thesis by (simp add: dispatch_pong_def Let_def split: option.split)
qed

theorem pong_latency_bounds_witness:
  "list_all (\<lambda>c. latency c < 30 * 10 ^ 9) (cstore (dispatch_pong 70000 \<lparr>StreamID = 0, Type = FramePong, Sequence = 1, Length = 12,
        Payload = encodePingPayload 20000 0, connIdx = 0\<rparr> two_conns))
   \<and> lastPongAt (dispatch_pong 70000 \<lparr>StreamID = 0, Type = FramePong, Sequence = 1, Length = 12,
        Payload = encodePingPayload 20000 0, connIdx = 0\<rparr> two_conns) = 70000"
proof -
  let ?f = "\<lparr>StreamID = 0, Type = FramePong, Sequence = 1, Length = 12, Payload = encodePingPayload 20000 0, connIdx = 0\<rparr>"
  have "\<forall>c\<in>set (cstore two_conns). 0 \<le> latency c \<and> latency c < 30 * 10 ^ 9" by (simp add: new_muxConn_def)
  from pong_latency_bounds [OF this, of 70000 ?f] show ?thesis
    unfolding list_all_iff by blast
qed

text \<open>
  rotation closes a connection only when more than the required number are alive, and then the oldest
  one, which has reached the given age; no other connection changes, and in all other cases nothing does.
\<close>

theorem CloseOldestConn_safe:
  assumes "CloseOldestConn now maxAge minAlive m = (m', r)"
  shows "if r then minAlive < int (TotalConns m)
           \<and> (\<exists>a\<in>set (live_conns m). m' = upd_conn a (\<lambda>c. c\<lparr>connClosed := True\<rparr>) m
                \<and> maxAge \<le> i64 (now - createdAt (cstore m ! a))
                \<and> (\<forall>b\<in>set (live_conns m). i64 (now - createdAt (cstore m ! b)) \<le> i64 (now - createdAt (cstore m ! a))))
         else m' = m"
proof -
  obtain old age alive where o: "oldest_conn now (cstore m) (live_conns m) (None, 0, 0) = (old, age, alive)"
    by (metis prod.exhaust)
  note sp = oldest_conn_spec [OF o, simplified]
  show ?thesis
    using assms sp by (auto simp: CloseOldestConn_def o TotalConns_def split: option.splits if_splits)
qed

end
