(* ===== verification/Fec.thy ===== *)
theory Fec
  imports Proxy_Prelude
begin

text \<open>
  Forward error correction of the Telemost transport (\<^verbatim>\<open>internal/provider/telemost/fec.go\<close>): packets are
  spread over three interleaved groups by their sequence number, every seven packets of a group give one XOR
  parity packet, and the receiver rebuilds one missing packet of a group from the parity and the other six.
\<close>

section \<open>Model\<close>

definition fecK :: nat where "fecK = 7"
definition fecStride :: nat where "fecStride = 3"

fun xorInto :: "bytes \<Rightarrow> bytes \<Rightarrow> bytes" where
  "xorInto (x # dst) (y # src) = (x XOR y) # xorInto dst src"
| "xorInto dst src = dst"

text \<open>
  A payload with its 16-bit length in front, cut or filled with zeros to \<open>n\<close> bytes; both callers have \<open>2 \<le> n\<close>.
\<close>

definition padded :: "nat \<Rightarrow> bytes \<Rightarrow> bytes" where
  "padded n payload = PutUint16 (of_nat (length payload)) @ take (n - 2) (payload @ replicate (n - 2) 0)"

record fecEncGroup =
  members :: "(u16 \<times> bytes) list"
  maxPayLen :: nat
  startSeq :: u16

type_synonym FECEncoder = "fecEncGroup list"

definition NewFECEncoder :: FECEncoder where
  "NewFECEncoder = replicate fecStride \<lparr>members = [], maxPayLen = 0, startSeq = 0\<rparr>"

definition group_of :: "u16 \<Rightarrow> nat" where
  "group_of pktSeq = unat pktSeq mod fecStride"

text \<open>What \<^verbatim>\<open>AddPacket\<close> does with the group it picks.\<close>

definition group_add :: "u16 \<Rightarrow> bytes \<Rightarrow> fecEncGroup \<Rightarrow> fecEncGroup \<times> (bytes \<times> u16 \<times> nat) option" where
  "group_add pktSeq chunkPayload g0 =
     (let g1 = (if members g0 = [] then g0\<lparr>startSeq := pktSeq\<rparr> else g0);
          g2 = g1\<lparr>members := members g1 @ [(pktSeq, chunkPayload)],
                  maxPayLen := (if length chunkPayload > maxPayLen g1 then length chunkPayload else maxPayLen g1)\<rparr>
      in if length (members g2) < fecK then (g2, None)
         else
           let paddedLen = maxPayLen g2 + 2;
               parity = foldl (\<lambda>par m. xorInto par (padded paddedLen (snd m))) (replicate paddedLen 0) (members g2)
           in (g2\<lparr>members := [], maxPayLen := 0\<rparr>, Some (parity, startSeq g2, length (members g2))))"

definition AddPacket :: "u16 \<Rightarrow> bytes \<Rightarrow> FECEncoder \<Rightarrow> FECEncoder \<times> (bytes \<times> u16 \<times> nat) option" where
  "AddPacket pktSeq chunkPayload e =
     (let gi = group_of pktSeq; (g, out) = group_add pktSeq chunkPayload (e ! gi) in (e[gi := g], out))"

type_synonym FECDecoder = "u16 \<rightharpoonup> bytes"

definition NewFECDecoder :: FECDecoder where
  "NewFECDecoder = (\<lambda>_. None)"

definition AddData :: "u16 \<Rightarrow> bytes \<Rightarrow> FECDecoder \<Rightarrow> FECDecoder" where
  "AddData pktSeq chunkPayload pool = pool(pktSeq \<mapsto> chunkPayload)"

definition member_seq :: "u16 \<Rightarrow> byte \<Rightarrow> nat \<Rightarrow> u16" where
  "member_seq firstSeq stride i = firstSeq + of_nat i * ucast stride"

text \<open>The members of a group that are not in the pool, by position.\<close>

definition missing_members :: "FECDecoder \<Rightarrow> u16 \<Rightarrow> byte \<Rightarrow> nat \<Rightarrow> nat list" where
  "missing_members pool firstSeq stride count = filter (\<lambda>i. pool (member_seq firstSeq stride i) = None) [0..<count]"

text \<open>The count is the byte of the packet header, so it is not negative.\<close>

definition Recover :: "u16 \<Rightarrow> byte \<Rightarrow> nat \<Rightarrow> bytes \<Rightarrow> FECDecoder \<Rightarrow> (u16 \<times> bytes) option" where
  "Recover firstSeq stride count parity pool =
     (if count < 1 \<or> count > fecK then None
      else case missing_members pool firstSeq stride count of
             [missingIdx] \<Rightarrow>
               (let paddedLen = length parity
                in if paddedLen < 2 then None
                   else
                     let result = foldl (\<lambda>r i. if i = missingIdx then r
                                    else xorInto r (padded paddedLen (the (pool (member_seq firstSeq stride i)))))
                                  parity [0..<count];
                         payLen = unat (Uint16 (bslice 0 2 result))
                     in if payLen > paddedLen - 2 then None
                        else Some (member_seq firstSeq stride missingIdx, bslice 2 (2 + payLen) result))
           | _ \<Rightarrow> None)"

definition seqAfter :: "u16 \<Rightarrow> u16 \<Rightarrow> bool" where
  "seqAfter a b \<longleftrightarrow> sint (a - b) > 0"

definition fec_Prune :: "u16 \<Rightarrow> FECDecoder \<Rightarrow> FECDecoder" where
  "fec_Prune minSeq pool = (\<lambda>s. if seqAfter minSeq s then None else pool s)"

section \<open>XOR of equally long strings\<close>

lemma length_xorInto [simp]: "length (xorInto d s) = length d"
  by (induction d s rule: xorInto.induct) simp_all

lemma nth_xorInto: "i < length d \<Longrightarrow> xorInto d s ! i = (if i < length s then d ! i XOR s ! i else d ! i)"
proof (induction d s arbitrary: i rule: xorInto.induct)
  case (1 x d y s)
  then show ?case by (cases i) auto
qed auto

lemma length_padded [simp]: "2 \<le> n \<Longrightarrow> length (padded n p) = n"
  by (simp add: padded_def)

lemma xorInto_swap: "length a = length b \<Longrightarrow> xorInto (xorInto r a) b = xorInto (xorInto r b) a"
  by (auto intro!: nth_equalityI simp: nth_xorInto ac_simps xor.left_commute)

lemma xorInto_self: "xorInto (xorInto r a) a = r"
  by (auto intro!: nth_equalityI simp: nth_xorInto xor.assoc)

lemma xorInto_zero: "length a = n \<Longrightarrow> xorInto (replicate n 0) a = a"
  by (auto intro!: nth_equalityI simp: nth_xorInto)

text \<open>Folding a list of strings into an accumulator; a string folded twice cancels.\<close>

definition xor_all :: "bytes \<Rightarrow> bytes list \<Rightarrow> bytes" where
  "xor_all r bs = foldl xorInto r bs"

lemma length_xor_all [simp]: "length (xor_all r bs) = length r"
  by (induction bs arbitrary: r) (simp_all add: xor_all_def)

lemma xor_all_pull:
  "\<forall>b\<in>set bs. length b = n \<Longrightarrow> length a = n \<Longrightarrow> xor_all (xorInto r a) bs = xorInto (xor_all r bs) a"
proof (induction bs arbitrary: r)
  case (Cons b bs)
  then show ?case using xorInto_swap [of a b r] by (simp add: xor_all_def)
qed (simp add: xor_all_def)

lemma xor_all_cancel:
  assumes "\<forall>b\<in>set bs. length b = n" "j < length bs" "length r = n"
  shows "xor_all (xor_all r bs) (take j bs @ drop (Suc j) bs) = xorInto r (bs ! j)"
  using assms
proof (induction bs arbitrary: j r)
  case (Cons b bs)
  have b: "length b = n" "\<forall>x\<in>set bs. length x = n" using Cons.prems by auto
  have step: "xor_all r (b # bs) = xorInto (xor_all r bs) b"
    using xor_all_pull [OF b(2,1), of r] by (simp add: xor_all_def)
  show ?case
  proof (cases j)
    case 0
    have "xor_all (xor_all (xorInto r b) bs) bs = xorInto r b"
    proof -
      have "xor_all (xor_all q bs) bs = q" for q
        using b(2)
      proof (induction bs arbitrary: q)
        case (Cons c cs)
        then have c: "length c = n" "\<forall>x\<in>set cs. length x = n" by auto
        have "xor_all (xor_all q (c # cs)) (c # cs) = xor_all (xorInto (xor_all (xorInto q c) cs) c) cs"
          by (simp add: xor_all_def)
        also have "\<dots> = xorInto (xor_all (xor_all (xorInto q c) cs) cs) c" using c by (intro xor_all_pull)
        also have "\<dots> = q" using Cons.IH c by (simp add: xorInto_self)
        finally show ?case .
      qed (simp add: xor_all_def)
      then show ?thesis .
    qed
    then show ?thesis using 0 by (simp add: xor_all_def)
  next
    case (Suc k)
    have "xor_all (xor_all r (b # bs)) (b # take k bs @ drop (Suc k) bs)
        = xor_all (xorInto (xorInto (xor_all r bs) b) b) (take k bs @ drop (Suc k) bs)"
      unfolding step by (simp add: xor_all_def)
    also have "\<dots> = xorInto r (bs ! k)" using Cons Suc by (simp add: xorInto_self)
    finally show ?thesis using Suc by simp
  qed
qed simp

section \<open>The encoder on consecutive packets\<close>

text \<open>The outputs of the encoder for packets numbered consecutively from \<open>s\<close>.\<close>

fun fec_encode :: "u16 \<Rightarrow> bytes list \<Rightarrow> FECEncoder \<Rightarrow> (bytes \<times> u16 \<times> nat) option list" where
  "fec_encode s [] e = []"
| "fec_encode s (p # ps) e = (let (e', out) = AddPacket s p e in out # fec_encode (s + 1) ps e')"

text \<open>
  The packets of residue class \<open>c\<close> (their position modulo 3) that wait in the group when \<open>cnt\<close> packets of the
  class have been added.
\<close>

definition waiting :: "nat \<Rightarrow> nat list" where
  "waiting cnt = [7 * (cnt div 7)..<cnt]"

definition group_ok :: "u16 \<Rightarrow> (nat \<Rightarrow> bytes) \<Rightarrow> nat \<Rightarrow> nat \<Rightarrow> fecEncGroup \<Rightarrow> bool" where
  "group_ok s p cnt c g \<longleftrightarrow>
     members g = map (\<lambda>i. (s + of_nat (c + 3 * i), p (c + 3 * i))) (waiting cnt)
     \<and> maxPayLen g = foldl max 0 (map (\<lambda>i. length (p (c + 3 * i))) (waiting cnt))
     \<and> (waiting cnt \<noteq> [] \<longrightarrow> startSeq g = s + of_nat (c + 3 * (7 * (cnt div 7))))"

definition class_count :: "nat \<Rightarrow> nat \<Rightarrow> nat" where
  "class_count n c = (n + 2 - c) div 3"

definition enc_ok :: "u16 \<Rightarrow> (nat \<Rightarrow> bytes) \<Rightarrow> nat \<Rightarrow> FECEncoder \<Rightarrow> bool" where
  "enc_ok s p n e \<longleftrightarrow> length e = 3 \<and> (\<forall>c<3. group_ok s p (class_count n c) c (e ! ((unat s + c) mod 3)))"

definition parity_of :: "bytes list \<Rightarrow> bytes" where
  "parity_of ps = (let n = foldl max 0 (map length ps) + 2 in xor_all (replicate n 0) (map (padded n) ps))"

lemma foldl_xor_all: "foldl (\<lambda>r x. xorInto r (f x)) r xs = xor_all r (map f xs)"
  by (induction xs arbitrary: r) (simp_all add: xor_all_def)

lemma waiting_Suc:
  "waiting (Suc cnt) = (if cnt mod 7 = 6 then [] else waiting cnt @ [cnt])"
  "cnt mod 7 = 6 \<Longrightarrow> waiting cnt @ [cnt] = [cnt - 6..<Suc cnt]"
  "length (waiting cnt) = cnt mod 7"
proof -
  have d: "7 * (cnt div 7) + cnt mod 7 = cnt" by simp
  then show "waiting cnt @ [cnt] = [cnt - 6..<Suc cnt]" if "cnt mod 7 = 6"
  proof -
    have "7 * (cnt div 7) = cnt - 6" using that d by linarith
    then show ?thesis by (simp add: waiting_def)
  qed
  show "length (waiting cnt) = cnt mod 7" by (simp add: waiting_def minus_div_mult_eq_mod [symmetric])
  show "waiting (Suc cnt) = (if cnt mod 7 = 6 then [] else waiting cnt @ [cnt])"
  proof (cases "cnt mod 7 = 6")
    case True
    then have "Suc cnt = 7 * Suc (cnt div 7)" using d by simp
    then have "7 * (Suc cnt div 7) = Suc cnt" by presburger
    then show ?thesis using True by (simp add: waiting_def)
  next
    case False
    then have "Suc cnt div 7 = cnt div 7" by (simp add: div_Suc mod_Suc)
    then show ?thesis using False by (simp add: waiting_def)
  qed
qed

lemma group_add_ok:
  assumes "group_ok s p cnt c g"
  shows "group_ok s p (Suc cnt) c (fst (group_add (s + of_nat (c + 3 * cnt)) (p (c + 3 * cnt)) g))"
    and "snd (group_add (s + of_nat (c + 3 * cnt)) (p (c + 3 * cnt)) g) =
      (if cnt mod 7 = 6 then Some (parity_of (map (\<lambda>i. p (c + 3 * i)) [cnt - 6..<Suc cnt]), s + of_nat (c + 3 * (cnt - 6)), 7)
       else None)"
proof -
  let ?f = "\<lambda>i. (s + of_nat (c + 3 * i), p (c + 3 * i))"
  have g: "members g = map ?f (waiting cnt)"
    "maxPayLen g = foldl max 0 (map (\<lambda>i. length (p (c + 3 * i))) (waiting cnt))"
    "waiting cnt \<noteq> [] \<Longrightarrow> startSeq g = s + of_nat (c + 3 * (7 * (cnt div 7)))"
    using assms by (auto simp: group_ok_def)
  have e: "waiting cnt = [] \<longleftrightarrow> cnt mod 7 = 0" using waiting_Suc(3) [of cnt] by auto
  have c0: "7 * (cnt div 7) = cnt" if "cnt mod 7 = 0" using that by auto
  have mx: "(if a > b then a else b) = max b a" for a b :: nat by auto
  define g2 where "g2 = (if members g = [] then g\<lparr>startSeq := s + of_nat (c + 3 * cnt)\<rparr> else g)
      \<lparr>members := members g @ [?f cnt],
       maxPayLen := (if length (p (c + 3 * cnt)) > maxPayLen g then length (p (c + 3 * cnt)) else maxPayLen g)\<rparr>"
  have g2: "members g2 = map ?f (waiting cnt @ [cnt])"
    "maxPayLen g2 = foldl max 0 (map (\<lambda>i. length (p (c + 3 * i))) (waiting cnt @ [cnt]))"
    "startSeq g2 = s + of_nat (c + 3 * (7 * (cnt div 7)))"
    using g(1,2) g(3) c0 e by (auto simp: g2_def mx)
  have unf: "group_add (s + of_nat (c + 3 * cnt)) (p (c + 3 * cnt)) g =
     (if length (members g2) < fecK then (g2, None)
      else (g2\<lparr>members := [], maxPayLen := 0\<rparr>,
            Some (xor_all (replicate (maxPayLen g2 + 2) 0) (map (\<lambda>m. padded (maxPayLen g2 + 2) (snd m)) (members g2)),
                  startSeq g2, length (members g2))))"
    by (simp add: group_add_def g2_def Let_def foldl_xor_all)
  have l: "length (members g2) = Suc (cnt mod 7)" by (simp add: g2(1) waiting_Suc(3))
  have lt: "length (members g2) < fecK \<longleftrightarrow> cnt mod 7 \<noteq> 6"
    using l mod_less_divisor [of 7 cnt] by (auto simp: fecK_def)
  show "group_ok s p (Suc cnt) c (fst (group_add (s + of_nat (c + 3 * cnt)) (p (c + 3 * cnt)) g))"
  proof (cases "cnt mod 7 = 6")
    case True
    then show ?thesis unfolding unf using lt by (simp add: group_ok_def waiting_Suc(1))
  next
    case False
    then have "Suc cnt div 7 = cnt div 7" by (simp add: div_Suc mod_Suc)
    then show ?thesis unfolding unf using lt False g2 by (simp add: group_ok_def waiting_Suc(1))
  qed
  show "snd (group_add (s + of_nat (c + 3 * cnt)) (p (c + 3 * cnt)) g) =
      (if cnt mod 7 = 6 then Some (parity_of (map (\<lambda>i. p (c + 3 * i)) [cnt - 6..<Suc cnt]), s + of_nat (c + 3 * (cnt - 6)), 7)
       else None)"
  proof (cases "cnt mod 7 = 6")
    case True
    have st: "7 * (cnt div 7) = cnt - 6" using True by (simp add: minus_mod_eq_mult_div [symmetric])
    have w: "members g2 = map ?f [cnt - 6..<Suc cnt]"
      "maxPayLen g2 = foldl max 0 (map (\<lambda>i. length (p (c + 3 * i))) [cnt - 6..<Suc cnt])"
      using g2 waiting_Suc(2) [OF True] by simp_all
    have full: "\<not> length (members g2) < fecK" "length (members g2) = 7" using lt l True by simp_all
    have par: "xor_all (replicate (maxPayLen g2 + 2) 0) (map (\<lambda>m. padded (maxPayLen g2 + 2) (snd m)) (members g2))
        = parity_of (map (\<lambda>i. p (c + 3 * i)) [cnt - 6..<Suc cnt])"
      unfolding parity_of_def Let_def w map_map comp_def snd_conv ..
    have "snd (group_add (s + of_nat (c + 3 * cnt)) (p (c + 3 * cnt)) g) =
        Some (xor_all (replicate (maxPayLen g2 + 2) 0) (map (\<lambda>m. padded (maxPayLen g2 + 2) (snd m)) (members g2)),
              startSeq g2, length (members g2))"
      unfolding unf if_not_P [OF full(1)] snd_conv ..
    then show ?thesis unfolding par full(2) g2(3) st if_P [OF True] .
  next
    case False
    then show ?thesis unfolding unf using lt by simp
  qed
qed

lemma class_count_Suc:
  "c < 3 \<Longrightarrow> class_count (Suc n) c = (if c = n mod 3 then Suc (n div 3) else class_count n c)"
  "class_count n (n mod 3) = n div 3"
proof -
  show "class_count n (n mod 3) = n div 3"
  proof -
    have "n + 2 - n mod 3 = 2 + 3 * (n div 3)" using mult_div_mod_eq [of 3 n] by linarith
    then show ?thesis by (simp add: class_count_def)
  qed
  show "class_count (Suc n) c = (if c = n mod 3 then Suc (n div 3) else class_count n c)" if "c < 3"
  proof (cases "c = n mod 3")
    case True
    have "n + 1 + 2 - n mod 3 = 3 * (n div 3) + 3" using mult_div_mod_eq [of 3 n] by linarith
    then show ?thesis using True by (simp add: class_count_def)
  next
    case False
    have "c = 0 \<or> c = 1 \<or> c = 2" using that by linarith
    then have "(Suc n + 2 - c) div 3 = (n + 2 - c) div 3" using False by (elim disjE; simp; presburger)
    then show ?thesis using False by (simp add: class_count_def)
  qed
qed

lemma mod_add_inj3: "c' < 3 \<Longrightarrow> c < 3 \<Longrightarrow> (u + c') mod 3 = (u + c) mod 3 \<Longrightarrow> c' = (c::nat)"
proof -
  assume c: "c' < 3" "c < 3" and e: "(u + c') mod 3 = (u + c) mod 3"
  have "(u mod 3 + c') mod 3 = (u mod 3 + c) mod 3" using e by (simp add: mod_simps)
  moreover have "u mod 3 \<in> {0, 1, 2}" "c' \<in> {0, 1, 2}" "c \<in> {0, 1, 2}" using c by auto
  ultimately show ?thesis by (elim insertE emptyE) auto
qed

lemma AddPacket_ok:
  assumes ok: "enc_ok s p n e" and n: "unat s + n < 2 ^ 16"
  shows "enc_ok s p (Suc n) (fst (AddPacket (s + of_nat n) (p n) e))"
    and "snd (AddPacket (s + of_nat n) (p n) e) =
      (if n div 3 mod 7 = 6
       then Some (parity_of (map (\<lambda>i. p (n - 18 + 3 * i)) [0..<7]), s + of_nat (n - 18), 7) else None)"
proof -
  let ?c = "n mod 3"
  have c: "?c < 3" "?c + 3 * (n div 3) = n" by simp_all
  have u: "unat (s + of_nat n) = unat s + n"
    using n by (simp add: unat_word_ariths unat_of_nat)
  have gi: "group_of (s + of_nat n) = (unat s + ?c) mod 3"
    by (simp add: group_of_def fecStride_def u mod_simps)
  have len: "length e = 3" and g: "\<And>c. c < 3 \<Longrightarrow> group_ok s p (class_count n c) c (e ! ((unat s + c) mod 3))"
    using ok by (auto simp: enc_ok_def)
  have gc: "group_ok s p (n div 3) ?c (e ! ((unat s + ?c) mod 3))"
    using g [OF c(1)] by (simp add: class_count_Suc(2))
  have ap: "AddPacket (s + of_nat n) (p n) e =
     (let (g, out) = group_add (s + of_nat n) (p n) (e ! ((unat s + ?c) mod 3)) in (e[(unat s + ?c) mod 3 := g], out))"
    by (simp add: AddPacket_def gi Let_def)
  note ga = group_add_ok [OF gc, unfolded c(2)]
  have inj: "(unat s + c') mod 3 \<noteq> (unat s + ?c) mod 3" if "c' < 3" "c' \<noteq> ?c" for c'
    using mod_add_inj3 [of c' ?c "unat s"] that c(1) by blast
  show "enc_ok s p (Suc n) (fst (AddPacket (s + of_nat n) (p n) e))"
    unfolding enc_ok_def ap
  proof (intro conjI allI impI)
    fix c' :: nat assume c': "c' < 3"
    let ?e = "fst (let (g, out) = group_add (s + of_nat n) (p n) (e ! ((unat s + ?c) mod 3)) in (e[(unat s + ?c) mod 3 := g], out))"
    show "group_ok s p (class_count (Suc n) c') c' (?e ! ((unat s + c') mod 3))"
    proof (cases "c' = ?c")
      case True
      then show ?thesis using ga(1) len class_count_Suc(1) [OF c', of n] by (simp add: case_prod_beta)
    next
      case False
      then have "?e ! ((unat s + c') mod 3) = e ! ((unat s + c') mod 3)"
        using inj [OF c' False] by (simp add: case_prod_beta)
      then show ?thesis using False g [OF c'] class_count_Suc(1) [OF c', of n] by simp
    qed
  qed (simp add: len case_prod_beta)
  have 18: "n - 18 + 3 * i = ?c + 3 * (n div 3 - 6 + i)" if "n div 3 mod 7 = 6" for i
  proof -
    have "6 \<le> n div 3" using that mod_less_eq_dividend [of "n div 3" 7] by simp
    then obtain d where d: "n div 3 = 6 + d" using le_Suc_ex by blast
    then have "n = ?c + 18 + 3 * d" using c(2) by simp
    then show ?thesis using d by simp
  qed
  have m: "map (\<lambda>i. p (?c + 3 * i)) [n div 3 - 6..<Suc (n div 3)] = map (\<lambda>i. p (n - 18 + 3 * i)) [0..<7]"
    if "n div 3 mod 7 = 6"
  proof -
    have "6 \<le> n div 3" using that mod_less_eq_dividend [of "n div 3" 7] by simp
    then show ?thesis by (intro nth_equalityI) (auto simp: 18 [OF that] simp del: upt_Suc)
  qed
  show "snd (AddPacket (s + of_nat n) (p n) e) =
      (if n div 3 mod 7 = 6
       then Some (parity_of (map (\<lambda>i. p (n - 18 + 3 * i)) [0..<7]), s + of_nat (n - 18), 7) else None)"
  proof (cases "n div 3 mod 7 = 6")
    case True
    have "snd (AddPacket (s + of_nat n) (p n) e) = snd (group_add (s + of_nat n) (p n) (e ! ((unat s + ?c) mod 3)))"
      unfolding ap by (simp add: case_prod_beta)
    also have "\<dots> = Some (parity_of (map (\<lambda>i. p (n - 18 + 3 * i)) [0..<7]), s + of_nat (?c + 3 * (n div 3 - 6)), 7)"
      unfolding ga(2) if_P [OF True] m [OF True] ..
    also have "?c + 3 * (n div 3 - 6) = n - 18" using 18 [OF True, of 0] by simp
    finally show ?thesis using True by simp
  next
    case False
    then show ?thesis unfolding ap using ga(2) by (simp add: case_prod_beta)
  qed
qed

lemma fec_encode_nth_from:
  assumes "enc_ok s p m e" "\<And>i. i < length ps \<Longrightarrow> ps ! i = p (m + i)" "unat s + m + length ps \<le> 2 ^ 16"
    "k < length ps"
  shows "fec_encode (s + of_nat m) ps e ! k =
      (if (m + k) div 3 mod 7 = 6
       then Some (parity_of (map (\<lambda>i. p (m + k - 18 + 3 * i)) [0..<7]), s + of_nat (m + k - 18), 7) else None)"
  using assms
proof (induction ps arbitrary: m e k)
  case (Cons x ps)
  have x: "x = p m" using Cons.prems(2) [of 0] by simp
  have b: "unat s + m < 2 ^ 16" using Cons.prems(3) by simp
  note ap = AddPacket_ok [OF Cons.prems(1) b]
  obtain e' out where a: "AddPacket (s + of_nat m) (p m) e = (e', out)" by fastforce
  show ?case
  proof (cases k)
    case 0
    then show ?thesis using ap(2) x a by (simp del: upt_Suc)
  next
    case (Suc k')
    have "fec_encode (s + of_nat (Suc m)) ps e' ! k' =
      (if (Suc m + k') div 3 mod 7 = 6
       then Some (parity_of (map (\<lambda>i. p (Suc m + k' - 18 + 3 * i)) [0..<7]), s + of_nat (Suc m + k' - 18), 7) else None)"
    proof (rule Cons.IH)
      show "enc_ok s p (Suc m) e'" using ap(1) a by simp
      show "\<And>i. i < length ps \<Longrightarrow> ps ! i = p (Suc m + i)" using Cons.prems(2) [of "Suc i" for i] by simp
      show "unat s + Suc m + length ps \<le> 2 ^ 16" "k' < length ps" using Cons.prems(3,4) Suc by simp_all
    qed
    moreover have "fec_encode (s + of_nat m) (x # ps) e ! k = fec_encode (s + of_nat (Suc m)) ps e' ! k'"
      using x a Suc by (simp add: ac_simps)
    moreover have "Suc m + k' = m + k" using Suc by simp
    ultimately show ?thesis by (simp only:)
  qed
qed simp

lemma NewFECEncoder_ok: "enc_ok s p 0 NewFECEncoder"
  by (auto simp: enc_ok_def NewFECEncoder_def fecStride_def group_ok_def waiting_def class_count_def)

lemma fec_encode_nth:
  assumes "unat s + length ps \<le> 2 ^ 16" "k < length ps"
  shows "fec_encode s ps NewFECEncoder ! k =
      (if k div 3 mod 7 = 6
       then Some (parity_of (map (\<lambda>i. ps ! (k - 18 + 3 * i)) [0..<7]), s + of_nat (k - 18), 7) else None)"
  using fec_encode_nth_from [OF NewFECEncoder_ok, of ps "\<lambda>i. ps ! i" s k] assms by (simp del: upt_Suc)

section \<open>Recovery\<close>

lemma le_foldl_max: "(x::nat) \<in> set xs \<Longrightarrow> x \<le> foldl max a xs"
  "(a::nat) \<le> foldl max a xs"
proof -
  have a: "a \<le> foldl max a xs" for a :: nat and xs
  proof (induction xs arbitrary: a)
    case (Cons x xs)
    have "max a x \<le> foldl max (max a x) xs" by (rule Cons)
    then show ?case by (simp only: foldl_Cons max.bounded_iff)
  qed simp
  show "a \<le> foldl max a xs" by (rule a)
  show "x \<in> set xs \<Longrightarrow> x \<le> foldl max a xs"
  proof (induction xs arbitrary: a)
    case (Cons y xs)
    then show ?case using a [of "max a y"] by auto
  qed simp
qed

lemma upt_at: "j < n \<Longrightarrow> [0..<n] = [0..<j] @ j # [Suc j..<n]"
  using upt_add_eq_append [of 0 j "n - j"] upt_conv_Cons [of j n] by simp

lemma foldl_skip:
  assumes "j < n"
  shows "foldl (\<lambda>r i. if i = j then r else xorInto r (f i)) r [0..<n]
       = xor_all r (take j (map f [0..<n]) @ drop (Suc j) (map f [0..<n]))"
proof -
  have F: "foldl (\<lambda>r i. if i = j then r else xorInto r (f i)) r is = xor_all r (map f is)" if "j \<notin> set is" for r "is"
    using that by (induction "is" arbitrary: r) (auto simp: xor_all_def)
  have s: "[0..<n] = [0..<j] @ j # [Suc j..<n]"
    by (rule upt_at [OF assms])
  show ?thesis unfolding s
    by (simp add: F) (simp add: xor_all_def)
qed

lemma padded_decode:
  assumes "length p \<le> n" "length p < 2 ^ 16"
  shows "unat (Uint16 (bslice 0 2 (padded (n + 2) p))) = length p"
    "bslice 2 (2 + length p) (padded (n + 2) p) = p"
proof -
  have p: "padded (n + 2) p = PutUint16 (of_nat (length p)) @ p @ replicate (n - length p) 0"
    using assms(1) by (simp add: padded_def)
  show "unat (Uint16 (bslice 0 2 (padded (n + 2) p))) = length p"
    using assms(2) unfolding p by (simp add: bslice_def unat_of_nat)
  show "bslice 2 (2 + length p) (padded (n + 2) p) = p" unfolding p by (simp add: bslice_def)
qed

lemma member_seq_3: "member_seq (s + of_nat m) 3 i = s + of_nat (m + 3 * i)"
  unfolding member_seq_def by simp

text \<open>One missing member of a group is rebuilt from the parity of the group.\<close>

lemma Recover_parity:
  assumes len: "length ps = count" "count \<le> fecK" and sz: "\<forall>p\<in>set ps. length p < 2 ^ 16" and j: "j < count"
    and pool: "\<And>i. i < count \<Longrightarrow> pool (member_seq first stride i) = (if i = j then None else Some (ps ! i))"
  shows "Recover first stride count (parity_of ps) pool = Some (member_seq first stride j, ps ! j)"
proof -
  let ?n = "foldl max 0 (map length ps)"
  let ?bs = "map (padded (?n + 2)) ps"
  have L: "length (parity_of ps) = ?n + 2" by (simp add: parity_of_def Let_def)
  have miss: "missing_members pool first stride count = [j]"
  proof -
    have "missing_members pool first stride count = filter (\<lambda>i. i = j) [0..<count]"
      unfolding missing_members_def by (rule filter_cong) (auto simp: pool)
    also have "[0..<count] = [0..<j] @ j # [Suc j..<count]"
      by (rule upt_at [OF j])
    also have "filter (\<lambda>i. i = j) ([0..<j] @ j # [Suc j..<count]) = [j]"
      by (simp add: filter_empty_conv)
    finally show ?thesis .
  qed
  have f: "foldl (\<lambda>r i. if i = j then r else xorInto r (padded (?n + 2) (the (pool (member_seq first stride i)))))
      (parity_of ps) [0..<count] = padded (?n + 2) (ps ! j)" (is "?l = _")
  proof -
    let ?f = "\<lambda>i. padded (?n + 2) (the (pool (member_seq first stride i)))"
    have "?l = xor_all (parity_of ps) (take j (map ?f [0..<count]) @ drop (Suc j) (map ?f [0..<count]))"
      by (rule foldl_skip [OF j])
    also have "take j (map ?f [0..<count]) = take j ?bs"
      using j len by (intro nth_equalityI) (auto simp: pool)
    also have "drop (Suc j) (map ?f [0..<count]) = drop (Suc j) ?bs"
      using j len by (intro nth_equalityI) (auto simp: pool)
    also have "xor_all (parity_of ps) (take j ?bs @ drop (Suc j) ?bs) = xorInto (replicate (?n + 2) 0) (?bs ! j)"
      unfolding parity_of_def Let_def using j len by (intro xor_all_cancel) auto
    also have "\<dots> = padded (?n + 2) (ps ! j)" using j len by (simp add: xorInto_zero del: replicate.simps)
    finally show ?thesis .
  qed
  have m: "ps ! j \<in> set ps" using j len by simp
  then have le: "length (ps ! j) \<le> ?n" by (intro le_foldl_max) simp
  note d = padded_decode [OF le sz [rule_format, OF m]]
  have c: "\<not> (count < 1 \<or> count > fecK)" "\<not> ?n + 2 < 2" "\<not> length (ps ! j) > ?n + 2 - 2" using j len le by auto
  show ?thesis unfolding Recover_def miss L list.case Let_def f d if_not_P [OF c(1)] if_not_P [OF c(2)] if_not_P [OF c(3)] ..
qed

text \<open>C20: Packets numbered consecutively from any sequence number (the run not crossing the 16-bit wrap) are added to
  a fresh encoder.  The \<open>n\<close>-th one completes a group exactly when \<open>n div 3 mod 7 = 6\<close>; then the encoder emits the
  parity of the seven packets at distance 3 that end there, and a receiver that holds any six of these, in any pool,
  recovers the seventh exactly: its sequence number and its bytes.\<close>

theorem fec_recovers_one_loss:
  assumes "unat s + length ps \<le> 2 ^ 16" "\<forall>p\<in>set ps. length p < 2 ^ 16" "n < length ps"
  shows "if n div 3 mod 7 = 6
    then \<exists>parity. fec_encode s ps NewFECEncoder ! n = Some (parity, s + of_nat (n - 18), 7)
       \<and> (\<forall>j pool. j < 7 \<and> (\<forall>i<7. pool (s + of_nat (n - 18 + 3 * i)) = (if i = j then None else Some (ps ! (n - 18 + 3 * i))))
            \<longrightarrow> Recover (s + of_nat (n - 18)) 3 7 parity pool
               = Some (s + of_nat (n - 18 + 3 * j), ps ! (n - 18 + 3 * j)))
    else fec_encode s ps NewFECEncoder ! n = None"
proof (cases "n div 3 mod 7 = 6")
  case True
  let ?qs = "map (\<lambda>i. ps ! (n - 18 + 3 * i)) [0..<7]"
  have out: "fec_encode s ps NewFECEncoder ! n = Some (parity_of ?qs, s + of_nat (n - 18), 7)"
    using fec_encode_nth [OF assms(1,3)] unfolding if_P [OF True] .
  have "6 \<le> n div 3" using True mod_less_eq_dividend [of "n div 3" 7] by simp
  then have n18: "18 \<le> n" by simp
  note ms = member_seq_3
  have "Recover (s + of_nat (n - 18)) 3 7 (parity_of ?qs) pool
      = Some (s + of_nat (n - 18 + 3 * j), ps ! (n - 18 + 3 * j))"
    if j: "j < 7" and pool: "\<forall>i<7. pool (s + of_nat (n - 18 + 3 * i)) = (if i = j then None else Some (ps ! (n - 18 + 3 * i)))"
    for j pool
  proof -
    have nth: "?qs ! i = ps ! (n - 18 + 3 * i)" if "i < 7" for i using that by (simp del: upt_Suc)
    have "\<forall>p\<in>set ?qs. length p < 2 ^ 16" using assms(2,3) n18 by (auto simp del: upt_Suc)
    then have "Recover (s + of_nat (n - 18)) 3 7 (parity_of ?qs) pool
        = Some (member_seq (s + of_nat (n - 18)) 3 j, ?qs ! j)"
      using j pool by (intro Recover_parity) (simp_all add: fecK_def ms nth del: upt_Suc of_nat_add of_nat_mult)
    then show ?thesis using nth [OF j] ms by simp
  qed
  then show ?thesis using out True by (auto simp del: upt_Suc)
next
  case False
  then show ?thesis using fec_encode_nth [OF assms(1,3)] by simp
qed

theorem fec_recovers_one_loss_witness:
  "\<exists>parity. fec_encode 65000 (replicate 19 [1, 2]) NewFECEncoder ! 18 = Some (parity, 65000, 7)
     \<and> Recover 65000 3 7 parity (\<lambda>q. if q = 65006 then None else Some [1, 2]) = Some (65006, [1, 2])"
proof -
  let ?pool = "\<lambda>q::u16. if q = 65006 then None else Some [1, 2 :: byte]"
  have nth: "replicate 19 [1, 2 :: byte] ! (18 - 18 + 3 * i) = [1, 2]" if "i < 7" for i using that by simp
  have all: "P i" if "i < 7" "P 0" "P 1" "P 2" "P 3" "P 4" "P 5" "P 6" for P :: "nat \<Rightarrow> bool" and i
  proof -
    have "i = 0 \<or> i = 1 \<or> i = 2 \<or> i = 3 \<or> i = 4 \<or> i = 5 \<or> i = 6" using that(1) by linarith
    then show ?thesis using that by auto
  qed
  have pool: "\<forall>i<7. ?pool (65000 + of_nat (18 - 18 + 3 * i)) = (if i = 2 then None else Some (replicate 19 [1, 2] ! (18 - 18 + 3 * i)))"
  proof (intro allI impI)
    fix i :: nat assume i: "i < 7"
    have "?pool (65000 + of_nat (18 - 18 + 3 * i)) = (if i = 2 then None else Some [1, 2])"
      by (rule all [OF i]) simp_all
    then show "?pool (65000 + of_nat (18 - 18 + 3 * i)) = (if i = 2 then None else Some (replicate 19 [1, 2] ! (18 - 18 + 3 * i)))"
      using nth [OF i] by simp
  qed
  have cond: "(18::nat) div 3 mod 7 = 6" by simp
  have hyp: "unat (65000 :: u16) + length (replicate 19 [1, 2 :: byte]) \<le> 2 ^ 16"
    "\<forall>p\<in>set (replicate 19 [1, 2 :: byte]). length p < 2 ^ 16" "18 < length (replicate 19 [1, 2 :: byte])"
    by simp_all
  obtain parity where p: "fec_encode 65000 (replicate 19 [1, 2]) NewFECEncoder ! 18 = Some (parity, 65000 + of_nat (18 - 18), 7)"
    and r: "\<And>j pool. j < 7 \<and> (\<forall>i<7. pool (65000 + of_nat (18 - 18 + 3 * i)) =
        (if i = j then None else Some (replicate 19 [1, 2] ! (18 - 18 + 3 * i)))) \<Longrightarrow>
      Recover (65000 + of_nat (18 - 18)) 3 7 parity pool = Some (65000 + of_nat (18 - 18 + 3 * j), replicate 19 [1, 2] ! (18 - 18 + 3 * j))"
    using fec_recovers_one_loss [OF hyp] unfolding if_P [OF cond] by blast
  show ?thesis
    using p r [of 2 ?pool, OF conjI [OF _ pool]] by (intro exI [of _ parity]) (simp del: replicate.simps)
qed

lemma group_add_open:
  "length (members g) < 6 \<Longrightarrow> group_add q p g =
     (\<lparr>members = members g @ [(q, p)], maxPayLen = max (maxPayLen g) (length p),
       startSeq = (if members g = [] then q else startSeq g)\<rparr>, None)"
  by (cases g) (auto simp: group_add_def fecK_def Let_def)

lemma group_add_full:
  "length (members g) = 6 \<Longrightarrow> maxPayLen g = foldl max 0 (map (length \<circ> snd) (members g)) \<Longrightarrow>
   snd (group_add q p g) = Some (parity_of (map snd (members g) @ [p]), startSeq g, 7)"
  by (cases g) (auto simp: group_add_def fecK_def Let_def parity_of_def foldl_xor_all comp_def max_def)

text \<open>The encoder groups by the residue of the 16-bit number modulo 3, the decoder walks in steps of 3 modulo
  \<open>2^16\<close>, and \<open>2^16\<close> is not a multiple of 3: for a group that spans the wrap the two disagree.  Packets are numbered
  consecutively from 65530 and each carries one byte, its position; those of residue 1 are fed to the encoder (the others go
  to other groups).  The receiver got every packet but number 6 (position 12), which is no member of that group, and
  yet it "recovers" it, with the payload 17 instead of 12.\<close>

theorem fec_wrap_corrupts:
  "snd (foldl (\<lambda>(e, out) (q, p). AddPacket q p e) (NewFECEncoder, None)
     [(65530, [0]), (65533, [3]), (1, [7]), (4, [10]), (7, [13]), (10, [16]), (13, [19])]) = Some ([0, 1, 0], 65530, 7)
   \<and> Recover 65530 3 7 [0, 1, 0] (\<lambda>q. if q = 6 then None else Some [ucast (q - 65530)]) = Some (6, [17])"
proof
  let ?g = "\<lparr>members = [], maxPayLen = 0, startSeq = 0\<rparr>"
  have new: "NewFECEncoder = [?g, ?g, ?g]" by (simp add: NewFECEncoder_def fecStride_def numeral_3_eq_3)
  have par: "parity_of [[0], [3], [7], [10], [13], [16], [19]] = [0, 1, 0]"
    by (simp add: parity_of_def xor_all_def padded_def PutUint16_def numeral_3_eq_3)
  show "snd (foldl (\<lambda>(e, out) (q, p). AddPacket q p e) (NewFECEncoder, None)
     [(65530, [0]), (65533, [3]), (1, [7]), (4, [10]), (7, [13]), (10, [16]), (13, [19])]) = Some ([0, 1, 0], 65530, 7)"
    unfolding new by (simp add: AddPacket_def group_of_def fecStride_def group_add_open group_add_full par case_prod_beta)
next
  show "Recover 65530 3 7 [0, 1, 0] (\<lambda>q. if q = 6 then None else Some [ucast (q - 65530)]) = Some (6, [17])"
    by (simp add: Recover_def missing_members_def upt_rec member_seq_def fecK_def padded_def PutUint16_def Uint16_def bslice_def)
qed

end
