(* ===== verification/Nack.thy ===== *)
theory Nack
  imports Fec
begin

text \<open>
  Selective retransmission of the Telemost transport (\<^verbatim>\<open>internal/provider/telemost/nack.go\<close>): the sender's
  circular store of recent packets and the receiver's tracker of missing packets.  The tracker's maps are functions
  on 16-bit numbers; times are nanoseconds; the order in which Go ranges over a map is an argument.
\<close>

section \<open>Model\<close>

definition retxBufSize :: nat where "retxBufSize = 512"
definition nackDelay :: int where "nackDelay = 30000000"
definition nackRetry :: int where "nackRetry = 100000000"
definition maxNACKSeqs :: nat where "maxNACKSeqs = 32"

subsection \<open>Sent packets\<close>

record retxEntry =
  retx_pktSeq :: u16
  retx_payload :: bytes
  retx_valid :: bool

type_synonym RetransmitBuffer = "retxEntry list"

definition retx_empty :: RetransmitBuffer where
  "retx_empty = replicate retxBufSize \<lparr>retx_pktSeq = 0, retx_payload = [], retx_valid = False\<rparr>"

definition retx_Store :: "u16 \<Rightarrow> bytes \<Rightarrow> RetransmitBuffer \<Rightarrow> RetransmitBuffer" where
  "retx_Store pktSeq chunkPayload rb =
     rb[unat pktSeq mod retxBufSize := \<lparr>retx_pktSeq = pktSeq, retx_payload = chunkPayload, retx_valid = True\<rparr>]"

definition retx_Reset :: "RetransmitBuffer \<Rightarrow> RetransmitBuffer" where
  "retx_Reset rb = retx_empty"

text \<open>The copy that \<^verbatim>\<open>Get\<close> makes of an empty payload is the nil slice, which callers take for a missing packet.\<close>

definition retx_Get :: "u16 \<Rightarrow> RetransmitBuffer \<Rightarrow> bytes option" where
  "retx_Get pktSeq rb =
     (let e = rb ! (unat pktSeq mod retxBufSize)
      in if retx_valid e \<and> retx_pktSeq e = pktSeq
         then (if retx_payload e = [] then None else Some (retx_payload e)) else None)"

subsection \<open>Missing packets\<close>

record gapEntry =
  detected :: int
  lastNack :: int
  nacked :: bool

record NACKTracker =
  gaps :: "u16 \<rightharpoonup> gapEntry"
  nt_received :: "u16 \<Rightarrow> bool"
  nextExpect :: u16
  nt_initialized :: bool

definition NewNACKTracker :: NACKTracker where
  "NewNACKTracker = \<lparr>gaps = (\<lambda>_. None), nt_received = (\<lambda>_. False), nextExpect = 0, nt_initialized = False\<rparr>"

text \<open>The loop of \<^verbatim>\<open>Record\<close> from \<open>s\<close> up to the packet that arrived.\<close>

function add_gaps :: "int \<Rightarrow> (u16 \<Rightarrow> bool) \<Rightarrow> u16 \<Rightarrow> u16 \<Rightarrow> (u16 \<rightharpoonup> gapEntry) \<Rightarrow> (u16 \<rightharpoonup> gapEntry)" where
  "add_gaps now rcv s pktSeq gs =
     (if s = pktSeq then gs
      else add_gaps now rcv (s + 1) pktSeq
             (if \<not> rcv s \<and> gs s = None then gs(s \<mapsto> \<lparr>detected = now, lastNack = 0, nacked = False\<rparr>) else gs))"
  by pat_completeness auto
termination
proof (relation "measure (\<lambda>(now, rcv, s, pktSeq, gs). unat (pktSeq - s))", goal_cases)
  case (2 now rcv s pktSeq gs)
  then have "pktSeq - s \<noteq> 0" by simp
  then have "unat (pktSeq - s - 1) < unat (pktSeq - s)" by (metis measure_unat)
  then show ?case by (simp add: algebra_simps)
qed simp

declare add_gaps.simps [simp del]

text \<open>Moving \<^verbatim>\<open>nextExpect\<close> over the packets that are already there.\<close>

function advance :: "NACKTracker \<Rightarrow> NACKTracker" where
  "advance nt = (if nt_received nt (nextExpect nt)
     then advance (nt\<lparr>nt_received := (nt_received nt)(nextExpect nt := False), nextExpect := nextExpect nt + 1\<rparr>)
     else nt)"
  by pat_completeness auto
termination
proof (relation "measure (\<lambda>nt. card {s. nt_received nt s})", goal_cases)
  case (2 nt)
  have "{s. nt_received (nt\<lparr>nt_received := (nt_received nt)(nextExpect nt := False), nextExpect := nextExpect nt + 1\<rparr>) s}
      = {s. nt_received nt s} - {nextExpect nt}" by auto
  moreover have "nextExpect nt \<in> {s. nt_received nt s}" using 2 by simp
  moreover have "finite {s. nt_received nt s}" by (rule finite_subset [OF subset_UNIV]) simp
  ultimately show ?case by (simp only: in_measure card_Diff1_less)
qed simp

declare advance.simps [simp del]

definition Record :: "u16 \<Rightarrow> int \<Rightarrow> NACKTracker \<Rightarrow> NACKTracker" where
  "Record pktSeq now nt =
     (if \<not> nt_initialized nt then nt\<lparr>nextExpect := pktSeq + 1, nt_initialized := True\<rparr>
      else
        let rcv = (nt_received nt)(pktSeq := True);
            gs = (gaps nt)(pktSeq := None);
            gs' = (if seqAfter pktSeq (nextExpect nt) then add_gaps now rcv (nextExpect nt) pktSeq gs else gs)
        in advance (nt\<lparr>gaps := gs', nt_received := rcv\<rparr>))"

definition Resolve :: "u16 \<Rightarrow> NACKTracker \<Rightarrow> NACKTracker" where
  "Resolve pktSeq nt =
     advance (nt\<lparr>gaps := (gaps nt)(pktSeq := None), nt_received := (nt_received nt)(pktSeq := True)\<rparr>)"

text \<open>Whether an entry is due: the delay since detection for a first request, the retry interval afterwards.\<close>

definition nack_due :: "int \<Rightarrow> gapEntry \<Rightarrow> bool" where
  "nack_due now ge = (if \<not> nacked ge then now - detected ge \<ge> nackDelay else now - lastNack ge \<ge> nackRetry)"

fun get_nacks :: "int \<Rightarrow> u16 list \<Rightarrow> u16 list \<Rightarrow> NACKTracker \<Rightarrow> NACKTracker \<times> u16 list" where
  "get_nacks now [] acc nt = (nt, acc)"
| "get_nacks now (s # order) acc nt =
     (case gaps nt s of
        None \<Rightarrow> get_nacks now order acc nt
      | Some ge \<Rightarrow>
          let (nt', acc') = (if nack_due now ge
                then (nt\<lparr>gaps := (gaps nt)(s \<mapsto> ge\<lparr>nacked := True, lastNack := now\<rparr>)\<rparr>, acc @ [s])
                else (nt, acc))
          in if length acc' \<ge> maxNACKSeqs then (nt', acc') else get_nacks now order acc' nt')"

text \<open>\<open>order\<close> lists the keys of the gap map in the order Go happens to range over them.\<close>

definition GetNACKs :: "int \<Rightarrow> u16 list \<Rightarrow> NACKTracker \<Rightarrow> NACKTracker \<times> u16 list" where
  "GetNACKs now order nt = get_nacks now order [] nt"

definition nt_Reset :: "NACKTracker \<Rightarrow> NACKTracker" where
  "nt_Reset nt = nt\<lparr>gaps := (\<lambda>_. None), nt_received := (\<lambda>_. False), nextExpect := 0, nt_initialized := False\<rparr>"

definition nt_Prune :: "u16 \<Rightarrow> NACKTracker \<Rightarrow> NACKTracker" where
  "nt_Prune minSeq nt = nt\<lparr>gaps := (\<lambda>s. if seqAfter minSeq s then None else gaps nt s),
                          nt_received := (\<lambda>s. \<not> seqAfter minSeq s \<and> nt_received nt s)\<rparr>"

section \<open>The retransmission store holds the last 512 packets\<close>

lemma mod512_eq_iff: "unat (a :: u16) mod 512 = unat b mod 512 \<longleftrightarrow> unat (b - a) mod 512 = 0"
proof -
  have "unat a mod 512 = unat b mod 512 \<longleftrightarrow> int (unat b mod 512) = int (unat a mod 512)" by (simp add: eq_commute)
  also have "\<dots> \<longleftrightarrow> uint b mod 512 = uint a mod 512" by (simp add: zmod_int)
  also have "\<dots> \<longleftrightarrow> (uint b - uint a) mod 512 = 0" by (simp add: mod_eq_dvd_iff dvd_eq_mod_eq_0)
  also have "(uint b - uint a) mod 512 = uint (b - a) mod 512" by (simp add: uint_word_ariths mod_mod_cancel)
  also have "\<dots> = int (unat (b - a) mod 512)" by (simp add: zmod_int)
  finally show ?thesis by simp
qed

lemma length_retx_Store [simp]: "length (retx_Store q p rb) = length rb"
  by (simp add: retx_Store_def)

lemma retx_Get_Store:
  assumes "length rb = retxBufSize"
  shows "retx_Get q (retx_Store q' p rb) =
    (if q = q' then if p = [] then None else Some p
     else if unat q mod 512 = unat q' mod 512 then None else retx_Get q rb)"
  using assms by (auto simp: retx_Get_def retx_Store_def Let_def retxBufSize_def nth_list_update)

text \<open>Consecutive packets from \<open>s\<close> on, stored one after the other.\<close>

fun store_all :: "u16 \<Rightarrow> bytes list \<Rightarrow> RetransmitBuffer \<Rightarrow> RetransmitBuffer" where
  "store_all s [] rb = rb"
| "store_all s (p # ps) rb = store_all (s + 1) ps (retx_Store s p rb)"

lemma store_all_append:
  "store_all s (ps @ qs) rb = store_all (s + of_nat (length ps)) qs (store_all s ps rb)"
  by (induction ps arbitrary: s rb) (simp_all add: algebra_simps)

lemma length_store_all [simp]: "length (store_all s ps rb) = length rb"
  by (induction ps arbitrary: s rb) simp_all

lemma retx_Get_empty: "retx_Get q retx_empty = None"
  by (simp add: retx_Get_def retx_empty_def Let_def retxBufSize_def)

text \<open>After any number of packets with consecutive numbers (wrapping past 65535 as often as may be) has been stored in
  an empty retransmission store, a request for \<open>q\<close> is answered exactly when \<open>q\<close> is one of the last 512 numbers, and then
  with the payload stored for it last.\<close>

theorem retransmit_store_window:
  assumes "\<forall>p\<in>set ps. p \<noteq> []"
  shows "retx_Get q (store_all s ps retx_empty) =
     (let d = unat (s + of_nat (length ps) - 1 - q)
      in if d < length ps \<and> d < 512 then Some (ps ! (length ps - 1 - d)) else None)"
  using assms
proof (induction ps rule: rev_induct)
  case Nil
  show ?case by (simp add: retx_Get_empty Let_def)
next
  case (snoc p ps)
  let ?rb = "store_all s ps retx_empty" and ?q = "s + of_nat (length ps)"
  have len: "length ?rb = retxBufSize" by (simp add: retx_empty_def)
  have get: "retx_Get q (store_all s (ps @ [p]) retx_empty) =
    (if q = ?q then Some p else if unat (?q - q) mod 512 = 0 then None else retx_Get q ?rb)"
    using snoc.prems retx_Get_Store [OF len, of q ?q p]
    by (simp add: store_all_append mod512_eq_iff)
  have d: "s + of_nat (length (ps @ [p])) - 1 - q = ?q - q" by simp
  have IH: "retx_Get q ?rb = (let d = unat (?q - 1 - q)
      in if d < length ps \<and> d < 512 then Some (ps ! (length ps - 1 - d)) else None)"
    using snoc by simp
  show ?case
  proof (cases "q = ?q")
    case True
    then show ?thesis unfolding get d by (simp add: Let_def)
  next
    case False
    then have nz: "?q - q \<noteq> 0" by simp
    then obtain m where m: "unat (?q - q) = Suc m" by (metis not0_implies_Suc unat_eq_zero)
    have "unat (?q - q - 1) = m" using m nz by (simp add: unat_minus_one)
    then have m': "unat (?q - 1 - q) = m" by (simp add: algebra_simps)
    show ?thesis
      unfolding get d IH m m' Let_def using False
      by (auto simp: nth_append Suc_diff_le mod_Suc split: if_splits)
  qed
qed

section \<open>The tracker's gaps are the missing packets\<close>

text \<open>Positions below \<open>2^16\<close> after a first number \<open>s0\<close>, as sequence numbers.\<close>

definition sq :: "u16 \<Rightarrow> nat \<Rightarrow> u16" where
  "sq s0 i = s0 + of_nat i"

lemma sq_inj: "i < 65536 \<Longrightarrow> j < 65536 \<Longrightarrow> sq s0 i = sq s0 j \<longleftrightarrow> i = j"
  by (simp add: sq_def word_of_nat_eq_iff take_bit_eq_mod)

lemma unat_u16_bound: "unat (q :: u16) < 65536"
proof -
  have "unat q < 2 ^ LENGTH(16)" by (rule unsigned_less)
  then show ?thesis by simp
qed

lemma sq_surj: "\<exists>i<65536. q = sq s0 i"
proof -
  have "unat (q - s0) < 65536" by (rule unat_u16_bound)
  then show ?thesis by (intro exI [of _ "unat (q - s0)"]) (simp add: sq_def)
qed

lemma unat_sq_diff:
  "n \<le> m \<Longrightarrow> m < 65536 \<Longrightarrow> unat (sq s0 m - sq s0 n) = m - n"
  "m < n \<Longrightarrow> n < 65536 \<Longrightarrow> unat (sq s0 m - sq s0 n) = 65536 + m - n"
proof -
  have e: "sq s0 m - sq s0 n = of_int (int m - int n)" by (simp add: sq_def)
  have u: "int (unat (sq s0 m - sq s0 n)) = (int m - int n) mod 65536" 
    unfolding e by (simp only: uint_nat [symmetric]) (simp only: uint_word_of_int, simp)
  show "unat (sq s0 m - sq s0 n) = m - n" if "n \<le> m" "m < 65536"
  proof -
    have "(int m - int n) mod 65536 = int m - int n" using that by (intro mod_pos_pos_trivial) auto
    then show ?thesis using u that by linarith
  qed
  show "unat (sq s0 m - sq s0 n) = 65536 + m - n" if "m < n" "n < 65536"
  proof -
    have "(int m - int n) mod 65536 = (int m - int n + 65536) mod 65536" by simp
    also have "\<dots> = int m - int n + 65536" using that by (intro mod_pos_pos_trivial) auto
    finally show ?thesis using u that by linarith
  qed
qed

lemma seqAfter_sq:
  assumes "i < 32768" "n \<le> 32768"
  shows "seqAfter (sq s0 i) (sq s0 n) \<longleftrightarrow> n < i"
proof -
  have "sq s0 i - sq s0 n = of_int (int i - int n)" by (simp add: sq_def)
  then have "sint (sq s0 i - sq s0 n) = signed_take_bit 15 (int i - int n)"
    by (simp only: sint_sbintrunc') simp
  also have "\<dots> = int i - int n" using assms by (intro signed_take_bit_int_eq_self) auto
  finally show ?thesis by (simp add: seqAfter_def)
qed

lemma add_gaps_apply:
  "add_gaps now rcv s q gs t =
    (if unat (t - s) < unat (q - s) \<and> \<not> rcv t \<and> gs t = None then Some \<lparr>detected = now, lastNack = 0, nacked = False\<rparr> else gs t)"
proof (induction now rcv s q gs rule: add_gaps.induct)
  case (1 now rcv s q gs)
  show ?case
  proof (cases "s = q")
    case True
    then show ?thesis by (subst add_gaps.simps) simp
  next
    case False
    then have q: "unat (q - (s + 1)) + 1 = unat (q - s)"
      using unat_minus_one [of "q - s"] unat_gt_0 [of "q - s"] by (simp add: algebra_simps)
    show ?thesis
    proof (cases "t = s")
      case True
      have "unat (t - (s + 1)) = 65535"
      proof -
        have t: "t - (s + 1) = 65535" using True by simp
        show ?thesis unfolding t by simp
      qed
      moreover have "unat (q - s) \<le> 65535" using unat_u16_bound [of "q - s"] by simp
      ultimately have "\<not> unat (t - (s + 1)) < unat (q - (s + 1))" using q by linarith
      then show ?thesis using False True q 1 [OF False] by (subst add_gaps.simps) auto
    next
      case ts: False
      then have "unat (t - (s + 1)) + 1 = unat (t - s)"
        using unat_minus_one [of "t - s"] unat_gt_0 [of "t - s"] by (simp add: algebra_simps)
      then have "unat (t - (s + 1)) < unat (q - (s + 1)) \<longleftrightarrow> unat (t - s) < unat (q - s)" using q by linarith
      then show ?thesis using False ts 1 [OF False] by (subst add_gaps.simps) auto
    qed
  qed
qed

text \<open>What is known of the packets at and above position \<open>n\<close>.\<close>

definition ahead_ok :: "u16 \<Rightarrow> nat set \<Rightarrow> nat \<Rightarrow> NACKTracker \<Rightarrow> bool" where
  "ahead_ok s0 A n nt \<longleftrightarrow> nextExpect nt = sq s0 n \<and> n \<le> 32768
     \<and> (\<forall>i. n \<le> i \<and> i < 65536 \<longrightarrow> nt_received nt (sq s0 i) = (i \<in> A))"

lemma advance_ok:
  assumes "ahead_ok s0 A n nt" "A \<subseteq> {..<32768}"
  shows "\<exists>n'\<ge>n. ahead_ok s0 A n' (advance nt) \<and> n' \<notin> A \<and> {n..<n'} \<subseteq> A
    \<and> gaps (advance nt) = gaps nt \<and> nt_initialized (advance nt) = nt_initialized nt"
  using assms
proof (induction "32768 - n" arbitrary: n nt rule: less_induct)
  case less
  have n: "nextExpect nt = sq s0 n" "n \<le> 32768" and rcv: "\<And>i. n \<le> i \<Longrightarrow> i < 65536 \<Longrightarrow> nt_received nt (sq s0 i) = (i \<in> A)"
    using less.prems by (auto simp: ahead_ok_def)
  show ?case
  proof (cases "n \<in> A")
    case False
    then have "advance nt = nt" using rcv [of n] n by (subst advance.simps) simp
    then show ?thesis using False less.prems by (intro exI [of _ n]) auto
  next
    case True
    let ?nt = "nt\<lparr>nt_received := (nt_received nt)(nextExpect nt := False), nextExpect := nextExpect nt + 1\<rparr>"
    have lt: "n < 32768" using True less.prems(2) by auto
    have adv: "advance nt = advance ?nt" using rcv [of n] n True by (subst advance.simps) simp
    have "ahead_ok s0 A (Suc n) ?nt"
      using n lt rcv by (auto simp: ahead_ok_def sq_inj) (simp add: sq_def)
    with less.hyps [OF _ this less.prems(2)] lt obtain n' where n':
      "Suc n \<le> n'" "ahead_ok s0 A n' (advance ?nt)" "n' \<notin> A" "{Suc n..<n'} \<subseteq> A"
      "gaps (advance ?nt) = gaps ?nt" "nt_initialized (advance ?nt) = nt_initialized ?nt"
      by (metis diff_less_mono2 lessI)
    moreover have "{n..<n'} \<subseteq> insert n {Suc n..<n'}" by auto
    ultimately show ?thesis unfolding adv using True by (intro exI [of _ n']) auto
  qed
qed

datatype nack_event = Arrived nat int | Recovered nat

fun nack_position :: "nack_event \<Rightarrow> nat" where
  "nack_position (Arrived i now) = i"
| "nack_position (Recovered i) = i"

fun nack_step :: "u16 \<Rightarrow> nack_event \<Rightarrow> NACKTracker \<Rightarrow> NACKTracker" where
  "nack_step s0 (Arrived i now) nt = Record (sq s0 i) now nt"
| "nack_step s0 (Recovered i) nt = Resolve (sq s0 i) nt"

definition arrived_positions :: "nack_event list \<Rightarrow> nat set" where
  "arrived_positions evs = {i. \<exists>now. Arrived i now \<in> set evs}"

definition missing_at :: "nat \<Rightarrow> nack_event list \<Rightarrow> nat set" where
  "missing_at k evs = {i. k < i \<and> i \<notin> nack_position ` set evs \<and> (\<exists>j\<in>arrived_positions evs. i < j)}"

definition tracker_ok :: "u16 \<Rightarrow> nat \<Rightarrow> nack_event list \<Rightarrow> NACKTracker \<Rightarrow> bool" where
  "tracker_ok s0 k evs nt \<longleftrightarrow> nt_initialized nt
     \<and> (\<exists>n>k. ahead_ok s0 (nack_position ` set evs) n nt \<and> n \<notin> nack_position ` set evs \<and> {k<..<n} \<subseteq> nack_position ` set evs)
     \<and> (\<forall>i<65536. (gaps nt (sq s0 i) \<noteq> None) = (i \<in> missing_at k evs))"

lemma ahead_ok_receive:
  assumes "ahead_ok s0 A n nt" "i < 65536"
  shows "ahead_ok s0 (insert i A) n (nt\<lparr>gaps := gs, nt_received := (nt_received nt)(sq s0 i := True)\<rparr>)"
  using assms by (auto simp: ahead_ok_def sq_inj)

lemma tracker_ok_step:
  assumes ok: "tracker_ok s0 k evs nt" and ev: "nack_position ev < 32768" and evs: "nack_position ` set evs \<subseteq> {..<32768}"
  shows "tracker_ok s0 k (evs @ [ev]) (nack_step s0 ev nt)"
proof -
  let ?A = "nack_position ` set evs" and ?i = "nack_position ev"
  obtain n where n: "k < n" "ahead_ok s0 ?A n nt" "n \<notin> ?A" "{k<..<n} \<subseteq> ?A"
    and init: "nt_initialized nt" and g: "\<And>i. i < 65536 \<Longrightarrow> (gaps nt (sq s0 i) \<noteq> None) = (i \<in> missing_at k evs)"
    using ok by (auto simp: tracker_ok_def)
  have ne: "nextExpect nt = sq s0 n" and nle: "n \<le> 32768"
    and rcv: "\<And>i. n \<le> i \<Longrightarrow> i < 65536 \<Longrightarrow> nt_received nt (sq s0 i) = (i \<in> ?A)"
    using n(2) by (auto simp: ahead_ok_def)
  have fin: "tracker_ok s0 k (evs @ [ev]) (advance (nt\<lparr>gaps := gs, nt_received := (nt_received nt)(sq s0 ?i := True)\<rparr>))"
    if gs: "\<And>i. i < 65536 \<Longrightarrow> (gs (sq s0 i) \<noteq> None) = (i \<in> missing_at k (evs @ [ev]))" for gs
  proof -
    let ?nt = "nt\<lparr>gaps := gs, nt_received := (nt_received nt)(sq s0 ?i := True)\<rparr>"
    have "ahead_ok s0 (insert ?i ?A) n ?nt" using ev by (intro ahead_ok_receive n(2)) simp
    moreover have "insert ?i ?A \<subseteq> {..<32768}" using ev evs by auto
    ultimately obtain n' where n': "n \<le> n'" "ahead_ok s0 (insert ?i ?A) n' (advance ?nt)" "n' \<notin> insert ?i ?A"
      "{n..<n'} \<subseteq> insert ?i ?A" "gaps (advance ?nt) = gs" "nt_initialized (advance ?nt)"
      using advance_ok [of s0 "insert ?i ?A" n ?nt] init by auto
    moreover have "{k<..<n'} \<subseteq> {k<..<n} \<union> {n..<n'}" by auto
    moreover have "nack_position ` set (evs @ [ev]) = insert ?i ?A" by auto
    ultimately show ?thesis using n(1,4) gs unfolding tracker_ok_def by (auto intro!: exI [of _ n'])
  qed
  show ?thesis
  proof (cases ev)
    case (Recovered i)
    have "missing_at k (evs @ [ev]) = missing_at k evs - {i}"
      using Recovered by (auto simp: missing_at_def arrived_positions_def)
    then have "tracker_ok s0 k (evs @ [ev]) (advance (nt\<lparr>gaps := (gaps nt)(sq s0 i := None), nt_received := (nt_received nt)(sq s0 ?i := True)\<rparr>))"
      using g ev Recovered by (intro fin) (auto simp: sq_inj)
    then show ?thesis using Recovered by (simp add: Resolve_def)
  next
    case (Arrived i now)
    have i: "i < 32768" using ev Arrived by simp
    define gs where "gs = (if seqAfter (sq s0 i) (nextExpect nt)
      then add_gaps now ((nt_received nt)(sq s0 i := True)) (nextExpect nt) (sq s0 i) ((gaps nt)(sq s0 i := None))
      else (gaps nt)(sq s0 i := None))"
    have miss: "missing_at k (evs @ [ev]) = (missing_at k evs - {i}) \<union> {m. k < m \<and> m < i \<and> m \<notin> ?A}"
      using Arrived by (auto simp: missing_at_def arrived_positions_def)
    have "(gs (sq s0 m) \<noteq> None) = (m \<in> missing_at k (evs @ [ev]))" if m: "m < 65536" for m
    proof (cases "n < i")
      case True
      have u: "unat (sq s0 m - sq s0 n) < unat (sq s0 i - sq s0 n) \<longleftrightarrow> n \<le> m \<and> m < i"
        using True m i nle by (cases "n \<le> m") (auto simp: unat_sq_diff)
      show ?thesis
        using True i m nle g [OF m] rcv [of m] n(1,4)
        by (auto simp: gs_def ne seqAfter_sq add_gaps_apply u sq_inj miss) (force simp: subset_iff)+
    next
      case False
      have "{m. k < m \<and> m < i \<and> m \<notin> ?A} = {}" using False n(4) by (auto simp: subset_iff)
      then show ?thesis using False i m nle g [OF m] by (auto simp: gs_def ne seqAfter_sq sq_inj miss)
    qed
    from fin [OF this] show ?thesis using Arrived init by (simp add: Record_def gs_def Let_def split del: if_split)
  qed
qed

lemma tracker_ok_run:
  assumes "tracker_ok s0 k evs nt" "nack_position ` set (evs @ evs') \<subseteq> {..<32768}"
  shows "tracker_ok s0 k (evs @ evs') (fold (nack_step s0) evs' nt)"
  using assms
proof (induction evs' arbitrary: evs nt)
  case (Cons e evs')
  have "tracker_ok s0 k (evs @ [e]) (nack_step s0 e nt)" using Cons.prems by (intro tracker_ok_step) auto
  then show ?case using Cons.IH [of "evs @ [e]"] Cons.prems by simp
qed simp

text \<open>C23: A tracker that saw its first packet at position \<open>k\<close>, and then any sequence of arrivals and of recoveries of
  packets within \<open>2^15\<close> positions, in any order and with repetitions, records as gaps exactly the packets after the
  first one that have not come and that some arrived packet has overtaken; wrap-around of the 16-bit numbers included.\<close>

theorem nack_gaps_exact:
  assumes "k < 2 ^ 15" "\<forall>e\<in>set evs. nack_position e < 2 ^ 15" "i < 2 ^ 16"
  shows "gaps (fold (nack_step s0) evs (Record (sq s0 k) now NewNACKTracker)) (sq s0 i) \<noteq> None
    \<longleftrightarrow> k < i \<and> i \<notin> nack_position ` set evs \<and> (\<exists>j\<in>arrived_positions evs. i < j)"
proof -
  have "tracker_ok s0 k [] (Record (sq s0 k) now NewNACKTracker)"
    using assms(1) unfolding tracker_ok_def ahead_ok_def
    by (auto simp: Record_def NewNACKTracker_def missing_at_def arrived_positions_def intro!: exI [of _ "Suc k"])
      (simp add: sq_def)
  from tracker_ok_run [OF this, of evs]
  have "tracker_ok s0 k evs (fold (nack_step s0) evs (Record (sq s0 k) now NewNACKTracker))"
    using assms(2) by auto
  then show ?thesis using assms(3) by (auto simp: tracker_ok_def missing_at_def)
qed

theorem nack_gaps_exact_witness:
  "gaps (fold (nack_step 65534) [Arrived 4 10, Recovered 2] (Record (sq 65534 0) 5 NewNACKTracker)) (sq 65534 3) \<noteq> None
   \<and> gaps (fold (nack_step 65534) [Arrived 4 10, Recovered 2] (Record (sq 65534 0) 5 NewNACKTracker)) (sq 65534 2) = None"
proof -
  let ?evs = "[Arrived 4 10, Recovered 2]"
  have h: "(0::nat) < 2 ^ 15" "\<forall>e\<in>set ?evs. nack_position e < 2 ^ 15" "(3::nat) < 2 ^ 16" "(2::nat) < 2 ^ 16" by simp_all
  show ?thesis
    using nack_gaps_exact [OF h(1,2,3), of 65534 5] nack_gaps_exact [OF h(1,2,4), of 65534 5]
    by (auto simp: arrived_positions_def)
qed

section \<open>Requests\<close>

definition due_at :: "int \<Rightarrow> NACKTracker \<Rightarrow> u16 \<Rightarrow> bool" where
  "due_at now nt s = (case gaps nt s of None \<Rightarrow> False | Some ge \<Rightarrow> nack_due now ge)"

lemma get_nacks_closed:
  assumes "distinct order" "length acc < maxNACKSeqs"
  shows "get_nacks now order acc nt =
     (let rs = take (maxNACKSeqs - length acc) (filter (due_at now nt) order)
      in (nt\<lparr>gaps := (\<lambda>s. if s \<in> set rs then map_option (\<lambda>ge. ge\<lparr>nacked := True, lastNack := now\<rparr>) (gaps nt s) else gaps nt s)\<rparr>,
          acc @ rs))"
  using assms
proof (induction order arbitrary: acc nt)
  case (Cons s order)
  show ?case
  proof (cases "due_at now nt s")
    case False
    then show ?thesis using Cons
      by (auto simp: due_at_def Let_def split: option.splits)
  next
    case True
    then obtain ge where ge: "gaps nt s = Some ge" "nack_due now ge" by (auto simp: due_at_def split: option.splits)
    let ?nt = "nt\<lparr>gaps := (gaps nt)(s \<mapsto> ge\<lparr>nacked := True, lastNack := now\<rparr>)\<rparr>"
    have f: "filter (due_at now ?nt) order = filter (due_at now nt) order"
      using Cons.prems(1) by (intro filter_cong) (auto simp: due_at_def)
    obtain m where m: "maxNACKSeqs - length acc = Suc m" using Cons.prems(2) by (metis Suc_diff_Suc)
    show ?thesis
    proof (cases "m = 0")
      case True
      then show ?thesis using ge m \<open>due_at now nt s\<close>
        by (auto simp: Let_def fun_eq_iff intro!: arg_cong [where f = "\<lambda>g. nt\<lparr>gaps := g\<rparr>"])
    next
      case False
      then have l: "length (acc @ [s]) < maxNACKSeqs" "maxNACKSeqs - length (acc @ [s]) = m" using m by simp_all
      have s: "s \<notin> set (take m (filter (due_at now nt) order))" using Cons.prems(1) by (auto dest: in_set_takeD)
      show ?thesis using Cons.IH [OF _ l(1), of ?nt] Cons.prems(1) ge m l s \<open>due_at now nt s\<close>
        by (auto simp: Let_def f fun_eq_iff intro!: arg_cong [where f = "\<lambda>g. nt\<lparr>gaps := g\<rparr>"])
    qed
  qed
qed simp

text \<open>Whatever the order in which the gap map is ranged over, a call of \<^verbatim>\<open>GetNACKs\<close> returns the gaps that are due
  (30 ms after their detection for a first request, 100 ms after the last request otherwise) in that order, each once,
  and the first 32 of them if there are more; exactly these are marked as requested now, so that none of them is due
  again for 100 ms, and no gap is forgotten.\<close>

theorem nack_requests:
  assumes "distinct order" "set order = dom (gaps nt)"
  shows "snd (GetNACKs now order nt) = take 32 (filter (due_at now nt) order)
    \<and> dom (gaps (fst (GetNACKs now order nt))) = dom (gaps nt)
    \<and> (\<forall>s\<in>set (snd (GetNACKs now order nt)). \<forall>now'. due_at now' (fst (GetNACKs now order nt)) s = (now' - now \<ge> nackRetry))
    \<and> (\<forall>s. s \<notin> set (snd (GetNACKs now order nt)) \<longrightarrow> gaps (fst (GetNACKs now order nt)) s = gaps nt s)"
proof -
  have c: "GetNACKs now order nt = (let rs = take 32 (filter (due_at now nt) order)
      in (nt\<lparr>gaps := (\<lambda>s. if s \<in> set rs then map_option (\<lambda>ge. ge\<lparr>nacked := True, lastNack := now\<rparr>) (gaps nt s) else gaps nt s)\<rparr>, rs))"
    using get_nacks_closed [OF assms(1), of "[]" now nt] by (simp add: GetNACKs_def maxNACKSeqs_def)
  define rs where "rs = take 32 (filter (due_at now nt) order)"
  have due: "due_at now nt s" if "s \<in> set rs" for s
    using that unfolding rs_def by (auto dest: in_set_takeD)
  define nt' where "nt' = nt\<lparr>gaps := (\<lambda>s. if s \<in> set rs then map_option (\<lambda>ge. ge\<lparr>nacked := True, lastNack := now\<rparr>) (gaps nt s) else gaps nt s)\<rparr>"
  have c': "GetNACKs now order nt = (nt', rs)" using c by (simp add: rs_def nt'_def Let_def)
  have "dom (gaps nt') = dom (gaps nt)" by (auto simp: nt'_def dom_def)
  moreover have "due_at now' nt' s = (now' - now \<ge> nackRetry)" if "s \<in> set rs" for s now'
    using due [OF that] that by (simp add: nt'_def due_at_def nack_due_def split: option.splits)
  moreover have "gaps nt' s = gaps nt s" if "s \<notin> set rs" for s using that by (simp add: nt'_def)
  ultimately show ?thesis unfolding c' by (simp add: rs_def)
qed

end
