(* ===== verification/Rtp_Frame.thy ===== *)
theory Rtp_Frame
  imports Nack
begin

text \<open>
  How the Telemost transport hides packets in VP8 key frames (\<^verbatim>\<open>internal/provider/telemost/rtpconn.go\<close>): building and
  parsing a frame, the XOR mask over everything after the ten bytes of VP8 header, and the RTP payload descriptor in
  front of a frame.
\<close>

section \<open>Model\<close>

definition vpnMagic :: bytes where "vpnMagic = [0xCA, 0x11, 0xDA, 0x7A]"
definition vp8Width :: u32 where "vp8Width = 320"
definition vp8Height :: u32 where "vp8Height = 240"
definition vp8HeaderLen :: nat where "vp8HeaderLen = 10"

definition obfuscateVP8Payload :: "bytes \<Rightarrow> bytes \<Rightarrow> bytes" where
  "obfuscateVP8Payload key buf =
     map (\<lambda>i. if i < vp8HeaderLen then buf ! i else buf ! i XOR key ! ((i - vp8HeaderLen) mod 32)) [0..<length buf]"

definition minFrameSize :: nat where "minFrameSize = 1024"

definition vp8_header :: "nat \<Rightarrow> bytes" where
  "vp8_header n =
     (let partLen = of_nat (3 + 4 + 4 + 2 + n) :: u32
      in [0x10 OR ucast (push_bit 5 (partLen AND 7)), ucast (drop_bit 3 partLen AND 0xFF), ucast (drop_bit 11 partLen AND 0xFF),
          0x9d, 0x01, 0x2a,
          ucast (vp8Width AND 0xFF), ucast (drop_bit 8 vp8Width AND 0x3F),
          ucast (vp8Height AND 0xFF), ucast (drop_bit 8 vp8Height AND 0x3F)])"

definition buildVP8Frame :: "bytes \<Rightarrow> bytes \<Rightarrow> bytes" where
  "buildVP8Frame data key =
     (let totalPayload = 4 + 2 + length data;
          padLen = (if totalPayload < minFrameSize - 10 then minFrameSize - 10 - totalPayload else 0);
          buf = vp8_header (length data) @ vpnMagic @ PutUint16 (of_nat (length data)) @ data @ replicate padLen 0
      in obfuscateVP8Payload key buf)"

text \<open>The parser unmasks its argument in place, so it returns the buffer as well.\<close>

definition extractVP8Data :: "bytes \<Rightarrow> bytes \<Rightarrow> bytes \<times> bytes option" where
  "extractVP8Data vp8 key =
     (if length vp8 < 3 + 3 + 4 + 4 + 2 then (vp8, None)
      else if vp8 ! 0 AND 1 \<noteq> 0 then (vp8, None)
      else if vp8 ! 3 \<noteq> 0x9d \<or> vp8 ! 4 \<noteq> 0x01 \<or> vp8 ! 5 \<noteq> 0x2a then (vp8, None)
      else
        let buf = obfuscateVP8Payload key vp8;
            magicOffset = 3 + 3 + 4
        in if bslice magicOffset (magicOffset + 4) buf \<noteq> vpnMagic then (buf, None)
           else
             let lenOffset = magicOffset + 4;
                 dataLen = unat (Uint16 (drop lenOffset buf));
                 dataOffset = lenOffset + 2
             in if dataOffset + dataLen > length buf then (buf, None)
                else (buf, Some (bslice dataOffset (dataOffset + dataLen) buf)))"

definition stripVP8Descriptor :: "bytes \<Rightarrow> bytes option" where
  "stripVP8Descriptor payload =
     (let finish = (\<lambda>offset. if offset \<ge> length payload then None else Some (drop offset payload))
      in if length payload < 1 then None
         else if payload ! 0 AND 0x80 = 0 then finish 1
         else if 1 \<ge> length payload then None
         else
           let ext = payload ! 1
           in if ext AND 0x80 \<noteq> 0 \<and> 2 \<ge> length payload then None
              else
                let o1 = 2 + (if ext AND 0x80 \<noteq> 0 then (if payload ! 2 AND 0x80 \<noteq> 0 then 2 else 1) else 0);
                    o2 = o1 + (if ext AND 0x40 \<noteq> 0 then 1 else 0);
                    o3 = o2 + (if ext AND 0x20 \<noteq> 0 then 1 else 0)
                in finish o3)"

section \<open>Masking\<close>

lemma xor_cancel: "(a :: byte) XOR b XOR c = a \<Longrightarrow> b = c"
proof -
  assume e: "a XOR b XOR c = a"
  have "b XOR c = a XOR (a XOR b XOR c)" by (simp only: xor.assoc [symmetric] xor_self_eq xor.left_neutral)
  then have z: "b XOR c = 0" by (simp only: e xor_self_eq)
  have "b = (b XOR c) XOR c" by (simp only: xor.assoc xor_self_eq xor.right_neutral)
  then show ?thesis by (simp only: z xor.left_neutral)
qed

lemma length_obfuscate [simp]: "length (obfuscateVP8Payload key buf) = length buf"
  by (simp add: obfuscateVP8Payload_def)

lemma nth_obfuscate:
  "i < length buf \<Longrightarrow> obfuscateVP8Payload key buf ! i =
     (if i < 10 then buf ! i else buf ! i XOR key ! ((i - 10) mod 32))"
  by (simp add: obfuscateVP8Payload_def vp8HeaderLen_def)

lemma obfuscate_involution: "obfuscateVP8Payload key (obfuscateVP8Payload key buf) = buf"
  by (auto intro!: nth_equalityI simp: nth_obfuscate xor.assoc)

lemma length_vp8_header [simp]: "length (vp8_header n) = 10"
  by (simp add: vp8_header_def Let_def)

lemma tag0_even: "(0x10 OR ucast (push_bit 5 (p AND 7 :: u32)) :: byte) AND 1 = 0"
  by (rule bit_word_eqI) (auto simp: bit_simps)

lemma vp8_header_nth:
  "vp8_header n ! 0 AND 1 = 0" "vp8_header n ! 3 = 0x9d" "vp8_header n ! 4 = 0x01" "vp8_header n ! 5 = 0x2a"
  using tag0_even by (simp_all add: vp8_header_def Let_def)

text \<open>The unmasked frame, and how the parser reads it under a possibly different key.\<close>

definition vp8_plain :: "bytes \<Rightarrow> bytes" where
  "vp8_plain data = vp8_header (length data) @ vpnMagic @ PutUint16 (of_nat (length data)) @ data @
     replicate (if 6 + length data < 1014 then 1014 - (6 + length data) else 0) 0"

lemma buildVP8Frame_alt: "buildVP8Frame data key = obfuscateVP8Payload key (vp8_plain data)"
  by (simp add: buildVP8Frame_def vp8_plain_def Let_def minFrameSize_def)

lemma length_vp8_plain: "length (vp8_plain data) = max 1024 (16 + length data)"
  by (simp add: vp8_plain_def vpnMagic_def)

lemma vp8_plain_nth:
  "vp8_plain data ! 0 AND 1 = 0" "vp8_plain data ! 3 = 0x9d" "vp8_plain data ! 4 = 0x01" "vp8_plain data ! 5 = 0x2a"
  by (simp_all add: vp8_plain_def nth_append vp8_header_nth)

lemma extractVP8Data_build:
  "extractVP8Data (buildVP8Frame data key) key' =
     (let buf = obfuscateVP8Payload key' (buildVP8Frame data key)
      in if bslice 10 14 buf \<noteq> vpnMagic then (buf, None)
         else let dataLen = unat (Uint16 (drop 14 buf))
              in if 16 + dataLen > length buf then (buf, None) else (buf, Some (bslice 16 (16 + dataLen) buf)))"
proof -
  have l: "length (buildVP8Frame data key) = max 1024 (16 + length data)" by (simp add: buildVP8Frame_alt length_vp8_plain)
  have h: "buildVP8Frame data key ! i = vp8_plain data ! i" if "i < 10" for i
    unfolding buildVP8Frame_alt using that by (simp add: nth_obfuscate length_vp8_plain)
  show ?thesis unfolding extractVP8Data_def using l h [of 0] h [of 3] h [of 4] h [of 5] vp8_plain_nth [of data]
    by (simp add: Let_def)
qed

lemma vp8_plain_magic: "bslice 10 14 (vp8_plain data) = vpnMagic"
  by (simp add: vp8_plain_def bslice_append_right) (simp add: bslice_def vpnMagic_def)

lemma vp8_extract_build:
  assumes "length data < 2 ^ 16" "length key = 32"
  shows "snd (extractVP8Data (buildVP8Frame data key) key) = Some data"
proof -
  have inv: "obfuscateVP8Payload key (buildVP8Frame data key) = vp8_plain data"
    by (simp add: buildVP8Frame_alt obfuscate_involution)
  have d: "drop 14 (vp8_plain data) = PutUint16 (of_nat (length data)) @ data @
     replicate (if 6 + length data < 1014 then 1014 - (6 + length data) else 0) 0"
    by (simp add: vp8_plain_def vpnMagic_def)
  have u: "unat (Uint16 (drop 14 (vp8_plain data))) = length data"
    unfolding d using assms(1) by (simp add: unat_of_nat)
  have b: "bslice 16 (16 + length data) (vp8_plain data) = data"
    by (simp add: bslice_def vp8_plain_def vpnMagic_def)
  show ?thesis
    unfolding extractVP8Data_build inv Let_def u using vp8_plain_magic b length_vp8_plain [of data] by simp
qed

text \<open>A frame built from a packet of less than 64 KiB is parsed back to exactly that packet under the same 32-byte
  key, and it is at least 1024 bytes long; under a key that differs in one of its first four bytes it is rejected.\<close>

theorem vp8_frame_roundtrip:
  assumes "length data < 2 ^ 16" "length key = 32" "length key' = 32"
  shows "snd (extractVP8Data (buildVP8Frame data key) key) = Some data
    \<and> length (buildVP8Frame data key) = max 1024 (16 + length data)
    \<and> (take 4 key \<noteq> take 4 key' \<longrightarrow> snd (extractVP8Data (buildVP8Frame data key) key') = None)"
proof (intro conjI impI)
  show "snd (extractVP8Data (buildVP8Frame data key) key) = Some data" by (rule vp8_extract_build [OF assms(1,2)])
  show "length (buildVP8Frame data key) = max 1024 (16 + length data)"
    by (simp add: buildVP8Frame_alt length_vp8_plain)
  assume ne: "take 4 key \<noteq> take 4 key'"
  let ?buf = "obfuscateVP8Payload key' (buildVP8Frame data key)"
  have "bslice 10 14 ?buf \<noteq> vpnMagic"
  proof
    assume eq: "bslice 10 14 ?buf = vpnMagic"
    have "key ! i = key' ! i" if i: "i < 4" for i
    proof -
      have L: "10 + i < length (vp8_plain data)" using i by (simp add: length_vp8_plain)
      have "?buf ! (10 + i) = vpnMagic ! i"
        using arg_cong [OF eq, of "\<lambda>l. l ! i"] i L by (simp add: bslice_def buildVP8Frame_alt)
      moreover have "?buf ! (10 + i) = vp8_plain data ! (10 + i) XOR key ! i XOR key' ! i"
        using i L by (simp add: buildVP8Frame_alt nth_obfuscate xor.assoc)
      moreover have "vp8_plain data ! (10 + i) = vpnMagic ! i"
        using arg_cong [OF vp8_plain_magic [of data], of "\<lambda>l. l ! i"] i L by (simp add: bslice_def)
      ultimately show ?thesis using xor_cancel [of "vpnMagic ! i" "key ! i" "key' ! i"] by simp
    qed
    then have "take 4 key = take 4 key'" using assms(2,3) by (intro nth_equalityI) auto
    then show False using ne by simp
  qed
  then show "snd (extractVP8Data (buildVP8Frame data key) key') = None"
    unfolding extractVP8Data_build Let_def by simp
qed

section \<open>The RTP payload descriptor\<close>

text \<open>
  The descriptor of RFC 7741: a mandatory byte (its other bits in \<open>first\<close>), and, if any extension is present, a byte
  that announces a picture identifier of one or two bytes, a TL0PICIDX byte and a byte that holds TID, Y and KEYIDX,
  which is there when one of T and K is set.
\<close>

record vp8_descriptor =
  first_bits :: byte
  picture_id :: "bytes option"
  tl0picidx :: "byte option"
  tid_bit :: bool
  keyidx_bit :: bool
  tid_keyidx :: byte

definition has_extension :: "vp8_descriptor \<Rightarrow> bool" where
  "has_extension d \<longleftrightarrow> picture_id d \<noteq> None \<or> tl0picidx d \<noteq> None \<or> tid_bit d \<or> keyidx_bit d"

definition valid_picture_id :: "bytes \<Rightarrow> bool" where
  "valid_picture_id p \<longleftrightarrow> (\<exists>a. p = [a] \<and> a AND 0x80 = 0) \<or> (\<exists>a b. p = [a, b] \<and> a AND 0x80 = 0x80)"

definition rfc7741_descriptor :: "vp8_descriptor \<Rightarrow> bytes" where
  "rfc7741_descriptor d =
     (if has_extension d then
        [0x80 OR first_bits d,
         (if picture_id d \<noteq> None then 0x80 else 0) OR (if tl0picidx d \<noteq> None then 0x40 else 0)
           OR (if tid_bit d then 0x20 else 0) OR (if keyidx_bit d then 0x10 else 0)]
        @ (case picture_id d of None \<Rightarrow> [] | Some p \<Rightarrow> p)
        @ (case tl0picidx d of None \<Rightarrow> [] | Some b \<Rightarrow> [b])
        @ (if tid_bit d \<or> keyidx_bit d then [tid_keyidx d] else [])
      else [first_bits d AND 0x7F])"

lemma bit7_tests: "(0x80 OR b :: byte) AND 0x80 \<noteq> 0" "(b AND 0x7F :: byte) AND 0x80 = 0"
proof -
  have "bit ((0x80 OR b :: byte) AND 0x80) 7" by (simp add: bit_simps)
  then show "(0x80 OR b :: byte) AND 0x80 \<noteq> 0" by (metis bit_0_eq bot_apply bot_bool_def)
  have "(0x7F :: byte) AND 0x80 = 0" by simp
  then show "(b AND 0x7F :: byte) AND 0x80 = 0" by (simp add: and.assoc)
qed

text \<open>C40: Every payload that carries an RFC 7741 descriptor with a non-empty VP8 body is stripped to exactly that body,
  provided KEYIDX is not announced without TID.\<close>

theorem strip_descriptor_rfc7741:
  assumes "body \<noteq> []" "pred_option valid_picture_id (picture_id d)" "keyidx_bit d \<longrightarrow> tid_bit d"
  shows "stripVP8Descriptor (rfc7741_descriptor d @ body) = Some body"
proof (cases "has_extension d")
  case False
  then show ?thesis using assms(1) bit7_tests by (simp add: rfc7741_descriptor_def stripVP8Descriptor_def Let_def)
next
  case True
  obtain c cs where b: "body = c # cs" using assms(1) by (cases body) auto
  show ?thesis
    using True assms(2,3) bit7_tests
    by (cases "picture_id d"; cases "tl0picidx d"; cases "tid_bit d"; cases "keyidx_bit d")
      (auto simp: b rfc7741_descriptor_def stripVP8Descriptor_def Let_def valid_picture_id_def)
qed

theorem strip_descriptor_rfc7741_witness:
  "stripVP8Descriptor (rfc7741_descriptor \<lparr>first_bits = 0x10, picture_id = Some [0x81, 5], tl0picidx = Some 9,
     tid_bit = True, keyidx_bit = True, tid_keyidx = 3\<rparr> @ [7, 8]) = Some [7, 8]"
  by (rule strip_descriptor_rfc7741) (simp_all add: valid_picture_id_def)

text \<open>KEYIDX without TID: RFC 7741 has the extra byte, the code does not skip it and hands it on as the first byte of the body.\<close>

theorem strip_descriptor_keyidx_only:
  "stripVP8Descriptor (rfc7741_descriptor \<lparr>first_bits = 0x10, picture_id = None, tl0picidx = None,
     tid_bit = False, keyidx_bit = True, tid_keyidx = k\<rparr> @ body) = Some (k # body)"
  by (simp add: rfc7741_descriptor_def stripVP8Descriptor_def Let_def has_extension_def)

end
