(* ===== verification/Rtp_Conn.thy ===== *)
theory Rtp_Conn
  imports Rtp_Frame
begin

text \<open>
  The Telemost connection (\<^verbatim>\<open>internal/provider/telemost/rtpconn.go\<close>): messages are cut into chunks, every chunk becomes
  a numbered packet in a VP8 frame, parity packets follow; the receiver locks to one track, repairs losses, reassembles the chunks
  and delivers messages in order.  The goroutines of the code share the record \<open>RTPConn\<close>; every handler is a function
  on it.  The publisher's track is the argument \<open>ws\<close> (whether writing a frame succeeds) and the frames that were written
  are kept in \<open>pubTrack\<close>.  A channel is the list of what was sent and not yet taken; a full channel makes its
  sender wait, which the functions do not show.  Times are nanoseconds.
\<close>

section \<open>Constants and state\<close>

definition maxVP8Data :: nat where "maxVP8Data = 1100"
definition defaultPace :: int where "defaultPace = 5000000"
definition minPace :: int where "minPace = 2000000"
definition maxPace :: int where "maxPace = 10000000"
definition paceDecrease :: int where "paceDecrease = 500000"
definition nackRateThreshold :: int where "nackRateThreshold = 3"
definition reassemblyTimeout :: int where "reassemblyTimeout = 3000000000"

definition pktDATA :: byte where "pktDATA = 0x01"
definition pktFEC :: byte where "pktFEC = 0x02"
definition pktNACK :: byte where "pktNACK = 0x03"
definition pktRETX :: byte where "pktRETX = 0x04"

text \<open>A chunk that has not come is nil, a chunk without data is an empty slice.\<close>

record reassemblyBuf =
  chunks :: "bytes option list"
  rb_total :: nat
  rb_got :: nat

record RTPConn =
  pubTrack :: "bytes list"
  obfKey :: bytes
  rc_closed :: bool
  lockedSSRC :: u32
  seqNum :: u16
  lastWrite :: int
  nextPktSeq :: u16
  fecEncoder :: FECEncoder
  fecDecoder :: FECDecoder
  retxBuf :: RetransmitBuffer
  nackTrack :: NACKTracker
  rawPktCh :: "bytes list"
  readCh :: "bytes list"
  reassembly :: "u16 \<rightharpoonup> reassemblyBuf"
  nextReadSeq :: u16
  orderedCh :: "bytes list"
  stallCh :: "int option"
  resetReliabilityCh :: bool
  resetReassemblyCh :: bool
  validDataCh :: bool
  currentPace :: int
  nackRecv :: int
  writeCount :: int

text \<open>\<open>lastWrite\<close> is 0 for the zero time, so long ago that it never delays a write.\<close>

definition NewRTPConn :: "bytes \<Rightarrow> RTPConn" where
  "NewRTPConn key =
     \<lparr>pubTrack = [], obfKey = key, rc_closed = False, lockedSSRC = 0, seqNum = 0, lastWrite = 0, nextPktSeq = 0,
      fecEncoder = NewFECEncoder, fecDecoder = NewFECDecoder, retxBuf = retx_empty, nackTrack = NewNACKTracker,
      rawPktCh = [], readCh = [], reassembly = (\<lambda>_. None), nextReadSeq = 0, orderedCh = [], stallCh = None,
      resetReliabilityCh = False, resetReassemblyCh = False, validDataCh = False,
      currentPace = defaultPace, nackRecv = 0, writeCount = 0\<rparr>"

definition SetObfKey :: "bytes \<Rightarrow> RTPConn \<Rightarrow> RTPConn" where
  "SetObfKey key c = c\<lparr>obfKey := key\<rparr>"

definition nextSeq_rtp :: "RTPConn \<Rightarrow> RTPConn \<times> u16" where
  "nextSeq_rtp c = (c\<lparr>seqNum := seqNum c + 1\<rparr>, seqNum c)"

definition nextPktSeqNum :: "RTPConn \<Rightarrow> RTPConn \<times> u16" where
  "nextPktSeqNum c = (c\<lparr>nextPktSeq := nextPktSeq c + 1\<rparr>, nextPktSeq c)"

definition incNextReadSeq :: "RTPConn \<Rightarrow> RTPConn" where
  "incNextReadSeq c = c\<lparr>nextReadSeq := nextReadSeq c + 1\<rparr>"

definition rtp_Close :: "RTPConn \<Rightarrow> RTPConn" where
  "rtp_Close c = c\<lparr>rc_closed := True\<rparr>"

section \<open>Keys\<close>

text \<open>The SHA-256 of the standard library is the argument \<open>sha256\<close>; \<open>dec\<close> prints an index in decimal.\<close>

definition defaultPassphrase :: string where
  "defaultPassphrase = ''call-vpn-default-obfuscation''"

definition DeriveObfuscationKey :: "(string \<Rightarrow> bytes) \<Rightarrow> string \<Rightarrow> bytes" where
  "DeriveObfuscationKey sha256 passphrase =
     (let p = (if passphrase = [] then defaultPassphrase else passphrase)
      in sha256 (p @ [CHR 0x00] @ ''obfuscate''))"

definition DeriveIndexedObfuscationKey :: "(string \<Rightarrow> bytes) \<Rightarrow> (int \<Rightarrow> string) \<Rightarrow> string \<Rightarrow> int \<Rightarrow> bytes" where
  "DeriveIndexedObfuscationKey sha256 dec passphrase index =
     (let p = (if passphrase = [] then defaultPassphrase else passphrase)
      in sha256 (p @ [CHR 0x00] @ ''obfuscate'' @ [CHR 0x00] @ dec index))"

definition DeriveSessionObfuscationKey :: "(string \<Rightarrow> bytes) \<Rightarrow> (int \<Rightarrow> string) \<Rightarrow> string \<Rightarrow> int \<Rightarrow> string \<Rightarrow> bytes" where
  "DeriveSessionObfuscationKey sha256 dec passphrase index nonce =
     (let p = (if passphrase = [] then defaultPassphrase else passphrase)
      in sha256 (p @ [CHR 0x00] @ ''obfuscate'' @ [CHR 0x00] @ dec index @ [CHR 0x00] @ nonce))"

section \<open>Sending\<close>

text \<open>The time at which a frame goes out: not earlier than one pace after the last one.\<close>

definition paced :: "int \<Rightarrow> RTPConn \<Rightarrow> int" where
  "paced now c = (let elapsed = now - lastWrite c
                  in if elapsed < currentPace c then now + (currentPace c - elapsed) else now)"

definition sendRawVP8 :: "(bytes \<Rightarrow> bool) \<Rightarrow> int \<Rightarrow> bytes \<Rightarrow> RTPConn \<Rightarrow> RTPConn \<times> bool" where
  "sendRawVP8 ws now payload c =
     (let frame = buildVP8Frame payload (obfKey c); ok = ws frame
      in (c\<lparr>pubTrack := (if ok then pubTrack c @ [frame] else pubTrack c),
             lastWrite := paced now c, writeCount := writeCount c + 1\<rparr>, ok))"

definition chunk_payload :: "u16 \<Rightarrow> nat \<Rightarrow> nat \<Rightarrow> bytes \<Rightarrow> bytes" where
  "chunk_payload seq i totalChunks chunk = PutUint16 seq @ [of_nat i, of_nat totalChunks] @ chunk"

definition data_packet :: "byte \<Rightarrow> u16 \<Rightarrow> bytes \<Rightarrow> bytes" where
  "data_packet ty pktSeq chunkPayload = [ty] @ PutUint16 pktSeq @ chunkPayload"

definition fec_packet :: "u16 \<Rightarrow> nat \<Rightarrow> bytes \<Rightarrow> bytes" where
  "fec_packet firstSeq count xorPayload = [pktFEC] @ PutUint16 firstSeq @ [of_nat fecStride, of_nat count] @ xorPayload"

text \<open>The body of the loop of \<^verbatim>\<open>Write\<close> for one chunk; \<open>False\<close> is a failed write.\<close>

definition send_chunk :: "(bytes \<Rightarrow> bool) \<Rightarrow> int \<Rightarrow> bytes \<Rightarrow> RTPConn \<Rightarrow> RTPConn \<times> bool" where
  "send_chunk ws now chunkPayload c =
     (let (c1, pktSeq) = nextPktSeqNum c;
          c2 = c1\<lparr>retxBuf := retx_Store pktSeq chunkPayload (retxBuf c1)\<rparr>;
          (c3, ok) = sendRawVP8 ws now (data_packet pktDATA pktSeq chunkPayload) c2
      in if \<not> ok then (c3, False)
         else case AddPacket pktSeq chunkPayload (fecEncoder c3) of
                (e, None) \<Rightarrow> (c3\<lparr>fecEncoder := e\<rparr>, True)
              | (e, Some (xorPayload, firstSeq, count)) \<Rightarrow>
                  (fst (sendRawVP8 ws now (fec_packet firstSeq count xorPayload) (c3\<lparr>fecEncoder := e\<rparr>)), True))"

fun write_chunks :: "(bytes \<Rightarrow> bool) \<Rightarrow> int \<Rightarrow> u16 \<Rightarrow> bytes \<Rightarrow> nat \<Rightarrow> nat list \<Rightarrow> RTPConn \<Rightarrow> RTPConn \<times> nat \<times> bool" where
  "write_chunks ws now seq p totalChunks [] c = (c, length p, True)"
| "write_chunks ws now seq p totalChunks (i # is) c =
     (let off = i * maxVP8Data;
          hi = (if off + maxVP8Data > length p then length p else off + maxVP8Data);
          (c', ok) = send_chunk ws now (chunk_payload seq i totalChunks (bslice off hi p)) c
      in if \<not> ok then (c', off, False) else write_chunks ws now seq p totalChunks is c')"

datatype rtp_error = ErrClosedPipe | ErrWriteSample | ErrEOF

definition rtp_Write :: "(bytes \<Rightarrow> bool) \<Rightarrow> int \<Rightarrow> bytes \<Rightarrow> RTPConn \<Rightarrow> RTPConn \<times> nat \<times> rtp_error option" where
  "rtp_Write ws now p c =
     (if rc_closed c then (c, 0, Some ErrClosedPipe)
      else
        let (c1, seq) = nextSeq_rtp c;
            totalChunks = (length p + maxVP8Data - 1) div maxVP8Data;
            (c2, n, ok) = write_chunks ws now seq p totalChunks [0..<totalChunks] c1
        in (c2, n, if ok then None else Some ErrWriteSample))"

section \<open>Reassembly\<close>

definition assembled :: "reassemblyBuf \<Rightarrow> bytes" where
  "assembled rb = concat (map (\<lambda>ch. case ch of None \<Rightarrow> [] | Some d \<Rightarrow> d) (chunks rb))"

definition rb_complete :: "reassemblyBuf option \<Rightarrow> bool" where
  "rb_complete o_rb = (case o_rb of None \<Rightarrow> False | Some rb \<Rightarrow> rb_got rb \<ge> rb_total rb)"

function deliverReady :: "RTPConn \<Rightarrow> RTPConn" where
  "deliverReady c =
     (if \<not> rb_complete (reassembly c (nextReadSeq c)) then c
      else
        let out = assembled (the (reassembly c (nextReadSeq c)));
            c1 = incNextReadSeq (c\<lparr>reassembly := (reassembly c)(nextReadSeq c := None)\<rparr>)
        in deliverReady (if out = [] then c1 else c1\<lparr>orderedCh := orderedCh c1 @ [out]\<rparr>))"
  by pat_completeness auto
termination
proof (relation "measure (\<lambda>c. card (dom (reassembly c)))", goal_cases)
  case (2 c out c1)
  have "dom (reassembly c1) = dom (reassembly c) - {nextReadSeq c}" using 2 by (auto simp: incNextReadSeq_def)
  moreover have "nextReadSeq c \<in> dom (reassembly c)" using 2 by (auto simp: rb_complete_def split: option.splits)
  moreover have "finite (dom (reassembly c))" by (rule finite_subset [OF subset_UNIV]) simp
  ultimately have "card (dom (reassembly c1)) < card (dom (reassembly c))" by (simp only: card_Diff1_less)
  then show ?case by auto
qed simp

declare deliverReady.simps [simp del]

text \<open>Ranging over the whole map is a test over all 16-bit numbers.\<close>

definition hasBufferedAhead :: "RTPConn \<Rightarrow> bool" where
  "hasBufferedAhead c =
     (if rb_complete (reassembly c (nextReadSeq c)) then False
      else \<exists>i\<in>{1..<32768}. reassembly c (nextReadSeq c + of_nat i) \<noteq> None)"

text \<open>One chunk from \<open>readCh\<close>.  A chunk whose announced total is larger than that of the first one can make the index fail.\<close>

definition reassemble_chunk :: "bytes \<Rightarrow> RTPConn \<Rightarrow> panic + RTPConn" where
  "reassemble_chunk raw c =
     (if length raw < 4 then Inr c
      else
        let seq = Uint16 (bslice 0 2 raw); idx = unat (raw ! 2); tot = unat (raw ! 3); dat = drop 4 raw
        in if tot < 1 \<or> idx \<ge> tot then Inr c
           else
             let b = (case reassembly c seq of Some b \<Rightarrow> b
                      | None \<Rightarrow> \<lparr>chunks = replicate tot None, rb_total = tot, rb_got = 0\<rparr>)
             in if idx \<ge> length (chunks b) then Inl IndexOutOfRange
                else
                  let b' = (if chunks b ! idx = None
                            then b\<lparr>chunks := (chunks b)[idx := Some dat], rb_got := rb_got b + 1\<rparr> else b)
                  in Inr (deliverReady (c\<lparr>reassembly := (reassembly c)(seq \<mapsto> b')\<rparr>)))"

definition update_stall :: "int \<Rightarrow> RTPConn \<Rightarrow> RTPConn" where
  "update_stall now c =
     (let c1 = (if stallCh c = None \<and> hasBufferedAhead c then c\<lparr>stallCh := Some (now + reassemblyTimeout)\<rparr> else c)
      in if stallCh c1 \<noteq> None \<and> \<not> hasBufferedAhead c1 then c1\<lparr>stallCh := None\<rparr> else c1)"

text \<open>The case of the loop that takes a chunk from \<open>readCh\<close>; chunks that are too short or inconsistent skip the rest.\<close>

definition on_readCh :: "int \<Rightarrow> RTPConn \<Rightarrow> panic + RTPConn" where
  "on_readCh now c =
     (case readCh c of
        [] \<Rightarrow> Inr c
      | raw # rest \<Rightarrow>
          let c0 = c\<lparr>readCh := rest\<rparr>
          in if length raw < 4 \<or> unat (raw ! 3) < 1 \<or> unat (raw ! 2) \<ge> unat (raw ! 3) then Inr c0
             else case reassemble_chunk raw c0 of Inl e \<Rightarrow> Inl e | Inr c1 \<Rightarrow> Inr (update_stall now c1))"

definition on_stall :: "int \<Rightarrow> RTPConn \<Rightarrow> RTPConn" where
  "on_stall now c =
     (if rb_complete (reassembly c (nextReadSeq c))
      then let c1 = deliverReady (c\<lparr>stallCh := None\<rparr>)
           in if hasBufferedAhead c1 then c1\<lparr>stallCh := Some (now + reassemblyTimeout)\<rparr> else c1
      else rtp_Close c)"

definition on_reset_reassembly :: "RTPConn \<Rightarrow> RTPConn" where
  "on_reset_reassembly c = c\<lparr>resetReassemblyCh := False, reassembly := (\<lambda>_. None), stallCh := None, readCh := []\<rparr>"

section \<open>Reliability\<close>

definition handleDataPacket :: "int \<Rightarrow> bytes \<Rightarrow> RTPConn \<Rightarrow> RTPConn" where
  "handleDataPacket now raw c =
     (if length raw < 3 then c
      else
        let pktSeq = Uint16 (bslice 1 3 raw); chunkPayload = drop 3 raw;
            c1 = c\<lparr>fecDecoder := AddData pktSeq chunkPayload (fecDecoder c), nackTrack := Record pktSeq now (nackTrack c)\<rparr>;
            nrs = nextReadSeq c1;
            c2 = (if unat pktSeq mod 64 = 0
                  then c1\<lparr>fecDecoder := fec_Prune nrs (fecDecoder c1), nackTrack := nt_Prune nrs (nackTrack c1)\<rparr> else c1)
        in c2\<lparr>readCh := readCh c2 @ [chunkPayload]\<rparr>)"

definition handleFECPacket :: "bytes \<Rightarrow> RTPConn \<Rightarrow> RTPConn" where
  "handleFECPacket raw c =
     (if length raw < 5 then c
      else case Recover (Uint16 (bslice 1 3 raw)) (raw ! 3) (unat (raw ! 4)) (drop 5 raw) (fecDecoder c) of
             None \<Rightarrow> c
           | Some (recoveredSeq, recoveredPayload) \<Rightarrow>
               c\<lparr>nackTrack := Resolve recoveredSeq (nackTrack c),
                  fecDecoder := AddData recoveredSeq recoveredPayload (fecDecoder c),
                  readCh := readCh c @ [recoveredPayload]\<rparr>)"

fun retransmit_all :: "(bytes \<Rightarrow> bool) \<Rightarrow> int \<Rightarrow> bytes \<Rightarrow> nat list \<Rightarrow> RTPConn \<Rightarrow> RTPConn" where
  "retransmit_all ws now raw [] c = c"
| "retransmit_all ws now raw (i # is) c =
     (let pktSeq = Uint16 (bslice (2 + i * 2) (2 + i * 2 + 2) raw)
      in case retx_Get pktSeq (retxBuf c) of
           None \<Rightarrow> retransmit_all ws now raw is c
         | Some chunkPayload \<Rightarrow>
             let (c', ok) = sendRawVP8 ws now (data_packet pktRETX pktSeq chunkPayload) c
             in if ok then retransmit_all ws now raw is c' else c')"

definition handleNACKPacket :: "(bytes \<Rightarrow> bool) \<Rightarrow> int \<Rightarrow> bytes \<Rightarrow> RTPConn \<Rightarrow> RTPConn" where
  "handleNACKPacket ws now raw c =
     (if length raw < 2 then c
      else
        let count = unat (raw ! 1)
        in if length raw < 2 + count * 2 then c
           else retransmit_all ws now raw [0..<count] (c\<lparr>nackRecv := nackRecv c + int count\<rparr>))"

definition on_rawPktCh :: "(bytes \<Rightarrow> bool) \<Rightarrow> int \<Rightarrow> RTPConn \<Rightarrow> RTPConn" where
  "on_rawPktCh ws now c =
     (case rawPktCh c of
        [] \<Rightarrow> c
      | raw # rest \<Rightarrow>
          let c0 = c\<lparr>rawPktCh := rest\<rparr>
          in if length raw < 1 then c0
             else if raw ! 0 = pktDATA \<or> raw ! 0 = pktRETX then handleDataPacket now raw c0
             else if raw ! 0 = pktFEC then handleFECPacket raw c0
             else if raw ! 0 = pktNACK then handleNACKPacket ws now raw c0
             else c0)"

definition on_reset_reliability :: "RTPConn \<Rightarrow> RTPConn" where
  "on_reset_reliability c = c\<lparr>resetReliabilityCh := False, fecDecoder := NewFECDecoder, rawPktCh := []\<rparr>"

definition nack_packet :: "u16 list \<Rightarrow> bytes" where
  "nack_packet nacks = [pktNACK, of_nat (length nacks)] @ concat (map PutUint16 nacks)"

text \<open>One tick of \<^verbatim>\<open>nackLoop\<close>; \<open>order\<close> is the order of the range over the gaps.\<close>

definition nack_tick :: "(bytes \<Rightarrow> bool) \<Rightarrow> int \<Rightarrow> u16 list \<Rightarrow> RTPConn \<Rightarrow> RTPConn" where
  "nack_tick ws now order c =
     (let (nt, nacks) = GetNACKs now order (nackTrack c); c1 = c\<lparr>nackTrack := nt\<rparr>
      in if nacks = [] then c1 else fst (sendRawVP8 ws now (nack_packet nacks) c1))"

text \<open>
  One tick of \<^verbatim>\<open>paceAdjustLoop\<close>.  The product with 1.5 is computed in \<^verbatim>\<open>float64\<close>, where it is exact for the paces that
  occur, and truncated.
\<close>

definition pace_tick :: "RTPConn \<Rightarrow> RTPConn" where
  "pace_tick c =
     (let nacks = nackRecv c; writes = writeCount c; cur = currentPace c; c1 = c\<lparr>nackRecv := 0, writeCount := 0\<rparr>
      in if writes = 0 then (if cur \<noteq> defaultPace then c1\<lparr>currentPace := defaultPace\<rparr> else c1)
         else
           let next = (if nacks > nackRateThreshold
                       then (if cur * 3 div 2 > maxPace then maxPace else cur * 3 div 2)
                       else (if cur - paceDecrease < minPace then minPace else cur - paceDecrease))
           in if next \<noteq> cur then c1\<lparr>currentPace := next\<rparr> else c1)"

section \<open>Incoming tracks\<close>

definition seqClose :: "u16 \<Rightarrow> u16 \<Rightarrow> bool" where
  "seqClose a b \<longleftrightarrow> sint (a - b) \<ge> -50 \<and> sint (a - b) \<le> 50"

text \<open>
  The loop body of \<^verbatim>\<open>HandleTrack\<close> in its three parts, between which the other tracks' goroutines may run: assembling a frame
  (with the value of the lock read at its start), the attempt to lock, and forwarding with the second check of the lock.
\<close>

definition track_frame :: "u32 \<Rightarrow> u32 \<Rightarrow> bytes \<Rightarrow> bytes \<Rightarrow> bool \<Rightarrow> bytes \<Rightarrow> bytes \<times> bytes option" where
  "track_frame ssrc locked key payload marker frameBuf =
     (if locked \<noteq> 0 \<and> locked \<noteq> ssrc then (frameBuf, None)
      else case stripVP8Descriptor payload of
             None \<Rightarrow> (frameBuf, None)
           | Some vp8Payload \<Rightarrow>
               let isStart = (length payload > 0 \<and> payload ! 0 AND 0x10 \<noteq> 0);
                   buf = (if isStart then vp8Payload else frameBuf @ vp8Payload)
               in if \<not> marker then (buf, None)
                  else case extractVP8Data buf key of
                         (buf', None) \<Rightarrow> (buf', None)
                       | (buf', Some d) \<Rightarrow> (buf', if d = [] then None else Some d))"

text \<open>The result is the state and whether the packet is handed on; \<open>nrs\<close> was read just before the lock was taken.\<close>

definition track_lock :: "u32 \<Rightarrow> u32 \<Rightarrow> u16 \<Rightarrow> bytes \<Rightarrow> RTPConn \<Rightarrow> RTPConn \<times> bool" where
  "track_lock ssrc locked nrs dat c =
     (if locked = 0 \<and> length dat \<ge> 7 then
        if dat ! 0 = pktDATA \<or> dat ! 0 = pktRETX then
          let writeSeq = Uint16 (bslice 3 5 dat)
          in if lockedSSRC c = 0 then
               if nrs = 0 \<or> seqClose writeSeq nrs
               then (c\<lparr>lockedSSRC := ssrc, nextReadSeq := (if nrs = 0 \<and> writeSeq \<noteq> 0 then writeSeq else nextReadSeq c)\<rparr>, True)
               else (c, False)
             else (c, True)
        else if dat ! 0 = pktFEC \<or> dat ! 0 = pktNACK then (c, False)
        else (c, True)
      else (c, True))"

definition track_forward :: "u32 \<Rightarrow> bytes \<Rightarrow> RTPConn \<Rightarrow> RTPConn" where
  "track_forward ssrc dat c =
     (if lockedSSRC c \<noteq> 0 \<and> lockedSSRC c \<noteq> ssrc then c
      else c\<lparr>validDataCh := True, rawPktCh := rawPktCh c @ [dat]\<rparr>)"

definition track_closed :: "u32 \<Rightarrow> RTPConn \<Rightarrow> RTPConn" where
  "track_closed ssrc c = (if lockedSSRC c = ssrc then c\<lparr>lockedSSRC := 0\<rparr> else c)"

definition track_packet :: "u32 \<Rightarrow> bytes \<Rightarrow> bool \<Rightarrow> bytes \<Rightarrow> RTPConn \<Rightarrow> bytes \<times> RTPConn" where
  "track_packet ssrc payload marker frameBuf c =
     (case track_frame ssrc (lockedSSRC c) (obfKey c) payload marker frameBuf of
        (buf, None) \<Rightarrow> (buf, c)
      | (buf, Some dat) \<Rightarrow>
          (case track_lock ssrc (lockedSSRC c) (nextReadSeq c) dat c of
             (c', go) \<Rightarrow> (buf, if go then track_forward ssrc dat c' else c')))"

section \<open>Reading and resetting\<close>

text \<open>
  \<open>pick\<close> decides between a closed connection and waiting data when both are ready; without either the call waits (None).
  The number returned is that of bytes copied to a buffer of \<open>n\<close> bytes; the rest of the message is dropped.
\<close>

definition rtp_Read :: "bool \<Rightarrow> nat \<Rightarrow> RTPConn \<Rightarrow> (RTPConn \<times> (rtp_error + bytes)) option" where
  "rtp_Read pick n c =
     (case orderedCh c of
        [] \<Rightarrow> (if rc_closed c then Some (c, Inl ErrEOF) else None)
      | m # rest \<Rightarrow> (if rc_closed c \<and> \<not> pick then Some (c, Inl ErrEOF)
                    else Some (c\<lparr>orderedCh := rest\<rparr>, Inr (take n m))))"

definition ResetSSRC :: "RTPConn \<Rightarrow> RTPConn" where
  "ResetSSRC c = c\<lparr>lockedSSRC := 0, nextReadSeq := 0, seqNum := 0, lastWrite := 0, nextPktSeq := 0,
     nackTrack := nt_Reset (nackTrack c), retxBuf := retx_Reset (retxBuf c), fecEncoder := NewFECEncoder,
     resetReliabilityCh := True, resetReassemblyCh := True, validDataCh := False\<rparr>"

datatype wait_result = WaitOk | WaitCtx | WaitClosed

text \<open>\<^verbatim>\<open>WaitValidData\<close> may return in the ways that are ready; \<open>ctx_done\<close> tells whether its context has ended.\<close>

definition WaitValidData :: "bool \<Rightarrow> RTPConn \<Rightarrow> (RTPConn \<times> wait_result) list" where
  "WaitValidData ctx_done c =
     (if validDataCh c then [(c\<lparr>validDataCh := False\<rparr>, WaitOk)] else [])
     @ (if ctx_done then [(c, WaitCtx)] else []) @ (if rc_closed c then [(c, WaitClosed)] else [])"

end
