(* ===== verification/Rtp_Reassembly.thy ===== *)
theory Rtp_Reassembly
  imports Rtp_Conn
begin

text \<open>
  Reassembly of the Telemost transport: the chunks that \<^verbatim>\<open>Write\<close> cuts messages into, arriving in any order and any
  number of times, give exactly the leading messages that are complete, in order.
\<close>

section \<open>Chunks of a message\<close>

definition nchunks :: "bytes \<Rightarrow> nat" where
  "nchunks p = (length p + maxVP8Data - 1) div maxVP8Data"

definition chunk_of :: "bytes \<Rightarrow> nat \<Rightarrow> bytes" where
  "chunk_of p j = bslice (j * maxVP8Data) (min (length p) (j * maxVP8Data + maxVP8Data)) p"

definition payload_of :: "u16 \<Rightarrow> bytes \<Rightarrow> nat \<Rightarrow> bytes" where
  "payload_of seq p j = chunk_payload seq j (nchunks p) (chunk_of p j)"

definition payloads_of :: "u16 \<Rightarrow> bytes \<Rightarrow> bytes list" where
  "payloads_of seq p = map (payload_of seq p) [0..<nchunks p]"

lemma chunk_of_alt: "chunk_of p j = take maxVP8Data (drop (j * maxVP8Data) p)"
  by (simp add: chunk_of_def bslice_def min_def take_all)

lemma concat_chunks_upto: "concat (map (chunk_of p) [0..<k]) = take (k * maxVP8Data) p"
proof (induction k)
  case (Suc k)
  then show ?case by (simp add: chunk_of_alt take_add [symmetric] add.commute)
qed simp

lemma concat_chunks_of: "concat (map (chunk_of p) [0..<nchunks p]) = p"
proof -
  have "length p \<le> nchunks p * maxVP8Data"
    using div_mult_mod_eq [of "length p + 1099" 1100] mod_less_divisor [of 1100 "length p + 1099"]
    by (simp add: nchunks_def maxVP8Data_def)
  then show ?thesis by (simp add: concat_chunks_upto)
qed

text \<open>Messages that \<^verbatim>\<open>Write\<close> can carry: not empty, and the number of chunks fits in a byte.\<close>

definition sendable :: "bytes \<Rightarrow> bool" where
  "sendable p \<longleftrightarrow> p \<noteq> [] \<and> length p \<le> 255 * maxVP8Data"

lemma nchunks_bounds: "sendable p \<Longrightarrow> 0 < nchunks p" "sendable p \<Longrightarrow> nchunks p < 256"
proof -
  show "0 < nchunks p" if "sendable p"
  proof -
    have "0 < length p" using that by (simp add: sendable_def)
    then have "1100 \<le> length p + 1100 - 1" by linarith
    then show ?thesis using div_le_mono [of 1100 "length p + 1100 - 1" 1100] by (simp add: nchunks_def maxVP8Data_def)
  qed
  show "nchunks p < 256" if "sendable p"
  proof -
    have "length p + 1100 - 1 \<le> 281599" using that by (simp add: sendable_def maxVP8Data_def)
    then show ?thesis using div_le_mono [of "length p + 1100 - 1" 281599 1100] by (simp add: nchunks_def maxVP8Data_def)
  qed
qed

text \<open>What the receiver reads in a chunk.\<close>

lemma payload_of_fields:
  assumes "sendable p" "j < nchunks p"
  shows "\<not> length (payload_of seq p j) < 4" "Uint16 (bslice 0 2 (payload_of seq p j)) = seq"
    "unat (payload_of seq p j ! 2) = j" "unat (payload_of seq p j ! 3) = nchunks p"
    "drop 4 (payload_of seq p j) = chunk_of p j"
proof -
  have f: "payload_of seq p j = PutUint16 seq @ of_nat j # of_nat (nchunks p) # chunk_of p j"
    by (simp add: payload_of_def chunk_payload_def)
  show "\<not> length (payload_of seq p j) < 4" "Uint16 (bslice 0 2 (payload_of seq p j)) = seq"
    "drop 4 (payload_of seq p j) = chunk_of p j" by (simp_all add: f)
  show "unat (payload_of seq p j ! 2) = j" "unat (payload_of seq p j ! 3) = nchunks p"
    using assms nchunks_bounds [OF assms(1)] by (simp_all add: f nth_append unat_of_nat)
qed

lemma payload_of_inj:
  assumes "sendable p" "j < nchunks p" "sendable p'" "j' < nchunks p'" "payload_of q p j = payload_of q' p' j'"
  shows "q = q' \<and> j = j'"
  using payload_of_fields [OF assms(1,2), of q] payload_of_fields [OF assms(3,4), of q'] assms(5) by metis

section \<open>The reassembly invariant\<close>

fun reassemble_all :: "bytes list \<Rightarrow> RTPConn \<Rightarrow> panic + RTPConn" where
  "reassemble_all [] c = Inr c"
| "reassemble_all (raw # raws) c =
     (case reassemble_chunk raw c of Inl e \<Rightarrow> Inl e | Inr c' \<Rightarrow> reassemble_all raws c')"

lemma reassemble_all_append:
  "reassemble_all (xs @ ys) c = (case reassemble_all xs c of Inl e \<Rightarrow> Inl e | Inr c' \<Rightarrow> reassemble_all ys c')"
  by (induction xs arbitrary: c) (auto split: sum.splits)

text \<open>The buffer of a message of which the chunks in \<open>A\<close> have come.\<close>

definition buf_of :: "bytes set \<Rightarrow> u16 \<Rightarrow> bytes \<Rightarrow> reassemblyBuf" where
  "buf_of A q p = \<lparr>chunks = map (\<lambda>j. if payload_of q p j \<in> A then Some (chunk_of p j) else None) [0..<nchunks p],
     rb_total = nchunks p, rb_got = length (filter (\<lambda>j. payload_of q p j \<in> A) [0..<nchunks p])\<rparr>"

definition entry_of :: "bytes set \<Rightarrow> u16 \<Rightarrow> bytes \<Rightarrow> reassemblyBuf option" where
  "entry_of A q p = (if set (payloads_of q p) \<inter> A = {} then None else Some (buf_of A q p))"

lemma buf_of_complete: "rb_got (buf_of A q p) \<ge> rb_total (buf_of A q p) \<longleftrightarrow> set (payloads_of q p) \<subseteq> A"
proof -
  have "length (filter P [0..<n]) \<ge> n \<longleftrightarrow> (\<forall>j<n. P j)" for P n
  proof -
    have "length (filter P [0..<n]) \<le> n" using length_filter_le [of P "[0..<n]"] by simp
    moreover have "length (filter P [0..<n]) < n" if "j < n" "\<not> P j" for j
      using length_filter_less [of j "[0..<n]" P] that by simp
    moreover have "length (filter P [0..<n]) = n" if "\<forall>j<n. P j"
      using filter_True [of "[0..<n]" P] that by simp
    ultimately show ?thesis by (metis leD order_refl)
  qed
  then show ?thesis by (auto simp: buf_of_def payloads_of_def)
qed

lemma payload_of_mem: "j < nchunks p \<Longrightarrow> payload_of q p j \<in> set (payloads_of q p)"
  by (simp add: payloads_of_def)

lemmas payload_0_mem = payload_of_mem [OF nchunks_bounds(1)]

lemma entry_of_complete:
  assumes "sendable p"
  shows "rb_complete (entry_of A q p) \<longleftrightarrow> set (payloads_of q p) \<subseteq> A"
proof (cases "set (payloads_of q p) \<inter> A = {}")
  case True
  then have "\<not> set (payloads_of q p) \<subseteq> A" using payload_0_mem [OF assms, of q] by blast
  then show ?thesis using True by (simp add: entry_of_def rb_complete_def)
next
  case False
  then show ?thesis by (simp add: entry_of_def rb_complete_def buf_of_complete)
qed

lemma assembled_buf_of: "set (payloads_of q p) \<subseteq> A \<Longrightarrow> assembled (buf_of A q p) = p"
proof -
  assume "set (payloads_of q p) \<subseteq> A"
  then have "map (\<lambda>ch. case ch of None \<Rightarrow> [] | Some d \<Rightarrow> d) (chunks (buf_of A q p)) = map (chunk_of p) [0..<nchunks p]"
    by (auto simp: buf_of_def payloads_of_def)
  then show ?thesis by (simp add: assembled_def concat_chunks_of)
qed

text \<open>A further chunk in the buffer.\<close>

lemma buf_of_insert:
  assumes "sendable p" "j < nchunks p" "payload_of q p j \<notin> A"
  shows "buf_of (insert (payload_of q p j) A) q p =
    (buf_of A q p)\<lparr>chunks := (chunks (buf_of A q p))[j := Some (chunk_of p j)], rb_got := rb_got (buf_of A q p) + 1\<rparr>"
proof -
  have eq: "payload_of q p i = payload_of q p j \<longleftrightarrow> i = j" if "i < nchunks p" for i
    using payload_of_inj [OF assms(1) that assms(1,2)] by blast
  have c: "map (\<lambda>i. if payload_of q p i \<in> insert (payload_of q p j) A then Some (chunk_of p i) else None) [0..<nchunks p]
      = (map (\<lambda>i. if payload_of q p i \<in> A then Some (chunk_of p i) else None) [0..<nchunks p])[j := Some (chunk_of p j)]"
    using eq assms(2) by (intro nth_equalityI) (auto simp: nth_list_update)
  have f: "filter (\<lambda>i. payload_of q p i \<in> insert (payload_of q p j) A) [0..<nchunks p]
      = filter (\<lambda>i. i = j \<or> payload_of q p i \<in> A) [0..<nchunks p]"
    using eq by (intro filter_cong) auto
  have s: "[0..<nchunks p] = [0..<j] @ j # [Suc j..<nchunks p]" by (rule upt_at [OF assms(2)])
  have "filter (\<lambda>i. i = j \<or> payload_of q p i \<in> A) xs = filter (\<lambda>i. payload_of q p i \<in> A) xs" if "j \<notin> set xs" for xs
    using that by (intro filter_cong) auto
  then have "length (filter (\<lambda>i. i = j \<or> payload_of q p i \<in> A) [0..<nchunks p])
      = Suc (length (filter (\<lambda>i. payload_of q p i \<in> A) [0..<nchunks p]))"
    unfolding s using assms(3) by simp
  then show ?thesis using c f by (simp add: buf_of_def)
qed

definition reasm_pre :: "u16 \<Rightarrow> bytes list \<Rightarrow> bytes list \<Rightarrow> bytes set \<Rightarrow> nat \<Rightarrow> RTPConn \<Rightarrow> bool" where
  "reasm_pre s ms out0 A n c \<longleftrightarrow> n \<le> length ms \<and> nextReadSeq c = sq s n \<and> orderedCh c = out0 @ take n ms
     \<and> (\<forall>i<n. set (payloads_of (sq s i) (ms ! i)) \<subseteq> A)
     \<and> (\<forall>i. length ms \<le> i \<and> i < 65536 \<longrightarrow> reassembly c (sq s i) = None)
     \<and> (\<forall>i. n \<le> i \<and> i < length ms \<longrightarrow> reassembly c (sq s i) = entry_of A (sq s i) (ms ! i))
     \<and> (\<forall>i<n. \<forall>b. reassembly c (sq s i) = Some b \<longrightarrow> length (chunks b) = nchunks (ms ! i))"

definition reasm_inv :: "u16 \<Rightarrow> bytes list \<Rightarrow> bytes list \<Rightarrow> bytes set \<Rightarrow> RTPConn \<Rightarrow> bool" where
  "reasm_inv s ms out0 A c \<longleftrightarrow> (\<exists>n. reasm_pre s ms out0 A n c
     \<and> (n < length ms \<longrightarrow> \<not> set (payloads_of (sq s n) (ms ! n)) \<subseteq> A))"

definition all_sendable :: "bytes list \<Rightarrow> bool" where
  "all_sendable ms \<longleftrightarrow> length ms < 65536 \<and> (\<forall>m\<in>set ms. sendable m)"

lemma all_sendableD: "all_sendable ms \<Longrightarrow> i < length ms \<Longrightarrow> sendable (ms ! i) \<and> i < 65536"
  by (auto simp: all_sendable_def)

lemma deliverReady_inv:
  assumes "all_sendable ms" "reasm_pre s ms out0 A n c"
  shows "reasm_inv s ms out0 A (deliverReady c)"
  using assms(2)
proof (induction "length ms - n" arbitrary: n c rule: less_induct)
  case less
  note pre = less.prems [unfolded reasm_pre_def]
  have len: "length ms < 65536" using assms(1) by (simp add: all_sendable_def)
  show ?case
  proof (cases "n < length ms \<and> set (payloads_of (sq s n) (ms ! n)) \<subseteq> A")
    case False
    have "\<not> rb_complete (reassembly c (nextReadSeq c))"
    proof (cases "n < length ms")
      case True
      then show ?thesis using False pre entry_of_complete [of "ms ! n"] all_sendableD [OF assms(1) True] by simp
    next
      case ge: False
      then show ?thesis using pre len by (simp add: rb_complete_def)
    qed
    then have "deliverReady c = c" by (subst deliverReady.simps) simp
    then show ?thesis using less.prems False unfolding reasm_inv_def by (intro exI [of _ n]) auto
  next
    case True
    then have n: "n < length ms" and all: "set (payloads_of (sq s n) (ms ! n)) \<subseteq> A" by auto
    have snd: "sendable (ms ! n)" using all_sendableD [OF assms(1) n] by simp
    have r: "reassembly c (nextReadSeq c) = entry_of A (sq s n) (ms ! n)" using pre n by simp
    have e: "entry_of A (sq s n) (ms ! n) = Some (buf_of A (sq s n) (ms ! n))"
      unfolding entry_of_def using all payload_0_mem [OF snd, of "sq s n"] by (metis disjoint_iff subsetD)
    let ?c = "incNextReadSeq (c\<lparr>reassembly := (reassembly c)(nextReadSeq c := None)\<rparr>)\<lparr>orderedCh := orderedCh c @ [ms ! n]\<rparr>"
    have step: "deliverReady c = deliverReady ?c"
      using r e entry_of_complete [OF snd, of A "sq s n"] all assembled_buf_of [OF all] snd
      by (subst deliverReady.simps) (simp add: Let_def sendable_def incNextReadSeq_def)
    have "reasm_pre s ms out0 A (Suc n) ?c"
      using pre n all len
      by (auto simp: reasm_pre_def incNextReadSeq_def take_Suc_conv_app_nth sq_inj less_Suc_eq)
        (simp add: sq_def)
    then show ?thesis unfolding step using n by (intro less.hyps) auto
  qed
qed

lemma reassemble_chunk_inv:
  assumes ms: "all_sendable ms" and inv: "reasm_inv s ms out0 A c"
    and i: "i < length ms" and j: "j < nchunks (ms ! i)"
  shows "\<exists>c'. reassemble_chunk (payload_of (sq s i) (ms ! i) j) c = Inr c'
    \<and> reasm_inv s ms out0 (insert (payload_of (sq s i) (ms ! i) j) A) c'"
proof -
  let ?p = "ms ! i" and ?q = "sq s i" and ?raw = "payload_of (sq s i) (ms ! i) j"
  let ?A = "insert ?raw A"
  obtain n where pre: "reasm_pre s ms out0 A n c" using inv by (auto simp: reasm_inv_def)
  note P = pre [unfolded reasm_pre_def]
  have snd: "sendable ?p" and i16: "i < 65536" using all_sendableD [OF ms i] by simp_all
  note fl = payload_of_fields [OF snd j, of ?q]
  have tot: "\<not> (nchunks ?p < 1 \<or> j \<ge> nchunks ?p)" using j by simp
  define b where "b = (case reassembly c ?q of Some b \<Rightarrow> b | None \<Rightarrow> \<lparr>chunks = replicate (nchunks ?p) None, rb_total = nchunks ?p, rb_got = 0\<rparr>)"
  define b' where "b' = (if chunks b ! j = None then b\<lparr>chunks := (chunks b)[j := Some (chunk_of ?p j)], rb_got := rb_got b + 1\<rparr> else b)"
  have empty: "\<lparr>chunks = replicate (nchunks ?p) None, rb_total = nchunks ?p, rb_got = 0\<rparr> = buf_of A ?q ?p"
    if "set (payloads_of ?q ?p) \<inter> A = {}"
  proof -
    have no: "payload_of ?q ?p j \<notin> A" if "j < nchunks ?p" for j
      using payload_of_mem [OF that, of ?q] \<open>set (payloads_of ?q ?p) \<inter> A = {}\<close> by blast
    have "map (\<lambda>j. if payload_of ?q ?p j \<in> A then Some (chunk_of ?p j) else None) [0..<nchunks ?p] = replicate (nchunks ?p) None"
      using no by (intro nth_equalityI) auto
    moreover have "filter (\<lambda>j. payload_of ?q ?p j \<in> A) [0..<nchunks ?p] = []" using no by (simp add: filter_empty_conv)
    ultimately show ?thesis by (simp add: buf_of_def)
  qed
  have b_ge: "b = buf_of A ?q ?p" if "n \<le> i"
    using P that i empty by (auto simp: b_def entry_of_def)
  have len: "length (chunks b) = nchunks ?p"
  proof (cases "n \<le> i")
    case True
    then show ?thesis by (simp add: b_ge buf_of_def)
  next
    case False
    then show ?thesis using P by (auto simp: b_def split: option.splits)
  qed
  have b'_ge: "b' = buf_of ?A ?q ?p" if "n \<le> i"
  proof (cases "?raw \<in> A")
    case True
    then show ?thesis using b_ge [OF that] j by (simp add: b'_def buf_of_def insert_absorb)
  next
    case False
    have "chunks (buf_of A ?q ?p) ! j = None" using False j by (simp add: buf_of_def)
    then show ?thesis unfolding b'_def b_ge [OF that] using buf_of_insert [OF snd j False] by simp
  qed
  have len': "length (chunks b') = nchunks ?p" using len by (simp add: b'_def)
  let ?c = "c\<lparr>reassembly := (reassembly c)(?q \<mapsto> b')\<rparr>"
  have other: "entry_of ?A (sq s k) (ms ! k) = entry_of A (sq s k) (ms ! k)" if "k < length ms" "k \<noteq> i" for k
  proof -
    have ne: "payload_of (sq s k) (ms ! k) l \<noteq> ?raw" if "l < nchunks (ms ! k)" for l
      using payload_of_inj [of "ms ! k" l ?p j "sq s k" ?q] that j snd all_sendableD [OF ms \<open>k < length ms\<close>] i16 \<open>k \<noteq> i\<close>
      by (auto simp: sq_inj)
    then have "set (payloads_of (sq s k) (ms ! k)) \<inter> ?A = set (payloads_of (sq s k) (ms ! k)) \<inter> A"
      by (auto simp: payloads_of_def)
    moreover have "buf_of ?A (sq s k) (ms ! k) = buf_of A (sq s k) (ms ! k)"
      using ne by (auto simp: buf_of_def intro!: filter_cong arg_cong [where f = length])
    ultimately show ?thesis by (simp add: entry_of_def)
  qed
  have own: "entry_of ?A ?q ?p = Some (buf_of ?A ?q ?p)" using j by (auto simp: entry_of_def payloads_of_def)
  have "reasm_pre s ms out0 ?A n ?c"
    unfolding reasm_pre_def
  proof (intro conjI allI impI)
    fix k assume "length ms \<le> k \<and> k < 65536"
    then show "reassembly ?c (sq s k) = None" using P i i16 by (auto simp: sq_inj)
  next
    fix k assume k: "n \<le> k \<and> k < length ms"
    then show "reassembly ?c (sq s k) = entry_of ?A (sq s k) (ms ! k)"
      using P i16 all_sendableD [OF ms, of k] other [of k] own b'_ge by (cases "k = i") (auto simp: sq_inj)
  next
    fix k b assume k: "k < n" and b: "reassembly ?c (sq s k) = Some b"
    have "k < length ms" using k P by simp
    then show "length (chunks b) = nchunks (ms ! k)"
      using P k b len' i16 all_sendableD [OF ms, of k] by (cases "k = i") (auto simp: sq_inj)
  qed (use P in auto)
  then have inv': "reasm_inv s ms out0 ?A (deliverReady ?c)" by (rule deliverReady_inv [OF ms])
  have "reassemble_chunk ?raw c = Inr (deliverReady ?c)"
    unfolding reassemble_chunk_def Let_def fl if_not_P [OF fl(1)] if_not_P [OF tot] b_def [symmetric]
    using len j by (simp add: b'_def)
  then show ?thesis using inv' by blast
qed

lemma reassemble_all_inv:
  assumes ms: "all_sendable ms"
    and raws: "set raws \<subseteq> (\<Union>i<length ms. set (payloads_of (sq s i) (ms ! i)))"
    and inv: "reasm_inv s ms out0 A c"
  shows "\<exists>c'. reassemble_all raws c = Inr c' \<and> reasm_inv s ms out0 (A \<union> set raws) c'"
  using raws inv
proof (induction raws arbitrary: A c)
  case (Cons raw raws)
  obtain i j where ij: "i < length ms" "j < nchunks (ms ! i)" "raw = payload_of (sq s i) (ms ! i) j"
    using Cons.prems(1) by (auto simp: payloads_of_def)
  from reassemble_chunk_inv [OF ms Cons.prems(2) ij(1,2)] obtain c1 where
    "reassemble_chunk raw c = Inr c1" "reasm_inv s ms out0 (insert raw A) c1" using ij(3) by auto
  with Cons.IH [of "insert raw A" c1] Cons.prems(1) show ?case by auto
qed auto

section \<open>Delivery in order\<close>

text \<open>The number of leading messages all of whose chunks are in a set.\<close>

definition ready_prefix :: "u16 \<Rightarrow> bytes list \<Rightarrow> bytes set \<Rightarrow> nat" where
  "ready_prefix s ms A = length (takeWhile (\<lambda>i. set (payloads_of (sq s i) (ms ! i)) \<subseteq> A) [0..<length ms])"

lemma ready_prefix_eq:
  assumes "n \<le> length ms" "\<forall>i<n. set (payloads_of (sq s i) (ms ! i)) \<subseteq> A"
    "n < length ms \<longrightarrow> \<not> set (payloads_of (sq s n) (ms ! n)) \<subseteq> A"
  shows "ready_prefix s ms A = n"
proof (cases "n < length ms")
  case True
  have u: "[0..<length ms] = [0..<n] @ n # [Suc n..<length ms]" by (rule upt_at [OF True])
  show ?thesis unfolding ready_prefix_def u using assms True by (simp add: takeWhile_append)
next
  case False
  then have "n = length ms" using assms(1) by simp
  then show ?thesis using assms(2) by (simp add: ready_prefix_def takeWhile_eq_all_conv [THEN iffD2])
qed

lemma reasm_inv_out: "reasm_inv s ms out0 A c \<Longrightarrow> orderedCh c = out0 @ take (ready_prefix s ms A) ms"
proof -
  assume "reasm_inv s ms out0 A c"
  then obtain n where n: "n \<le> length ms" "\<forall>i<n. set (payloads_of (sq s i) (ms ! i)) \<subseteq> A"
    "n < length ms \<longrightarrow> \<not> set (payloads_of (sq s n) (ms ! n)) \<subseteq> A" "orderedCh c = out0 @ take n ms"
    unfolding reasm_inv_def reasm_pre_def by blast
  then show ?thesis using ready_prefix_eq [OF n(1-3)] by simp
qed

lemma reasm_inv_init:
  assumes "all_sendable ms" "reassembly c = (\<lambda>_. None)" "nextReadSeq c = s"
  shows "reasm_inv s ms (orderedCh c) {} c"
  using assms nchunks_bounds(1)
  by (auto simp: reasm_inv_def reasm_pre_def entry_of_def sq_def payloads_of_def all_sendable_def intro!: exI [of _ 0])

text \<open>C21: A receiver that expects write number \<open>s\<close> and has no partial message is given chunks of messages written
  with the numbers \<open>s\<close>, \<open>s + 1\<close>, \ldots (fewer than \<open>2^16\<close> messages, none empty, none above 255 chunks), in any order and
  any number of times.  It does not panic, and what it has delivered is exactly the longest sequence of leading messages of which
  every chunk has come: each message whole, once and in order.\<close>

theorem rtp_delivers_in_order:
  assumes "all_sendable ms" "reassembly c = (\<lambda>_. None)" "nextReadSeq c = s"
    "set raws \<subseteq> (\<Union>i<length ms. set (payloads_of (sq s i) (ms ! i)))"
  shows "\<exists>c'. reassemble_all raws c = Inr c' \<and> orderedCh c' = orderedCh c @ take (ready_prefix s ms (set raws)) ms"
  using reassemble_all_inv [OF assms(1,4) reasm_inv_init [OF assms(1,2,3)]] reasm_inv_out by force

theorem rtp_delivers_in_order_witness:
  "\<exists>c'. reassemble_all [payload_of 8 [5, 6] 0, payload_of 7 [4] 0, payload_of 8 [5, 6] 0] (NewRTPConn []\<lparr>nextReadSeq := 7\<rparr>) = Inr c'
    \<and> orderedCh c' = [[4], [5, 6]]"
proof -
  let ?ms = "[[4], [5, 6 :: byte]]" and ?raws = "[payload_of 8 [5, 6] 0, payload_of 7 [4] 0, payload_of 8 [5, 6] 0]"
  have n: "nchunks [4] = 1" "nchunks [5, 6] = 1" by (simp_all add: nchunks_def maxVP8Data_def)
  have q: "sq 7 0 = 7" "sq 7 1 = 8" by (simp_all add: sq_def)
  have u: "(\<Union>i<length ?ms. set (payloads_of (sq 7 i) (?ms ! i))) = {payload_of 7 [4] 0, payload_of 8 [5, 6] 0}"
    using n q by (auto simp: payloads_of_def less_Suc_eq numeral_2_eq_2)
  have h: "all_sendable ?ms" "reassembly (NewRTPConn []\<lparr>nextReadSeq := 7\<rparr>) = (\<lambda>_. None)"
    "nextReadSeq (NewRTPConn []\<lparr>nextReadSeq := 7\<rparr>) = 7" "set ?raws \<subseteq> (\<Union>i<length ?ms. set (payloads_of (sq 7 i) (?ms ! i)))"
    unfolding u by (simp_all add: all_sendable_def sendable_def maxVP8Data_def NewRTPConn_def)
  have r: "ready_prefix 7 ?ms (set ?raws) = 2"
    using n q by (intro ready_prefix_eq) (auto simp: payloads_of_def less_Suc_eq numeral_2_eq_2)
  from rtp_delivers_in_order [OF h] show ?thesis unfolding r by (simp add: NewRTPConn_def)
qed

end
