(* ===== verification/Rtp_Transfer.thy ===== *)
theory Rtp_Transfer
  imports Rtp_Reassembly
begin

text \<open>
  The Telemost transport from end to end: what one connection writes is what the other delivers, over a media server
  that loses, repeats and reorders frames, with parity packets repairing losses on the way and the goroutines of the receiver
  running in any order.  Further: the pace stays between its bounds, a locked connection takes packets of one track
  only, and three ways in which the code loses messages.
\<close>

section \<open>What is sent\<close>





lemma length_fec_encode [simp]: "length (fec_encode q ps e) = length ps"
  by (induction ps arbitrary: q e) (auto split: prod.splits)


text \<open>A track that takes every frame; frames that are lost are lost later.\<close>

abbreviation ok_track :: "bytes \<Rightarrow> bool" where
  "ok_track \<equiv> \<lambda>_. True"










section \<open>What is received\<close>

datatype recv_event = Frame_in bytes | Reliability_turn int | Reassembly_turn int

text \<open>
  A receiver locked to track \<open>ssrc\<close>: a whole frame comes in, or one of the two loops takes one item from its channel.
\<close>

fun recv_step :: "u32 \<Rightarrow> recv_event \<Rightarrow> RTPConn \<Rightarrow> panic + RTPConn" where
  "recv_step ssrc (Frame_in f) c =
     (case snd (extractVP8Data f (obfKey c)) of None \<Rightarrow> Inr c
      | Some d \<Rightarrow> Inr (if d = [] then c else track_forward ssrc d (fst (track_lock ssrc (lockedSSRC c) (nextReadSeq c) d c))))"
| "recv_step ssrc (Reliability_turn now) c = Inr (on_rawPktCh ok_track now c)"
| "recv_step ssrc (Reassembly_turn now) c = on_readCh now c"

fun recv_run :: "u32 \<Rightarrow> recv_event list \<Rightarrow> RTPConn \<Rightarrow> panic + RTPConn" where
  "recv_run ssrc [] c = Inr c"
| "recv_run ssrc (e # es) c = (case recv_step ssrc e c of Inl p \<Rightarrow> Inl p | Inr c' \<Rightarrow> recv_run ssrc es c')"




lemma data_packet_fields:
  "\<not> length (data_packet ty q p) < 3" "Uint16 (bslice 1 3 (data_packet ty q p)) = q" "drop 3 (data_packet ty q p) = p"
  "data_packet ty q p ! 0 = ty"
  by (simp_all add: data_packet_def bslice_def PutUint16_def Uint16_def [symmetric])
     (metis Uint_Put_Nil(1) PutUint16_def)



section \<open>The receiver's invariant\<close>








lemma update_stall_same:
  "lockedSSRC (update_stall now c) = lockedSSRC c" "obfKey (update_stall now c) = obfKey c"
  "rawPktCh (update_stall now c) = rawPktCh c" "readCh (update_stall now c) = readCh c"
  "fecDecoder (update_stall now c) = fecDecoder c" "nextReadSeq (update_stall now c) = nextReadSeq c"
  "orderedCh (update_stall now c) = orderedCh c" "reassembly (update_stall now c) = reassembly c"
  by (simp_all add: update_stall_def Let_def)











section \<open>Pace\<close>

text \<open>A window of the pacing loop with its numbers of requests and writes.\<close>

definition pace_window :: "int \<times> int \<Rightarrow> RTPConn \<Rightarrow> RTPConn" where
  "pace_window w c = pace_tick (c\<lparr>nackRecv := fst w, writeCount := snd w\<rparr>)"

text \<open>From the initial pace on, whatever the numbers of requests and writes in each window, the pace stays between 2 ms
  and 10 ms; a window without writes sets it to 5 ms, one with writes and more than 3 requests never lowers it, one with writes and
  at most 3 requests never raises it.\<close>

theorem pace_bounded:
  "currentPace (fold pace_window ws (NewRTPConn key)) \<in> {minPace..maxPace}
   \<and> currentPace (pace_window (n, 0) (fold pace_window ws (NewRTPConn key))) = defaultPace
   \<and> (w > 0 \<longrightarrow> (if n > nackRateThreshold
       then currentPace (pace_window (n, w) (fold pace_window ws (NewRTPConn key))) \<ge> currentPace (fold pace_window ws (NewRTPConn key))
       else currentPace (pace_window (n, w) (fold pace_window ws (NewRTPConn key))) \<le> currentPace (fold pace_window ws (NewRTPConn key))))"
proof -
  have step: "currentPace (pace_window w c) \<in> {minPace..maxPace}" if "currentPace c \<in> {minPace..maxPace}" for w c
    using that by (auto simp: pace_window_def pace_tick_def Let_def minPace_def maxPace_def defaultPace_def paceDecrease_def)
  have "currentPace (fold pace_window ws c) \<in> {minPace..maxPace}" if "currentPace c \<in> {minPace..maxPace}" for c
    using that
  proof (induction ws arbitrary: c)
    case (Cons w ws)
    then show ?case using step by simp
  qed simp
  then have b: "currentPace (fold pace_window ws (NewRTPConn key)) \<in> {minPace..maxPace}"
    by (simp add: NewRTPConn_def minPace_def maxPace_def defaultPace_def)
  moreover have "currentPace (pace_window (n, 0) c) = defaultPace" for c
    by (simp add: pace_window_def pace_tick_def Let_def)
  moreover have "if n > nackRateThreshold then currentPace (pace_window (n, w) c) \<ge> currentPace c
      else currentPace (pace_window (n, w) c) \<le> currentPace c" if "w > 0" "currentPace c \<in> {minPace..maxPace}" for c
    using that by (auto simp: pace_window_def pace_tick_def Let_def minPace_def maxPace_def paceDecrease_def)
  ultimately show ?thesis by blast
qed

section \<open>Tracks\<close>

text \<open>
  What the goroutine of a track does to the connection, with the value of the lock and of \<^verbatim>\<open>nextReadSeq\<close> that it read some
  time before.
\<close>

datatype track_op = Try_lock u32 u32 u16 bytes | Forward u32 bytes | Track_closed u32

fun track_of :: "track_op \<Rightarrow> u32" where
  "track_of (Try_lock ssrc locked nrs d) = ssrc"
| "track_of (Forward ssrc d) = ssrc"
| "track_of (Track_closed ssrc) = ssrc"

fun track_step :: "track_op \<Rightarrow> RTPConn \<Rightarrow> RTPConn" where
  "track_step (Try_lock ssrc locked nrs d) c = fst (track_lock ssrc locked nrs d c)"
| "track_step (Forward ssrc d) c = track_forward ssrc d c"
| "track_step (Track_closed ssrc) c = track_closed ssrc c"

text \<open>While a connection is locked to a track, any interleaving of the steps of the other tracks, with any stale
  values they may have read, neither takes the lock, nor moves \<^verbatim>\<open>nextReadSeq\<close>, nor lets one of their packets in.\<close>

theorem locked_track_exclusive:
  assumes "lockedSSRC c \<noteq> 0" "\<forall>t\<in>set ops. track_of t \<noteq> lockedSSRC c"
  shows "fold track_step ops c = c"
  using assms(2)
proof (induction ops)
  case (Cons t ops)
  have "track_step t c = c" using Cons.prems assms(1)
    by (cases t) (auto simp: track_lock_def track_forward_def track_closed_def Let_def)
  then show ?case using Cons by simp
qed simp

section \<open>Lost messages\<close>

lemma on_rawPktCh_data:
  assumes "rawPktCh c = data_packet pktDATA q p # rest"
  shows "rawPktCh (on_rawPktCh ws now c) = rest" "readCh (on_rawPktCh ws now c) = readCh c @ [p]"
    "nextReadSeq (on_rawPktCh ws now c) = nextReadSeq c" "orderedCh (on_rawPktCh ws now c) = orderedCh c"
    "reassembly (on_rawPktCh ws now c) = reassembly c"
  using assms data_packet_fields [of pktDATA q p]
  by (simp_all add: on_rawPktCh_def handleDataPacket_def Let_def data_packet_def)

text \<open>A message of one chunk, when its number is expected and when it is not.\<close>

lemma on_readCh_single:
  assumes m: "sendable m" "nchunks m = 1" and r: "readCh c = payload_of seq m 0 # rest" "reassembly c seq = None"
  shows "nextReadSeq c = seq \<Longrightarrow> reassembly c (seq + 1) = None \<Longrightarrow> \<exists>c'. on_readCh now c = Inr c' \<and> orderedCh c' = orderedCh c @ [m]
      \<and> nextReadSeq c' = seq + 1 \<and> reassembly c' = reassembly c \<and> readCh c' = rest \<and> rawPktCh c' = rawPktCh c"
    "nextReadSeq c \<noteq> seq \<Longrightarrow> reassembly c (nextReadSeq c) = None \<Longrightarrow> \<exists>c'. on_readCh now c = Inr c' \<and> orderedCh c' = orderedCh c
      \<and> nextReadSeq c' = nextReadSeq c \<and> readCh c' = rest \<and> rawPktCh c' = rawPktCh c"
proof -
  note fl = payload_of_fields [OF m(1), of 0 seq]
  let ?b = "\<lparr>chunks = [Some (chunk_of m 0)], rb_total = 1, rb_got = 1\<rparr>"
  let ?c = "c\<lparr>readCh := rest, reassembly := (reassembly c)(seq \<mapsto> ?b)\<rparr>"
  have st: "on_readCh now c = Inr (update_stall now (deliverReady ?c))"
    using fl m(2) r by (simp add: on_readCh_def reassemble_chunk_def Let_def)
  have as: "assembled ?b = m" using concat_chunks_of [of m] m(2) by (simp add: assembled_def)
  show "\<exists>c'. on_readCh now c = Inr c' \<and> orderedCh c' = orderedCh c @ [m]
      \<and> nextReadSeq c' = seq + 1 \<and> reassembly c' = reassembly c \<and> readCh c' = rest \<and> rawPktCh c' = rawPktCh c"
    if "nextReadSeq c = seq" "reassembly c (seq + 1) = None"
  proof -
    let ?d = "c\<lparr>readCh := rest, reassembly := (reassembly c)(seq := None), nextReadSeq := seq + 1, orderedCh := orderedCh c @ [m]\<rparr>"
    have "deliverReady ?c = deliverReady ?d"
      using that m(1) as by (subst deliverReady.simps) (simp add: rb_complete_def incNextReadSeq_def sendable_def)
    also have "\<dots> = ?d" using that by (subst deliverReady.simps) (simp add: rb_complete_def)
    finally have "deliverReady ?c = ?d" .
    then show ?thesis unfolding st using r(2) by (simp add: update_stall_same fun_upd_idem)
  qed
  show "\<exists>c'. on_readCh now c = Inr c' \<and> orderedCh c' = orderedCh c
      \<and> nextReadSeq c' = nextReadSeq c \<and> readCh c' = rest \<and> rawPktCh c' = rawPktCh c"
    if "nextReadSeq c \<noteq> seq" "reassembly c (nextReadSeq c) = None"
  proof -
    have "deliverReady ?c = ?c" using that by (subst deliverReady.simps) (simp add: rb_complete_def)
    then show ?thesis unfolding st by (simp add: update_stall_same)
  qed
qed

lemma sync_to_first:
  assumes "lockedSSRC c = 0" "nextReadSeq c = 0" "seq \<noteq> 0"
  shows "track_lock ssrc (lockedSSRC c) (nextReadSeq c) (data_packet pktDATA q (payload_of seq m j)) c
     = (c\<lparr>lockedSSRC := ssrc, nextReadSeq := seq\<rparr>, True)"
proof -
  let ?x = "data_packet pktDATA q (payload_of seq m j)"
  have w: "Uint16 (bslice 3 5 ?x) = seq"
    by (simp add: data_packet_def payload_of_def chunk_payload_def bslice_def PutUint16_def)
      (metis Uint_Put_Nil(1) PutUint16_def)
  have "7 \<le> length ?x" by (simp add: data_packet_def payload_of_def chunk_payload_def)
  then show ?thesis using assms w data_packet_fields(4) [of pktDATA q "payload_of seq m j"] by (simp add: track_lock_def)
qed

text \<open>The first data packet of a track moves \<^verbatim>\<open>nextReadSeq\<close> to its own write number.  So when two one-chunk messages
  are written and the frame of the second reaches a fresh receiver before that of the first, then after both have been processed
  the receiver has delivered the second message only: the first is lost, although every frame arrived.\<close>

theorem reordered_start_loses_message:
  assumes "sendable m0" "nchunks m0 = 1" "sendable m1" "nchunks m1 = 1" "length key = 32" "ssrc \<noteq> 0"
  shows "\<exists>c. recv_run ssrc [Frame_in (buildVP8Frame (data_packet pktDATA 1 (payload_of 1 m1 0)) key),
                   Frame_in (buildVP8Frame (data_packet pktDATA 0 (payload_of 0 m0 0)) key),
                   Reliability_turn t, Reliability_turn t, Reassembly_turn t, Reassembly_turn t] (NewRTPConn key) = Inr c
    \<and> orderedCh c = [m1] \<and> rawPktCh c = [] \<and> readCh c = []"
proof -
  define x1 where "x1 = data_packet pktDATA 1 (payload_of 1 m1 0)"
  define x0 where "x0 = data_packet pktDATA 0 (payload_of 0 m0 0)"
  have small: "length (data_packet pktDATA q (payload_of seq m 0)) < 2 ^ 16" for q seq m
    by (simp add: data_packet_def payload_of_def chunk_payload_def chunk_of_alt maxVP8Data_def)
  have ex: "snd (extractVP8Data (buildVP8Frame x1 key) key) = Some x1" "snd (extractVP8Data (buildVP8Frame x0 key) key) = Some x0"
    unfolding x1_def x0_def by (rule vp8_extract_build [OF small assms(5)])+
  have ne: "x1 \<noteq> []" "x0 \<noteq> []" by (simp_all add: x1_def x0_def data_packet_def)
  define c0 where "c0 = NewRTPConn key"
  have c0: "obfKey c0 = key" "lockedSSRC c0 = 0" "nextReadSeq c0 = 0" "rawPktCh c0 = []" "readCh c0 = []" "orderedCh c0 = []"
    "reassembly c0 = (\<lambda>_. None)" by (simp_all add: c0_def NewRTPConn_def)
  define c2 where "c2 = c0\<lparr>lockedSSRC := ssrc, nextReadSeq := 1, validDataCh := True, rawPktCh := [x1, x0]\<rparr>"
  have f1: "recv_step ssrc (Frame_in (buildVP8Frame x1 key)) c0
      = Inr (c0\<lparr>lockedSSRC := ssrc, nextReadSeq := 1, validDataCh := True, rawPktCh := [x1]\<rparr>)"
    using ex(1) ne(1) c0 sync_to_first [OF c0(2,3), of 1 ssrc 1 m1 0] by (simp add: track_forward_def x1_def [symmetric])
  have f2: "recv_step ssrc (Frame_in (buildVP8Frame x0 key)) (c0\<lparr>lockedSSRC := ssrc, nextReadSeq := 1, validDataCh := True, rawPktCh := [x1]\<rparr>)
      = Inr c2"
    using ex(2) ne(2) c0(1) assms(6) by (simp add: track_forward_def track_lock_def c2_def)
  define c3 where "c3 = on_rawPktCh ok_track t c2"
  define c4 where "c4 = on_rawPktCh ok_track t c3"
  have c3: "rawPktCh c3 = [x0]" "readCh c3 = [payload_of 1 m1 0]" "nextReadSeq c3 = 1" "orderedCh c3 = []" "reassembly c3 = (\<lambda>_. None)"
    using on_rawPktCh_data [of c2 1 "payload_of 1 m1 0" "[x0]" ok_track t] c0 by (simp_all add: c3_def c2_def x1_def)
  have c4: "rawPktCh c4 = []" "readCh c4 = [payload_of 1 m1 0, payload_of 0 m0 0]" "nextReadSeq c4 = 1" "orderedCh c4 = []"
    "reassembly c4 = (\<lambda>_. None)"
    using on_rawPktCh_data [of c3 0 "payload_of 0 m0 0" "[]" ok_track t] c3 by (simp_all add: c4_def x0_def)
  obtain c5 where c5: "on_readCh t c4 = Inr c5" "orderedCh c5 = [m1]" "nextReadSeq c5 = 2" "reassembly c5 = (\<lambda>_. None)"
    "readCh c5 = [payload_of 0 m0 0]" "rawPktCh c5 = []"
    using on_readCh_single(1) [OF assms(3,4), of c4 1 "[payload_of 0 m0 0]" t] c4 by auto
  obtain c6 where c6: "on_readCh t c5 = Inr c6" "orderedCh c6 = [m1]" "readCh c6 = []" "rawPktCh c6 = []"
    using on_readCh_single(2) [OF assms(1,2), of c5 0 "[]" t] c5 by auto
  show ?thesis unfolding x1_def [symmetric] x0_def [symmetric] c0_def [symmetric]
    using f1 f2 c5 c6 by (simp add: c3_def [symmetric] c4_def [symmetric])
qed

text \<open>A message of 256 chunks announces 0 chunks, and the receiver drops each of them.\<close>

lemma oversized_message_dropped:
  assumes "nchunks p = 256" "readCh c = [payload_of seq p j]"
  shows "on_readCh now c = Inr (c\<lparr>readCh := []\<rparr>)"
proof -
  have "payload_of seq p j ! 3 = 0"
    using assms(1) by (simp add: payload_of_def chunk_payload_def nth_append)
  then show ?thesis using assms(2) by (simp add: on_readCh_def)
qed

text \<open>A write of no bytes uses up a write number and sends nothing, so the receiver waits for that number: when the next
  message arrives, it stays undelivered, the stall timer is armed, and when it fires the connection is closed.\<close>

theorem empty_write_closes_receiver:
  assumes "\<not> rc_closed c" "sendable m" "nchunks m = 1"
  shows "pubTrack (fst (rtp_Write ok_track now [] c)) = pubTrack c \<and> seqNum (fst (rtp_Write ok_track now [] c)) = seqNum c + 1
    \<and> (\<exists>r. on_readCh t (NewRTPConn key\<lparr>readCh := [payload_of 1 m 0]\<rparr>) = Inr r
         \<and> orderedCh r = [] \<and> stallCh r = Some (t + reassemblyTimeout) \<and> rc_closed (on_stall t' r))"
proof (intro conjI)
  show "pubTrack (fst (rtp_Write ok_track now [] c)) = pubTrack c" "seqNum (fst (rtp_Write ok_track now [] c)) = seqNum c + 1"
    using assms(1) by (simp_all add: rtp_Write_def nextSeq_rtp_def maxVP8Data_def)
  let ?c = "NewRTPConn key\<lparr>readCh := []\<rparr>" and ?raw = "payload_of 1 m 0"
  note fl = payload_of_fields [OF assms(2), of 0 1]
  define c1 where "c1 = ?c\<lparr>reassembly := [1 \<mapsto> \<lparr>chunks = [Some (chunk_of m 0)], rb_total = 1, rb_got = 1\<rparr>]\<rparr>"
  have f: "reassembly c1 = [1 \<mapsto> \<lparr>chunks = [Some (chunk_of m 0)], rb_total = 1, rb_got = 1\<rparr>]" "nextReadSeq c1 = 0"
    "stallCh c1 = None" "orderedCh c1 = []"
    by (simp_all add: c1_def NewRTPConn_def)
  have "deliverReady c1 = c1" by (subst deliverReady.simps) (simp add: rb_complete_def f)
  then have re: "reassemble_chunk ?raw ?c = Inr c1"
    using fl assms(3) by (simp add: reassemble_chunk_def Let_def c1_def) (simp add: NewRTPConn_def)
  have ahead: "hasBufferedAhead (c1\<lparr>stallCh := x\<rparr>)" "hasBufferedAhead c1" for x
    by (auto simp: hasBufferedAhead_def rb_complete_def f intro!: bexI [of _ 1])
  let ?r = "c1\<lparr>stallCh := Some (t + reassemblyTimeout)\<rparr>"
  have "update_stall t c1 = ?r" using ahead by (simp add: update_stall_def Let_def f)
  then have "on_readCh t (NewRTPConn key\<lparr>readCh := [?raw]\<rparr>) = Inr ?r"
    using fl assms(3) re by (simp add: on_readCh_def)
  moreover have "orderedCh ?r = []" "stallCh ?r = Some (t + reassemblyTimeout)" "rc_closed (on_stall t' ?r)"
    by (simp_all add: f on_stall_def rb_complete_def rtp_Close_def)
  ultimately show "\<exists>r. on_readCh t (NewRTPConn key\<lparr>readCh := [payload_of 1 m 0]\<rparr>) = Inr r
         \<and> orderedCh r = [] \<and> stallCh r = Some (t + reassemblyTimeout) \<and> rc_closed (on_stall t' r)" by blast
qed

end
