(* ===== verification/Go_Net.thy ===== *)
theory Go_Net
  imports Proxy_Prelude "HOL-Library.Sublist"
begin

text \<open>
  The parts of Go's \<^verbatim>\<open>strings\<close>, \<^verbatim>\<open>strconv\<close>, \<^verbatim>\<open>net\<close> and \<^verbatim>\<open>errors\<close> packages that the proxy's own code uses, on strings of
  bytes: cutting at separators, decimal numbers, joining and splitting of host and port, errors that wrap other errors.
\<close>

section \<open>Strings\<close>

text \<open>\<^verbatim>\<open>strings.SplitN(s, sep, 2)\<close> for a separator of one byte: None when it does not occur.\<close>

definition cut2 :: "char \<Rightarrow> string \<Rightarrow> (string \<times> string) option" where
  "cut2 sep s = (case dropWhile (\<lambda>c. c \<noteq> sep) s of [] \<Rightarrow> None | _ # rest \<Rightarrow> Some (takeWhile (\<lambda>c. c \<noteq> sep) s, rest))"

definition TrimPrefix :: "string \<Rightarrow> string \<Rightarrow> string" where
  "TrimPrefix p s = (if prefix p s then drop (length p) s else s)"

definition HasPrefix :: "string \<Rightarrow> string \<Rightarrow> bool" where
  "HasPrefix p s = prefix p s"

definition HasSuffix :: "string \<Rightarrow> string \<Rightarrow> bool" where
  "HasSuffix p s = suffix p s"

definition Contains :: "string \<Rightarrow> string \<Rightarrow> bool" where
  "Contains s p = sublist p s"

text \<open>White space and case as far as ASCII goes.\<close>

definition is_space :: "char \<Rightarrow> bool" where
  "is_space c \<longleftrightarrow> c \<in> {CHR 0x20, CHR 0x09, CHR 0x0A, CHR 0x0B, CHR 0x0C, CHR 0x0D}"

definition TrimSpace :: "string \<Rightarrow> string" where
  "TrimSpace s = rev (dropWhile is_space (rev (dropWhile is_space s)))"

definition lower :: "char \<Rightarrow> char" where
  "lower c = (if 65 \<le> (of_char c :: nat) \<and> (of_char c :: nat) \<le> 90 then char_of ((of_char c :: nat) + 32) else c)"

definition ToLower :: "string \<Rightarrow> string" where
  "ToLower s = map lower s"

section \<open>Decimal numbers\<close>

definition is_digit :: "char \<Rightarrow> bool" where
  "is_digit c \<longleftrightarrow> 48 \<le> (of_char c :: nat) \<and> (of_char c :: nat) \<le> 57"

fun parse_digits :: "nat \<Rightarrow> string \<Rightarrow> nat option" where
  "parse_digits acc [] = Some acc"
| "parse_digits acc (c # cs) = (if is_digit c then parse_digits (10 * acc + (of_char c - 48)) cs else None)"

definition parse_nat :: "string \<Rightarrow> nat option" where
  "parse_nat s = (if s = [] then None else parse_digits 0 s)"

text \<open>\<^verbatim>\<open>strconv.ParseInt(s, 10, 64)\<close>: an optional sign, digits, and the range of 64 bits.\<close>

definition ParseInt64 :: "string \<Rightarrow> int option" where
  "ParseInt64 s =
     (let (neg, ds) = (case s of CHR ''-'' # r \<Rightarrow> (True, r) | CHR ''+'' # r \<Rightarrow> (False, r) | _ \<Rightarrow> (False, s))
      in case parse_nat ds of
           None \<Rightarrow> None
         | Some n \<Rightarrow> if neg then (if n \<le> 2 ^ 63 then Some (- int n) else None)
                     else (if n < 2 ^ 63 then Some (int n) else None))"

fun Itoa_nat :: "nat \<Rightarrow> string" where
  "Itoa_nat n = (if n < 10 then [char_of (48 + n)] else Itoa_nat (n div 10) @ [char_of (48 + n mod 10)])"

declare Itoa_nat.simps [simp del]

section \<open>Host and port\<close>

definition JoinHostPort :: "string \<Rightarrow> string \<Rightarrow> string" where
  "JoinHostPort host port = (if CHR '':'' \<in> set host then ''['' @ host @ '']:'' @ port else host @ '':'' @ port)"

text \<open>\<^verbatim>\<open>net.SplitHostPort\<close>, without the texts of its errors.\<close>

definition last_colon :: "string \<Rightarrow> (string \<times> string) option" where
  "last_colon s = (case cut2 CHR '':'' (rev s) of None \<Rightarrow> None | Some (a, b) \<Rightarrow> Some (rev b, rev a))"

definition SplitHostPort :: "string \<Rightarrow> (string \<times> string) option" where
  "SplitHostPort hostport =
     (case last_colon hostport of
        None \<Rightarrow> None
      | Some (before, port) \<Rightarrow>
          (case hostport of
             CHR ''['' # r \<Rightarrow>
               (case cut2 CHR '']'' r of
                  None \<Rightarrow> None
                | Some (host, after) \<Rightarrow>
                    if after = CHR '':'' # port \<and> CHR ''['' \<notin> set r \<and> CHR '']'' \<notin> set after
                    then Some (host, port) else None)
           | _ \<Rightarrow> if CHR '':'' \<in> set before \<or> CHR ''['' \<in> set hostport \<or> CHR '']'' \<in> set hostport then None
                  else Some (before, port)))"

section \<open>Errors\<close>

text \<open>An error that wraps another one keeps it reachable for \<^verbatim>\<open>errors.As\<close> and \<^verbatim>\<open>errors.Is\<close>; printing one into a message does not.\<close>

datatype goerr = RateLimitError int string | DisconnectError string | ErrCredentialsExpired | ErrContext | Errorf string | Wrapf string goerr

fun IsRateLimitError :: "goerr \<Rightarrow> int option" where
  "IsRateLimitError (RateLimitError code msg) = Some code"
| "IsRateLimitError (Wrapf msg e) = IsRateLimitError e"
| "IsRateLimitError _ = None"

fun is_expired_error :: "goerr \<Rightarrow> bool" where
  "is_expired_error ErrCredentialsExpired = True"
| "is_expired_error (Wrapf msg e) = is_expired_error e"
| "is_expired_error _ = False"

fun as_disconnect :: "goerr \<Rightarrow> string option" where
  "as_disconnect (DisconnectError nonce) = Some nonce"
| "as_disconnect (Wrapf msg e) = as_disconnect e"
| "as_disconnect _ = None"

section \<open>Lemmas\<close>

lemma cut2_append: "sep \<notin> set a \<Longrightarrow> cut2 sep (a @ sep # b) = Some (a, b)"
proof -
  assume "sep \<notin> set a"
  then have "\<And>c. c \<in> set a \<Longrightarrow> c \<noteq> sep" by auto
  then show ?thesis by (simp add: cut2_def dropWhile_append2 takeWhile_append2)
qed

lemma cut2_None_iff: "cut2 sep s = None \<longleftrightarrow> sep \<notin> set s"
proof -
  have "cut2 sep s = None \<longleftrightarrow> dropWhile (\<lambda>c. c \<noteq> sep) s = []"
  proof (cases "dropWhile (\<lambda>c. c \<noteq> sep) s")
    case Nil
    show ?thesis unfolding cut2_def Nil list.case by (simp only: simp_thms)
  next
    case (Cons x r)
    show ?thesis unfolding cut2_def Cons list.case by simp
  qed
  also have "\<dots> \<longleftrightarrow> (\<forall>c\<in>set s. c \<noteq> sep)" by (rule dropWhile_eq_Nil_conv)
  finally show ?thesis by blast
qed

lemma cut2_SomeD: "cut2 sep s = Some (a, b) \<Longrightarrow> s = a @ sep # b \<and> sep \<notin> set a"
proof -
  assume c: "cut2 sep s = Some (a, b)"
  then have "sep \<in> set s" using cut2_None_iff [of sep s] by (cases "sep \<in> set s") auto
  then obtain x y where s: "s = x @ sep # y" "sep \<notin> set x" by (meson split_list_first)
  then show ?thesis using c cut2_append [OF s(2), of y] by simp
qed

lemma digit_char: "d < 10 \<Longrightarrow> is_digit (char_of (48 + d)) \<and> (of_char (char_of (48 + d) :: char) :: nat) = 48 + d"
  by (simp add: is_digit_def)

lemma parse_digits_append:
  "parse_digits acc (xs @ ys) = (case parse_digits acc xs of None \<Rightarrow> None | Some n \<Rightarrow> parse_digits n ys)"
  by (induction xs arbitrary: acc) simp_all

lemma Itoa_not_Nil: "Itoa_nat n \<noteq> []"
  by (subst Itoa_nat.simps) simp

lemma Itoa_digits: "c \<in> set (Itoa_nat n) \<Longrightarrow> is_digit c"
proof (induction n rule: Itoa_nat.induct)
  case (1 n)
  show ?case
  proof (cases "n < 10")
    case True
    then show ?thesis using 1(2) digit_char [of n] by (subst (asm) Itoa_nat.simps) simp
  next
    case False
    then show ?thesis using 1 digit_char [of "n mod 10"] by (subst (asm) (2) Itoa_nat.simps) auto
  qed
qed

lemma parse_digits_Itoa: "parse_digits 0 (Itoa_nat n) = Some n"
proof (induction n rule: Itoa_nat.induct)
  case (1 n)
  show ?case
  proof (cases "n < 10")
    case True
    then show ?thesis using digit_char [of n] by (subst Itoa_nat.simps) simp
  next
    case False
    then have IH: "parse_digits 0 (Itoa_nat (n div 10)) = Some (n div 10)" using 1 by simp
    have d: "is_digit (char_of (48 + n mod 10))" "(of_char (char_of (48 + n mod 10) :: char) :: nat) = 48 + n mod 10"
      using digit_char [of "n mod 10"] by simp_all
    show ?thesis using False IH d by (subst Itoa_nat.simps) (simp add: parse_digits_append)
  qed
qed

lemma ParseInt64_Itoa: "n < 2 ^ 63 \<Longrightarrow> ParseInt64 (Itoa_nat n) = Some (int n)"
proof -
  assume n: "n < 2 ^ 63"
  obtain c cs where s: "Itoa_nat n = c # cs" using Itoa_not_Nil [of n] by (cases "Itoa_nat n") auto
  have "is_digit c" using Itoa_digits [of c n] s by simp
  then have "c \<noteq> CHR ''-''" "c \<noteq> CHR ''+''" by (auto simp: is_digit_def)
  then have "(case Itoa_nat n of CHR ''-'' # r \<Rightarrow> (True, r) | CHR ''+'' # r \<Rightarrow> (False, r) | _ \<Rightarrow> (False, Itoa_nat n)) = (False, Itoa_nat n)"
    unfolding s by (auto split: char.splits bool.splits)
  then show ?thesis
    using n parse_digits_Itoa [of n] Itoa_not_Nil [of n] by (simp add: ParseInt64_def parse_nat_def)
qed

end
