(* ===== verification/Turn_Manager.thy ===== *)
theory Turn_Manager
  imports Go_Net "HOL-Library.Multiset"
begin

text \<open>
  TURN credentials and relay allocations (\<^verbatim>\<open>internal/turn/credentials.go\<close>, \<^verbatim>\<open>internal/turn/manager.go\<close>, and the data of
  \<^verbatim>\<open>internal/provider/provider.go\<close>): expiry of credentials, the refresh timer, creating allocations one by one, all at once and
  in batches with retries.  The TURN library, the network and the credentials service are arguments.
\<close>

section \<open>Credentials\<close>

record TURNServer =
  srv_Host :: string
  srv_Port :: string

record Credentials =
  Username :: string
  Password :: string
  Host :: string
  Port :: string
  Servers :: "TURNServer list"

text \<open>Seconds; \<^verbatim>\<open>time.Now().Unix()+60\<close> is a 64-bit sum.\<close>

definition credentialsExpired :: "int \<Rightarrow> Credentials \<Rightarrow> bool" where
  "credentialsExpired now creds =
     (case cut2 CHR '':'' (Username creds) of
        None \<Rightarrow> False
      | Some (e, _) \<Rightarrow> (case ParseInt64 e of None \<Rightarrow> False | Some expiry \<Rightarrow> i64 (now + 60) > expiry))"

definition margin :: int where "margin = 300000000000"
definition maxAllocationAge :: int where "maxAllocationAge = 14400000000000"
definition minute :: int where "minute = 60000000000"

text \<open>\<^verbatim>\<open>time.Until\<close> saturates at the ends of the 64-bit range.\<close>

definition sat64 :: "int \<Rightarrow> int" where
  "sat64 x = max (- (2 ^ 63)) (min (2 ^ 63 - 1) x)"

text \<open>\<^verbatim>\<open>time.Unix\<close> keeps seconds since year 1 in 64 bits, so a time near the end of the range wraps.\<close>

definition time_Unix :: "int \<Rightarrow> int" where
  "time_Unix sec = i64 (sec + 62135596800) - 62135596800"

text \<open>The delay of the refresh timer in nanoseconds; \<open>now\<close> is in nanoseconds since 1970.\<close>

definition CredentialRefreshTimer :: "int \<Rightarrow> Credentials \<Rightarrow> int" where
  "CredentialRefreshTimer now creds =
     (case cut2 CHR '':'' (Username creds) of
        None \<Rightarrow> maxAllocationAge
      | Some (e, _) \<Rightarrow>
          (case ParseInt64 e of
             None \<Rightarrow> maxAllocationAge
           | Some expiry \<Rightarrow>
               let credDelay = sat64 (time_Unix expiry * 1000000000 - margin - now);
                   credDelay' = (if credDelay < minute then minute else credDelay)
               in if maxAllocationAge < credDelay' then maxAllocationAge else credDelay'))"

definition EnvProvider_FetchCredentials :: "(string \<Rightarrow> string) \<Rightarrow> goerr + Credentials option" where
  "EnvProvider_FetchCredentials getenv =
     (let host = getenv ''TURN_HOST''; port = getenv ''TURN_PORT''; user = getenv ''TURN_USERNAME''; pass = getenv ''TURN_PASSWORD''
      in if host = [] \<or> port = [] \<or> user = [] \<or> pass = [] then Inr None
         else Inr (Some \<lparr>Username = user, Password = pass, Host = host, Port = port, Servers = []\<rparr>))"

text \<open>The cache of a \<^verbatim>\<open>CachedProvider\<close>; \<open>fallback\<close> is what the provider behind it answers.\<close>

definition CachedProvider_FetchCredentials ::
  "(goerr + Credentials option) \<Rightarrow> Credentials option list \<Rightarrow> Credentials option list \<times> (goerr + Credentials option)" where
  "CachedProvider_FetchCredentials fallback cache = (case cache of c # cs \<Rightarrow> (cs, Inr c) | [] \<Rightarrow> ([], fallback))"

definition ParseTURNURL :: "string \<Rightarrow> string \<times> string" where
  "ParseTURNURL turnURL =
     (let clean = TrimPrefix ''turns:'' (TrimPrefix ''turn:'' (takeWhile (\<lambda>c. c \<noteq> CHR ''?'') turnURL))
      in case cut2 CHR '':'' clean of Some (h, p) \<Rightarrow> (h, p) | None \<Rightarrow> (clean, ''3478''))"

section \<open>Allocations\<close>

record Allocation =
  RelayAddr :: string
  al_Creds :: Credentials
  CreatedAt :: int

text \<open>
  What the network and the TURN library answer in one attempt: the outcome of dialling (or of opening a UDP socket), of creating the client, of
  listening, and of the allocation, whose error comes with its text.
\<close>

record turn_outcome =
  dial_err :: "goerr option"
  client_err :: "goerr option"
  listen_err :: "goerr option"
  alloc_res :: "(goerr \<times> string) + string"

datatype resource = RConn | RClient | RRelay
datatype res_event = Open resource | Close resource

definition dialAndAllocate ::
  "(bool \<Rightarrow> string \<Rightarrow> string \<Rightarrow> string \<Rightarrow> turn_outcome) \<Rightarrow> bool \<Rightarrow> int \<Rightarrow> Credentials \<Rightarrow> res_event list \<times> (goerr + Allocation)" where
  "dialAndAllocate net useTCP now creds =
     (let addr = JoinHostPort (Host creds) (Port creds); o1 = net useTCP addr (Username creds) (Password creds)
      in case dial_err o1 of
           Some e \<Rightarrow> ([], Inl (Wrapf (if useTCP then ''dial TURN server'' else ''listen UDP'') e))
         | None \<Rightarrow>
             (case client_err o1 of
                Some e \<Rightarrow> ([Open RConn, Close RConn], Inl (Wrapf ''create TURN client'' e))
              | None \<Rightarrow>
                  (case listen_err o1 of
                     Some e \<Rightarrow> ([Open RConn, Open RClient, Close RClient, Close RConn], Inl (Wrapf ''TURN listen'' e))
                   | None \<Rightarrow>
                       (case alloc_res o1 of
                          Inl (e, errStr) \<Rightarrow>
                            ([Open RConn, Open RClient, Close RClient, Close RConn],
                             Inl (if Contains errStr ''401'' \<or> Contains errStr ''Unauthorized''
                                  then Wrapf errStr ErrCredentialsExpired else Wrapf ''TURN allocate'' e))
                        | Inr relay \<Rightarrow>
                            ([Open RConn, Open RClient, Open RRelay],
                             Inr \<lparr>RelayAddr = relay, al_Creds = creds, CreatedAt = now\<rparr>)))))"

definition Allocation_Close :: "res_event list" where
  "Allocation_Close = [Close RRelay, Close RClient, Close RConn]"

text \<open>\<open>mgr_creds\<close> tells whether there is a credentials provider.\<close>

record Manager =
  allocations :: "Allocation list"
  mgr_creds :: bool
  initialCreds :: "Credentials option"
  useTCP :: bool

definition NewManager :: "bool \<Rightarrow> bool \<Rightarrow> Manager" where
  "NewManager has_creds tcp = \<lparr>allocations = [], mgr_creds = has_creds, initialCreds = None, useTCP = tcp\<rparr>"

definition SetInitialCredentials :: "Credentials option \<Rightarrow> Manager \<Rightarrow> Manager" where
  "SetInitialCredentials creds m = m\<lparr>initialCreds := creds\<rparr>"

text \<open>
  \<open>fetch\<close> is what the provider answers; it is used only on two branches.  The error of a fetch with expired initial credentials is
  printed into the message of \<open>ErrCredentialsExpired\<close>.  A provider that is nil, or that answers with nil credentials and no error, makes the code
  dereference nil.
\<close>

definition pick_server :: "nat \<Rightarrow> Credentials \<Rightarrow> Credentials" where
  "pick_server idx creds =
     (if length (Servers creds) > 1
      then let srv = Servers creds ! (idx mod length (Servers creds)) in creds\<lparr>Host := srv_Host srv, Port := srv_Port srv\<rparr>
      else creds)"

definition choose_creds :: "int \<Rightarrow> (goerr + Credentials option) \<Rightarrow> Manager \<Rightarrow> panic + (goerr + Credentials option)" where
  "choose_creds now_s fetch m =
     (case initialCreds m of
        Some ic \<Rightarrow>
          if \<not> credentialsExpired now_s ic then Inr (Inr (Some ic))
          else if mgr_creds m then
            (case fetch of Inl e \<Rightarrow> Inr (Inl (Wrapf ''fetch fresh credentials'' ErrCredentialsExpired)) | Inr c \<Rightarrow> Inr (Inr c))
          else Inr (Inl (Wrapf (Username ic) ErrCredentialsExpired))
      | None \<Rightarrow>
          if mgr_creds m then
            (case fetch of Inl e \<Rightarrow> Inr (Inl (Wrapf ''fetch credentials'' e)) | Inr c \<Rightarrow> Inr (Inr c))
          else Inl NilDereference)"

definition createAllocation ::
  "(bool \<Rightarrow> string \<Rightarrow> string \<Rightarrow> string \<Rightarrow> turn_outcome) \<Rightarrow> (goerr + Credentials option) \<Rightarrow> int \<Rightarrow> nat \<Rightarrow> Manager
   \<Rightarrow> panic + (res_event list \<times> (goerr + Allocation))" where
  "createAllocation net fetch now idx m =
     (case choose_creds (now div 1000000000) fetch m of
        Inl p \<Rightarrow> Inl p
      | Inr (Inl e) \<Rightarrow> Inr ([], Inl e)
      | Inr (Inr None) \<Rightarrow> Inl NilDereference
      | Inr (Inr (Some creds)) \<Rightarrow> Inr (dialAndAllocate net (useTCP m) now (pick_server idx creds)))"

text \<open>The results of the goroutines of \<^verbatim>\<open>Allocate\<close>, in the order in which they finish.\<close>

definition successes :: "(nat \<times> (goerr + Allocation)) list \<Rightarrow> Allocation list" where
  "successes rs = concat (map (\<lambda>r. case snd r of Inl e \<Rightarrow> [] | Inr a \<Rightarrow> [a]) rs)"

definition failures :: "(nat \<times> (goerr + Allocation)) list \<Rightarrow> goerr list" where
  "failures rs = concat (map (\<lambda>r. case snd r of Inl e \<Rightarrow> [Wrapf ''allocation'' e] | Inr a \<Rightarrow> []) rs)"

definition Allocate :: "(nat \<times> (goerr + Allocation)) list \<Rightarrow> Manager \<Rightarrow> Manager \<times> (goerr + Allocation list)" where
  "Allocate rs m =
     (let allocs = successes rs; errs = failures rs; m' = m\<lparr>allocations := allocations m @ allocs\<rparr>
      in if allocs = [] \<and> errs \<noteq> [] then (m', Inl (Wrapf ''all allocations failed, first error'' (hd errs)))
         else (m', Inr allocs))"

definition AllocateWithCredentials ::
  "(bool \<Rightarrow> string \<Rightarrow> string \<Rightarrow> string \<Rightarrow> turn_outcome) \<Rightarrow> int \<Rightarrow> Credentials \<Rightarrow> Manager \<Rightarrow> Manager \<times> (goerr + Allocation)" where
  "AllocateWithCredentials net now creds m =
     (case snd (dialAndAllocate net (useTCP m) now creds) of
        Inl e \<Rightarrow> (m, Inl e)
      | Inr a \<Rightarrow> (m\<lparr>allocations := allocations m @ [a]\<rparr>, Inr a))"

definition AllCredentials :: "Manager \<Rightarrow> Credentials list" where
  "AllCredentials m = map al_Creds (allocations m)"

definition CloseAll :: "Manager \<Rightarrow> Manager \<times> res_event list" where
  "CloseAll m = (m\<lparr>allocations := []\<rparr>, concat (map (\<lambda>_. Allocation_Close) (allocations m)))"

section \<open>Retries and batches\<close>

definition DefaultBatchSize :: int where "DefaultBatchSize = 2"
definition DefaultBatchDelay :: int where "DefaultBatchDelay = 2000000000"
definition MaxImmediateRetries :: nat where "MaxImmediateRetries = 3"
definition MaxBatchDelay :: int where "MaxBatchDelay = 300000000000"
definition FloodRetryDelay :: int where "FloodRetryDelay = 300000000000"
definition MaxNonRLRetries :: nat where "MaxNonRLRetries = 5"

record GradualOpts =
  BatchSize :: int
  BatchDelay :: int

definition withDefaults :: "GradualOpts \<Rightarrow> GradualOpts" where
  "withDefaults opts =
     \<lparr>BatchSize = (if BatchSize opts \<le> 0 then DefaultBatchSize else BatchSize opts),
      BatchDelay = (if BatchDelay opts \<le> 0 then DefaultBatchDelay else BatchDelay opts)\<rparr>"

text \<open>
  \<open>try k\<close> is the result of attempt \<open>k\<close> and \<open>cancelled k\<close> whether the context ends during the wait after it.
\<close>

function retry_from :: "(nat \<Rightarrow> goerr + 'a) \<Rightarrow> (nat \<Rightarrow> bool) \<Rightarrow> nat \<Rightarrow> goerr + 'a" where
  "retry_from attempt_res cancelled attempt =
     (if attempt > MaxImmediateRetries then Inl (Errorf ''unreachable'')
      else case attempt_res attempt of
             Inr a \<Rightarrow> Inr a
           | Inl e \<Rightarrow>
               (case IsRateLimitError e of
                  None \<Rightarrow> Inl e
                | Some code \<Rightarrow>
                    if attempt = MaxImmediateRetries then Inl e
                    else if code \<noteq> 6 \<and> code \<noteq> 1105 then Inl e
                    else if cancelled attempt then Inl ErrContext
                    else retry_from attempt_res cancelled (attempt + 1)))"
  by pat_completeness auto
termination by (relation "measure (\<lambda>(r, c, k). Suc MaxImmediateRetries - k)") auto

declare retry_from.simps [simp del]

definition createAllocationWithRetry :: "(nat \<Rightarrow> goerr + 'a) \<Rightarrow> (nat \<Rightarrow> bool) \<Rightarrow> goerr + 'a" where
  "createAllocationWithRetry attempt_res cancelled = retry_from attempt_res cancelled 0"

text \<open>
  The state of the goroutine of \<^verbatim>\<open>AllocateGradual\<close>: pending items as index and number of failures, the allocations made with their
  indices, the indices given up (the error in the log), the delay, and the batches sent.
\<close>

record gradual =
  g_pending :: "(nat \<times> nat) list"
  g_created :: "(nat \<times> Allocation) list"
  g_failed :: "nat list"
  g_delay :: int
  g_batches :: "(Allocation list \<times> bool) list"

definition gradual_start :: "nat \<Rightarrow> GradualOpts \<Rightarrow> gradual" where
  "gradual_start n opts =
     \<lparr>g_pending = map (\<lambda>i. (i, 0)) [0..<n], g_created = [], g_failed = [], g_delay = BatchDelay (withDefaults opts), g_batches = []\<rparr>"

definition batch_of :: "GradualOpts \<Rightarrow> gradual \<Rightarrow> (nat \<times> nat) list" where
  "batch_of opts g = take (nat (BatchSize (withDefaults opts))) (g_pending g)"

text \<open>One result of a batch; the items to retry and whether to escalate the delay are collected.\<close>

type_synonym batch_result = "(nat \<times> nat) \<times> (goerr + Allocation)"

fun take_result :: "batch_result \<Rightarrow> (nat \<times> nat) list \<times> bool \<times> Allocation list \<times> gradual \<Rightarrow> (nat \<times> nat) list \<times> bool \<times> Allocation list \<times> gradual" where
  "take_result ((idx, retries), Inr a) (retry, esc, ba, g) = (retry, esc, ba @ [a], g\<lparr>g_created := g_created g @ [(idx, a)]\<rparr>)"
| "take_result ((idx, retries), Inl e) (retry, esc, ba, g) =
     (case IsRateLimitError e of
        Some code \<Rightarrow>
          if code = 14 then (retry @ [(idx, retries)], esc, ba, g\<lparr>g_delay := FloodRetryDelay\<rparr>)
          else (retry @ [(idx, retries)], esc \<or> code = 9 \<or> code = 29, ba, g)
      | None \<Rightarrow>
          if retries + 1 \<le> MaxNonRLRetries then (retry @ [(idx, retries + 1)], esc, ba, g)
          else (retry, esc, ba, g\<lparr>g_failed := g_failed g @ [idx]\<rparr>))"

text \<open>One round of the loop, with the results of the batch in the order of arrival.\<close>

definition gradual_round :: "GradualOpts \<Rightarrow> batch_result list \<Rightarrow> gradual \<Rightarrow> gradual" where
  "gradual_round opts rs g =
     (let rest = drop (nat (BatchSize (withDefaults opts))) (g_pending g);
          (retry, esc, ba, g1) = fold take_result rs ([], False, [], g\<lparr>g_pending := rest\<rparr>);
          g2 = g1\<lparr>g_pending := rest @ retry\<rparr>;
          g3 = (if esc then g2\<lparr>g_delay := (if g_delay g2 * 2 > MaxBatchDelay then MaxBatchDelay else g_delay g2 * 2)\<rparr> else g2)
      in g3\<lparr>g_batches := g_batches g3 @ [(ba, g_pending g3 = [])]\<rparr>)"

text \<open>The loop runs while something is pending; every round gets one result for each item of its batch.  It may stop at any time when the context ends.\<close>

inductive gradual_reach :: "nat \<Rightarrow> GradualOpts \<Rightarrow> gradual \<Rightarrow> bool" for n opts where
  gr_start: "gradual_reach n opts (gradual_start n opts)"
| gr_round: "gradual_reach n opts g \<Longrightarrow> g_pending g \<noteq> [] \<Longrightarrow> mset (map fst rs) = mset (batch_of opts g)
     \<Longrightarrow> gradual_reach n opts (gradual_round opts rs g)"

inductive_cases gradual_reachE: "gradual_reach n opts g"

end
