(* ===== verification/Go_Ip.thy ===== *)
theory Go_Ip
  imports Go_Net
begin

text \<open>
  IP addresses as text, as Go's \<^verbatim>\<open>net.ParseIP\<close> reads them and \<^verbatim>\<open>net.IP.String\<close> writes them.  Of the parser the proxy uses only
  whether it accepts.
\<close>

section \<open>Reading\<close>

text \<open>A decimal field of an IPv4 address: one to three digits, no leading zero, at most 255.\<close>

definition ipv4_field :: "string \<Rightarrow> bool" where
  "ipv4_field f \<longleftrightarrow> f \<noteq> [] \<and> list_all is_digit f \<and> (length f = 1 \<or> hd f \<noteq> CHR ''0'') \<and> length f \<le> 3
     \<and> (case parse_digits 0 f of None \<Rightarrow> False | Some n \<Rightarrow> n \<le> 255)"

fun split_on :: "char \<Rightarrow> string \<Rightarrow> string list" where
  "split_on sep [] = [[]]"
| "split_on sep (c # cs) = (if c = sep then [] # split_on sep cs else (case split_on sep cs of [] \<Rightarrow> [[c]] | w # ws \<Rightarrow> (c # w) # ws))"

definition is_ipv4 :: "string \<Rightarrow> bool" where
  "is_ipv4 s \<longleftrightarrow> (let fs = split_on CHR ''.'' s in length fs = 4 \<and> list_all ipv4_field fs)"

definition is_hex :: "char \<Rightarrow> bool" where
  "is_hex c \<longleftrightarrow> is_digit c \<or> (97 \<le> (of_char c :: nat) \<and> (of_char c :: nat) \<le> 102) \<or> (65 \<le> (of_char c :: nat) \<and> (of_char c :: nat) \<le> 70)"

text \<open>
  The loop of \<^verbatim>\<open>parseIPv6\<close>: \<open>i\<close> bytes are filled, \<open>ell\<close> tells whether an ellipsis was seen.  A group has one to four hexadecimal
  digits; the last one may be an IPv4 address.  The number of rounds is at most eight, one for each group.
\<close>

fun ipv6_loop :: "nat \<Rightarrow> nat \<Rightarrow> bool \<Rightarrow> string \<Rightarrow> bool" where
  "ipv6_loop 0 i ell s = (s = [] \<and> (if i < 16 then ell else \<not> ell))"
| "ipv6_loop (Suc fuel) i ell s =
     (if i \<ge> 16 then s = [] \<and> \<not> ell
      else
        let ds = takeWhile is_hex s; rest = dropWhile is_hex s
        in if ds = [] \<or> length ds > 4 then False
           else case rest of
                  [] \<Rightarrow> (if i + 2 < 16 then ell else \<not> ell)
                | c # r \<Rightarrow>
                    if c = CHR ''.''
                    then (ell \<or> i = 12) \<and> i + 4 \<le> 16 \<and> is_ipv4 s \<and> (if i + 4 < 16 then ell else \<not> ell)
                    else if c \<noteq> CHR '':'' \<or> r = [] then False
                    else if hd r = CHR '':''
                    then \<not> ell \<and> (if tl r = [] then i + 2 < 16 else ipv6_loop fuel (i + 2) True (tl r))
                    else ipv6_loop fuel (i + 2) ell r)"

definition is_ipv6 :: "string \<Rightarrow> bool" where
  "is_ipv6 s = (if prefix ''::'' s then (if drop 2 s = [] then True else ipv6_loop 8 0 True (drop 2 s)) else ipv6_loop 8 0 False s)"

text \<open>\<^verbatim>\<open>net.ParseIP(s) != nil\<close>: the first dot or colon decides the family; a zone is not accepted.\<close>

definition ParseIP_ok :: "string \<Rightarrow> bool" where
  "ParseIP_ok s =
     (case dropWhile (\<lambda>c. c \<noteq> CHR ''.'' \<and> c \<noteq> CHR '':'' \<and> c \<noteq> CHR ''%'') s of
        [] \<Rightarrow> False
      | c # _ \<Rightarrow> if c = CHR ''.'' then is_ipv4 s else if c = CHR '':'' then CHR ''%'' \<notin> set s \<and> is_ipv6 s else False)"

section \<open>Writing\<close>

definition ipv4_String :: "bytes \<Rightarrow> string" where
  "ipv4_String b = Itoa_nat (unat (b ! 0)) @ ''.'' @ Itoa_nat (unat (b ! 1)) @ ''.'' @ Itoa_nat (unat (b ! 2)) @ ''.'' @ Itoa_nat (unat (b ! 3))"

definition hex_digit :: "nat \<Rightarrow> char" where
  "hex_digit d = (if d < 10 then char_of (48 + d) else char_of (87 + d))"

text \<open>A group in lower-case hexadecimal without leading zeros.\<close>

definition hex_group :: "nat \<Rightarrow> string" where
  "hex_group n =
     (if n \<ge> 4096 then [hex_digit (n div 4096)] else []) @ (if n \<ge> 256 then [hex_digit (n div 256 mod 16)] else [])
     @ (if n \<ge> 16 then [hex_digit (n div 16 mod 16)] else []) @ [hex_digit (n mod 16)]"

definition ipv6_groups :: "bytes \<Rightarrow> nat list" where
  "ipv6_groups b = map (\<lambda>i. unat (b ! (2 * i)) * 256 + unat (b ! (2 * i + 1))) [0..<8]"

definition zero_run :: "nat list \<Rightarrow> nat \<Rightarrow> nat" where
  "zero_run gs i = length (takeWhile (\<lambda>g. g = 0) (drop i gs))"

text \<open>The first longest run of at least two zero groups, as start and length.\<close>

definition best_run :: "nat list \<Rightarrow> (nat \<times> nat) option" where
  "best_run gs = foldl (\<lambda>best i. let l = zero_run gs i
       in if l \<ge> 2 \<and> (case best of None \<Rightarrow> True | Some (_, bl) \<Rightarrow> l > bl) then Some (i, l) else best) None [0..<8]"

definition join_colon :: "nat list \<Rightarrow> string" where
  "join_colon gs = (case gs of [] \<Rightarrow> [] | g # rest \<Rightarrow> hex_group g @ concat (map (\<lambda>x. CHR '':'' # hex_group x) rest))"

definition ipv6_String :: "bytes \<Rightarrow> string" where
  "ipv6_String b =
     (if take 12 b = replicate 10 0 @ [0xFF, 0xFF] then ipv4_String (drop 12 b)
      else
        let gs = ipv6_groups b
        in case best_run gs of
             None \<Rightarrow> join_colon gs
           | Some (i, l) \<Rightarrow> join_colon (take i gs) @ ''::'' @ join_colon (drop (i + l) gs))"

section \<open>IPv4 texts are IPv4 addresses\<close>

lemma split_on_append: "sep \<notin> set a \<Longrightarrow> split_on sep (a @ sep # b) = a # split_on sep b"
  by (induction a) auto

lemma split_on_single: "sep \<notin> set a \<Longrightarrow> split_on sep a = [a]"
  by (induction a) auto

lemma Itoa_no: "\<not> is_digit c \<Longrightarrow> c \<notin> set (Itoa_nat n)"
  using Itoa_digits by blast

lemma Itoa_length: "length (Itoa_nat n) = (if n < 10 then 1 else if n < 100 then 2 else Suc (length (Itoa_nat (n div 10))))"
proof (cases "n < 10")
  case True
  then show ?thesis by (subst Itoa_nat.simps) simp
next
  case False
  show ?thesis
  proof (cases "n < 100")
    case True
    then have "n div 10 < 10" by auto
    then have "length (Itoa_nat (n div 10)) = 1" by (subst Itoa_nat.simps) simp
    then show ?thesis using False True by (subst Itoa_nat.simps) simp
  next
    case big: False
    then show ?thesis using False by (subst (1) Itoa_nat.simps) simp
  qed
qed

lemma Itoa_no_leading_zero: "n \<noteq> 0 \<Longrightarrow> hd (Itoa_nat n) \<noteq> CHR ''0''"
proof (induction n rule: Itoa_nat.induct)
  case (1 n)
  show ?case
  proof (cases "n < 10")
    case True
    have e: "Itoa_nat n = [char_of (48 + n)]" using True by (subst Itoa_nat.simps) simp
    have "(of_char (char_of (48 + n) :: char) :: nat) = 48 + n" using digit_char [OF True] by simp
    moreover have "(of_char CHR ''0'' :: nat) = 48" by simp
    ultimately have "(char_of (48 + n) :: char) \<noteq> CHR ''0''" using 1(2) by (metis add_cancel_left_right)
    then show ?thesis using e by simp
  next
    case False
    then have "hd (Itoa_nat (n div 10)) \<noteq> CHR ''0''" using 1 by (simp add: div_eq_0_iff)
    moreover have "hd (Itoa_nat n) = hd (Itoa_nat (n div 10))"
      using False Itoa_not_Nil [of "n div 10"] by (subst (1) Itoa_nat.simps) simp
    ultimately show ?thesis by simp
  qed
qed

lemma ipv4_field_Itoa: "n \<le> 255 \<Longrightarrow> ipv4_field (Itoa_nat n)"
proof -
  assume n: "n \<le> 255"
  have l: "length (Itoa_nat n) \<le> 3"
    using n Itoa_length [of n] Itoa_length [of "n div 10"] by (auto split: if_splits)
  have "length (Itoa_nat n) = 1 \<or> hd (Itoa_nat n) \<noteq> CHR ''0''"
    using Itoa_no_leading_zero [of n] Itoa_length [of n] by (cases "n = 0") auto
  then show ?thesis using n l Itoa_digits [of _ n] Itoa_not_Nil [of n] parse_digits_Itoa [of n]
    by (auto simp: ipv4_field_def list_all_iff)
qed

lemma unat_byte_le: "unat (b :: byte) \<le> 255"
proof -
  have "unat b < 2 ^ LENGTH(8)" by (rule unsigned_less)
  then show ?thesis by simp
qed

lemma ipv4_String_is_ip: "ParseIP_ok (ipv4_String b)"
proof -
  let ?f = "\<lambda>i. Itoa_nat (unat (b ! i))"
  have nd: "CHR ''.'' \<notin> set (?f i)" "CHR '':'' \<notin> set (?f i)" "CHR ''%'' \<notin> set (?f i)" for i
    by (rule Itoa_no, simp add: is_digit_def)+
  have s: "ipv4_String b = ?f 0 @ CHR ''.'' # ?f 1 @ CHR ''.'' # ?f 2 @ CHR ''.'' # ?f 3" by (simp add: ipv4_String_def)
  have "split_on CHR ''.'' (ipv4_String b) = [?f 0, ?f 1, ?f 2, ?f 3]"
    unfolding s using nd(1) by (simp add: split_on_append split_on_single)
  then have v4: "is_ipv4 (ipv4_String b)" using ipv4_field_Itoa [OF unat_byte_le] by (simp add: is_ipv4_def)
  have "dropWhile (\<lambda>c. c \<noteq> CHR ''.'' \<and> c \<noteq> CHR '':'' \<and> c \<noteq> CHR ''%'') (ipv4_String b) = CHR ''.'' # ?f 1 @ CHR ''.'' # ?f 2 @ CHR ''.'' # ?f 3"
  proof -
    have "\<And>c. c \<in> set (?f 0) \<Longrightarrow> c \<noteq> CHR ''.'' \<and> c \<noteq> CHR '':'' \<and> c \<noteq> CHR ''%''" using nd [of 0] by metis
    then show ?thesis unfolding s by (subst dropWhile_append2) simp_all
  qed
  then show ?thesis using v4 by (simp add: ParseIP_ok_def)
qed

end
