(* ===== verification/Socks5.thy ===== *)
theory Socks5
  imports Go_Ip
begin

text \<open>
  The SOCKS5 front end (\<^verbatim>\<open>internal/proxy/socks5/socks5.go\<close>) and the matcher that decides which hosts bypass the tunnel
  (\<^verbatim>\<open>internal/bypass/bypass.go\<close>).  A client is the list of bytes it sends; the answers written to it and where the
  connection goes are the result.
\<close>

section \<open>Bypass\<close>

record Matcher =
  bp_domains :: "string list"
  bp_suffixes :: "string list"



definition bypass_Match :: "string \<Rightarrow> Matcher \<Rightarrow> bool" where
  "bypass_Match addr m =
     (let host = ToLower (case SplitHostPort addr of Some (h, p) \<Rightarrow> h | None \<Rightarrow> addr)
      in if ParseIP_ok host then False
         else host \<in> set (bp_domains m) \<or> list_ex (\<lambda>suffix. HasSuffix suffix host) (bp_suffixes m))"

definition DefaultRussianServices :: "string list" where
  "DefaultRussianServices = [
    ''vk.com'', ''vk.me'', ''vk.cc'', ''vk.ru'', ''vkontakte.ru'', ''userapi.com'', ''vk-cdn.net'', ''vkuser.net'',
    ''vkuseraudio.net'', ''vkuservideo.net'', ''vk-portal.net'', ''vk-apps.com'', ''vkmix.com'', ''vkvideo.ru'', ''vkvideo.net'',
    ''yandex.ru'', ''yandex.net'', ''yandex.com'', ''yandex.by'', ''yandex.kz'', ''yandex.ua'', ''ya.ru'', ''yastatic.net'',
    ''yastat.net'', ''yandex-team.ru'', ''yandexcloud.net'', ''yandexdataschool.ru'', ''yadisk.cc'', ''yandexmetrica.com'',
    ''yandex.cloud'', ''yandex.st'', ''yandexadexchange.net'', ''yandex-ad.cn'', ''yandex.fr'', ''taxi.yandex.ru'',
    ''tc.yandex.ru'', ''mts.ru'', ''megafon.ru'', ''beeline.ru'', ''tele2.ru'', ''t2mobile.ru'', ''rt.ru'', ''rostelecom.ru'',
    ''yota.ru'', ''tinkoffmobile.ru'', ''sberbank.ru'', ''sbermobile.ru'', ''rutube.ru'', ''okko.tv'', ''ivi.ru'', ''ivi.tv'',
    ''pochta.ru'', ''russianpost.ru'', ''dom.gosuslugi.ru'', ''gis-zkh.ru'', ''gosuslugi.ru'', ''esia.gosuslugi.ru'',
    ''pfr.gov.ru'', ''nalog.gov.ru'', ''sberbank.ru'', ''online.sberbank.ru'', ''tinkoff.ru'', ''vtb.ru'', ''alfabank.ru'',
    ''raiffeisen.ru'', ''open.ru'', ''sovcombank.ru'', ''halvacard.ru'', ''rosbank.ru'', ''psbank.ru'', ''gazprombank.ru'',
    ''rshb.ru'', ''pochtabank.ru'', ''unicreditbank.ru'', ''mtsbank.ru'', ''yoomoney.ru'', ''homecredit.ru'']"

section \<open>SOCKS5\<close>

datatype socks_error = SErrRead io_error | SErrVersion | SErrCommand byte | SErrAddrType byte

text \<open>Reading the greeting: the methods are read and ignored.\<close>

definition negotiate :: "bytes \<Rightarrow> socks_error + (bytes \<times> bytes)" where
  "negotiate r =
     (case ReadFull 2 r of
        Inl e \<Rightarrow> Inl (SErrRead e)
      | Inr (buf, r1) \<Rightarrow>
          if buf ! 0 \<noteq> 5 then Inl SErrVersion
          else case ReadFull (unat (buf ! 1)) r1 of
                 Inl e \<Rightarrow> Inl (SErrRead e)
               | Inr (methods, r2) \<Rightarrow> Inr ([5, 0], r2))"

definition reply :: "byte \<Rightarrow> bytes" where
  "reply rep = [5, rep, 0, 1, 0, 0, 0, 0, 0, 0]"

definition string_of_bytes :: "bytes \<Rightarrow> string" where
  "string_of_bytes b = map (\<lambda>x. char_of (unat x)) b"

text \<open>The address of a request, by its type.\<close>

definition read_host :: "byte \<Rightarrow> bytes \<Rightarrow> socks_error + (string \<times> bytes)" where
  "read_host atyp r =
     (if atyp = 1 then
        (case ReadFull 4 r of Inl e \<Rightarrow> Inl (SErrRead e) | Inr (a, r1) \<Rightarrow> Inr (ipv4_String a, r1))
      else if atyp = 3 then
        (case ReadFull 1 r of
           Inl e \<Rightarrow> Inl (SErrRead e)
         | Inr (l, r1) \<Rightarrow>
             (case ReadFull (unat (l ! 0)) r1 of Inl e \<Rightarrow> Inl (SErrRead e) | Inr (d, r2) \<Rightarrow> Inr (string_of_bytes d, r2)))
      else if atyp = 4 then
        (case ReadFull 16 r of Inl e \<Rightarrow> Inl (SErrRead e) | Inr (a, r1) \<Rightarrow> Inr (ipv6_String a, r1))
      else Inl (SErrAddrType atyp))"

text \<open>The result comes with what is written to the client: an unsupported command is answered, the other errors are not.\<close>

definition readRequest :: "bytes \<Rightarrow> bytes \<times> (socks_error + (string \<times> bytes))" where
  "readRequest r =
     (case ReadFull 4 r of
        Inl e \<Rightarrow> ([], Inl (SErrRead e))
      | Inr (buf, r1) \<Rightarrow>
          if buf ! 0 \<noteq> 5 then ([], Inl SErrVersion)
          else if buf ! 1 \<noteq> 1 then (reply 7, Inl (SErrCommand (buf ! 1)))
          else case read_host (buf ! 3) r1 of
                 Inl e \<Rightarrow> ([], Inl e)
               | Inr (host, r2) \<Rightarrow>
                   (case ReadFull 2 r2 of
                      Inl e \<Rightarrow> ([], Inl (SErrRead e))
                    | Inr (p, r3) \<Rightarrow> ([], Inr (JoinHostPort host (Itoa_nat (unat (Uint16 p))), r3))))"

text \<open>Where a connection ends up; a relayed one has the bytes that the client has sent after its request.\<close>

datatype socks_result =
    NegotiateFailed socks_error
  | RequestFailed socks_error
  | DialFailed bool string
  | ReplyFailed bool string
  | Relayed bool string bytes

text \<open>
  \<open>bypass\<close> is the matcher if there is one, \<open>direct\<close> and \<open>tunnel\<close> tell whether dialling a target succeeds outside and through the
  tunnel, and \<open>write_ok\<close> whether writing the last answer does.  The first component of a result tells whether the tunnel was bypassed.
\<close>

definition handleConn ::
  "Matcher option \<Rightarrow> (string \<Rightarrow> bool) \<Rightarrow> (string \<Rightarrow> bool) \<Rightarrow> bool \<Rightarrow> bytes \<Rightarrow> bytes list \<times> socks_result" where
  "handleConn bypass direct tunnel write_ok client =
     (case negotiate client of
        Inl e \<Rightarrow> ([], NegotiateFailed e)
      | Inr (w0, r1) \<Rightarrow>
          (case readRequest r1 of
             (w1, Inl e) \<Rightarrow> (w0 # (if w1 = [] then [] else [w1]), RequestFailed e)
           | (w1, Inr (target, r2)) \<Rightarrow>
               let by = (case bypass of None \<Rightarrow> False | Some m \<Rightarrow> bypass_Match target m)
               in if \<not> (if by then direct target else tunnel target) then ([w0, reply 5], DialFailed by target)
                  else if \<not> write_ok then ([w0, reply 0], ReplyFailed by target)
                  else ([w0, reply 0], Relayed by target r2)))"

section \<open>What the matcher accepts\<close>




section \<open>Requests\<close>

lemma char_of_byte: "(of_char (char_of (unat (x :: byte)) :: char) :: nat) = unat x"
  using unat_byte_le [of x] by simp

lemma socks5_request_ipv4:
  assumes "length a4 = 4"
  shows "readRequest ([5, 1, rsv, 1] @ a4 @ PutUint16 port @ early) = ([], Inr (JoinHostPort (ipv4_String a4) (Itoa_nat (unat port)), early))"
proof -
  have hd4: "ReadFull 4 ([5, 1, rsv, t] @ r) = Inr ([5, 1, rsv, t], r)" for t r by (rule ReadFull_append) simp
  have p: "ReadFull 2 (PutUint16 port @ early) = Inr (PutUint16 port, early)" by (rule ReadFull_append) simp
  show ?thesis unfolding readRequest_def hd4 using p assms by (simp add: read_host_def)
qed

text \<open>The request for a domain name of at most 255 bytes, an IPv4 or an IPv6 address is read as exactly that host and port, whatever
  the reserved byte, and what the client has sent after it is left for the relay.\<close>

theorem socks5_request_exact:
  assumes "length dn < 256" "length a4 = 4" "length a6 = 16"
  shows "readRequest ([5, 1, rsv, 3, of_nat (length dn)] @ dn @ PutUint16 port @ early)
      = ([], Inr (JoinHostPort (string_of_bytes dn) (Itoa_nat (unat port)), early))
    \<and> readRequest ([5, 1, rsv, 1] @ a4 @ PutUint16 port @ early) = ([], Inr (JoinHostPort (ipv4_String a4) (Itoa_nat (unat port)), early))
    \<and> readRequest ([5, 1, rsv, 4] @ a6 @ PutUint16 port @ early) = ([], Inr (JoinHostPort (ipv6_String a6) (Itoa_nat (unat port)), early))"
proof -
  have hd4: "ReadFull 4 ([5, 1, rsv, t] @ r) = Inr ([5, 1, rsv, t], r)" for t r by (rule ReadFull_append) simp
  have p: "ReadFull 2 (PutUint16 port @ early) = Inr (PutUint16 port, early)" by (rule ReadFull_append) simp
  have l1: "ReadFull 1 ([of_nat (length dn)] @ r) = Inr ([of_nat (length dn)], r)" for r by (rule ReadFull_append) simp
  have u: "unat (of_nat (length dn) :: byte) = length dn" using assms(1) by (simp add: unat_of_nat)
  have d: "ReadFull (length dn) (dn @ r) = Inr (dn, r)" for r by (rule ReadFull_append) simp
  have "readRequest ([5, 1, rsv, 3] @ [of_nat (length dn)] @ dn @ PutUint16 port @ early)
      = ([], Inr (JoinHostPort (string_of_bytes dn) (Itoa_nat (unat port)), early))"
    unfolding readRequest_def hd4 using l1 d p u by (simp add: read_host_def)
  moreover have "readRequest ([5, 1, rsv, 1] @ a4 @ PutUint16 port @ early) = ([], Inr (JoinHostPort (ipv4_String a4) (Itoa_nat (unat port)), early))"
    by (rule socks5_request_ipv4 [OF assms(2)])
  moreover have "readRequest ([5, 1, rsv, 4] @ a6 @ PutUint16 port @ early) = ([], Inr (JoinHostPort (ipv6_String a6) (Itoa_nat (unat port)), early))"
    unfolding readRequest_def hd4 using p assms(3) by (simp add: read_host_def)
  ultimately show ?thesis by simp
qed

section \<open>From the first byte to the relay\<close>

lemma SplitHostPort_Join:
  assumes "CHR '':'' \<notin> set h" "CHR ''['' \<notin> set h" "CHR '']'' \<notin> set h" "\<forall>c\<in>set p. is_digit c"
  shows "SplitHostPort (JoinHostPort h p) = Some (h, p)"
proof -
  have np: "CHR '':'' \<notin> set p" "CHR ''['' \<notin> set p" "CHR '']'' \<notin> set p" using assms(4) by (auto simp: is_digit_def)
  have j: "JoinHostPort h p = h @ CHR '':'' # p" using assms(1) by (simp add: JoinHostPort_def)
  have l: "last_colon (h @ CHR '':'' # p) = Some (h, p)"
    using cut2_append [of "CHR '':''" "rev p" "rev h"] np(1) by (simp add: last_colon_def)
  have other: "(case h @ CHR '':'' # p of CHR ''['' # r \<Rightarrow> X r | _ \<Rightarrow> Y) = Y" for X and Y :: "(string \<times> string) option"
  proof (cases h)
    case (Cons c cs)
    have "c \<noteq> CHR ''[''" using Cons assms(2) by auto
    then show ?thesis unfolding Cons by (auto split: char.splits bool.splits)
  qed auto
  show ?thesis unfolding j SplitHostPort_def l using other assms np by (simp del: list.case)
qed

lemma ToLower_digits: "\<forall>c\<in>set s. is_digit c \<or> c = CHR ''.'' \<Longrightarrow> ToLower s = s"
  unfolding ToLower_def by (rule map_idI) (auto simp: lower_def is_digit_def)

lemma ipv4_String_chars: "c \<in> set (ipv4_String b) \<Longrightarrow> is_digit c \<or> c = CHR ''.''"
  using Itoa_digits by (auto simp: ipv4_String_def)

lemma ipv4_never_bypassed: "\<not> bypass_Match (JoinHostPort (ipv4_String a) (Itoa_nat n)) m"
proof -
  have no: "CHR '':'' \<notin> set (ipv4_String a)" "CHR ''['' \<notin> set (ipv4_String a)" "CHR '']'' \<notin> set (ipv4_String a)"
    using ipv4_String_chars [of "CHR '':''" a] ipv4_String_chars [of "CHR ''[''" a] ipv4_String_chars [of "CHR '']''" a]
    by (auto simp: is_digit_def)
  have "SplitHostPort (JoinHostPort (ipv4_String a) (Itoa_nat n)) = Some (ipv4_String a, Itoa_nat n)"
    using no Itoa_digits by (intro SplitHostPort_Join) auto
  moreover have "ToLower (ipv4_String a) = ipv4_String a" using ipv4_String_chars by (intro ToLower_digits) auto
  ultimately show ?thesis using ipv4_String_is_ip [of a] by (simp add: bypass_Match_def)
qed

lemma negotiate_ok: "length methods < 256 \<Longrightarrow> negotiate ([5, of_nat (length methods)] @ methods @ r) = Inr ([5, 0], r)"
proof -
  assume "length methods < 256"
  then have u: "unat (of_nat (length methods) :: byte) = length methods" by (simp add: unat_of_nat)
  have h: "ReadFull 2 ([5, of_nat (length methods)] @ methods @ r) = Inr ([5, of_nat (length methods)], methods @ r)"
    by (rule ReadFull_append) simp
  have "ReadFull (length methods) (methods @ r) = Inr (methods, r)" by (rule ReadFull_append) simp
  then show ?thesis unfolding negotiate_def h using u by simp
qed

text \<open>A client that offers any methods and asks for an IPv4 address is served through the tunnel, whatever the bypass
  list: if the tunnel can reach the target it gets the success answer and its later bytes are relayed, otherwise the refusal, and the direct dialler is never
  asked.  A request with another command than CONNECT is answered with "command not supported".\<close>

theorem socks5_serves_ipv4:
  assumes "length methods < 256" "length a = 4"
  shows "handleConn bypass direct tunnel True ([5, of_nat (length methods)] @ methods @ [5, 1, rsv, 1] @ a @ PutUint16 port @ early)
      = (let target = JoinHostPort (ipv4_String a) (Itoa_nat (unat port))
         in if tunnel target then ([[5, 0], reply 0], Relayed False target early) else ([[5, 0], reply 5], DialFailed False target))
    \<and> (cmd \<noteq> 1 \<longrightarrow> handleConn bypass direct tunnel True ([5, of_nat (length methods)] @ methods @ [5, cmd, rsv, t] @ r)
          = ([[5, 0], reply 7], RequestFailed (SErrCommand cmd)))"
proof (intro conjI impI)
  let ?r = "[5, 1, rsv, 1] @ a @ PutUint16 port @ early"
  have rq: "readRequest ?r = ([], Inr (JoinHostPort (ipv4_String a) (Itoa_nat (unat port)), early))"
    using socks5_request_ipv4 [OF assms(2)] by simp
  have n: "negotiate ([5, of_nat (length methods)] @ methods @ ?r) = Inr ([5, 0], ?r)" by (rule negotiate_ok [OF assms(1)])
  have nb: "(case bypass of None \<Rightarrow> False | Some m \<Rightarrow> bypass_Match (JoinHostPort (ipv4_String a) (Itoa_nat (unat port))) m) = False"
    using ipv4_never_bypassed by (cases bypass) auto
  show "handleConn bypass direct tunnel True ([5, of_nat (length methods)] @ methods @ ?r)
      = (let target = JoinHostPort (ipv4_String a) (Itoa_nat (unat port))
         in if tunnel target then ([[5, 0], reply 0], Relayed False target early) else ([[5, 0], reply 5], DialFailed False target))"
    unfolding handleConn_def n sum.case prod.case rq Let_def nb by simp
next
  let ?r = "[5, cmd, rsv, t] @ r"
  assume c: "cmd \<noteq> 1"
  have h: "ReadFull 4 ?r = Inr ([5, cmd, rsv, t], r)" by (rule ReadFull_append) simp
  have rq: "readRequest ?r = (reply 7, Inl (SErrCommand cmd))" unfolding readRequest_def h using c by simp
  have n: "negotiate ([5, of_nat (length methods)] @ methods @ ?r) = Inr ([5, 0], ?r)" by (rule negotiate_ok [OF assms(1)])
  show "handleConn bypass direct tunnel True ([5, of_nat (length methods)] @ methods @ ?r) = ([[5, 0], reply 7], RequestFailed (SErrCommand cmd))"
    unfolding handleConn_def n sum.case prod.case rq by (simp add: reply_def)
qed

end
