(* ===== verification/Call_Slot.thy ===== *)
theory Call_Slot
  imports Turn_Manager Go_Ip Mux_Conns
begin

text \<open>
  One call of the pool (\<^verbatim>\<open>internal/tunnel/slot.go\<close>, states of \<^verbatim>\<open>internal/tunnel/config.go\<close>): joining, allocating relays, exchanging relay
  addresses with the peer in batches, the handshakes and the connections they add to the multiplexer.  The call service, the
  signaling client, the TURN library and DTLS are arguments; signaling clients, services and connections are numbers that identify them.
\<close>

section \<open>States\<close>

datatype SlotState = SlotIdle | SlotConnecting | SlotAllocating | SlotActive | SlotReconnecting | SlotDead

primrec SlotState_String :: "SlotState \<Rightarrow> string" where
  "SlotState_String SlotIdle = ''idle''"
| "SlotState_String SlotConnecting = ''connecting''"
| "SlotState_String SlotAllocating = ''allocating''"
| "SlotState_String SlotActive = ''active''"
| "SlotState_String SlotReconnecting = ''reconnecting''"
| "SlotState_String SlotDead = ''dead''"

datatype Role = RoleClient | RoleServer

record CallSlot =
  sl_index :: nat
  sl_svc :: nat
  sl_role :: Role
  sl_useTCP :: bool
  sl_authToken :: bytes
  sl_vkTokens :: "string list"
  sl_state :: SlotState
  sl_sigClient :: "nat option"
  sl_mgr :: "Manager option"
  sl_nonce :: string
  sl_conns :: "nat list"
  sl_cleanups :: "nat list"
  sl_lastErr :: "goerr option"
  sl_activeC :: int

definition NewCallSlot :: "nat \<Rightarrow> nat \<Rightarrow> Role \<Rightarrow> bool \<Rightarrow> bytes \<Rightarrow> string list \<Rightarrow> CallSlot" where
  "NewCallSlot index svc role tcp authToken vkTokens =
     \<lparr>sl_index = index, sl_svc = svc, sl_role = role, sl_useTCP = tcp, sl_authToken = authToken, sl_vkTokens = vkTokens,
      sl_state = SlotIdle, sl_sigClient = None, sl_mgr = None, sl_nonce = [], sl_conns = [], sl_cleanups = [],
      sl_lastErr = None, sl_activeC = 0\<rparr>"

definition hex_byte :: "byte \<Rightarrow> string" where
  "hex_byte b = [hex_digit (unat b div 16), hex_digit (unat b mod 16)]"

text \<open>\<open>rnd\<close> are the eight random bytes.\<close>

definition generateNonce :: "bytes \<Rightarrow> string" where
  "generateNonce rnd = concat (map hex_byte rnd)"

definition setError :: "goerr \<Rightarrow> CallSlot \<Rightarrow> CallSlot" where
  "setError e s = s\<lparr>sl_lastErr := Some e\<rparr>"

section \<open>Joining\<close>

text \<open>
  What the service answers: whether it takes tokens, the error of joining with a token, of joining anonymously, the signaling client, and
  the error of setting its key.
\<close>

record join_outcome =
  jo_tokenAuth :: bool
  jo_token :: "string \<Rightarrow> goerr option"
  jo_anon :: "goerr option"
  jo_sig :: "goerr + nat"
  jo_key :: "goerr option"

definition fetch_join :: "join_outcome \<Rightarrow> CallSlot \<Rightarrow> goerr option" where
  "fetch_join jo s =
     (case sl_vkTokens s of
        t # _ \<Rightarrow> if jo_tokenAuth jo then (case jo_token jo t of None \<Rightarrow> None | Some e \<Rightarrow> jo_anon jo) else jo_anon jo
      | [] \<Rightarrow> jo_anon jo)"

text \<open>The signaling clients that the call closes, the slot and the error.\<close>

definition slot_Connect :: "join_outcome \<Rightarrow> bytes \<Rightarrow> CallSlot \<Rightarrow> nat list \<times> CallSlot \<times> goerr option" where
  "slot_Connect jo rnd s =
     (let s1 = s\<lparr>sl_state := SlotConnecting\<rparr>
      in case fetch_join jo s1 of
           Some e \<Rightarrow> ([], setError e s1, Some (Wrapf ''fetch join info'' e))
         | None \<Rightarrow>
             (case jo_sig jo of
                Inl e \<Rightarrow> ([], setError e s1, Some (Wrapf ''connect signaling'' e))
              | Inr c \<Rightarrow>
                  (case (if sl_authToken s1 \<noteq> [] then jo_key jo else None) of
                     Some e \<Rightarrow> ([c], setError e s1, Some (Wrapf ''set key'' e))
                   | None \<Rightarrow> ([], s1\<lparr>sl_sigClient := Some c, sl_mgr := Some (NewManager True (sl_useTCP s1)),
                                     sl_nonce := generateNonce rnd\<rparr>, None))))"

definition PreAllocate :: "(nat \<times> (goerr + Allocation)) list \<Rightarrow> CallSlot \<Rightarrow> CallSlot \<times> (goerr + Allocation list)" where
  "PreAllocate rs s =
     (case sl_mgr s of
        None \<Rightarrow> (s, Inl (Errorf ''not connected''))
      | Some mgr \<Rightarrow>
          (case Allocate rs mgr of
             (mgr', Inl e) \<Rightarrow> (setError e (s\<lparr>sl_mgr := Some mgr'\<rparr>), Inl (Wrapf ''pre-allocate'' e))
           | (mgr', Inr allocs) \<Rightarrow> (s\<lparr>sl_mgr := Some mgr'\<rparr>, Inr allocs)))"

section \<open>Allocating\<close>

fun dedup_tokens :: "string list \<Rightarrow> string set \<Rightarrow> string list" where
  "dedup_tokens [] seen = []"
| "dedup_tokens (t # ts) seen = (if t = [] \<or> t \<in> seen then dedup_tokens ts seen else t # dedup_tokens ts (insert t seen))"

definition deduplicateTokens :: "string list \<Rightarrow> string list" where
  "deduplicateTokens ts = dedup_tokens ts {}"

text \<open>
  \<open>tap\<close> is the service's join with a token, if it has one, and \<open>net\<close> the TURN library as in \<^const>\<open>dialAndAllocate\<close>.
\<close>

type_synonym turn_net = "bool \<Rightarrow> string \<Rightarrow> string \<Rightarrow> string \<Rightarrow> turn_outcome"
type_synonym token_join = "(string \<Rightarrow> goerr + Credentials) option"

definition allocateWithToken :: "turn_net \<Rightarrow> int \<Rightarrow> token_join \<Rightarrow> string \<Rightarrow> Manager \<Rightarrow> Manager \<times> (goerr + Allocation)" where
  "allocateWithToken net now tap token mgr =
     (case tap of
        None \<Rightarrow> (mgr, Inl (Errorf ''provider does not support token auth''))
      | Some fetch \<Rightarrow>
          (case fetch token of
             Inl e \<Rightarrow> (mgr, Inl (Wrapf ''fetch join info with token'' e))
           | Inr creds \<Rightarrow>
               (case AllocateWithCredentials net now creds mgr of
                  (mgr', Inl e) \<Rightarrow> (mgr', Inl (Wrapf ''allocate with credentials'' e))
                | (mgr', Inr a) \<Rightarrow> (mgr', Inr a))))"

text \<open>The goroutines of \<^verbatim>\<open>allocateWithTokens\<close> in the order in which they finish.\<close>

fun allocateWithTokens :: "turn_net \<Rightarrow> int \<Rightarrow> token_join \<Rightarrow> string list \<Rightarrow> Manager \<Rightarrow> Manager \<times> Allocation list" where
  "allocateWithTokens net now tap [] mgr = (mgr, [])"
| "allocateWithTokens net now tap (t # ts) mgr =
     (case allocateWithToken net now tap t mgr of
        (mgr1, r) \<Rightarrow>
          (case allocateWithTokens net now tap ts mgr1 of
             (mgr2, as) \<Rightarrow> (mgr2, case r of Inl e \<Rightarrow> as | Inr a \<Rightarrow> a # as)))"

text \<open>The loop over the tokens that are left: at most \<open>n\<close> attempts, also when they fail.\<close>

fun match_tokens :: "turn_net \<Rightarrow> int \<Rightarrow> token_join \<Rightarrow> string list \<Rightarrow> nat \<Rightarrow> nat \<Rightarrow> Manager \<Rightarrow> Manager \<times> nat \<times> Allocation list" where
  "match_tokens net now tap tokens 0 tokenIdx mgr = (mgr, tokenIdx, [])"
| "match_tokens net now tap tokens (Suc n) tokenIdx mgr =
     (if tokenIdx < length tokens then
        (case allocateWithToken net now tap (tokens ! tokenIdx) mgr of
           (mgr1, r) \<Rightarrow>
             (case match_tokens net now tap tokens n (tokenIdx + 1) mgr1 of
                (mgr2, idx, as) \<Rightarrow> (mgr2, idx, case r of Inl e \<Rightarrow> as | Inr a \<Rightarrow> a # as)))
      else (mgr, tokenIdx, []))"

text \<open>\<open>anon k\<close> are the results of the goroutines of \<^verbatim>\<open>Allocate\<close> when \<open>k\<close> allocations are asked for.\<close>

definition allocateMatching ::
  "turn_net \<Rightarrow> int \<Rightarrow> token_join \<Rightarrow> (nat \<Rightarrow> (nat \<times> (goerr + Allocation)) list) \<Rightarrow> string list \<Rightarrow> nat \<Rightarrow> nat \<Rightarrow> Manager
    \<Rightarrow> Manager \<times> nat \<times> Allocation list" where
  "allocateMatching net now tap anon tokens needed tokenIdx mgr =
     (case match_tokens net now tap tokens needed tokenIdx mgr of
        (mgr1, idx, allocs) \<Rightarrow>
          let anonNeeded = needed - length allocs
          in if anonNeeded > 0 then
               (case Allocate (anon anonNeeded) mgr1 of
                  (mgr2, Inl e) \<Rightarrow> (mgr2, idx, allocs)
                | (mgr2, Inr anonAllocs) \<Rightarrow> (mgr2, idx, allocs @ anonAllocs))
             else (mgr1, idx, allocs))"

definition allocAddrs :: "Allocation list \<Rightarrow> string list" where
  "allocAddrs allocs = map RelayAddr allocs"

section \<open>Handshakes\<close>

text \<open>A connection: its number, whether it comes with a cleanup function, which of its writes succeed, and what its peer sent first.\<close>

record dconn =
  dc_id :: nat
  dc_cleanup :: bool
  dc_write :: "nat \<Rightarrow> bool"
  dc_in :: bytes

text \<open>\<open>dial k\<close> is the outcome of attempt \<open>k\<close>, counted from 1.\<close>

fun dtls_attempts :: "(nat \<Rightarrow> goerr + dconn) \<Rightarrow> nat \<Rightarrow> nat \<Rightarrow> goerr + dconn" where
  "dtls_attempts dial attempt 0 = dial attempt"
| "dtls_attempts dial attempt (Suc n) = (case dial attempt of Inr c \<Rightarrow> Inr c | Inl e \<Rightarrow> dtls_attempts dial (attempt + 1) n)"

primrec maxAttempts :: "Role \<Rightarrow> nat" where
  "maxAttempts RoleClient = 3"
| "maxAttempts RoleServer = 2"

definition dtls_goroutine :: "Role \<Rightarrow> (string \<Rightarrow> goerr option) \<Rightarrow> string \<Rightarrow> (nat \<Rightarrow> goerr + dconn) \<Rightarrow> goerr + dconn" where
  "dtls_goroutine role resolve remote dial =
     (case resolve remote of
        Some e \<Rightarrow> Inl e
      | None \<Rightarrow> (case dtls_attempts dial 1 (maxAttempts role - 1) of Inl e \<Rightarrow> Inl (Wrapf ''dtls'' e) | Inr c \<Rightarrow> Inr c))"

text \<open>
  What a client writes on a new connection, with \<open>nonce\<close> the random bytes of the authentication token, and what a server takes from it.
\<close>

definition client_preamble :: "(bytes \<Rightarrow> bytes \<Rightarrow> bytes) \<Rightarrow> bytes \<Rightarrow> bytes \<Rightarrow> bytes \<Rightarrow> bytes list" where
  "client_preamble hmac nonce authToken sessionID =
     (if authToken \<noteq> [] then WriteAuthToken hmac nonce authToken else []) @ WriteSessionID sessionID"

definition server_preamble :: "(bytes \<Rightarrow> bytes \<Rightarrow> bytes) \<Rightarrow> bytes \<Rightarrow> bytes \<Rightarrow> mux_error + (bytes \<times> bytes)" where
  "server_preamble hmac authToken r =
     (if authToken \<noteq> [] then (case ValidateAuthToken hmac authToken r of Inl e \<Rightarrow> Inl e | Inr r' \<Rightarrow> ReadSessionID r')
      else ReadSessionID r)"

definition preamble_ok :: "(bytes \<Rightarrow> bytes \<Rightarrow> bytes) \<Rightarrow> bytes \<Rightarrow> bytes \<Rightarrow> CallSlot \<Rightarrow> dconn \<Rightarrow> bool" where
  "preamble_ok hmac nonce sessionID s c =
     (case sl_role s of
        RoleClient \<Rightarrow> list_all (dc_write c) [0..<length (client_preamble hmac nonce (sl_authToken s) sessionID)]
      | RoleServer \<Rightarrow> (case server_preamble hmac (sl_authToken s) (dc_in c) of Inl e \<Rightarrow> False | Inr _ \<Rightarrow> True))"

text \<open>
  The state of the loop that collects the results: slot, multiplexer, first error, and the connections closed and cleanup functions called.
\<close>

record dtls_state =
  ds_slot :: CallSlot
  ds_mux :: "Mux option"
  ds_firstErr :: "goerr option"
  ds_closed :: "nat list"
  ds_cleaned :: "nat list"

definition add_to_mux :: "bool \<Rightarrow> int \<Rightarrow> Mux option \<Rightarrow> Mux option" where
  "add_to_mux striping_env now m = Some (case m of None \<Rightarrow> New striping_env now 1 | Some m' \<Rightarrow> AddConn now m')"

definition take_dtls ::
  "(bytes \<Rightarrow> bytes \<Rightarrow> bytes) \<Rightarrow> bool \<Rightarrow> int \<Rightarrow> bytes \<Rightarrow> goerr + (bytes \<times> dconn) \<Rightarrow> dtls_state \<Rightarrow> dtls_state" where
  "take_dtls hmac senv now sessionID res d =
     (case res of
        Inl e \<Rightarrow> d\<lparr>ds_firstErr := (if ds_firstErr d = None then Some e else ds_firstErr d)\<rparr>
      | Inr (nonce, c) \<Rightarrow>
          if \<not> preamble_ok hmac nonce sessionID (ds_slot d) c
          then d\<lparr>ds_closed := ds_closed d @ [dc_id c], ds_cleaned := ds_cleaned d @ (if dc_cleanup c then [dc_id c] else [])\<rparr>
          else d\<lparr>ds_mux := add_to_mux senv now (ds_mux d),
                 ds_slot := (ds_slot d)\<lparr>sl_conns := sl_conns (ds_slot d) @ [dc_id c],
                                         sl_cleanups := sl_cleanups (ds_slot d) @ (if dc_cleanup c then [dc_id c] else []),
                                         sl_activeC := sl_activeC (ds_slot d) + 1\<rparr>\<rparr>)"

text \<open>
  What one exchange meets: the results of sending and receiving addresses, how addresses resolve, the outcome of each handshake
  attempt by index, the random bytes of each connection, and the order in which so many handshakes finish.
\<close>

record exchange =
  ex_send :: "goerr option"
  ex_recv :: "goerr + string list"
  ex_resolve :: "string \<Rightarrow> goerr option"
  ex_dial :: "nat \<Rightarrow> nat \<Rightarrow> goerr + dconn"
  ex_rnd :: "nat \<Rightarrow> bytes"
  ex_order :: "nat \<Rightarrow> nat list"

definition dtls_result :: "exchange \<Rightarrow> Role \<Rightarrow> string list \<Rightarrow> nat \<Rightarrow> goerr + (bytes \<times> dconn)" where
  "dtls_result x role remoteAddrs i =
     (case dtls_goroutine role (ex_resolve x) (remoteAddrs ! i) (ex_dial x i) of Inl e \<Rightarrow> Inl e | Inr c \<Rightarrow> Inr (ex_rnd x i, c))"

definition dtlsHandshakeParallel ::
  "(bytes \<Rightarrow> bytes \<Rightarrow> bytes) \<Rightarrow> bool \<Rightarrow> int \<Rightarrow> exchange \<Rightarrow> bytes \<Rightarrow> Allocation list \<Rightarrow> string list \<Rightarrow> dtls_state \<Rightarrow> dtls_state \<times> goerr option" where
  "dtlsHandshakeParallel hmac senv now x sessionID allocs remoteAddrs d0 =
     (let count = min (length allocs) (length remoteAddrs);
          d = foldl (\<lambda>d i. take_dtls hmac senv now sessionID (dtls_result x (sl_role (ds_slot d0)) remoteAddrs i) d)
            (d0\<lparr>ds_firstErr := None\<rparr>) (ex_order x count)
      in (d, if ds_mux d = None then ds_firstErr d else None))"

section \<open>The exchange of addresses\<close>

datatype sig_event =
  SendDisconnectReq string
| WaitDisconnectAck string
| SendDisconnectAck string
| StartPunchDispatcher string
| StopPunchDispatcher
| SendRelayBatch "string list" Role string nat bool
| RecvRelayBatch "string list"

text \<open>The log of a run has the calls that succeed.\<close>

text \<open>A handshake: its punch index, the relay address of this side and that of the peer.\<close>

type_synonym pairing = "nat \<times> string \<times> string"

definition batch_pairs :: "nat \<Rightarrow> Allocation list \<Rightarrow> string list \<Rightarrow> pairing list" where
  "batch_pairs punchIdx allocs remoteAddrs =
     (let count = min (length allocs) (length remoteAddrs)
      in map (\<lambda>i. (punchIdx + i, allocAddrs allocs ! i, remoteAddrs ! i)) [0..<count])"

record slot_run =
  sr_d :: dtls_state
  sr_batch :: nat
  sr_punch :: nat
  sr_log :: "sig_event list"
  sr_pairs :: "pairing list"

definition log_event :: "sig_event \<Rightarrow> slot_run \<Rightarrow> slot_run" where
  "log_event e r = r\<lparr>sr_log := sr_log r @ [e]\<rparr>"

definition run_dtls ::
  "(bytes \<Rightarrow> bytes \<Rightarrow> bytes) \<Rightarrow> bool \<Rightarrow> int \<Rightarrow> bytes \<Rightarrow> exchange \<Rightarrow> Allocation list \<Rightarrow> string list \<Rightarrow> slot_run \<Rightarrow> slot_run \<times> goerr option" where
  "run_dtls hmac senv now sessionID x allocs remoteAddrs r =
     (case dtlsHandshakeParallel hmac senv now x sessionID allocs remoteAddrs (sr_d r) of
        (d, err) \<Rightarrow> (r\<lparr>sr_d := d, sr_pairs := sr_pairs r @ batch_pairs (sr_punch r) allocs remoteAddrs\<rparr>, err))"

definition upd_slot :: "(CallSlot \<Rightarrow> CallSlot) \<Rightarrow> slot_run \<Rightarrow> slot_run" where
  "upd_slot f r = r\<lparr>sr_d := (sr_d r)\<lparr>ds_slot := f (ds_slot (sr_d r))\<rparr>\<rparr>"

definition start_run :: "CallSlot \<Rightarrow> Mux option \<Rightarrow> slot_run" where
  "start_run s m =
     \<lparr>sr_d = \<lparr>ds_slot = s, ds_mux = m, ds_firstErr = None, ds_closed = [], ds_cleaned = []\<rparr>,
      sr_batch = 0, sr_punch = 0, sr_log = [], sr_pairs = []\<rparr>"

definition finish_run :: "slot_run \<Rightarrow> slot_run \<times> goerr option" where
  "finish_run r =
     (if ds_mux (sr_d r) = None then (r, Some (Errorf ''no connections established''))
      else (upd_slot (\<lambda>s. s\<lparr>sl_state := SlotActive\<rparr>) r, None))"

text \<open>
  The client's loop over the batches of \<^verbatim>\<open>AllocateGradual\<close>: allocations, the mark of the last batch and what the exchange of this
  batch meets.  The manager keeps the allocations of a batch.
\<close>

type_synonym client_batch = "Allocation list \<times> bool \<times> exchange"

definition keep_allocs :: "Allocation list \<Rightarrow> CallSlot \<Rightarrow> CallSlot" where
  "keep_allocs as s = s\<lparr>sl_mgr := map_option (\<lambda>mgr. mgr\<lparr>allocations := allocations mgr @ as\<rparr>) (sl_mgr s)\<rparr>"

fun client_batches ::
  "(bytes \<Rightarrow> bytes \<Rightarrow> bytes) \<Rightarrow> bool \<Rightarrow> int \<Rightarrow> bytes \<Rightarrow> string \<Rightarrow> client_batch list \<Rightarrow> slot_run \<Rightarrow> slot_run" where
  "client_batches hmac senv now sessionID nonce [] r = r"
| "client_batches hmac senv now sessionID nonce ((as, final, x) # bs) r =
     (let r0 = upd_slot (keep_allocs as) r
      in if as = [] then (if final then r0 else client_batches hmac senv now sessionID nonce bs r0)
         else case ex_send x of
                Some e \<Rightarrow> client_batches hmac senv now sessionID nonce bs r0
              | None \<Rightarrow>
                  let r1 = log_event (SendRelayBatch (allocAddrs as) RoleClient nonce (sr_batch r0) final) r0
                  in case ex_recv x of
                       Inl e \<Rightarrow> client_batches hmac senv now sessionID nonce bs r1
                     | Inr serverAddrs \<Rightarrow>
                         (case run_dtls hmac senv now sessionID x as serverAddrs (log_event (RecvRelayBatch serverAddrs) r1) of
                            (r2, err) \<Rightarrow>
                              let r3 = r2\<lparr>sr_punch := sr_punch r2 + length as, sr_batch := sr_batch r2 + 1\<rparr>
                              in if final then r3 else client_batches hmac senv now sessionID nonce bs r3))"

text \<open>
  \<open>tokenOrder\<close> puts the tokens into the order in which their goroutines finish, \<open>x0\<close> is what the exchange of the token allocations meets,
  and \<open>batches k\<close> are the batches when \<open>k\<close> anonymous allocations are asked for.
\<close>

definition allocateClient ::
  "(bytes \<Rightarrow> bytes \<Rightarrow> bytes) \<Rightarrow> bool \<Rightarrow> int \<Rightarrow> bytes \<Rightarrow> turn_net \<Rightarrow> token_join \<Rightarrow> (string list \<Rightarrow> string list) \<Rightarrow> exchange
    \<Rightarrow> (nat \<Rightarrow> client_batch list) \<Rightarrow> nat \<Rightarrow> CallSlot \<Rightarrow> Mux option \<Rightarrow> slot_run \<times> goerr option" where
  "allocateClient hmac senv now sessionID net tap tokenOrder x0 batches n s m =
     (let nonce = sl_nonce s;
          r0 = log_event (StartPunchDispatcher nonce) (log_event (WaitDisconnectAck nonce) (log_event (SendDisconnectReq nonce) (start_run s m)));
          tokens = deduplicateTokens (sl_vkTokens s);
          tokenCount = min (length tokens) n;
          (mgr', tokenAllocs) = (if tokenCount > 0 then allocateWithTokens net now tap (tokenOrder (take tokenCount tokens)) (the (sl_mgr s))
                                 else (the (sl_mgr s), []));
          r1 = upd_slot (\<lambda>s. s\<lparr>sl_mgr := Some mgr'\<rparr>) r0;
          anonCount = n - length tokenAllocs;
          bs = (if anonCount > 0 then batches anonCount else []);
          stop = log_event StopPunchDispatcher;
          rest = (\<lambda>r. finish_run (stop (client_batches hmac senv now sessionID nonce bs r)))
      in if tokenAllocs = [] then rest r1
         else case ex_send x0 of
                Some e \<Rightarrow> (stop r1, Some (Wrapf ''send batch 0'' e))
              | None \<Rightarrow>
                  let r2 = log_event (SendRelayBatch (allocAddrs tokenAllocs) RoleClient nonce 0 (anonCount = 0)) r1
                  in case ex_recv x0 of
                       Inl e \<Rightarrow> (stop r2, Some (Wrapf ''recv batch 0'' e))
                     | Inr serverAddrs \<Rightarrow>
                         (case run_dtls hmac senv now sessionID x0 tokenAllocs serverAddrs (log_event (RecvRelayBatch serverAddrs) r2) of
                            (r3, Some e) \<Rightarrow> (stop r3, Some e)
                          | (r3, None) \<Rightarrow> rest (r3\<lparr>sr_punch := sr_punch r3 + length tokenAllocs, sr_batch := 1\<rparr>)))"

definition AllocateAndConnect ::
  "(bytes \<Rightarrow> bytes \<Rightarrow> bytes) \<Rightarrow> bool \<Rightarrow> int \<Rightarrow> bytes \<Rightarrow> turn_net \<Rightarrow> token_join \<Rightarrow> (string list \<Rightarrow> string list) \<Rightarrow> exchange
    \<Rightarrow> (nat \<Rightarrow> client_batch list) \<Rightarrow> nat \<Rightarrow> CallSlot \<Rightarrow> Mux option \<Rightarrow> slot_run \<times> goerr option" where
  "AllocateAndConnect hmac senv now sessionID net tap tokenOrder x0 batches n s m =
     (let s1 = s\<lparr>sl_state := SlotAllocating\<rparr>
      in if sl_sigClient s1 = None \<or> sl_mgr s1 = None then (start_run s1 m, Some (Errorf ''not connected''))
         else allocateClient hmac senv now sessionID net tap tokenOrder x0 batches n s1 m)"

section \<open>The server's side\<close>

record server_run = slot_run +
  sv_tokenIdx :: nat
  sv_usedPreAlloc :: bool
  sv_clientNonce :: string

definition server_start :: "CallSlot \<Rightarrow> Mux option \<Rightarrow> server_run" where
  "server_start s m = slot_run.extend (start_run s m) \<lparr>sv_tokenIdx = 0, sv_usedPreAlloc = False, sv_clientNonce = []\<rparr>"

text \<open>The allocations for a batch of \<open>needed\<close> addresses: those made beforehand first, once, then matching ones.\<close>

definition server_allocs ::
  "turn_net \<Rightarrow> int \<Rightarrow> token_join \<Rightarrow> (nat \<Rightarrow> (nat \<times> (goerr + Allocation)) list) \<Rightarrow> string list \<Rightarrow> Allocation list \<Rightarrow> nat \<Rightarrow> server_run
    \<Rightarrow> server_run \<times> Allocation list" where
  "server_allocs net now tap anon tokens preAllocs needed r =
     (let mgr = the (sl_mgr (ds_slot (sr_d r)));
          usePre = \<not> sv_usedPreAlloc r \<and> preAllocs \<noteq> [];
          pre = (if usePre then take needed preAllocs else []);
          remaining = needed - length pre;
          (mgr', idx, extra) = (if usePre \<and> remaining = 0 then (mgr, sv_tokenIdx r, [])
                                else allocateMatching net now tap anon tokens remaining (sv_tokenIdx r) mgr);
          d' = (sr_d r)\<lparr>ds_slot := (ds_slot (sr_d r))\<lparr>sl_mgr := Some mgr'\<rparr>\<rparr>
      in (r\<lparr>sr_d := d', sv_usedPreAlloc := sv_usedPreAlloc r \<or> usePre, sv_tokenIdx := idx\<rparr>, pre @ extra))"

text \<open>
  What a server receives, an error or a batch of addresses with its mark of the last one and its nonce, and what it meets when handling
  it.  When nothing more comes the context ends.
\<close>

type_synonym server_msg = "(goerr + (string list \<times> bool \<times> string)) \<times> (nat \<Rightarrow> (nat \<times> (goerr + Allocation)) list) \<times> exchange"

fun server_batches ::
  "(bytes \<Rightarrow> bytes \<Rightarrow> bytes) \<Rightarrow> bool \<Rightarrow> int \<Rightarrow> turn_net \<Rightarrow> token_join \<Rightarrow> string list \<Rightarrow> Allocation list \<Rightarrow> server_msg list \<Rightarrow> server_run
    \<Rightarrow> server_run \<times> goerr option" where
  "server_batches hmac senv now net tap tokens preAllocs [] r = (r, Some (Wrapf ''recv client batch'' ErrContext))"
| "server_batches hmac senv now net tap tokens preAllocs ((Inl e, anon, x) # ms) r =
     (if as_disconnect e \<noteq> None \<and> sv_clientNonce r = []
      then server_batches hmac senv now net tap tokens preAllocs ms
             (r\<lparr>sr_log := sr_log r @ [SendDisconnectAck (the (as_disconnect e))], sr_batch := sr_batch r + 1\<rparr>)
      else (r, Some (Wrapf ''recv client batch'' e)))"
| "server_batches hmac senv now net tap tokens preAllocs ((Inr (clientAddrs, final, recvNonce), anon, x) # ms) r =
     (let r0 = (if sv_clientNonce r = [] then r\<lparr>sv_clientNonce := recvNonce\<rparr> else r);
          (r1, allocs) = server_allocs net now tap anon tokens preAllocs (length clientAddrs) r0
      in if allocs = [] then
           (if final then (r1, None)
            else server_batches hmac senv now net tap tokens preAllocs ms (r1\<lparr>sr_batch := sr_batch r1 + 1\<rparr>))
         else
           let r2 = (if ex_send x = None
                     then r1\<lparr>sr_log := sr_log r1 @ [SendRelayBatch (allocAddrs allocs) RoleServer (sv_clientNonce r1) (sr_batch r1) final]\<rparr> else r1);
               (d, err) = dtlsHandshakeParallel hmac senv now x (replicate 16 0) allocs clientAddrs (sr_d r2);
               r3 = r2\<lparr>sr_d := d, sr_pairs := sr_pairs r2 @ batch_pairs (sr_punch r2) allocs clientAddrs,
                       sr_punch := sr_punch r2 + length allocs\<rparr>
           in if final then (r3, None)
              else server_batches hmac senv now net tap tokens preAllocs ms (r3\<lparr>sr_batch := sr_batch r3 + 1\<rparr>))"

definition allocateServer ::
  "(bytes \<Rightarrow> bytes \<Rightarrow> bytes) \<Rightarrow> bool \<Rightarrow> int \<Rightarrow> turn_net \<Rightarrow> token_join \<Rightarrow> Allocation list \<Rightarrow> server_msg list \<Rightarrow> CallSlot \<Rightarrow> Mux option
    \<Rightarrow> server_run \<times> goerr option" where
  "allocateServer hmac senv now net tap preAllocs ms s m =
     (case server_batches hmac senv now net tap (deduplicateTokens (sl_vkTokens s)) preAllocs ms (server_start s m) of
        (r, Some e) \<Rightarrow> (r, Some e)
      | (r, None) \<Rightarrow>
          if ds_mux (sr_d r) = None then (r, Some (Errorf ''no connections established''))
          else (r\<lparr>sr_d := (sr_d r)\<lparr>ds_slot := (ds_slot (sr_d r))\<lparr>sl_state := SlotActive\<rparr>\<rparr>\<rparr>, None))"

definition AllocateAndConnectServer ::
  "(bytes \<Rightarrow> bytes \<Rightarrow> bytes) \<Rightarrow> bool \<Rightarrow> int \<Rightarrow> turn_net \<Rightarrow> token_join \<Rightarrow> Allocation list \<Rightarrow> server_msg list \<Rightarrow> CallSlot \<Rightarrow> Mux option
    \<Rightarrow> server_run \<times> goerr option" where
  "AllocateAndConnectServer hmac senv now net tap preAllocs ms s m =
     (let s1 = s\<lparr>sl_state := SlotAllocating\<rparr>
      in if sl_sigClient s1 = None \<or> sl_mgr s1 = None then (server_start s1 m, Some (Errorf ''not connected''))
         else allocateServer hmac senv now net tap preAllocs ms s1 m)"

section \<open>Closing and status\<close>

text \<open>The slot, the signaling clients closed, what closing the allocations does and the cleanup functions called.\<close>

definition slot_Close :: "CallSlot \<Rightarrow> CallSlot \<times> nat list \<times> res_event list \<times> nat list" where
  "slot_Close s =
     (s\<lparr>sl_state := SlotDead, sl_sigClient := None, sl_mgr := None, sl_cleanups := []\<rparr>,
      (case sl_sigClient s of None \<Rightarrow> [] | Some c \<Rightarrow> [c]),
      (case sl_mgr s of None \<Rightarrow> [] | Some mgr \<Rightarrow> snd (CloseAll mgr)),
      sl_cleanups s)"

record SlotStatus =
  st_Index :: nat
  st_State :: SlotState
  st_ActiveConn :: int
  st_TotalConn :: nat
  st_LastError :: "goerr option"

definition slot_Status :: "CallSlot \<Rightarrow> SlotStatus" where
  "slot_Status s =
     \<lparr>st_Index = sl_index s, st_State = sl_state s, st_ActiveConn = sl_activeC s, st_TotalConn = length (sl_conns s), st_LastError = sl_lastErr s\<rparr>"

end
