(* ===== verification/Signaling_Router.thy ===== *)
theory Signaling_Router
  imports Go_Net
begin

text \<open>
  The router that sends relay addresses through several signaling clients and takes every message once
  (\<^verbatim>\<open>internal/tunnel/signaling.go\<close>).  Clients are numbers that identify them; what they answer is an argument.
\<close>

section \<open>Model\<close>

record SignalingRouter =
  sr_clients :: "nat list"
  sr_nonces :: "string \<rightharpoonup> nat"
  sr_seen :: "string list"

definition NewSignalingRouter :: SignalingRouter where
  "NewSignalingRouter = \<lparr>sr_clients = [], sr_nonces = (\<lambda>_. None), sr_seen = []\<rparr>"

definition Register :: "nat \<Rightarrow> string \<Rightarrow> SignalingRouter \<Rightarrow> SignalingRouter" where
  "Register c nonce r = r\<lparr>sr_clients := sr_clients r @ [c], sr_nonces := (sr_nonces r)(nonce \<mapsto> length (sr_clients r))\<rparr>"

text \<open>The position of the first client equal to \<open>c\<close>.\<close>

fun find_client :: "nat \<Rightarrow> nat list \<Rightarrow> nat option" where
  "find_client c [] = None"
| "find_client c (x # xs) = (if x = c then Some 0 else map_option Suc (find_client c xs))"

definition sr_Remove :: "nat \<Rightarrow> SignalingRouter \<Rightarrow> SignalingRouter" where
  "sr_Remove c r =
     (case find_client c (sr_clients r) of
        None \<Rightarrow> r
      | Some i \<Rightarrow> r\<lparr>sr_clients := take i (sr_clients r) @ drop (Suc i) (sr_clients r),
                      sr_nonces := (\<lambda>nonce. case sr_nonces r nonce of
                                      None \<Rightarrow> None
                                    | Some idx \<Rightarrow> if idx = i then None else if idx > i then Some (idx - 1) else Some idx)\<rparr>)"

definition ClientCount :: "SignalingRouter \<Rightarrow> nat" where
  "ClientCount r = length (sr_clients r)"

text \<open>\<open>alive c\<close> and \<open>send c\<close> (the error, if any) are the answers of client \<open>c\<close>.  The result is the list of clients that were sent to, and the error.\<close>

fun broadcast_all :: "(nat \<Rightarrow> bool) \<Rightarrow> (nat \<Rightarrow> goerr option) \<Rightarrow> nat list \<Rightarrow> bool \<Rightarrow> goerr option \<Rightarrow> nat list \<times> bool \<times> goerr option" where
  "broadcast_all alive send [] anySuccess lastErr = ([], anySuccess, lastErr)"
| "broadcast_all alive send (c # cs) anySuccess lastErr =
     (if \<not> alive c then broadcast_all alive send cs anySuccess lastErr
      else case send c of
             Some e \<Rightarrow> (case broadcast_all alive send cs anySuccess (Some e) of (sent, r) \<Rightarrow> (c # sent, r))
           | None \<Rightarrow> (case broadcast_all alive send cs True lastErr of (sent, r) \<Rightarrow> (c # sent, r)))"

definition BroadcastRelayBatch :: "(nat \<Rightarrow> bool) \<Rightarrow> (nat \<Rightarrow> goerr option) \<Rightarrow> SignalingRouter \<Rightarrow> nat list \<times> goerr option" where
  "BroadcastRelayBatch alive send r =
     (if sr_clients r = [] then ([], Some (Errorf ''no signaling clients registered''))
      else case broadcast_all alive send (sr_clients r) False None of
             (sent, anySuccess, lastErr) \<Rightarrow>
               (sent, if anySuccess then None
                      else case lastErr of Some e \<Rightarrow> Some e | None \<Rightarrow> Some (Errorf ''no alive signaling clients'')))"

record relay_msg =
  rm_addrs :: "string list"
  rm_batch :: int
  rm_final :: bool
  rm_nonce :: string

definition Itoa_int :: "int \<Rightarrow> string" where
  "Itoa_int x = (if x < 0 then ''-'' @ Itoa_nat (nat (- x)) else Itoa_nat (nat x))"

definition dedup_key :: "relay_msg \<Rightarrow> string" where
  "dedup_key m = rm_nonce m @ '':'' @ Itoa_int (rm_batch m)"

text \<open>
  One call of \<^verbatim>\<open>ReceiveRelayBatch\<close>: \<open>arrivals\<close> is what the goroutines of this call put into its channel, in order; afterwards either the context has ended
  (\<open>ctx_done\<close>) or all clients have closed.  What the call leaves in the channel is lost with it.
\<close>

fun receive_loop :: "bool \<Rightarrow> (goerr + relay_msg) list \<Rightarrow> SignalingRouter \<Rightarrow> SignalingRouter \<times> (goerr + relay_msg)" where
  "receive_loop ctx_done [] r = (r, Inl (if ctx_done then ErrContext else Errorf ''all signaling clients closed''))"
| "receive_loop ctx_done (Inl e # arrivals) r = receive_loop ctx_done arrivals r"
| "receive_loop ctx_done (Inr m # arrivals) r =
     (if dedup_key m \<in> set (sr_seen r) then receive_loop ctx_done arrivals r
      else (r\<lparr>sr_seen := dedup_key m # sr_seen r\<rparr>, Inr m))"

definition ReceiveRelayBatch :: "bool \<Rightarrow> (goerr + relay_msg) list \<Rightarrow> SignalingRouter \<Rightarrow> SignalingRouter \<times> (goerr + relay_msg)" where
  "ReceiveRelayBatch ctx_done arrivals r = receive_loop ctx_done arrivals r"

definition ResetDedup :: "SignalingRouter \<Rightarrow> SignalingRouter" where
  "ResetDedup r = r\<lparr>sr_seen := []\<rparr>"

section \<open>Nonces find their clients\<close>

definition router_inv :: "SignalingRouter \<Rightarrow> bool" where
  "router_inv r \<longleftrightarrow> distinct (sr_clients r) \<and> (\<forall>nonce i. sr_nonces r nonce = Some i \<longrightarrow> i < length (sr_clients r))"

text \<open>The abstract map from nonces to clients.\<close>

definition client_of :: "SignalingRouter \<Rightarrow> string \<rightharpoonup> nat" where
  "client_of r nonce = map_option (\<lambda>i. sr_clients r ! i) (sr_nonces r nonce)"

text \<open>
  The abstract table: the set of clients and the map.  An operation is a client with the nonce it is registered under, or without one
  when it is removed; a client is registered only while it is not there.
\<close>

fun map_op :: "nat \<times> string option \<Rightarrow> nat set \<times> (string \<rightharpoonup> nat) \<Rightarrow> nat set \<times> (string \<rightharpoonup> nat)" where
  "map_op (c, Some s) (H, F) = (insert c H, F(s \<mapsto> c))"
| "map_op (c, None) (H, F) = (H - {c}, \<lambda>s. if F s = Some c then None else F s)"

fun fresh_ops :: "(nat \<times> string option) list \<Rightarrow> nat set \<Rightarrow> bool" where
  "fresh_ops [] H = True"
| "fresh_ops ((c, Some s) # ops) H = (c \<notin> H \<and> fresh_ops ops (insert c H))"
| "fresh_ops ((c, None) # ops) H = fresh_ops ops (H - {c})"

text \<open>A table of clients found by a nonce: registering adds, removing a client drops it and nothing else.\<close>

locale nonce_table =
  fixes inv :: "'t \<Rightarrow> bool"
    and has :: "'t \<Rightarrow> nat set"
    and find :: "'t \<Rightarrow> string \<rightharpoonup> nat"
    and new :: 't
    and add :: "nat \<Rightarrow> string \<Rightarrow> 't \<Rightarrow> 't"
    and del :: "nat \<Rightarrow> 't \<Rightarrow> 't"
  assumes inv_new: "inv new" and find_new: "find new = (\<lambda>_. None)" and has_new: "has new = {}"
    and add_law: "inv t \<Longrightarrow> c \<notin> has t \<Longrightarrow> inv (add c s t) \<and> has (add c s t) = insert c (has t) \<and> find (add c s t) = (find t)(s \<mapsto> c)"
    and del_law: "inv t \<Longrightarrow> inv (del c t) \<and> has (del c t) = has t - {c} \<and> find (del c t) = (\<lambda>s. if find t s = Some c then None else find t s)"
begin

primrec apply_op :: "nat \<times> string option \<Rightarrow> 't \<Rightarrow> 't" where
  "apply_op (c, o_s) = (case o_s of Some s \<Rightarrow> add c s | None \<Rightarrow> del c)"

text \<open>Any sequence of registrations of new clients and of removals acts on the table as on the map.\<close>

lemma run_refines:
  "inv t \<Longrightarrow> fresh_ops ops (has t) \<Longrightarrow>
   inv (fold apply_op ops t) \<and> (has (fold apply_op ops t), find (fold apply_op ops t)) = fold map_op ops (has t, find t)"
proof (induction ops arbitrary: t)
  case (Cons x ops)
  obtain c o_s where x: "x = (c, o_s)" by fastforce
  show ?case
  proof (cases o_s)
    case (Some s)
    have "c \<notin> has t" and f: "fresh_ops ops (insert c (has t))" using Cons.prems(2) by (simp_all add: x Some)
    note l = add_law [OF Cons.prems(1) this(1), of s]
    have l2: "has (add c s t) = insert c (has t)" and l3: "find (add c s t) = (find t)(s \<mapsto> c)" using l by simp_all
    show ?thesis using Cons.IH [OF conjunct1 [OF l]] f unfolding l2 l3 by (simp only: x Some fold_simps comp_apply apply_op.simps option.case map_op.simps)
  next
    case None
    note l = del_law [OF Cons.prems(1), of c]
    have f: "fresh_ops ops (has t - {c})" using Cons.prems(2) by (simp add: x None)
    have l2: "has (del c t) = has t - {c}" and l3: "find (del c t) = (\<lambda>s. if find t s = Some c then None else find t s)" using l by simp_all
    show ?thesis using Cons.IH [OF conjunct1 [OF l]] f unfolding l2 l3 by (simp only: x None fold_simps comp_apply apply_op.simps option.case map_op.simps)
  qed
qed simp

end

lemma find_client_spec:
  "find_client c xs = Some i \<Longrightarrow> i < length xs \<and> xs ! i = c" "find_client c xs = None \<longleftrightarrow> c \<notin> set xs"
  by (induction xs arbitrary: i) (auto split: if_splits)

lemma router_Register:
  assumes "router_inv r" "c \<notin> set (sr_clients r)"
  shows "router_inv (Register c s r)" "set (sr_clients (Register c s r)) = insert c (set (sr_clients r))"
    "client_of (Register c s r) = (client_of r)(s \<mapsto> c)"
proof -
  show "router_inv (Register c s r)" using assms by (auto simp: router_inv_def Register_def split: if_splits intro: less_SucI)
  show "set (sr_clients (Register c s r)) = insert c (set (sr_clients r))" by (simp add: Register_def)
  have "client_of (Register c s r) n = ((client_of r)(s \<mapsto> c)) n" for n
    using assms by (cases "sr_nonces r n") (auto simp: client_of_def Register_def router_inv_def nth_append)
  then show "client_of (Register c s r) = (client_of r)(s \<mapsto> c)" by (rule ext)
qed

lemma router_Remove:
  assumes inv: "router_inv r"
  shows "router_inv (sr_Remove c r)" "set (sr_clients (sr_Remove c r)) = set (sr_clients r) - {c}"
    "client_of (sr_Remove c r) = (\<lambda>s. if client_of r s = Some c then None else client_of r s)"
proof -
  let ?xs = "sr_clients r"
  have d: "distinct ?xs" and ix: "\<And>n i. sr_nonces r n = Some i \<Longrightarrow> i < length ?xs" using inv by (auto simp: router_inv_def)
  have "router_inv (sr_Remove c r) \<and> set (sr_clients (sr_Remove c r)) = set ?xs - {c}
    \<and> client_of (sr_Remove c r) = (\<lambda>s. if client_of r s = Some c then None else client_of r s)"
  proof (cases "find_client c ?xs")
    case None
    then have c: "c \<notin> set ?xs" by (simp add: find_client_spec)
    then have "client_of r s \<noteq> Some c" for s using ix [of s] by (auto simp: client_of_def)
    then show ?thesis using None c inv by (auto simp: sr_Remove_def)
  next
    case (Some i)
    have i: "i < length ?xs" "?xs ! i = c" using find_client_spec(1) [OF Some] by auto
    let ?ys = "take i ?xs @ drop (Suc i) ?xs"
    have split: "?xs = take i ?xs @ c # drop (Suc i) ?xs" using i id_take_nth_drop by metis
    have d': "distinct (take i ?xs @ c # drop (Suc i) ?xs)" using d split by metis
    then have dy1: "distinct ?ys" "c \<notin> set ?ys" by auto
    have "set ?xs = insert c (set ?ys)" using arg_cong [OF split, of set] by (simp only: set_append set_simps) blast
    then have dy2: "set ?ys = set ?xs - {c}" using dy1(2) by blast
    note dy = dy1(1) dy2
    have nth: "?ys ! j = (if j < i then ?xs ! j else ?xs ! Suc j)" if "j < length ?ys" for j
      using that i by (auto simp: nth_append)
    have eq: "?xs ! k = c \<longleftrightarrow> k = i" if "k < length ?xs" for k using d i that nth_eq_iff_index_eq by metis
    have f: "sr_clients (sr_Remove c r) = ?ys" "sr_nonces (sr_Remove c r) = (\<lambda>n. case sr_nonces r n of None \<Rightarrow> None
        | Some idx \<Rightarrow> if idx = i then None else if idx > i then Some (idx - 1) else Some idx)"
      using Some by (simp_all add: sr_Remove_def)
    have "client_of (sr_Remove c r) s = (if client_of r s = Some c then None else client_of r s)" for s
    proof (cases "sr_nonces r s")
      case (Some k)
      then show ?thesis using ix [OF Some] eq [of k] nth [of k] nth [of "k - 1"] i
        by (auto simp: client_of_def f)
    qed (simp add: client_of_def f)
    moreover have "router_inv (sr_Remove c r)"
    proof -
      have "j < length ?ys" if j: "sr_nonces (sr_Remove c r) n = Some j" for n j
      proof -
        obtain k where k: "sr_nonces r n = Some k" using j unfolding f(2) by (cases "sr_nonces r n") auto
        show ?thesis using j ix [OF k] i unfolding f(2) k by (auto split: if_splits)
      qed
      then show ?thesis using dy(1) unfolding router_inv_def f(1) by blast
    qed
    ultimately show ?thesis using dy by (auto simp: f)
  qed
  then show "router_inv (sr_Remove c r)" "set (sr_clients (sr_Remove c r)) = set ?xs - {c}"
    "client_of (sr_Remove c r) = (\<lambda>s. if client_of r s = Some c then None else client_of r s)" by blast+
qed

interpretation router: nonce_table router_inv "\<lambda>r. set (sr_clients r)" client_of NewSignalingRouter Register sr_Remove
proof unfold_locales
  show "router_inv NewSignalingRouter" "client_of NewSignalingRouter = (\<lambda>_. None)" "set (sr_clients NewSignalingRouter) = {}"
    by (simp_all add: NewSignalingRouter_def router_inv_def client_of_def fun_eq_iff)
qed (simp_all add: router_Register router_Remove)

primrec router_op :: "nat \<times> string option \<Rightarrow> SignalingRouter \<Rightarrow> SignalingRouter" where
  "router_op (c, o_s) = (case o_s of Some s \<Rightarrow> Register c s | None \<Rightarrow> sr_Remove c)"

lemma router_op_apply: "router.apply_op = router_op"
  by (rule ext, rule prod.induct) simp

text \<open>C25: Whatever the order in which clients are registered (each while it is not there) and removed, the indices that the router keeps
  stay right: the client behind a nonce is the one registered under it last, and removing a client removes its nonces and no others.\<close>

theorem router_refines_map:
  assumes "fresh_ops ops {}"
  shows "(set (sr_clients (fold router_op ops NewSignalingRouter)), client_of (fold router_op ops NewSignalingRouter))
      = fold map_op ops ({}, \<lambda>_. None)
    \<and> router_inv (fold router_op ops NewSignalingRouter)"
  using router.run_refines [OF router.inv_new, of ops] assms
  unfolding router.find_new router.has_new router_op_apply by simp

theorem router_refines_map_witness:
  "client_of (fold router_op [(4, Some ''a''), (7, Some ''b''), (4, None)] NewSignalingRouter) ''b'' = Some 7"
proof -
  have h: "fresh_ops [(4, Some ''a''), (7, Some ''b''), (4, None)] {}" by simp
  have "client_of (fold router_op [(4, Some ''a''), (7, Some ''b''), (4, None)] NewSignalingRouter)
      = snd (fold map_op [(4, Some ''a''), (7, Some ''b''), (4, None)] ({}, \<lambda>_. None))"
    using router_refines_map [OF h] by (metis snd_conv)
  then show ?thesis by simp
qed

section \<open>Broadcast\<close>

lemma broadcast_all_spec:
  "broadcast_all alive send cs ok err =
     (filter alive cs, ok \<or> (\<exists>c\<in>set cs. alive c \<and> send c = None),
      (case rev (filter (\<lambda>c. alive c \<and> send c \<noteq> None) cs) of [] \<Rightarrow> err | c # _ \<Rightarrow> send c))"
proof (induction cs arbitrary: ok err)
  case (Cons c cs)
  show ?case
  proof (cases "alive c")
    case False
    then show ?thesis using Cons by simp
  next
    case True
    show ?thesis
    proof (cases "send c")
      case None
      then show ?thesis using True Cons by simp
    next
      case (Some e)
      then show ?thesis using True Cons by (cases "rev (filter (\<lambda>c. alive c \<and> send c \<noteq> None) cs)") simp_all
    qed
  qed
qed simp

text \<open>A broadcast is tried on every client that is alive, also after failures; it succeeds exactly when one of them takes it, and otherwise
  reports the error of the last client that failed.\<close>

theorem broadcast_reaches_all:
  "fst (BroadcastRelayBatch alive send r) = filter alive (sr_clients r)
   \<and> (snd (BroadcastRelayBatch alive send r) = None \<longleftrightarrow> (\<exists>c\<in>set (sr_clients r). alive c \<and> send c = None))
   \<and> (case rev (filter alive (sr_clients r)) of [] \<Rightarrow> True
      | c # _ \<Rightarrow> (\<exists>c'\<in>set (sr_clients r). alive c' \<and> send c' = None) \<or> snd (BroadcastRelayBatch alive send r) = send c)"
proof (cases "\<exists>c\<in>set (sr_clients r). alive c \<and> send c = None")
  case True
  then have "sr_clients r \<noteq> []" by auto
  then show ?thesis using True by (simp add: BroadcastRelayBatch_def broadcast_all_spec split: list.split)
next
  case False
  then have f: "filter (\<lambda>c. alive c \<and> send c \<noteq> None) (sr_clients r) = filter alive (sr_clients r)"
    by (intro filter_cong) auto
  show ?thesis
  proof (cases "rev (filter alive (sr_clients r))")
    case Nil
    then show ?thesis using False by (auto simp: BroadcastRelayBatch_def broadcast_all_spec f split: option.split)
  next
    case (Cons c cs)
    then have "c \<in> set (filter alive (sr_clients r))" by (metis list.set_intros(1) set_rev)
    then have c: "c \<in> set (sr_clients r)" "alive c" by auto
    then obtain e where "send c = Some e" using False by (cases "send c") auto
    moreover have "sr_clients r \<noteq> []" using c by auto
    ultimately have "snd (BroadcastRelayBatch alive send r) = Some e" "fst (BroadcastRelayBatch alive send r) = filter alive (sr_clients r)"
      unfolding BroadcastRelayBatch_def broadcast_all_spec f using False Cons by simp_all
    then show ?thesis using False Cons \<open>send c = Some e\<close> by simp
  qed
qed

section \<open>Every message once\<close>

lemma Itoa_int_no_colon: "CHR '':'' \<notin> set (Itoa_int x)"
proof -
  have "CHR '':'' \<notin> set (Itoa_nat n)" for n using Itoa_digits [of "CHR '':''" n] by (auto simp: is_digit_def)
  then show ?thesis by (simp add: Itoa_int_def)
qed

lemma Itoa_nat_inj: "Itoa_nat m = Itoa_nat n \<Longrightarrow> m = n"
  by (metis option.inject parse_digits_Itoa)

lemma Itoa_int_inj: "Itoa_int x = Itoa_int y \<Longrightarrow> x = y"
proof -
  assume e: "Itoa_int x = Itoa_int y"
  have nd: "\<not> is_digit CHR ''-''" by (simp add: is_digit_def)
  have h: "Itoa_nat n \<noteq> CHR ''-'' # r" for n r using Itoa_digits [of "CHR ''-''" n] nd by (metis list.set_intros(1))
  show ?thesis
  proof (cases "x < 0")
    case True
    then have "y < 0" using e h by (auto simp: Itoa_int_def split: if_splits) (metis h)
    then show ?thesis using True e Itoa_nat_inj by (fastforce simp: Itoa_int_def)
  next
    case False
    then have "\<not> y < 0" using e h by (auto simp: Itoa_int_def split: if_splits)
    then show ?thesis using False e Itoa_nat_inj by (fastforce simp: Itoa_int_def)
  qed
qed

lemma rev_dedup_key:
  assumes "dedup_key m = dedup_key m'"
  shows "rev (Itoa_int (rm_batch m)) @ CHR '':'' # rev (rm_nonce m) = rev (Itoa_int (rm_batch m')) @ CHR '':'' # rev (rm_nonce m')"
proof -
  have "rev (dedup_key k) = rev (Itoa_int (rm_batch k)) @ CHR '':'' # rev (rm_nonce k)" for k by (simp add: dedup_key_def)
  then show ?thesis using assms by metis
qed

lemma dedup_key_inj: "dedup_key m = dedup_key m' \<longleftrightarrow> rm_nonce m = rm_nonce m' \<and> rm_batch m = rm_batch m'"
proof
  assume "dedup_key m = dedup_key m'"
  then have "rev (Itoa_int (rm_batch m)) @ CHR '':'' # rev (rm_nonce m) = rev (Itoa_int (rm_batch m')) @ CHR '':'' # rev (rm_nonce m')"
    by (rule rev_dedup_key)
  then have "Some (rev (Itoa_int (rm_batch m)), rev (rm_nonce m)) = Some (rev (Itoa_int (rm_batch m')), rev (rm_nonce m'))"
    using cut2_append Itoa_int_no_colon by (metis set_rev)
  then show "rm_nonce m = rm_nonce m' \<and> rm_batch m = rm_batch m'" using Itoa_int_inj by simp
qed (simp add: dedup_key_def)

text \<open>A sequence of calls, each with what arrives during it.\<close>

fun receive_calls :: "(bool \<times> (goerr + relay_msg) list) list \<Rightarrow> SignalingRouter \<Rightarrow> relay_msg list" where
  "receive_calls [] r = []"
| "receive_calls ((d, arr) # calls) r =
     (case ReceiveRelayBatch d arr r of (r', Inl e) \<Rightarrow> receive_calls calls r' | (r', Inr m) \<Rightarrow> m # receive_calls calls r')"

lemma receive_loop_spec:
  "receive_loop d arr r =
     (case filter (\<lambda>m. dedup_key m \<notin> set (sr_seen r)) (concat (map (\<lambda>x. case x of Inl e \<Rightarrow> [] | Inr m \<Rightarrow> [m]) arr)) of
        [] \<Rightarrow> (r, Inl (if d then ErrContext else Errorf ''all signaling clients closed''))
      | m # _ \<Rightarrow> (r\<lparr>sr_seen := dedup_key m # sr_seen r\<rparr>, Inr m))"
  by (induction d arr r rule: receive_loop.induct) auto

lemma receive_calls_fresh:
  "distinct (map dedup_key (receive_calls calls r)) \<and> (\<forall>m\<in>set (receive_calls calls r). dedup_key m \<notin> set (sr_seen r))"
proof (induction calls arbitrary: r)
  case (Cons call calls)
  obtain d arr where call: "call = (d, arr)" by fastforce
  show ?case
  proof (cases "filter (\<lambda>m. dedup_key m \<notin> set (sr_seen r)) (concat (map (\<lambda>x. case x of Inl e \<Rightarrow> [] | Inr m \<Rightarrow> [m]) arr))")
    case Nil
    then have "receive_calls (call # calls) r = receive_calls calls r"
      by (simp add: call ReceiveRelayBatch_def receive_loop_spec)
    then show ?thesis using Cons by simp
  next
    case (Cons m ms)
    let ?r = "r\<lparr>sr_seen := dedup_key m # sr_seen r\<rparr>"
    have e: "receive_calls (call # calls) r = m # receive_calls calls ?r"
      using Cons by (simp add: call ReceiveRelayBatch_def receive_loop_spec)
    have "dedup_key m \<notin> set (sr_seen r)" using arg_cong [OF Cons, of set] by auto
    then show ?thesis unfolding e using \<open>\<And>r. distinct (map dedup_key (receive_calls calls r)) \<and> (\<forall>m\<in>set (receive_calls calls r). dedup_key m \<notin> set (sr_seen r))\<close> [of ?r]
      by auto
  qed
qed simp

text \<open>Over any sequence of calls, whatever arrives during each, no batch of a nonce is returned twice; and a call that a message
  reaches whose batch of its nonce was not returned yet does return one.\<close>

theorem relay_batches_once:
  "distinct (map (\<lambda>m. (rm_nonce m, rm_batch m)) (receive_calls calls r))
   \<and> (Inr m \<in> set arr \<and> dedup_key m \<notin> set (sr_seen r) \<longrightarrow> (\<exists>m'. snd (ReceiveRelayBatch d arr r) = Inr m'))"
proof
  have "distinct (map dedup_key (receive_calls calls r))" using receive_calls_fresh by blast
  then show "distinct (map (\<lambda>m. (rm_nonce m, rm_batch m)) (receive_calls calls r))"
    by (simp add: distinct_map inj_on_def dedup_key_inj)
  show "Inr m \<in> set arr \<and> dedup_key m \<notin> set (sr_seen r) \<longrightarrow> (\<exists>m'. snd (ReceiveRelayBatch d arr r) = Inr m')"
  proof
    assume m: "Inr m \<in> set arr \<and> dedup_key m \<notin> set (sr_seen r)"
    let ?f = "filter (\<lambda>m. dedup_key m \<notin> set (sr_seen r)) (concat (map (\<lambda>x. case x of Inl e \<Rightarrow> [] | Inr m \<Rightarrow> [m]) arr))"
    have "m \<in> set ?f" using m by (auto intro!: bexI [of _ "Inr m"])
    then obtain x xs where "?f = x # xs" by (cases ?f) auto
    then show "\<exists>m'. snd (ReceiveRelayBatch d arr r) = Inr m'" by (simp add: ReceiveRelayBatch_def receive_loop_spec)
  qed
qed

text \<open>
  What a call has taken from the clients beyond the message it returns is lost with its channel: nothing of a second message that arrived
  in time remains in the router, and a later call to which no client brings it again does not return it.
\<close>

lemma prefetched_message_lost:
  assumes "dedup_key m1 \<notin> set (sr_seen r)" "dedup_key m1 \<noteq> dedup_key m2" "dedup_key m2 \<notin> set (sr_seen r)"
  shows "receive_calls [(False, [Inr m1, Inr m2]), (True, [])] r = [m1]"
  using assms by (simp add: ReceiveRelayBatch_def)

end
