(* ===== verification/Call_Pool.thy ===== *)
theory Call_Pool
  imports Call_Slot Signaling_Router
begin

text \<open>
  The pool of calls that feed one multiplexer (\<^verbatim>\<open>internal/tunnel/pool.go\<close>, settings of \<^verbatim>\<open>internal/tunnel/config.go\<close>): starting as client or server,
  the monitor, the queue of reconnects and the goroutine that reconnects a slot, cut into the steps between which others run.
\<close>

section \<open>Data\<close>

record PoolConfig =
  pc_Services :: "nat list"
  pc_ConnsPerCall :: int
  pc_UseTCP :: bool
  pc_AuthToken :: bytes
  pc_VKTokens :: "string list"
  pc_SlotConnectDelay :: int

text \<open>Times in nanoseconds.\<close>

definition reconnectInitDelay :: int where "reconnectInitDelay = 3000000000"
definition reconnectMaxDelay :: int where "reconnectMaxDelay = 60000000000"
definition slotConnectDelay :: int where "slotConnectDelay = 3000000000"

text \<open>Where the goroutine of \<^verbatim>\<open>reconnectSlot\<close> is: before its timer, with the new slot in place, with that slot connected, or about to end.\<close>

datatype rs_phase = Waiting int | Replaced int | Connected int | Finishing

record CallPool =
  cp_cfg :: PoolConfig
  cp_slots :: "CallSlot list"
  cp_router :: SignalingRouter
  cp_m :: "Mux option"
  cp_sid :: bytes
  reconnectCh :: "nat list"
  reconnectCap :: nat
  cp_reconnecting :: "nat list"
  cp_delays :: "nat \<Rightarrow> int option"
  cp_tasks :: "(nat \<times> rs_phase) list"
  cp_done :: bool

definition NewCallPool :: "PoolConfig \<Rightarrow> bytes \<Rightarrow> CallPool" where
  "NewCallPool cfg sid =
     \<lparr>cp_cfg = (if pc_ConnsPerCall cfg \<le> 0 then cfg\<lparr>pc_ConnsPerCall := 4\<rparr> else cfg), cp_slots = [], cp_router = NewSignalingRouter,
      cp_m = None, cp_sid = sid, reconnectCh = [], reconnectCap = max (length (pc_Services cfg) * 2) 8, cp_reconnecting = [],
      cp_delays = (\<lambda>_. None), cp_tasks = [], cp_done = False\<rparr>"

definition slotDelay :: "CallPool \<Rightarrow> int" where
  "slotDelay p = (if pc_SlotConnectDelay (cp_cfg p) > 0 then pc_SlotConnectDelay (cp_cfg p) else slotConnectDelay)"

definition set_slot :: "nat \<Rightarrow> CallSlot \<Rightarrow> CallPool \<Rightarrow> CallPool" where
  "set_slot i s p = p\<lparr>cp_slots := (cp_slots p)[i := s]\<rparr>"

definition create_slots :: "Role \<Rightarrow> CallPool \<Rightarrow> CallPool" where
  "create_slots role p =
     (let cfg = cp_cfg p; svcs = pc_Services cfg
      in p\<lparr>cp_slots := cp_slots p @ map (\<lambda>i. NewCallSlot i (svcs ! i) role (pc_UseTCP cfg) (pc_AuthToken cfg) (pc_VKTokens cfg)) [0..<length svcs]\<rparr>)"

text \<open>A full channel takes nothing.\<close>

definition queueReconnect :: "nat \<Rightarrow> CallPool \<Rightarrow> CallPool" where
  "queueReconnect i p = (if length (reconnectCh p) < reconnectCap p then p\<lparr>reconnectCh := reconnectCh p @ [i]\<rparr> else p)"

section \<open>Starting\<close>

text \<open>Connecting one slot and registering its signaling client under its nonce.\<close>

definition connect_slot :: "join_outcome \<Rightarrow> bytes \<Rightarrow> nat \<Rightarrow> CallPool \<Rightarrow> CallPool \<times> goerr option" where
  "connect_slot jo rnd i p =
     (case slot_Connect jo rnd (cp_slots p ! i) of
        (_, s, Some e) \<Rightarrow> (set_slot i s p, Some e)
      | (_, s, None) \<Rightarrow> ((set_slot i s p)\<lparr>cp_router := Register (the (sl_sigClient s)) (sl_nonce s) (cp_router p)\<rparr>, None))"

text \<open>
  The first phase of a client.  \<open>cancelled i\<close> tells whether the context ends while the pool waits before slot \<open>i\<close>.
\<close>

fun connect_slots :: "(nat \<Rightarrow> bool) \<Rightarrow> (nat \<Rightarrow> join_outcome) \<Rightarrow> (nat \<Rightarrow> bytes) \<Rightarrow> nat list \<Rightarrow> CallPool \<Rightarrow> CallPool \<times> bool" where
  "connect_slots cancelled jo rnd [] p = (p, True)"
| "connect_slots cancelled jo rnd (i # is) p =
     (if i > 0 \<and> cancelled i then (p, False)
      else connect_slots cancelled jo rnd is (fst (connect_slot (jo i) (rnd i) i p)))"

text \<open>What the allocation of a slot meets.\<close>

record client_env =
  ce_net :: turn_net
  ce_tap :: token_join
  ce_order :: "string list \<Rightarrow> string list"
  ce_x0 :: exchange
  ce_batches :: "nat \<Rightarrow> client_batch list"

record server_env =
  se_net :: turn_net
  se_tap :: token_join
  se_msgs :: "server_msg list"

text \<open>
  The pool after the run of a slot: a multiplexer that the pool has is changed in place; one that the run makes becomes the pool's when
  the caller keeps it.
\<close>

definition store_run :: "nat \<Rightarrow> dtls_state \<Rightarrow> bool \<Rightarrow> CallPool \<Rightarrow> CallPool" where
  "store_run i d keep p = (set_slot i (ds_slot d) p)\<lparr>cp_m := (if cp_m p = None \<and> \<not> keep then None else ds_mux d)\<rparr>"

definition slot_client :: "(bytes \<Rightarrow> bytes \<Rightarrow> bytes) \<Rightarrow> bool \<Rightarrow> int \<Rightarrow> client_env \<Rightarrow> nat \<Rightarrow> CallPool \<Rightarrow> slot_run \<times> goerr option" where
  "slot_client hmac senv now env i p =
     AllocateAndConnect hmac senv now (cp_sid p) (ce_net env) (ce_tap env) (ce_order env) (ce_x0 env) (ce_batches env)
       (nat (pc_ConnsPerCall (cp_cfg p))) (cp_slots p ! i) (cp_m p)"

definition slot_server :: "(bytes \<Rightarrow> bytes \<Rightarrow> bytes) \<Rightarrow> bool \<Rightarrow> int \<Rightarrow> server_env \<Rightarrow> Allocation list \<Rightarrow> nat \<Rightarrow> CallPool \<Rightarrow> server_run \<times> goerr option" where
  "slot_server hmac senv now env pre i p =
     AllocateAndConnectServer hmac senv now (se_net env) (se_tap env) pre (se_msgs env) (cp_slots p ! i) (cp_m p)"

fun allocateRemaining :: "(bytes \<Rightarrow> bytes \<Rightarrow> bytes) \<Rightarrow> bool \<Rightarrow> int \<Rightarrow> (nat \<Rightarrow> client_env) \<Rightarrow> nat \<Rightarrow> nat list \<Rightarrow> CallPool \<Rightarrow> CallPool" where
  "allocateRemaining hmac senv now env skip [] p = p"
| "allocateRemaining hmac senv now env skip (i # is) p =
     (if i = skip \<or> sl_sigClient (cp_slots p ! i) = None then allocateRemaining hmac senv now env skip is p
      else case slot_client hmac senv now (env i) i p of
             (r, err) \<Rightarrow>
               let p1 = store_run i (sr_d r) False p
               in allocateRemaining hmac senv now env skip is (if err = None then p1 else queueReconnect i p1))"

text \<open>The second phase of a client: the first slot that succeeds provides the multiplexer, then come the others.\<close>

fun first_slot :: "(bytes \<Rightarrow> bytes \<Rightarrow> bytes) \<Rightarrow> bool \<Rightarrow> int \<Rightarrow> (nat \<Rightarrow> client_env) \<Rightarrow> (nat \<Rightarrow> client_env) \<Rightarrow> nat list \<Rightarrow> CallPool \<Rightarrow> goerr option
    \<Rightarrow> CallPool \<times> (goerr + Mux)" where
  "first_slot hmac senv now env env2 [] p firstErr =
     (case cp_m p of None \<Rightarrow> (p, Inl (Errorf ''no connections established'')) | Some m \<Rightarrow> (p, Inr m))"
| "first_slot hmac senv now env env2 (i # is) p firstErr =
     (if sl_sigClient (cp_slots p ! i) = None then first_slot hmac senv now env env2 is p firstErr
      else case slot_client hmac senv now (env i) i p of
             (r, Some e) \<Rightarrow>
               first_slot hmac senv now env env2 is (store_run i (sr_d r) False p) (if firstErr = None then Some e else firstErr)
           | (r, None) \<Rightarrow>
               let p1 = store_run i (sr_d r) True p
               in case cp_m p1 of
                    None \<Rightarrow> first_slot hmac senv now env env2 is p1 firstErr
                  | Some _ \<Rightarrow>
                      (let p2 = allocateRemaining hmac senv now env2 i [0..<length (cp_slots p1)] p1
                       in (p2, case cp_m p2 of None \<Rightarrow> Inl (Errorf ''no connections established'') | Some m \<Rightarrow> Inr m)))"

definition StartClient ::
  "(bytes \<Rightarrow> bytes \<Rightarrow> bytes) \<Rightarrow> bool \<Rightarrow> int \<Rightarrow> (nat \<Rightarrow> bool) \<Rightarrow> (nat \<Rightarrow> join_outcome) \<Rightarrow> (nat \<Rightarrow> bytes) \<Rightarrow> (nat \<Rightarrow> client_env) \<Rightarrow> (nat \<Rightarrow> client_env)
    \<Rightarrow> CallPool \<Rightarrow> CallPool \<times> (goerr + Mux)" where
  "StartClient hmac senv now cancelled jo rnd env env2 p0 =
     (let p = create_slots RoleClient p0
      in case connect_slots cancelled jo rnd [0..<length (cp_slots p)] p of
           (p1, False) \<Rightarrow> (p1, Inl ErrContext)
         | (p1, True) \<Rightarrow>
             if ClientCount (cp_router p1) = 0 then (p1, Inl (Errorf ''all slots failed to connect''))
             else first_slot hmac senv now env env2 [0..<length (cp_slots p1)] p1 None)"

text \<open>The first phase of a server also makes one allocation per slot; \<open>pre i\<close> is what the manager answers.\<close>

fun connect_server :: "(nat \<Rightarrow> bool) \<Rightarrow> (nat \<Rightarrow> join_outcome) \<Rightarrow> (nat \<Rightarrow> bytes) \<Rightarrow> (nat \<Rightarrow> (nat \<times> (goerr + Allocation)) list) \<Rightarrow> nat list \<Rightarrow> CallPool
    \<Rightarrow> (nat \<Rightarrow> Allocation list) \<Rightarrow> CallPool \<times> bool \<times> (nat \<Rightarrow> Allocation list)" where
  "connect_server cancelled jo rnd pre [] p allocs = (p, True, allocs)"
| "connect_server cancelled jo rnd pre (i # is) p allocs =
     (if i > 0 \<and> cancelled i then (p, False, allocs)
      else case connect_slot (jo i) (rnd i) i p of
             (p1, Some e) \<Rightarrow> connect_server cancelled jo rnd pre is p1 allocs
           | (p1, None) \<Rightarrow>
               (case PreAllocate (pre i) (cp_slots p1 ! i) of
                  (s, Inl e) \<Rightarrow> connect_server cancelled jo rnd pre is (set_slot i s p1) allocs
                | (s, Inr as) \<Rightarrow> connect_server cancelled jo rnd pre is (set_slot i s p1) (allocs(i := as))))"

fun serve_slots :: "(bytes \<Rightarrow> bytes \<Rightarrow> bytes) \<Rightarrow> bool \<Rightarrow> int \<Rightarrow> (nat \<Rightarrow> server_env) \<Rightarrow> (nat \<Rightarrow> Allocation list) \<Rightarrow> nat list \<Rightarrow> CallPool \<Rightarrow> CallPool" where
  "serve_slots hmac senv now env pre [] p = p"
| "serve_slots hmac senv now env pre (i # is) p =
     (if sl_sigClient (cp_slots p ! i) = None then serve_slots hmac senv now env pre is p
      else case slot_server hmac senv now (env i) (pre i) i p of
             (r, Some e) \<Rightarrow> serve_slots hmac senv now env pre is (queueReconnect i (store_run i (sr_d r) False p))
           | (r, None) \<Rightarrow> serve_slots hmac senv now env pre is (store_run i (sr_d r) True p))"

definition StartServer ::
  "(bytes \<Rightarrow> bytes \<Rightarrow> bytes) \<Rightarrow> bool \<Rightarrow> int \<Rightarrow> (nat \<Rightarrow> bool) \<Rightarrow> (nat \<Rightarrow> join_outcome) \<Rightarrow> (nat \<Rightarrow> bytes) \<Rightarrow> (nat \<Rightarrow> (nat \<times> (goerr + Allocation)) list)
    \<Rightarrow> (nat \<Rightarrow> server_env) \<Rightarrow> CallPool \<Rightarrow> CallPool \<times> (goerr + Mux)" where
  "StartServer hmac senv now cancelled jo rnd pre env p0 =
     (let p = create_slots RoleServer p0
      in case connect_server cancelled jo rnd pre [0..<length (cp_slots p)] p (\<lambda>_. []) of
           (p1, False, allocs) \<Rightarrow> (p1, Inl ErrContext)
         | (p1, True, allocs) \<Rightarrow>
             if ClientCount (cp_router p1) = 0 then (p1, Inl (Errorf ''all slots failed to connect''))
             else
               let p2 = serve_slots hmac senv now env allocs [0..<length (cp_slots p1)] p1
               in (p2, case cp_m p2 of None \<Rightarrow> Inl (Errorf ''no connections established'') | Some m \<Rightarrow> Inr m))"

section \<open>Watching and reconnecting\<close>

text \<open>A tick of the monitor; \<open>alive c\<close> is the answer of signaling client \<open>c\<close>.\<close>

definition monitor_slot :: "(nat \<Rightarrow> bool) \<Rightarrow> bool \<Rightarrow> CallSlot \<Rightarrow> CallPool \<Rightarrow> CallPool" where
  "monitor_slot alive allConnsDown s p =
     (if sl_state s \<noteq> SlotActive then p
      else if (case sl_sigClient s of None \<Rightarrow> False | Some c \<Rightarrow> \<not> alive c) then queueReconnect (sl_index s) p
      else if allConnsDown then queueReconnect (sl_index s) p
      else p)"

definition monitor_tick :: "(nat \<Rightarrow> bool) \<Rightarrow> CallPool \<Rightarrow> CallPool" where
  "monitor_tick alive p =
     (let allConnsDown = (case cp_m p of None \<Rightarrow> False | Some m \<Rightarrow> ActiveConns m = 0)
      in foldl (\<lambda>p s. monitor_slot alive allConnsDown s p) p (cp_slots p))"

text \<open>The delay a reconnect starts with, and the one after a failure.\<close>

definition rs_delay :: "nat \<Rightarrow> CallPool \<Rightarrow> int" where
  "rs_delay i p = (case cp_delays p i of Some d \<Rightarrow> if d > 0 then d else reconnectInitDelay | None \<Rightarrow> reconnectInitDelay)"

definition next_delay :: "int \<Rightarrow> int" where
  "next_delay delay = min (delay + reconnectInitDelay) reconnectMaxDelay"

text \<open>The loop takes an index from the channel and starts the goroutine, unless one runs for that slot.\<close>

definition loop_take :: "CallPool \<Rightarrow> CallPool" where
  "loop_take p =
     (case reconnectCh p of
        [] \<Rightarrow> p
      | i # ch \<Rightarrow>
          let p1 = p\<lparr>reconnectCh := ch\<rparr>
          in if i \<ge> length (cp_slots p1) then p1
             else if i \<in> set (cp_reconnecting p1) then p1
             else p1\<lparr>cp_reconnecting := i # cp_reconnecting p1, cp_tasks := cp_tasks p1 @ [(i, Waiting (rs_delay i p1))]\<rparr>)"

definition set_phase :: "nat \<Rightarrow> rs_phase \<Rightarrow> CallPool \<Rightarrow> CallPool" where
  "set_phase i ph p = p\<lparr>cp_tasks := map (\<lambda>t. if fst t = i then (i, ph) else t) (cp_tasks p)\<rparr>"

text \<open>After the timer: the old client leaves the router, the old slot is closed and replaced by a new one.\<close>

definition rs_replace :: "nat \<Rightarrow> int \<Rightarrow> CallPool \<Rightarrow> CallPool" where
  "rs_replace i delay p =
     (let slot = cp_slots p ! i;
          router = (case sl_sigClient slot of None \<Rightarrow> cp_router p | Some c \<Rightarrow> sr_Remove c (cp_router p));
          newSlot = NewCallSlot i (sl_svc slot) (sl_role slot) (sl_useTCP slot) (sl_authToken slot) (sl_vkTokens slot)
      in set_phase i (Replaced delay) ((set_slot i newSlot p)\<lparr>cp_router := router\<rparr>))"

definition rs_failed :: "nat \<Rightarrow> int \<Rightarrow> CallPool \<Rightarrow> CallPool" where
  "rs_failed i delay p = set_phase i Finishing (queueReconnect i (p\<lparr>cp_delays := (cp_delays p)(i \<mapsto> next_delay delay)\<rparr>))"

definition rs_connect :: "join_outcome \<Rightarrow> bytes \<Rightarrow> nat \<Rightarrow> int \<Rightarrow> CallPool \<Rightarrow> CallPool" where
  "rs_connect jo rnd i delay p =
     (case connect_slot jo rnd i p of
        (p1, Some e) \<Rightarrow> rs_failed i delay p1
      | (p1, None) \<Rightarrow> set_phase i (Connected delay) p1)"

definition rs_succeeded :: "nat \<Rightarrow> CallPool \<Rightarrow> CallPool" where
  "rs_succeeded i p = set_phase i Finishing (p\<lparr>cp_delays := (cp_delays p)(i \<mapsto> 0), cp_router := ResetDedup (cp_router p)\<rparr>)"

definition rs_allocate :: "(bytes \<Rightarrow> bytes \<Rightarrow> bytes) \<Rightarrow> bool \<Rightarrow> int \<Rightarrow> client_env \<Rightarrow> server_env \<Rightarrow> nat \<Rightarrow> int \<Rightarrow> CallPool \<Rightarrow> CallPool" where
  "rs_allocate hmac senv now cenv senv' i delay p =
     (case (case sl_role (cp_slots p ! i) of
              RoleClient \<Rightarrow> (case slot_client hmac senv now cenv i p of (r, err) \<Rightarrow> (sr_d r, err))
            | RoleServer \<Rightarrow> (case slot_server hmac senv now senv' [] i p of (r, err) \<Rightarrow> (sr_d r, err))) of
        (d, Some e) \<Rightarrow> rs_failed i delay (store_run i d False p)
      | (d, None) \<Rightarrow> rs_succeeded i (store_run i d False p))"

text \<open>The deferred end of the goroutine.\<close>

definition rs_finish :: "nat \<Rightarrow> CallPool \<Rightarrow> CallPool" where
  "rs_finish i p = p\<lparr>cp_reconnecting := removeAll i (cp_reconnecting p), cp_tasks := filter (\<lambda>t. fst t \<noteq> i) (cp_tasks p)\<rparr>"

definition pool_Status :: "CallPool \<Rightarrow> SlotStatus list" where
  "pool_Status p = map slot_Status (cp_slots p)"

definition pool_Close :: "CallPool \<Rightarrow> CallPool \<times> Mux option" where
  "pool_Close p =
     (if cp_done p then (p, None)
      else (p\<lparr>cp_done := True, cp_m := None, cp_slots := map (\<lambda>s. fst (slot_Close s)) (cp_slots p)\<rparr>, map_option Mux_Close (cp_m p)))"

end
