(* ===== verification/Slot_Props.thy ===== *)
theory Slot_Props
  imports Call_Slot Mux_Invariant
begin

text \<open>
  What a run of a call's slot does to the connections of the multiplexer, and that both sides of a call pair the same relays.
\<close>

section \<open>The parts of a run\<close>

lemma log_event_simps [simp]:
  "sr_d (log_event e r) = sr_d r" "sr_batch (log_event e r) = sr_batch r" "sr_punch (log_event e r) = sr_punch r"
  "sr_log (log_event e r) = sr_log r @ [e]" "sr_pairs (log_event e r) = sr_pairs r"
  by (simp_all add: log_event_def)

lemma upd_slot_simps [simp]:
  "sr_d (upd_slot f r) = (sr_d r)\<lparr>ds_slot := f (ds_slot (sr_d r))\<rparr>" "sr_batch (upd_slot f r) = sr_batch r"
  "sr_punch (upd_slot f r) = sr_punch r" "sr_log (upd_slot f r) = sr_log r" "sr_pairs (upd_slot f r) = sr_pairs r"
  by (simp_all add: upd_slot_def)

lemma run_dtls_simps [simp]:
  "sr_d (fst (run_dtls hmac senv now sid x as addrs r)) = fst (dtlsHandshakeParallel hmac senv now x sid as addrs (sr_d r))"
  "snd (run_dtls hmac senv now sid x as addrs r) = snd (dtlsHandshakeParallel hmac senv now x sid as addrs (sr_d r))"
  "sr_batch (fst (run_dtls hmac senv now sid x as addrs r)) = sr_batch r"
  "sr_punch (fst (run_dtls hmac senv now sid x as addrs r)) = sr_punch r"
  "sr_log (fst (run_dtls hmac senv now sid x as addrs r)) = sr_log r"
  "sr_pairs (fst (run_dtls hmac senv now sid x as addrs r)) = sr_pairs r @ batch_pairs (sr_punch r) as addrs"
  by (simp_all add: run_dtls_def split: prod.split)

section \<open>Relations that every step of a run respects\<close>

text \<open>
  A reflexive and transitive relation on the state of the handshakes that every result respects, and every change of the manager, the
  state and the first error, relates the start and the end of a run, of the client as of the server.
\<close>

locale slot_steps =
  fixes hmac :: "bytes \<Rightarrow> bytes \<Rightarrow> bytes" and senv :: bool and now :: int
    and R :: "dtls_state \<Rightarrow> dtls_state \<Rightarrow> bool"
  assumes R_refl: "R d d"
    and R_trans: "R d d' \<Longrightarrow> R d' d'' \<Longrightarrow> R d d''"
    and R_mgr: "R d (d\<lparr>ds_slot := (ds_slot d)\<lparr>sl_mgr := g\<rparr>\<rparr>)"
    and R_err: "R d (d\<lparr>ds_firstErr := e\<rparr>)"
    and R_take: "R d (take_dtls hmac senv now sid res d)"
begin

lemma R_fold: "R d (foldl (\<lambda>d i. take_dtls hmac senv now sid (f i) d) d xs)"
  by (induction xs rule: rev_induct) (auto intro: R_refl R_trans [OF _ R_take])

lemma R_handshakes: "R d (fst (dtlsHandshakeParallel hmac senv now x sid allocs addrs d))"
  by (auto simp: dtlsHandshakeParallel_def Let_def intro: R_trans [OF R_err R_fold])

lemma R_keep_allocs: "R d (d\<lparr>ds_slot := keep_allocs as (ds_slot d)\<rparr>)"
  by (simp add: keep_allocs_def R_mgr)

lemma R_client_batches: "R (sr_d r) (sr_d (client_batches hmac senv now sid nonce bs r))"
proof (induction bs arbitrary: r)
  case (Cons b bs)
  obtain as final x where b: "b = (as, final, x)" by (cases b) auto
  have IH: "R d (sr_d (client_batches hmac senv now sid nonce bs r'))" if "R d (sr_d r')" for d r'
    using R_trans [OF that Cons] .
  show ?case
    by (auto simp: b Let_def case_prod_beta R_keep_allocs split: option.split sum.split
        intro!: IH R_trans [OF R_keep_allocs R_handshakes])
qed (simp add: R_refl)

lemma R_server_allocs: "R (sr_d r) (sr_d (fst (server_allocs net now' tap anon tokens pre needed r)))"
  by (simp add: server_allocs_def Let_def R_mgr split: prod.split)

lemma R_server_batches: "R (sr_d r) (sr_d (fst (server_batches hmac senv now net tap tokens pre ms r)))"
proof (induction ms arbitrary: r)
  case (Cons b ms)
  obtain msg anon x where b: "b = (msg, anon, x)" by (cases b) auto
  have IH: "R d (sr_d (fst (server_batches hmac senv now net tap tokens pre ms r')))" if "R d (sr_d r')" for d r'
    using R_trans [OF that Cons] .
  show ?case
  proof (cases msg)
    case (Inl e)
    then show ?thesis by (simp add: b R_refl Cons IH)
  next
    case (Inr m)
    obtain addrs final nonce where m: "m = (addrs, final, nonce)" by (cases m) auto
    let ?r0 = "if sv_clientNonce r = [] then r\<lparr>sv_clientNonce := nonce\<rparr> else r"
    have "R (sr_d r) (sr_d (fst (server_allocs net now tap anon tokens pre (length addrs) ?r0)))"
      using R_server_allocs [of ?r0 net now tap anon tokens pre "length addrs"] by (simp split: if_splits)
    then show ?thesis unfolding b Inr m
      by (auto simp: Let_def case_prod_beta intro!: IH intro: R_trans [OF _ R_handshakes])
  qed
qed (simp add: R_refl)

end

section \<open>Connections are counted\<close>

text \<open>A multiplexer that is missing, or in a state that its operations can reach.\<close>

definition mux_reach :: "Mux option \<Rightarrow> bool" where
  "mux_reach m = (case m of None \<Rightarrow> True | Some m' \<Rightarrow> \<exists>pend. reachable (m', pend))"

definition readers :: "Mux option \<Rightarrow> int" where
  "readers m = (case m of None \<Rightarrow> 0 | Some m' \<Rightarrow> ActiveConns m')"

text \<open>What no run changes of a slot.\<close>

definition same_call :: "CallSlot \<Rightarrow> CallSlot \<Rightarrow> bool" where
  "same_call s' s \<longleftrightarrow> sl_index s' = sl_index s \<and> sl_svc s' = sl_svc s \<and> sl_role s' = sl_role s \<and> sl_authToken s' = sl_authToken s
     \<and> sl_sigClient s' = sl_sigClient s \<and> sl_nonce s' = sl_nonce s"

lemma same_call_refl [simp]: "same_call s s"
  by (simp add: same_call_def)

lemma same_call_upd [simp]:
  "same_call (s\<lparr>sl_mgr := g\<rparr>) s' = same_call s s'" "same_call s' (s\<lparr>sl_mgr := g\<rparr>) = same_call s' s"
  "same_call (s\<lparr>sl_state := st\<rparr>) s' = same_call s s'" "same_call s' (s\<lparr>sl_state := st\<rparr>) = same_call s' s"
  "same_call (s\<lparr>sl_conns := cs, sl_cleanups := cl, sl_activeC := a\<rparr>) s' = same_call s s'"
  by (simp_all add: same_call_def)

lemma same_call_trans: "same_call a b \<Longrightarrow> same_call b c \<Longrightarrow> same_call a c"
  by (simp add: same_call_def)

definition slot_grows :: "dtls_state \<Rightarrow> dtls_state \<Rightarrow> bool" where
  "slot_grows d d' \<longleftrightarrow>
     (\<exists>new. sl_conns (ds_slot d') = sl_conns (ds_slot d) @ new
       \<and> sl_activeC (ds_slot d') = sl_activeC (ds_slot d) + int (length new)
       \<and> readers (ds_mux d') = readers (ds_mux d) + int (length new)
       \<and> (ds_mux d' = None \<longleftrightarrow> ds_mux d = None \<and> new = []))
     \<and> sl_state (ds_slot d') = sl_state (ds_slot d) \<and> same_call (ds_slot d') (ds_slot d)
     \<and> (mux_reach (ds_mux d) \<longrightarrow> mux_reach (ds_mux d'))"

lemma slot_grows_refl: "slot_grows d d"
  by (simp add: slot_grows_def)

lemma slot_grows_trans: "slot_grows d d' \<Longrightarrow> slot_grows d' d'' \<Longrightarrow> slot_grows d d''"
  unfolding slot_grows_def by (elim conjE exE) (intro conjI exI, auto intro: same_call_trans)

lemma add_to_mux_reach: "mux_reach m \<Longrightarrow> mux_reach (add_to_mux senv now m)"
  by (auto simp: mux_reach_def add_to_mux_def split: option.splits
      intro: reachable.init reachable.step [OF _ mux_step.add_conn])

lemma add_to_mux_readers: "readers (add_to_mux senv now m) = readers m + 1"
  by (auto simp: readers_def add_to_mux_def ActiveConns_def New_def AddConn_def Let_def split: option.split prod.split)

lemma slot_grows_take: "slot_grows d (take_dtls hmac senv now sid res d)"
proof -
  have "add_to_mux senv now m \<noteq> None" for m by (simp add: add_to_mux_def)
  then show ?thesis
    by (auto simp: slot_grows_def take_dtls_def add_to_mux_readers add_to_mux_reach split: sum.split)
qed

interpretation grows: slot_steps hmac senv now slot_grows for hmac senv now
proof unfold_locales
  show "slot_grows d d'' " if "slot_grows d d'" "slot_grows d' d''" for d d' d'' using that by (rule slot_grows_trans)
qed (simp_all add: slot_grows_refl slot_grows_take, simp_all add: slot_grows_def)

text \<open>What a run with result \<open>d\<close> and error \<open>err\<close> did to a slot \<open>s\<close> and the multiplexer \<open>m\<close>.\<close>

definition slot_run_ok :: "CallSlot \<Rightarrow> Mux option \<Rightarrow> dtls_state \<Rightarrow> goerr option \<Rightarrow> bool" where
  "slot_run_ok s m d err \<longleftrightarrow>
     (\<exists>new. sl_conns (ds_slot d) = sl_conns s @ new \<and> sl_activeC (ds_slot d) = sl_activeC s + int (length new)
       \<and> readers (ds_mux d) = readers m + int (length new) \<and> (ds_mux d = None \<longleftrightarrow> m = None \<and> new = []))
     \<and> mux_reach (ds_mux d) \<and> same_call (ds_slot d) s
     \<and> (sl_state (ds_slot d) = SlotActive \<longleftrightarrow> err = None) \<and> (err = None \<longrightarrow> ds_mux d \<noteq> None)"

lemma finish_run_ok:
  assumes "slot_grows d0 (sr_d r)" "ds_slot d0 = s\<lparr>sl_state := SlotAllocating\<rparr>" "ds_mux d0 = m" "mux_reach m"
  shows "slot_run_ok s m (sr_d (fst (finish_run r))) (snd (finish_run r))"
  using assms by (auto simp: slot_run_ok_def slot_grows_def finish_run_def)

lemma failed_run_ok:
  assumes "slot_grows d0 d" "ds_slot d0 = s\<lparr>sl_state := SlotAllocating\<rparr>" "ds_mux d0 = m" "mux_reach m"
  shows "slot_run_ok s m d (Some e)"
  using assms by (auto simp: slot_run_ok_def slot_grows_def)

lemma start_run_simps [simp]:
  "ds_slot (sr_d (start_run s m)) = s" "ds_mux (sr_d (start_run s m)) = m" "sr_log (start_run s m) = []"
  "sr_pairs (start_run s m) = []" "sr_punch (start_run s m) = 0" "sr_batch (start_run s m) = 0"
  by (simp_all add: start_run_def)

lemma client_run_ok:
  assumes "mux_reach m"
  shows "slot_run_ok s m (sr_d (fst (AllocateAndConnect hmac senv now sid net tap ord x0 batches n s m)))
    (snd (AllocateAndConnect hmac senv now sid net tap ord x0 batches n s m))"
proof (cases "sl_sigClient s = None \<or> sl_mgr s = None")
  case True
  then show ?thesis
    using failed_run_ok [OF slot_grows_refl, of "sr_d (start_run (s\<lparr>sl_state := SlotAllocating\<rparr>) m)" s m] assms
    by (auto simp: AllocateAndConnect_def Let_def)
next
  case False
  let ?s = "s\<lparr>sl_state := SlotAllocating\<rparr>"
  let ?d = "sr_d (start_run ?s m)"
  have g: "slot_grows ?d (?d\<lparr>ds_slot := ?s\<lparr>sl_mgr := g\<rparr>\<rparr>)" for g using grows.R_mgr [of ?d] by simp
  have gh: "slot_grows ?d (fst (dtlsHandshakeParallel hmac senv now x sid as addrs (?d\<lparr>ds_slot := ?s\<lparr>sl_mgr := g\<rparr>\<rparr>)))" for x as addrs g
    by (rule slot_grows_trans [OF g grows.R_handshakes])
  have fin: "slot_run_ok s m (sr_d (fst (finish_run (log_event e (client_batches hmac senv now sid nonce bs r)))))
      (snd (finish_run (log_event e (client_batches hmac senv now sid nonce bs r))))" if "slot_grows ?d (sr_d r)" for e nonce bs r
    using finish_run_ok [of ?d "log_event e (client_batches hmac senv now sid nonce bs r)" s m]
      slot_grows_trans [OF that grows.R_client_batches] assms by simp
  have fl: "slot_run_ok s m d (Some e)" if "slot_grows ?d d" for d e using failed_run_ok [OF that, of s m] assms by simp
  from False show ?thesis
    by (auto simp del: client_batches.simps simp: AllocateAndConnect_def allocateClient_def Let_def case_prod_beta
        split: option.split sum.split intro!: fin fl g gh)
qed

lemma server_run_ok:
  assumes "mux_reach m"
  shows "slot_run_ok s m (sr_d (fst (AllocateAndConnectServer hmac senv now net tap pre ms s m)))
    (snd (AllocateAndConnectServer hmac senv now net tap pre ms s m))"
proof -
  let ?s = "s\<lparr>sl_state := SlotAllocating\<rparr>"
  have d: "sr_d (server_start ?s m) = sr_d (start_run ?s m)" by (simp add: server_start_def slot_run.defs)
  have g: "slot_grows (sr_d (start_run ?s m)) (sr_d (fst (server_batches hmac senv now net tap tokens pre ms (server_start ?s m))))" for tokens
    using grows.R_server_batches [of "server_start ?s m"] by (simp add: d)
  have fl: "slot_run_ok s m d (Some e)" if "slot_grows (sr_d (start_run ?s m)) d" for d e
    using failed_run_ok [OF that, of s m] assms by simp
  show ?thesis
  proof (cases "sl_sigClient s = None \<or> sl_mgr s = None")
    case True
    then show ?thesis using fl [OF slot_grows_refl] by (auto simp: AllocateAndConnectServer_def d)
  next
    case False
    obtain r err where b: "server_batches hmac senv now net tap (deduplicateTokens (sl_vkTokens s)) pre ms (server_start ?s m) = (r, err)"
      by fastforce
    then have "slot_grows (sr_d (start_run ?s m)) (sr_d r)" using g [of "deduplicateTokens (sl_vkTokens s)"] by simp
    then show ?thesis using False b fl [of "sr_d r"] assms
      by (cases err) (auto simp: AllocateAndConnectServer_def allocateServer_def Let_def slot_run_ok_def slot_grows_def)
  qed
qed

text \<open>A small call: one relay on each side.\<close>

definition demo_relay :: "string \<Rightarrow> Allocation" where
  "demo_relay addr = \<lparr>RelayAddr = addr, al_Creds = \<lparr>Username = [], Password = [], Host = [], Port = [], Servers = []\<rparr>, CreatedAt = 0\<rparr>"

definition demo_exchange :: "string list \<Rightarrow> exchange" where
  "demo_exchange addrs =
     \<lparr>ex_send = None, ex_recv = Inr addrs, ex_resolve = (\<lambda>_. None),
      ex_dial = (\<lambda>i _. Inr \<lparr>dc_id = i, dc_cleanup = True, dc_write = (\<lambda>_. True), dc_in = replicate 16 7\<rparr>),
      ex_rnd = (\<lambda>_. replicate 16 0), ex_order = (\<lambda>n. [0..<n])\<rparr>"

definition demo_slot :: "Role \<Rightarrow> CallSlot" where
  "demo_slot role = (NewCallSlot 0 0 role True [] [])\<lparr>sl_sigClient := Some 0, sl_mgr := Some (NewManager True True), sl_nonce := ''n''\<rparr>"

text \<open>C26: A run of a slot, of the client as of the server, whatever the services, the peer and the handshakes answer, adds some
  connections to those of the slot; the multiplexer has exactly as many more active connections, is created with the first one, and
  stays in a state that its own operations reach (so that its invariants hold); the call's identity, signaling client and nonce stay; the slot becomes active exactly when the run reports no error, and then there
  is a multiplexer.\<close>

theorem slot_run_accounts:
  assumes "mux_reach m"
  shows "slot_run_ok s m (sr_d (fst (AllocateAndConnect hmac senv now sid net tap ord x0 batches n s m)))
      (snd (AllocateAndConnect hmac senv now sid net tap ord x0 batches n s m))
    \<and> slot_run_ok s m (sr_d (fst (AllocateAndConnectServer hmac senv now net tap pre ms s m)))
      (snd (AllocateAndConnectServer hmac senv now net tap pre ms s m))"
  using client_run_ok [OF assms] server_run_ok [OF assms] by blast

theorem slot_run_accounts_witness:
  "let res = AllocateAndConnect (\<lambda>_ _. []) False 0 (replicate 16 7) (\<lambda>_ _ _ _. undefined) None id (demo_exchange [])
      (\<lambda>_. [([demo_relay ''c:1''], True, demo_exchange [''s:1''])]) 1 (demo_slot RoleClient) None
   in snd res = None \<and> sl_conns (ds_slot (sr_d (fst res))) = [0] \<and> slot_run_ok (demo_slot RoleClient) None (sr_d (fst res)) None"
proof -
  let ?res = "AllocateAndConnect (\<lambda>_ _. []) False 0 (replicate 16 7) (\<lambda>_ _ _ _. undefined) None id (demo_exchange [])
      (\<lambda>_. [([demo_relay ''c:1''], True, demo_exchange [''s:1''])]) 1 (demo_slot RoleClient) None"
  have e: "snd ?res = None" "sl_conns (ds_slot (sr_d (fst ?res))) = [0]" by code_simp+
  have "mux_reach None" by (simp add: mux_reach_def)
  from slot_run_accounts [OF this, of "demo_slot RoleClient" "\<lambda>_ _. []" False 0 "replicate 16 7" "\<lambda>_ _ _ _. undefined" None id "demo_exchange []"
      "\<lambda>_. [([demo_relay ''c:1''], True, demo_exchange [''s:1''])]" 1]
  show ?thesis using e unfolding Let_def by (metis (no_types, lifting))
qed

section \<open>Both sides pair the same relays\<close>

fun sent_batches :: "sig_event list \<Rightarrow> (string list \<times> bool \<times> string) list" where
  "sent_batches [] = []"
| "sent_batches (SendRelayBatch addrs role nonce batch final # es) = (addrs, final, nonce) # sent_batches es"
| "sent_batches (_ # es) = sent_batches es"

fun received_batches :: "sig_event list \<Rightarrow> string list list" where
  "received_batches [] = []"
| "received_batches (RecvRelayBatch addrs # es) = addrs # received_batches es"
| "received_batches (_ # es) = received_batches es"

lemma sent_batches_append [simp]: "sent_batches (es @ es') = sent_batches es @ sent_batches es'"
  by (induction es rule: sent_batches.induct) simp_all

lemma received_batches_append [simp]: "received_batches (es @ es') = received_batches es @ received_batches es'"
  by (induction es rule: received_batches.induct) simp_all

lemma batch_pairs_snd [simp]: "map snd (batch_pairs p as addrs) = zip (allocAddrs as) addrs"
  by (rule nth_equalityI) (simp_all add: batch_pairs_def Let_def allocAddrs_def)

lemma batch_pairs_fst: "map fst (batch_pairs p as addrs) = [p..<p + min (length as) (length addrs)]"
  by (rule nth_equalityI) (simp_all add: batch_pairs_def Let_def allocAddrs_def)

text \<open>In a run so far: a batch received for every batch sent gives the pairs, and no punch index was used twice.\<close>

definition client_paired :: "slot_run \<Rightarrow> bool" where
  "client_paired r \<longleftrightarrow>
     length (received_batches (sr_log r)) \<le> length (sent_batches (sr_log r))
     \<and> (length (received_batches (sr_log r)) = length (sent_batches (sr_log r)) \<longrightarrow>
          map snd (sr_pairs r) = concat (map2 (\<lambda>b. zip (fst b)) (sent_batches (sr_log r)) (received_batches (sr_log r))))
     \<and> distinct (map fst (sr_pairs r)) \<and> (\<forall>i\<in>set (map fst (sr_pairs r)). i < sr_punch r)"

lemma client_paired_cong:
  "client_paired r \<Longrightarrow> sr_log r' = sr_log r @ es \<Longrightarrow> sent_batches es = [] \<Longrightarrow> received_batches es = [] \<Longrightarrow>
   sr_pairs r' = sr_pairs r \<Longrightarrow> sr_punch r' = sr_punch r \<Longrightarrow> client_paired r'"
  by (simp add: client_paired_def)

lemma client_paired_unanswered:
  "client_paired r \<Longrightarrow> sr_log r' = sr_log r @ [SendRelayBatch addrs role nonce batch final] \<Longrightarrow>
   sr_pairs r' = sr_pairs r \<Longrightarrow> sr_punch r' = sr_punch r \<Longrightarrow> client_paired r'"
  by (simp add: client_paired_def)

lemma client_paired_exchange:
  assumes "client_paired r" "sr_log r' = sr_log r @ [SendRelayBatch (allocAddrs as) role nonce batch final, RecvRelayBatch addrs]"
    "sr_pairs r' = sr_pairs r @ batch_pairs (sr_punch r) as addrs" "sr_punch r' = sr_punch r + length as"
  shows "client_paired r'"
proof -
  have "distinct (map fst (sr_pairs r'))"
    using assms(1) unfolding assms(3) map_append batch_pairs_fst by (auto simp: client_paired_def)
  moreover have "\<forall>i\<in>set (map fst (sr_pairs r')). i < sr_punch r'"
    using assms(1) unfolding assms(3,4) map_append batch_pairs_fst by (auto simp: client_paired_def)
  ultimately show ?thesis using assms(1) by (simp add: client_paired_def assms(2,3))
qed

lemma client_batches_paired: "client_paired r \<Longrightarrow> client_paired (client_batches hmac senv now sid nonce bs r)"
proof (induction bs arbitrary: r)
  case (Cons b bs)
  obtain as final x where b: "b = (as, final, x)" by (cases b) auto
  have keep: "client_paired (upd_slot (keep_allocs as) r)" by (rule client_paired_cong [OF Cons.prems, where es = "[]"]) simp_all
  have un: "client_paired (log_event (SendRelayBatch (allocAddrs as) RoleClient nonce k final) (upd_slot (keep_allocs as) r))" for k
    by (rule client_paired_unanswered [OF keep]) simp_all
  have ex: "client_paired (fst (run_dtls hmac senv now sid x as addrs (log_event (RecvRelayBatch addrs)
        (log_event (SendRelayBatch (allocAddrs as) RoleClient nonce k final) (upd_slot (keep_allocs as) r))))
      \<lparr>sr_punch := sr_punch r + length as, sr_batch := k'\<rparr>)" for addrs k k'
    by (rule client_paired_exchange [OF keep]) simp_all
  show ?case using keep un ex by (auto simp: b Let_def case_prod_beta split: option.split sum.split intro!: Cons.IH)
qed simp

lemma client_run_paired:
  assumes "allocateClient hmac senv now sid net tap ord x0 batches n s m = (r, None)"
  shows "client_paired r"
proof -
  have start: "client_paired (start_run s m)" by (simp add: client_paired_def)
  let ?r1 = "\<lambda>mgr. upd_slot (\<lambda>s. s\<lparr>sl_mgr := Some mgr\<rparr>) (log_event (StartPunchDispatcher (sl_nonce s))
      (log_event (WaitDisconnectAck (sl_nonce s)) (log_event (SendDisconnectReq (sl_nonce s)) (start_run s m))))"
  have r1: "client_paired (?r1 mgr)" for mgr 
    by (rule client_paired_cong [OF start, where es = "[SendDisconnectReq (sl_nonce s), WaitDisconnectAck (sl_nonce s), StartPunchDispatcher (sl_nonce s)]"])
       simp_all
  have ex: "client_paired (fst (run_dtls hmac senv now sid x0 as addrs (log_event (RecvRelayBatch addrs)
        (log_event (SendRelayBatch (allocAddrs as) RoleClient nonce 0 final) (?r1 mgr))))\<lparr>sr_punch := length as, sr_batch := k\<rparr>)"
    for as addrs final mgr k nonce
    by (rule client_paired_exchange [OF r1]) simp_all
  have fin: "client_paired r'" if "finish_run (log_event StopPunchDispatcher (client_batches hmac senv now sid nonce bs r0)) = (r', None)"
    "client_paired r0" for r' nonce bs r0
    using client_paired_cong [OF client_batches_paired [OF that(2)], where r' = r' and es = "[StopPunchDispatcher]"] that(1)
    by (auto simp: finish_run_def split: if_splits)
  show ?thesis using assms
    by (auto simp del: client_batches.simps simp: allocateClient_def Let_def case_prod_beta split: option.splits sum.splits if_splits
        elim!: fin intro!: r1 ex)
qed

text \<open>The batches among the messages of a server.\<close>

definition server_received :: "server_msg list \<Rightarrow> (string list \<times> bool \<times> string) list" where
  "server_received ms = concat (map (\<lambda>m. case fst m of Inl e \<Rightarrow> [] | Inr b \<Rightarrow> [b]) ms)"

lemma server_received_simps [simp]:
  "server_received [] = []" "server_received ((Inl e, io) # ms) = server_received ms"
  "server_received ((Inr b, io) # ms) = b # server_received ms"
  by (simp_all add: server_received_def)

lemma server_allocs_simps [simp]:
  "sr_log (fst (server_allocs net now tap anon tokens pre needed r)) = sr_log r"
  "sr_pairs (fst (server_allocs net now tap anon tokens pre needed r)) = sr_pairs r"
  "sv_clientNonce (fst (server_allocs net now tap anon tokens pre needed r)) = sv_clientNonce r"
  by (simp_all add: server_allocs_def Let_def split: prod.split)

text \<open>
  A server sends at most one batch for each one it receives; where it sends one for each, its pairs are the pairs of what it sent and
  received.
\<close>

lemma server_batches_paired:
  assumes "fst (server_batches hmac senv now net tap tokens pre ms r) = r'"
  shows "\<exists>new. sent_batches (sr_log r') = sent_batches (sr_log r) @ new \<and> length new \<le> length (server_received ms)
    \<and> (length new = length (server_received ms) \<longrightarrow>
         map snd (sr_pairs r') = map snd (sr_pairs r) @ concat (map2 (\<lambda>b c. zip (fst b) (fst c)) new (server_received ms)))"
  using assms
proof (induction ms arbitrary: r)
  case (Cons b ms)
  obtain msg anon x where b: "b = (msg, anon, x)" by (cases b) auto
  show ?case
  proof (cases msg)
    case (Inl e)
    then show ?thesis
      using Cons.IH [of "r\<lparr>sr_log := sr_log r @ [SendDisconnectAck (the (as_disconnect e))], sr_batch := sr_batch r + 1\<rparr>"] Cons.prems
      by (auto simp: b split: if_splits)
  next
    case (Inr bt)
    obtain addrs final nonce where m: "bt = (addrs, final, nonce)" by (cases bt) auto
    let ?r0 = "if sv_clientNonce r = [] then r\<lparr>sv_clientNonce := nonce\<rparr> else r"
    obtain r1 allocs where a: "server_allocs net now tap anon tokens pre (length addrs) ?r0 = (r1, allocs)" by fastforce
    have l: "sr_log r1 = sr_log r" "sr_pairs r1 = sr_pairs r"
      using server_allocs_simps(1,2) [of net now tap anon tokens pre "length addrs" ?r0] by (simp_all add: a)
    let ?sent = "[SendRelayBatch (allocAddrs allocs) RoleServer (sv_clientNonce r1) (sr_batch r1) final]"
    let ?d = "fst (dtlsHandshakeParallel hmac senv now x (replicate 16 0) allocs addrs (sr_d r1))"
    define rc where "rc = (if allocs = [] then r1 else r1\<lparr>sr_log := sr_log r1 @ (if ex_send x = None then ?sent else []), sr_d := ?d,
        sr_pairs := sr_pairs r1 @ batch_pairs (sr_punch r1) allocs addrs, sr_punch := sr_punch r1 + length allocs\<rparr>)"
    have r': "r' = (if final then rc else fst (server_batches hmac senv now net tap tokens pre ms (rc\<lparr>sr_batch := sr_batch rc + 1\<rparr>)))"
      using Cons.prems by (auto simp: b Inr m a rc_def Let_def case_prod_beta)
    have "\<exists>new. sent_batches (sr_log r') = sent_batches (sr_log rc) @ new \<and> length new \<le> length (server_received ms)
      \<and> (length new = length (server_received ms) \<longrightarrow>
         map snd (sr_pairs r') = map snd (sr_pairs rc) @ concat (map2 (\<lambda>b c. zip (fst b) (fst c)) new (server_received ms)))"
      using Cons.IH [of "rc\<lparr>sr_batch := sr_batch rc + 1\<rparr>"] r' by (cases final) auto
    then obtain new where n: "sent_batches (sr_log r') = sent_batches (sr_log rc) @ new" "length new \<le> length (server_received ms)"
      "length new = length (server_received ms) \<Longrightarrow>
         map snd (sr_pairs r') = map snd (sr_pairs rc) @ concat (map2 (\<lambda>b c. zip (fst b) (fst c)) new (server_received ms))" by blast
    show ?thesis
    proof (cases "allocs = [] \<or> ex_send x \<noteq> None")
      case True
      then have "sent_batches (sr_log rc) = sent_batches (sr_log r)" by (auto simp: rc_def l)
      then show ?thesis using n by (intro exI [of _ new]) (simp add: b Inr)
    next
      case False
      then have "sent_batches (sr_log rc) = sent_batches (sr_log r) @ [(allocAddrs allocs, final, sv_clientNonce r1)]"
        "map snd (sr_pairs rc) = map snd (sr_pairs r) @ zip (allocAddrs allocs) addrs" by (auto simp: rc_def l)
      then show ?thesis using n by (intro exI [of _ "(allocAddrs allocs, final, sv_clientNonce r1) # new"]) (simp add: b Inr m)
    qed
  qed
qed simp

lemma concat_swap_zip:
  "length xs = length ys \<Longrightarrow>
   map prod.swap (concat (map2 (\<lambda>b c. zip (fst b) (fst c)) xs ys)) = concat (map2 (\<lambda>b. zip (fst b)) ys (map fst xs))"
proof (induction xs ys rule: list_induct2)
  case (Cons x xs y ys)
  have "map prod.swap (zip (fst x) (fst y)) = zip (fst y) (fst x)"
    using zip_commute [of "fst y" "fst x"] by (simp add: prod.swap_def case_prod_beta)
  then show ?case using Cons by simp
qed simp

text \<open>C11: When a client's run succeeds, the server receives the batches of addresses that the client sent and answers each, and the client receives
  these answers, then the handshakes of the two sides match: they are the same pairs of relays, seen from both ends and in the same order,
  whatever the allocations, tokens and batch sizes, and also where the server has fewer relays than the client; and the client uses no
  punch index twice.\<close>

theorem slots_pair_relays:
  assumes "allocateClient hmac senv now sid net tap ord x0 batches n s m = (rc, None)"
    "allocateServer hmac' senv' now' net' tap' pre ms s' m' = (rs, err)"
    "server_received ms = sent_batches (sr_log rc)"
    "received_batches (sr_log rc) = map fst (sent_batches (sr_log rs))"
    "length (received_batches (sr_log rc)) = length (sent_batches (sr_log rc))"
  shows "map (\<lambda>(i, l, r). (r, l)) (sr_pairs rs) = map snd (sr_pairs rc) \<and> distinct (map fst (sr_pairs rc))"
proof -
  have c: "map snd (sr_pairs rc) = concat (map2 (\<lambda>b. zip (fst b)) (sent_batches (sr_log rc)) (received_batches (sr_log rc)))"
    "distinct (map fst (sr_pairs rc))"
    using client_run_paired [OF assms(1)] assms(5) by (simp_all add: client_paired_def)
  let ?r = "fst (server_batches hmac' senv' now' net' tap' (deduplicateTokens (sl_vkTokens s')) pre ms (server_start s' m'))"
  have start: "sr_log (server_start s' m') = []" "sr_pairs (server_start s' m') = []"
    by (simp_all add: server_start_def slot_run.defs start_run_def)
  have rs: "sr_log rs = sr_log ?r" "sr_pairs rs = sr_pairs ?r"
    using assms(2) by (auto simp: allocateServer_def split: prod.splits option.splits if_splits)
  obtain new where n: "sent_batches (sr_log ?r) = new"
    "length new = length (server_received ms) \<longrightarrow>
       map snd (sr_pairs ?r) = concat (map2 (\<lambda>b c. zip (fst b) (fst c)) new (server_received ms))"
    using server_batches_paired [OF refl, of hmac' senv' now' net' tap' "deduplicateTokens (sl_vkTokens s')" pre ms "server_start s' m'"]
    by (auto simp: start)
  have len: "length new = length (server_received ms)" using assms(3-5) rs n(1) by (metis length_map)
  then have "map snd (sr_pairs rs) = concat (map2 (\<lambda>b c. zip (fst b) (fst c)) new (server_received ms))" using n rs by simp
  then have "map prod.swap (map snd (sr_pairs rs)) = concat (map2 (\<lambda>b. zip (fst b)) (server_received ms) (map fst new))"
    using concat_swap_zip [OF len] by simp
  moreover have "map fst new = received_batches (sr_log rc)" using assms(4) rs n(1) by simp
  moreover have "map prod.swap (map snd (sr_pairs rs)) = map (\<lambda>(i, l, r). (r, l)) (sr_pairs rs)" by (simp add: prod.swap_def case_prod_beta)
  ultimately show ?thesis using c assms(3) by simp
qed

definition demo_client :: "slot_run \<times> goerr option" where
  "demo_client = allocateClient (\<lambda>_ _. []) False 0 (replicate 16 7) (\<lambda>_ _ _ _. undefined) None id (demo_exchange [])
     (\<lambda>_. [([demo_relay ''c:1''], True, demo_exchange [''s:1''])]) 1 (demo_slot RoleClient) None"

definition demo_server :: "server_run \<times> goerr option" where
  "demo_server = allocateServer (\<lambda>_ _. []) False 0 (\<lambda>_ _ _ _. undefined) None [demo_relay ''s:1'']
     [(Inl (DisconnectError ''n''), \<lambda>_. [], demo_exchange []), (Inr ([''c:1''], True, ''n''), \<lambda>_. [], demo_exchange [])] (demo_slot RoleServer) None"

lemma demo_client_run:
  "snd demo_client = None" "sent_batches (sr_log (fst demo_client)) = [([''c:1''], True, ''n'')]"
  "received_batches (sr_log (fst demo_client)) = [[''s:1'']]" "sr_pairs (fst demo_client) = [(0, ''c:1'', ''s:1'')]"
  by code_simp+

lemma demo_server_run:
  "snd demo_server = None" "sent_batches (sr_log (fst demo_server)) = [([''s:1''], True, ''n'')]"
  by code_simp+

theorem slots_pair_relays_witness:
  "map (\<lambda>(i, l, r). (r, l)) (sr_pairs (fst demo_server)) = [(''c:1'', ''s:1'')]"
proof -
  have "allocateClient (\<lambda>_ _. []) False 0 (replicate 16 7) (\<lambda>_ _ _ _. undefined) None id (demo_exchange [])
     (\<lambda>_. [([demo_relay ''c:1''], True, demo_exchange [''s:1''])]) 1 (demo_slot RoleClient) None = (fst demo_client, None)"
    using demo_client_run(1) by (metis demo_client_def prod.collapse)
  moreover have "allocateServer (\<lambda>_ _. []) False 0 (\<lambda>_ _ _ _. undefined) None [demo_relay ''s:1'']
     [(Inl (DisconnectError ''n''), \<lambda>_. [], demo_exchange []), (Inr ([''c:1''], True, ''n''), \<lambda>_. [], demo_exchange [])] (demo_slot RoleServer) None
     = (fst demo_server, snd demo_server)"
    by (simp add: demo_server_def)
  ultimately show ?thesis
    using slots_pair_relays [of "\<lambda>_ _. []" False 0 "replicate 16 7" "\<lambda>_ _ _ _. undefined" None id "demo_exchange []"
        "\<lambda>_. [([demo_relay ''c:1''], True, demo_exchange [''s:1''])]" 1 "demo_slot RoleClient" None "fst demo_client"
        "\<lambda>_ _. []" False 0 "\<lambda>_ _ _ _. undefined" None "[demo_relay ''s:1'']"
        "[(Inl (DisconnectError ''n''), \<lambda>_. [], demo_exchange []), (Inr ([''c:1''], True, ''n''), \<lambda>_. [], demo_exchange [])]"
        "demo_slot RoleServer" None "fst demo_server" "snd demo_server"]
    by (simp add: demo_client_run demo_server_run)
qed

section \<open>Admission of connections\<close>

text \<open>What a client writes on a new connection is accepted by a server with the same token, which takes the session identifier
  and leaves the rest of the stream; with another token it is accepted only if the two authentication codes of that nonce agree.\<close>

theorem slot_preamble_admission:
  assumes hmac: "\<And>k m. length (hmac k m) = hmacSize" and "length nonce = nonceSize" "length sid = sessionIDSize"
  shows "server_preamble hmac tok (concat (client_preamble hmac nonce tok sid) @ rest) = Inr (sid, rest)
    \<and> (tok \<noteq> [] \<and> tok' \<noteq> [] \<longrightarrow>
        (server_preamble hmac tok' (concat (client_preamble hmac nonce tok sid) @ rest) = Inr (sid, rest) \<longleftrightarrow> hmac tok' nonce = hmac tok nonce)
        \<and> (hmac tok' nonce \<noteq> hmac tok nonce \<longrightarrow>
            server_preamble hmac tok' (concat (client_preamble hmac nonce tok sid) @ rest) = Inl AuthTokenMismatch))"
  using assms
  by (auto simp: server_preamble_def client_preamble_def WriteAuthToken_def WriteSessionID_def ValidateAuthToken_def ReadSessionID_def)

text \<open>
  A server that gets no relay for a batch sends nothing back, although the client waits for an answer before it sends its next batch.
\<close>

lemma server_silent_without_relays:
  assumes "server_allocs net now tap anon tokens pre (length addrs) (r\<lparr>sv_clientNonce := nonce\<rparr>) = (r1, [])" "sv_clientNonce r = []"
  shows "sr_log (fst (server_batches hmac senv now net tap tokens pre [(Inr (addrs, False, nonce), anon, x)] r)) = sr_log r"
  using assms server_allocs_simps(1) [of net now tap anon tokens pre "length addrs" "r\<lparr>sv_clientNonce := nonce\<rparr>"] by simp

text \<open>The number of active connections of a slot never falls, so that its status always reports all connections ever added as active.\<close>

lemma status_never_falls:
  assumes "sl_activeC s = int (length (sl_conns s))" "mux_reach m"
    "AllocateAndConnect hmac senv now sid net tap ord x0 batches n s m = (r, err)"
  shows "st_ActiveConn (slot_Status (fst (slot_Close (ds_slot (sr_d r))))) = int (st_TotalConn (slot_Status (fst (slot_Close (ds_slot (sr_d r))))))"
  using client_run_ok [OF assms(2), of s hmac senv now sid net tap ord x0 batches n] assms(1,3)
  by (auto simp: slot_run_ok_def slot_Status_def slot_Close_def)

end
