(* ===== verification/Pool_Props.thy ===== *)
theory Pool_Props
  imports Call_Pool Slot_Props
begin

text \<open>
  Properties of the pool of calls: an invariant of everything it does, concurrent reconnects included, and a retry that gets lost.
\<close>

section \<open>Invariant\<close>

definition sig_of :: "CallPool \<Rightarrow> nat \<Rightarrow> nat option" where
  "sig_of p i = (if i < length (cp_slots p) then sl_sigClient (cp_slots p ! i) else None)"

text \<open>Every slot is at its index and has counted its connections.\<close>

definition slots_ok :: "CallPool \<Rightarrow> bool" where
  "slots_ok p \<longleftrightarrow> (\<forall>i<length (cp_slots p). sl_index (cp_slots p ! i) = i
     \<and> sl_activeC (cp_slots p ! i) = int (length (sl_conns (cp_slots p ! i)))) \<and> mux_reach (cp_m p)"

text \<open>The router finds the signaling client of every slot by the nonce of that slot, and until the pool is closed it has no other clients.\<close>

definition routes_ok :: "CallPool \<Rightarrow> bool" where
  "routes_ok p \<longleftrightarrow> router_inv (cp_router p)
     \<and> (\<forall>i j c. sig_of p i = Some c \<longrightarrow> sig_of p j = Some c \<longrightarrow> i = j)
     \<and> (\<forall>i c. sig_of p i = Some c \<longrightarrow> c \<in> set (sr_clients (cp_router p)) \<and> client_of (cp_router p) (sl_nonce (cp_slots p ! i)) = Some c)
     \<and> (\<not> cp_done p \<longrightarrow> (\<forall>c\<in>set (sr_clients (cp_router p)). \<exists>i. sig_of p i = Some c))"

definition delay_range :: "int \<Rightarrow> bool" where
  "delay_range d \<longleftrightarrow> reconnectInitDelay \<le> d \<and> d \<le> reconnectMaxDelay"

fun phase_ok :: "rs_phase \<Rightarrow> bool" where
  "phase_ok (Waiting d) = delay_range d"
| "phase_ok (Replaced d) = delay_range d"
| "phase_ok (Connected d) = delay_range d"
| "phase_ok Finishing = True"

definition tasks_ok :: "CallPool \<Rightarrow> bool" where
  "tasks_ok p \<longleftrightarrow> distinct (map fst (cp_tasks p)) \<and> distinct (cp_reconnecting p) \<and> fst ` set (cp_tasks p) = set (cp_reconnecting p)
     \<and> (\<forall>(i, ph)\<in>set (cp_tasks p). i < length (cp_slots p) \<and> phase_ok ph)
     \<and> (\<forall>i d. cp_delays p i = Some d \<longrightarrow> d = 0 \<or> delay_range d) \<and> length (reconnectCh p) \<le> reconnectCap p"

definition pool_ok :: "CallPool \<Rightarrow> bool" where
  "pool_ok p \<longleftrightarrow> slots_ok p \<and> routes_ok p \<and> tasks_ok p"

section \<open>Steps keep it\<close>

lemma next_delay_range: "delay_range d \<Longrightarrow> delay_range (next_delay d)"
  by (simp add: delay_range_def next_delay_def reconnectInitDelay_def reconnectMaxDelay_def)

lemma rs_delay_range: "tasks_ok p \<Longrightarrow> delay_range (rs_delay i p)"
  by (auto simp: rs_delay_def tasks_ok_def delay_range_def reconnectInitDelay_def reconnectMaxDelay_def split: option.split)

text \<open>Changes of the queue, the tasks and the delays leave the slots and routes alone.\<close>

lemma pool_ok_queues:
  assumes "pool_ok p" "cp_slots q = cp_slots p" "cp_m q = cp_m p" "cp_router q = cp_router p" "cp_done q = cp_done p" "tasks_ok p \<Longrightarrow> tasks_ok q"
  shows "pool_ok q"
proof -
  have "sig_of q = sig_of p" using assms(2) by (simp add: sig_of_def fun_eq_iff)
  then have "routes_ok q = routes_ok p" by (simp add: routes_ok_def assms(2,4,5))
  moreover have "slots_ok q = slots_ok p" by (simp add: slots_ok_def assms(2,3))
  ultimately show ?thesis using assms(1,6) by (simp add: pool_ok_def)
qed

lemma queueReconnect_ok: "pool_ok p \<Longrightarrow> pool_ok (queueReconnect i p)"
  by (erule pool_ok_queues) (simp_all add: queueReconnect_def tasks_ok_def)

lemma monitor_ok: "pool_ok p \<Longrightarrow> pool_ok (monitor_tick alive p)"
proof -
  assume p: "pool_ok p"
  have "pool_ok q \<Longrightarrow> pool_ok (foldl (\<lambda>p s. monitor_slot alive down s p) q ss)" for q down ss
    by (induction ss arbitrary: q) (simp_all add: monitor_slot_def queueReconnect_ok)
  then show ?thesis using p by (simp add: monitor_tick_def Let_def)
qed

lemma set_phase_fst: "map fst (cp_tasks (set_phase i ph p)) = map fst (cp_tasks p)"
  by (simp add: set_phase_def)

lemma set_phase_ok: "pool_ok p \<Longrightarrow> phase_ok ph \<Longrightarrow> pool_ok (set_phase i ph p)"
proof (erule pool_ok_queues)
  assume ph: "phase_ok ph" and p: "tasks_ok p"
  have "fst ` set (cp_tasks (set_phase i ph p)) = fst ` set (cp_tasks p)" using set_phase_fst [of i ph p] by (metis set_map)
  moreover have "\<forall>(j, ph)\<in>set (cp_tasks (set_phase i ph p)). j < length (cp_slots p) \<and> phase_ok ph"
    using p ph by (auto simp: tasks_ok_def set_phase_def)
  ultimately show "tasks_ok (set_phase i ph p)"
    using p unfolding tasks_ok_def set_phase_fst by (simp add: set_phase_def)
qed (simp_all add: set_phase_def)

lemma loop_take_ok: "pool_ok p \<Longrightarrow> pool_ok (loop_take p)"
proof (erule pool_ok_queues)
  assume p: "tasks_ok p"
  show "tasks_ok (loop_take p)"
  proof (cases "reconnectCh p")
    case (Cons i ch)
    have "delay_range (rs_delay i (p\<lparr>reconnectCh := ch\<rparr>))" using rs_delay_range [OF p] by (simp add: rs_delay_def)
    then show ?thesis using p Cons by (auto simp: loop_take_def Let_def tasks_ok_def)
  qed (simp add: loop_take_def p)
qed (auto simp: loop_take_def Let_def split: list.split)

lemma finish_ok: "pool_ok p \<Longrightarrow> pool_ok (rs_finish i p)"
  by (erule pool_ok_queues) (auto simp: rs_finish_def tasks_ok_def distinct_map_filter distinct_removeAll)

lemma delays_ok: "pool_ok p \<Longrightarrow> d = 0 \<or> delay_range d \<Longrightarrow> pool_ok (p\<lparr>cp_delays := (cp_delays p)(i \<mapsto> d)\<rparr>)"
  by (erule pool_ok_queues) (auto simp: tasks_ok_def)

lemma failed_ok: "pool_ok p \<Longrightarrow> delay_range d \<Longrightarrow> pool_ok (rs_failed i d p)"
  unfolding rs_failed_def by (intro set_phase_ok queueReconnect_ok delays_ok) (simp_all add: next_delay_range)

text \<open>Changes of the slots, the router and the multiplexer leave the tasks alone.\<close>

lemma pool_ok_slots:
  assumes "pool_ok p" "length (cp_slots q) = length (cp_slots p)" "cp_tasks q = cp_tasks p" "cp_reconnecting q = cp_reconnecting p"
    "cp_delays q = cp_delays p" "reconnectCh q = reconnectCh p" "reconnectCap q = reconnectCap p" "slots_ok q" "routes_ok q"
  shows "pool_ok q"
  using assms by (simp add: pool_ok_def tasks_ok_def)

lemma succeeded_ok: "pool_ok p \<Longrightarrow> pool_ok (rs_succeeded i p)"
proof -
  assume "pool_ok p"
  have "pool_ok (p\<lparr>cp_router := ResetDedup (cp_router p)\<rparr>)" if p: "pool_ok p" for p
  proof (rule pool_ok_slots [OF p])
    have "sig_of (p\<lparr>cp_router := ResetDedup (cp_router p)\<rparr>) = sig_of p" by (simp add: sig_of_def fun_eq_iff)
    moreover have "client_of (ResetDedup (cp_router p)) = client_of (cp_router p)" "router_inv (ResetDedup (cp_router p)) = router_inv (cp_router p)"
      "sr_clients (ResetDedup (cp_router p)) = sr_clients (cp_router p)"
      by (simp_all add: ResetDedup_def client_of_def router_inv_def fun_eq_iff)
    ultimately show "routes_ok (p\<lparr>cp_router := ResetDedup (cp_router p)\<rparr>)" using p by (simp add: pool_ok_def routes_ok_def)
    show "slots_ok (p\<lparr>cp_router := ResetDedup (cp_router p)\<rparr>)" using p by (simp add: pool_ok_def slots_ok_def)
  qed simp_all
  from this [OF delays_ok [OF \<open>pool_ok p\<close>, of 0 i]] show ?thesis unfolding rs_succeeded_def by (intro set_phase_ok) simp_all
qed

text \<open>A slot that keeps its client and nonce, with a multiplexer in a reachable state.\<close>

lemma set_slot_ok:
  assumes p: "pool_ok p" and i: "i < length (cp_slots p)" and "same_call s (cp_slots p ! i)" "sl_activeC s = int (length (sl_conns s))"
    "mux_reach m"
  shows "pool_ok ((set_slot i s p)\<lparr>cp_m := m\<rparr>)"
proof (rule pool_ok_slots [OF p])
  let ?q = "(set_slot i s p)\<lparr>cp_m := m\<rparr>"
  have nth: "cp_slots ?q ! j = (if j = i then s else cp_slots p ! j)" if "j < length (cp_slots p)" for j
    using that i by (simp add: set_slot_def)
  have "sig_of ?q = sig_of p" using assms(3) i by (auto simp: sig_of_def fun_eq_iff set_slot_def nth_list_update same_call_def)
  moreover have "sl_nonce (cp_slots ?q ! j) = sl_nonce (cp_slots p ! j)" if "sig_of p j = Some c" for j c
    using that assms(3) nth [of j] by (auto simp: sig_of_def same_call_def split: if_splits)
  moreover have "cp_router ?q = cp_router p" "cp_done ?q = cp_done p" by (simp_all add: set_slot_def)
  moreover have "routes_ok p" using p by (simp add: pool_ok_def)
  ultimately show "routes_ok ?q" unfolding routes_ok_def by simp
  show "slots_ok ?q" using p assms(3-5) i by (auto simp: pool_ok_def slots_ok_def set_slot_def nth_list_update same_call_def)
qed (simp_all add: set_slot_def)

lemma slot_fields:
  assumes "pool_ok p" "i < length (cp_slots p)"
  shows "sl_activeC (cp_slots p ! i) = int (length (sl_conns (cp_slots p ! i)))" "sl_index (cp_slots p ! i) = i" "mux_reach (cp_m p)"
  using assms by (auto simp: pool_ok_def slots_ok_def)

lemma store_run_ok:
  assumes p: "pool_ok p" and i: "i < length (cp_slots p)" and run: "slot_run_ok (cp_slots p ! i) (cp_m p) d err"
  shows "pool_ok (store_run i d keep p)"
proof -
  have "sl_activeC (ds_slot d) = int (length (sl_conns (ds_slot d)))" "same_call (ds_slot d) (cp_slots p ! i)" "mux_reach (ds_mux d)"
    using run slot_fields [OF p i] by (auto simp: slot_run_ok_def)
  moreover have "mux_reach None" by (simp add: mux_reach_def)
  ultimately show ?thesis using set_slot_ok [OF p i] by (simp add: store_run_def)
qed

lemma client_store_ok:
  "pool_ok p \<Longrightarrow> i < length (cp_slots p) \<Longrightarrow> slot_client hmac senv now env i p = (r, err) \<Longrightarrow> pool_ok (store_run i (sr_d r) keep p)"
  using client_run_ok [OF slot_fields(3)] unfolding slot_client_def by (metis fst_conv store_run_ok)

lemma server_store_ok:
  "pool_ok p \<Longrightarrow> i < length (cp_slots p) \<Longrightarrow> slot_server hmac senv now env pre i p = (r, err) \<Longrightarrow> pool_ok (store_run i (sr_d r) keep p)"
  using server_run_ok [OF slot_fields(3)] unfolding slot_server_def by (metis fst_conv store_run_ok)

lemma slots_length [simp]:
  "length (cp_slots (set_slot i s p)) = length (cp_slots p)" "length (cp_slots (store_run i d keep p)) = length (cp_slots p)"
  "cp_slots (queueReconnect i p) = cp_slots p" "cp_slots (set_phase i ph p) = cp_slots p"
  "length (cp_slots (fst (connect_slot jo rnd i p))) = length (cp_slots p)"
  by (simp_all add: set_slot_def store_run_def queueReconnect_def set_phase_def connect_slot_def split: prod.split option.split)

text \<open>A new client and a nonce that no slot uses.\<close>

definition fresh_join :: "join_outcome \<Rightarrow> bytes \<Rightarrow> CallPool \<Rightarrow> bool" where
  "fresh_join jo rnd p \<longleftrightarrow> (\<forall>c. jo_sig jo = Inr c \<longrightarrow> c \<notin> set (sr_clients (cp_router p)))
     \<and> (\<forall>j c. sig_of p j = Some c \<longrightarrow> sl_nonce (cp_slots p ! j) \<noteq> generateNonce rnd)"

lemma slot_Connect_cases:
  obtains (failed) cl s' e where "slot_Connect jo rnd s = (cl, s', Some e)" "same_call s' s" "sl_activeC s' = sl_activeC s" "sl_conns s' = sl_conns s"
      "sl_state s' = SlotConnecting"
  | (connected) c s' where "slot_Connect jo rnd s = ([], s', None)" "jo_sig jo = Inr c" "sl_sigClient s' = Some c" "sl_nonce s' = generateNonce rnd"
      "sl_index s' = sl_index s" "sl_activeC s' = sl_activeC s" "sl_conns s' = sl_conns s" "sl_state s' = SlotConnecting"
proof -
  obtain cl s' err where e: "slot_Connect jo rnd s = (cl, s', err)" by (metis prod_cases3)
  show thesis
  proof (cases err)
    case None
    then show thesis using e connected [of s'] by (auto simp: slot_Connect_def Let_def split: option.splits sum.splits if_splits)
  next
    case (Some x)
    then have "same_call s' s" "sl_activeC s' = sl_activeC s" "sl_conns s' = sl_conns s" "sl_state s' = SlotConnecting"
      using e by (auto simp: slot_Connect_def setError_def same_call_def Let_def split: option.splits sum.splits if_splits)
    then show thesis using e Some failed by blast
  qed
qed

lemma register_ok:
  assumes p: "pool_ok p" and i: "i < length (cp_slots p)" and none: "sig_of p i = None" and c: "c \<notin> set (sr_clients (cp_router p))"
    and fresh: "\<And>j c. sig_of p j = Some c \<Longrightarrow> sl_nonce (cp_slots p ! j) \<noteq> n"
    and s: "sl_sigClient s = Some c" "sl_nonce s = n" "sl_index s = i" "sl_activeC s = int (length (sl_conns s))"
  shows "pool_ok ((set_slot i s p)\<lparr>cp_router := Register c n (cp_router p)\<rparr>)"
proof (rule pool_ok_slots [OF p])
  let ?q = "(set_slot i s p)\<lparr>cp_router := Register c n (cp_router p)\<rparr>"
  have r: "routes_ok p" using p by (simp add: pool_ok_def)
  have sig: "sig_of ?q j = (if j = i then Some c else sig_of p j)" for j using i s(1) by (simp add: sig_of_def set_slot_def)
  have nonce: "sl_nonce (cp_slots ?q ! j) = (if j = i then n else sl_nonce (cp_slots p ! j))" for j
    using i s(2) by (cases "j = i") (simp_all add: set_slot_def)
  have reg: "router_inv (Register c n (cp_router p))" "set (sr_clients (Register c n (cp_router p))) = insert c (set (sr_clients (cp_router p)))"
    "client_of (Register c n (cp_router p)) = (client_of (cp_router p))(n \<mapsto> c)"
    using router.add_law [OF _ c, of n] r by (auto simp: routes_ok_def)
  have old: "c' \<in> set (sr_clients (cp_router p))" "client_of (cp_router p) (sl_nonce (cp_slots p ! j)) = Some c'" "c' \<noteq> c"
    if "sig_of p j = Some c'" for j c' using that r c unfolding routes_ok_def by blast+
  have inj: "j = k" if "sig_of ?q j = Some c'" "sig_of ?q k = Some c'" for j k c'
    using that old(3) r unfolding sig routes_ok_def by (metis (no_types, lifting) option.inject)
  have route: "c' \<in> set (sr_clients (cp_router ?q)) \<and> client_of (cp_router ?q) (sl_nonce (cp_slots ?q ! j)) = Some c'" if "sig_of ?q j = Some c'" for j c'
    using that old(1,2) fresh unfolding nonce sig by (auto simp: reg split: if_splits)
  have all: "\<exists>j. sig_of ?q j = Some c'" if nd: "\<not> cp_done ?q" and c': "c' \<in> set (sr_clients (cp_router ?q))" for c'
  proof (cases "c' = c")
    case False
    then have "c' \<in> set (sr_clients (cp_router p))" using c' by (simp add: reg)
    moreover have "\<not> cp_done p" using nd by (simp add: set_slot_def)
    ultimately obtain j where j: "sig_of p j = Some c'" using r unfolding routes_ok_def by blast
    then have "j \<noteq> i" using none by auto
    then show ?thesis using j by (intro exI [of _ j]) (simp add: sig)
  qed (intro exI [of _ i], simp add: sig)
  show "routes_ok ?q" unfolding routes_ok_def using reg(1) inj route all by simp
  show "slots_ok ?q" using p i s(3,4) by (auto simp: pool_ok_def slots_ok_def set_slot_def nth_list_update)
qed (simp_all add: set_slot_def)

lemma connect_slot_ok:
  assumes p: "pool_ok p" and i: "i < length (cp_slots p)" and none: "sig_of p i = None" and fresh: "fresh_join jo rnd p"
  shows "pool_ok (fst (connect_slot jo rnd i p))"
proof (cases rule: slot_Connect_cases [of jo rnd "cp_slots p ! i"])
  case (failed cl s' e)
  then show ?thesis using set_slot_ok [OF p i, of s' "cp_m p"] slot_fields [OF p i] by (simp add: connect_slot_def set_slot_def)
next
  case (connected c s')
  moreover have "c \<notin> set (sr_clients (cp_router p))" using fresh connected(2) by (simp add: fresh_join_def)
  ultimately show ?thesis using register_ok [OF p i none, of c "generateNonce rnd" s'] slot_fields [OF p i] fresh
    by (auto simp: connect_slot_def fresh_join_def)
qed

lemma replace_ok:
  assumes p: "pool_ok p" and i: "i < length (cp_slots p)" and d: "delay_range d"
  shows "pool_ok (rs_replace i d p)"
proof -
  let ?s = "cp_slots p ! i"
  let ?new = "NewCallSlot i (sl_svc ?s) (sl_role ?s) (sl_useTCP ?s) (sl_authToken ?s) (sl_vkTokens ?s)"
  let ?rt = "case sl_sigClient ?s of None \<Rightarrow> cp_router p | Some c \<Rightarrow> sr_Remove c (cp_router p)"
  let ?q = "(set_slot i ?new p)\<lparr>cp_router := ?rt\<rparr>"
  have r: "routes_ok p" using p by (simp add: pool_ok_def)
  have s: "sig_of p i = sl_sigClient ?s" using i by (simp add: sig_of_def)
  have sig: "sig_of ?q j = (if j = i then None else sig_of p j)" for j by (simp add: sig_of_def set_slot_def NewCallSlot_def)
  have nonce: "sl_nonce (cp_slots ?q ! j) = sl_nonce (cp_slots p ! j)" if "j \<noteq> i" for j using that by (simp add: set_slot_def)
  have del: "router_inv ?rt" "set (sr_clients ?rt) = set (sr_clients (cp_router p)) - set_option (sig_of p i)"
    "client_of ?rt = (\<lambda>n. if sig_of p i \<noteq> None \<and> client_of (cp_router p) n = sig_of p i then None else client_of (cp_router p) n)"
    using router.del_law [of "cp_router p"] r unfolding s routes_ok_def by (auto split: option.split)
  have other: "sig_of p i \<noteq> Some c" if "sig_of p j = Some c" "j \<noteq> i" for j c using that r unfolding routes_ok_def by metis
  have route: "c \<in> set (sr_clients ?rt) \<and> client_of ?rt (sl_nonce (cp_slots ?q ! j)) = Some c" if "sig_of ?q j = Some c" for j c
  proof -
    have j: "j \<noteq> i" "sig_of p j = Some c" using that by (auto simp: sig split: if_splits)
    then have "c \<in> set (sr_clients (cp_router p))" "client_of (cp_router p) (sl_nonce (cp_slots p ! j)) = Some c"
      using r unfolding routes_ok_def by blast+
    then show ?thesis using other [OF j(2,1)] nonce [OF j(1)] by (auto simp: del)
  qed
  have all: "\<exists>j. sig_of ?q j = Some c" if a: "\<not> cp_done p" "c \<in> set (sr_clients ?rt)" for c
  proof -
    obtain j where j: "sig_of p j = Some c" using a r unfolding routes_ok_def del(2) by blast
    then have "j \<noteq> i" using a(2) unfolding del(2) by auto
    then show ?thesis using j by (intro exI [of _ j]) (simp add: sig)
  qed
  have inj: "j = k" if "sig_of ?q j = Some c" "sig_of ?q k = Some c" for j k c
    using that r unfolding sig routes_ok_def by (metis option.distinct(1))
  have fr: "cp_router ?q = ?rt" "cp_done ?q = cp_done p" by (simp_all add: set_slot_def)
  have "routes_ok ?q" unfolding routes_ok_def fr using del(1) inj route all by blast
  moreover have "slots_ok ?q" using p i by (auto simp: pool_ok_def slots_ok_def set_slot_def nth_list_update NewCallSlot_def)
  ultimately have "pool_ok ?q" by (intro pool_ok_slots [OF p]) (simp_all add: set_slot_def)
  then show ?thesis unfolding rs_replace_def Let_def by (rule set_phase_ok) (simp add: d)
qed

lemma close_ok: "pool_ok p \<Longrightarrow> pool_ok (fst (pool_Close p))"
proof (cases "cp_done p")
  case False
  assume p: "pool_ok p"
  let ?q = "p\<lparr>cp_done := True, cp_m := None, cp_slots := map (\<lambda>s. fst (slot_Close s)) (cp_slots p)\<rparr>"
  have "sig_of ?q j = None" for j by (simp add: sig_of_def slot_Close_def)
  then have "routes_ok ?q" using p by (simp add: pool_ok_def routes_ok_def)
  moreover have "slots_ok ?q" using p by (simp add: pool_ok_def slots_ok_def slot_Close_def mux_reach_def)
  ultimately have "pool_ok ?q" by (intro pool_ok_slots [OF p]) simp_all
  then show ?thesis using False by (simp add: pool_Close_def)
qed (simp add: pool_Close_def)

lemma allocate_ok:
  assumes "pool_ok p" "i < length (cp_slots p)" "delay_range d"
  shows "pool_ok (rs_allocate hmac senv now cenv senv' i d p)"
  using assms client_store_ok [OF assms(1,2)] server_store_ok [OF assms(1,2)]
  by (auto simp: rs_allocate_def split: Role.split prod.split option.split intro!: failed_ok succeeded_ok)

lemma rs_connect_ok:
  assumes "pool_ok p" "i < length (cp_slots p)" "delay_range d" "sig_of p i = None" "fresh_join jo rnd p"
  shows "pool_ok (rs_connect jo rnd i d p)"
  using connect_slot_ok [OF assms(1,2,4,5)] assms(3)
  by (auto simp: rs_connect_def split: prod.split option.split intro!: failed_ok set_phase_ok)

section \<open>The pool in operation\<close>

text \<open>
  The goroutines of a pool: the monitor, the reconnect loop, the reconnecting goroutines (whose waiting ends with the timer or with the
  pool), the multiplexer's own work and \<^verbatim>\<open>Close\<close>.
\<close>

inductive pool_step :: "CallPool \<Rightarrow> CallPool \<Rightarrow> bool" where
  monitor: "\<not> cp_done p \<Longrightarrow> pool_step p (monitor_tick alive p)"
| take: "\<not> cp_done p \<Longrightarrow> pool_step p (loop_take p)"
| timer: "(i, Waiting d) \<in> set (cp_tasks p) \<Longrightarrow> pool_step p (rs_replace i d p)"
| stopped: "(i, Waiting d) \<in> set (cp_tasks p) \<Longrightarrow> pool_step p (set_phase i Finishing p)"
| connect: "(i, Replaced d) \<in> set (cp_tasks p) \<Longrightarrow> fresh_join jo rnd p \<Longrightarrow> pool_step p (rs_connect jo rnd i d p)"
| allocate: "(i, Connected d) \<in> set (cp_tasks p) \<Longrightarrow> pool_step p (rs_allocate hmac senv now cenv senv' i d p)"
| finish: "(i, Finishing) \<in> set (cp_tasks p) \<Longrightarrow> pool_step p (rs_finish i p)"
| mux: "cp_m p = Some m \<Longrightarrow> reachable (m', pend) \<Longrightarrow> pool_step p (p\<lparr>cp_m := Some m'\<rparr>)"
| close: "pool_step p (fst (pool_Close p))"

inductive_cases pool_stepE: "pool_step p q"

text \<open>A goroutine that has replaced its slot has not connected the new one yet.\<close>

definition replaced_ok :: "CallPool \<Rightarrow> bool" where
  "replaced_ok p \<longleftrightarrow> (\<forall>i d. (i, Replaced d) \<in> set (cp_tasks p) \<longrightarrow> sig_of p i = None)"

lemma sig_of_cong: "cp_slots q = cp_slots p \<Longrightarrow> sig_of q = sig_of p"
  by (simp add: sig_of_def fun_eq_iff)

lemma set_phase_tasks: "(j, ph') \<in> set (cp_tasks (set_phase i ph p)) \<longleftrightarrow>
    (if j = i then ph' = ph \<and> i \<in> fst ` set (cp_tasks p) else (j, ph') \<in> set (cp_tasks p))"
  by (force simp: set_phase_def image_iff)

lemma queueReconnect_frame [simp]: "cp_tasks (queueReconnect i p) = cp_tasks p" "cp_done (queueReconnect i p) = cp_done p"
    "cp_reconnecting (queueReconnect i p) = cp_reconnecting p"
  by (simp_all add: queueReconnect_def)

lemma monitor_frame [simp]: "cp_slots (monitor_tick alive p) = cp_slots p" "cp_tasks (monitor_tick alive p) = cp_tasks p"
    "cp_reconnecting (monitor_tick alive p) = cp_reconnecting p"
proof -
  have "cp_slots (foldl (\<lambda>p s. monitor_slot alive b s p) q ss) = cp_slots q \<and> cp_tasks (foldl (\<lambda>p s. monitor_slot alive b s p) q ss) = cp_tasks q
    \<and> cp_reconnecting (foldl (\<lambda>p s. monitor_slot alive b s p) q ss) = cp_reconnecting q" for b q ss
    by (induction ss arbitrary: q) (simp_all add: monitor_slot_def)
  then show "cp_slots (monitor_tick alive p) = cp_slots p" "cp_tasks (monitor_tick alive p) = cp_tasks p"
    "cp_reconnecting (monitor_tick alive p) = cp_reconnecting p" by (simp_all add: monitor_tick_def Let_def)
qed

lemma set_slot_sig: "j \<noteq> i \<Longrightarrow> sig_of (set_slot i s p) j = sig_of p j"
  by (simp add: sig_of_def set_slot_def)

text \<open>Each action of a reconnecting goroutine changes its own slot and its own phase only.\<close>

definition own_change :: "nat \<Rightarrow> CallPool \<Rightarrow> CallPool \<Rightarrow> bool" where
  "own_change i p q \<longleftrightarrow> (\<forall>j. j \<noteq> i \<longrightarrow> sig_of q j = sig_of p j \<and> (\<forall>ph. (j, ph) \<in> set (cp_tasks q) \<longleftrightarrow> (j, ph) \<in> set (cp_tasks p)))
     \<and> (\<forall>d. (i, Replaced d) \<in> set (cp_tasks q) \<longrightarrow> sig_of q i = None)"

lemma own_change_replaced: "own_change i p q \<Longrightarrow> replaced_ok p \<Longrightarrow> replaced_ok q"
  unfolding own_change_def replaced_ok_def by metis

lemma own_set_phase:
  assumes "cp_tasks p' = cp_tasks p" "\<And>j. j \<noteq> i \<Longrightarrow> sig_of p' j = sig_of p j" "\<And>d. ph = Replaced d \<Longrightarrow> sig_of p' i = None"
  shows "own_change i p (set_phase i ph p')"
proof -
  have s: "sig_of (set_phase i ph p') = sig_of p'" by (rule sig_of_cong) simp
  show ?thesis unfolding own_change_def s set_phase_tasks using assms by auto
qed

lemma own_failed:
  assumes "cp_tasks p' = cp_tasks p" "\<And>j. j \<noteq> i \<Longrightarrow> sig_of p' j = sig_of p j"
  shows "own_change i p (rs_failed i d p')"
proof -
  let ?q = "queueReconnect i (p'\<lparr>cp_delays := (cp_delays p')(i \<mapsto> next_delay d)\<rparr>)"
  have "sig_of ?q = sig_of p'" by (rule sig_of_cong) simp
  then show ?thesis unfolding rs_failed_def by (intro own_set_phase) (simp_all add: assms)
qed

lemma own_succeeded:
  assumes "cp_tasks p' = cp_tasks p" "\<And>j. j \<noteq> i \<Longrightarrow> sig_of p' j = sig_of p j"
  shows "own_change i p (rs_succeeded i p')"
proof -
  let ?q = "p'\<lparr>cp_delays := (cp_delays p')(i \<mapsto> 0), cp_router := ResetDedup (cp_router p')\<rparr>"
  have "sig_of ?q = sig_of p'" by (rule sig_of_cong) simp
  then show ?thesis unfolding rs_succeeded_def by (intro own_set_phase) (simp_all add: assms)
qed

lemma connect_slot_frame: "cp_tasks (fst (connect_slot jo rnd i p)) = cp_tasks p" "j \<noteq> i \<Longrightarrow> sig_of (fst (connect_slot jo rnd i p)) j = sig_of p j"
  by (auto simp: connect_slot_def sig_of_def set_slot_def split: prod.split option.split)

lemma store_run_frame: "cp_tasks (store_run i d keep p) = cp_tasks p" "j \<noteq> i \<Longrightarrow> sig_of (store_run i d keep p) j = sig_of p j"
  by (auto simp: store_run_def sig_of_def set_slot_def)

lemma own_connect: "own_change i p (rs_connect jo rnd i d p)"
  using connect_slot_frame(1) [of jo rnd i p] connect_slot_frame(2) [where jo = jo and rnd = rnd and i = i and p = p]
  by (auto simp: rs_connect_def split: prod.split option.split intro!: own_failed own_set_phase)

lemma own_allocate: "own_change i p (rs_allocate hmac senv now cenv senv' i d p)"
  by (auto simp: rs_allocate_def store_run_frame split: Role.split prod.split option.split intro!: own_failed own_succeeded)

lemma own_replace: "own_change i p (rs_replace i d p)"
  unfolding rs_replace_def Let_def by (rule own_set_phase) (auto simp: sig_of_def set_slot_def NewCallSlot_def)

lemma loop_take_tasks: "(i, Replaced d) \<in> set (cp_tasks (loop_take p)) \<Longrightarrow> (i, Replaced d) \<in> set (cp_tasks p)"
    and loop_take_slots: "cp_slots (loop_take p) = cp_slots p"
  by (auto simp: loop_take_def Let_def split: list.splits if_splits)

lemma task_range: "pool_ok p \<Longrightarrow> (i, ph) \<in> set (cp_tasks p) \<Longrightarrow> i < length (cp_slots p) \<and> phase_ok ph"
  by (auto simp: pool_ok_def tasks_ok_def)

lemma pool_step_ok:
  assumes "pool_step p q" "pool_ok p" "replaced_ok p"
  shows "pool_ok q \<and> replaced_ok q"
  using assms(1)
proof cases
  case (monitor alive)
  then show ?thesis using assms(3) sig_of_cong [of q p] monitor_ok [OF assms(2)] by (auto simp: replaced_ok_def)
next
  case take
  then show ?thesis using assms(3) sig_of_cong [of q p] loop_take_ok [OF assms(2)] loop_take_slots
    by (auto simp: replaced_ok_def dest!: loop_take_tasks)
next
  case (timer i d)
  then show ?thesis
    using task_range [OF assms(2) timer(2)] replace_ok [OF assms(2)] own_change_replaced [OF own_replace assms(3)] by simp
next
  case (stopped i d)
  have "own_change i p (set_phase i Finishing p)" by (rule own_set_phase) simp_all
  then show ?thesis using stopped set_phase_ok [OF assms(2)] own_change_replaced [OF _ assms(3)] by simp
next
  case (connect i d jo rnd)
  have "sig_of p i = None" using assms(3) connect(2) by (auto simp: replaced_ok_def)
  then show ?thesis
    using connect task_range [OF assms(2) connect(2)] rs_connect_ok [OF assms(2)] own_change_replaced [OF own_connect assms(3)] by simp
next
  case (allocate i d hmac senv now cenv senv')
  then show ?thesis
    using task_range [OF assms(2) allocate(2)] allocate_ok [OF assms(2)] own_change_replaced [OF own_allocate assms(3)] by simp
next
  case (finish i)
  moreover have "sig_of q = sig_of p" using finish by (intro sig_of_cong) (simp add: rs_finish_def)
  ultimately show ?thesis using finish_ok [OF assms(2)] assms(3) by (auto simp: replaced_ok_def rs_finish_def)
next
  case (mux m m' pend)
  have "mux_reach (Some m')" using mux(3) by (auto simp: mux_reach_def)
  then have "pool_ok q" unfolding mux(1)
    using assms(2) sig_of_cong [of "p\<lparr>cp_m := Some m'\<rparr>" p]
    by (intro pool_ok_slots [OF assms(2)]) (simp_all add: pool_ok_def slots_ok_def routes_ok_def)
  moreover have "sig_of q = sig_of p" using mux(1) by (intro sig_of_cong) simp
  ultimately show ?thesis using assms(3) mux(1) by (simp add: replaced_ok_def)
next
  case close
  have "cp_tasks q = cp_tasks p" using close by (simp add: pool_Close_def)
  moreover have "sig_of p i = None \<Longrightarrow> sig_of q i = None" for i using close by (auto simp: pool_Close_def sig_of_def slot_Close_def)
  ultimately show ?thesis using close close_ok [OF assms(2)] assms(3) by (auto simp: replaced_ok_def)
qed

section \<open>Starting gives a sound pool\<close>

definition start_ok :: "CallPool \<Rightarrow> bool" where
  "start_ok p \<longleftrightarrow> pool_ok p \<and> cp_tasks p = [] \<and> \<not> cp_done p"

text \<open>The slots that are connected got their client and nonce from the given answers.\<close>

definition joined :: "(nat \<Rightarrow> join_outcome) \<Rightarrow> (nat \<Rightarrow> bytes) \<Rightarrow> CallPool \<Rightarrow> bool" where
  "joined jo rnd p \<longleftrightarrow> (\<forall>j c. sig_of p j = Some c \<longrightarrow> jo_sig (jo j) = Inr c \<and> sl_nonce (cp_slots p ! j) = generateNonce (rnd j))"

definition fresh_joins :: "nat \<Rightarrow> (nat \<Rightarrow> join_outcome) \<Rightarrow> (nat \<Rightarrow> bytes) \<Rightarrow> bool" where
  "fresh_joins n jo rnd \<longleftrightarrow> (\<forall>i<n. \<forall>j<n. i \<noteq> j \<longrightarrow> generateNonce (rnd i) \<noteq> generateNonce (rnd j) \<and> (\<forall>c. jo_sig (jo i) = Inr c \<longrightarrow> jo_sig (jo j) \<noteq> Inr c))"

lemma joined_fresh:
  assumes "start_ok p" "joined jo rnd p" "fresh_joins (length (cp_slots p)) jo rnd" "sig_of p i = None" "i < length (cp_slots p)"
  shows "fresh_join (jo i) (rnd i) p"
proof -
  have s: "j < length (cp_slots p) \<and> j \<noteq> i \<and> jo_sig (jo j) = Inr c \<and> sl_nonce (cp_slots p ! j) = generateNonce (rnd j)" if "sig_of p j = Some c" for j c
    using that assms(2,4) by (auto simp: joined_def) (simp add: sig_of_def split: if_splits)
  have "\<exists>j. sig_of p j = Some c" if "c \<in> set (sr_clients (cp_router p))" for c
    using that assms(1) by (simp add: start_ok_def pool_ok_def routes_ok_def)
  then show ?thesis using s assms(3,5) unfolding fresh_join_def fresh_joins_def by metis
qed

lemma connect_slot_start:
  assumes "start_ok p" "joined jo rnd p" "fresh_joins (length (cp_slots p)) jo rnd" "sig_of p i = None" "i < length (cp_slots p)"
  shows "start_ok (fst (connect_slot (jo i) (rnd i) i p)) \<and> joined jo rnd (fst (connect_slot (jo i) (rnd i) i p))"
proof
  show "start_ok (fst (connect_slot (jo i) (rnd i) i p))"
    using connect_slot_ok [OF _ assms(5,4) joined_fresh [OF assms]] assms(1) connect_slot_frame(1)
    by (auto simp: start_ok_def) (auto simp: connect_slot_def set_slot_def split: prod.splits option.splits)
  show "joined jo rnd (fst (connect_slot (jo i) (rnd i) i p))"
    using assms(2,4,5)
    by (cases rule: slot_Connect_cases [of "jo i" "rnd i" "cp_slots p ! i"])
       (auto simp: joined_def connect_slot_def sig_of_def set_slot_def nth_list_update same_call_def split: if_splits)
qed

lemma connect_slots_start:
  assumes "start_ok p" "joined jo rnd p" "fresh_joins (length (cp_slots p)) jo rnd" "distinct is" "\<And>i. i \<in> set is \<Longrightarrow> i < length (cp_slots p) \<and> sig_of p i = None"
  shows "start_ok (fst (connect_slots cancelled jo rnd is p)) \<and> length (cp_slots (fst (connect_slots cancelled jo rnd is p))) = length (cp_slots p)"
  using assms
proof (induction "is" arbitrary: p)
  case (Cons i "is")
  let ?q = "fst (connect_slot (jo i) (rnd i) i p)"
  have "start_ok ?q \<and> joined jo rnd ?q" using Cons.prems by (intro connect_slot_start) auto
  moreover have "j < length (cp_slots ?q) \<and> sig_of ?q j = None" if "j \<in> set is" for j
    using that Cons.prems(4,5) connect_slot_frame(2) [of j i "jo i" "rnd i" p] by auto
  ultimately have "start_ok (fst (connect_slots cancelled jo rnd is ?q)) \<and> length (cp_slots (fst (connect_slots cancelled jo rnd is ?q))) = length (cp_slots ?q)"
    using Cons.prems(3,4) by (intro Cons.IH) auto
  then show ?case using Cons.prems(1) by auto
qed simp

lemma create_slots_start:
  "start_ok (create_slots role (NewCallPool cfg sid)) \<and> joined jo rnd (create_slots role (NewCallPool cfg sid))
   \<and> sig_of (create_slots role (NewCallPool cfg sid)) i = None
   \<and> length (cp_slots (create_slots role (NewCallPool cfg sid))) = length (pc_Services cfg)"
proof -
  let ?p = "create_slots role (NewCallPool cfg sid)"
  have sig: "sig_of ?p j = None" for j by (simp add: sig_of_def create_slots_def NewCallPool_def NewCallSlot_def Let_def)
  have "routes_ok ?p" using router.inv_new by (simp add: routes_ok_def sig) (simp add: create_slots_def NewCallPool_def NewSignalingRouter_def Let_def)
  moreover have "slots_ok ?p" by (simp add: slots_ok_def mux_reach_def create_slots_def NewCallPool_def NewCallSlot_def Let_def)
  moreover have "tasks_ok ?p" by (simp add: tasks_ok_def create_slots_def NewCallPool_def Let_def)
  moreover have "cp_tasks ?p = []" "\<not> cp_done ?p" by (simp_all add: create_slots_def NewCallPool_def Let_def)
  moreover have "length (cp_slots ?p) = length (pc_Services cfg)" by (simp add: create_slots_def NewCallPool_def Let_def)
  ultimately show ?thesis using sig by (simp add: start_ok_def pool_ok_def joined_def)
qed

lemma store_start:
  "start_ok p \<Longrightarrow> i < length (cp_slots p) \<Longrightarrow> slot_client hmac senv now env i p = (r, err) \<Longrightarrow> start_ok (store_run i (sr_d r) keep p)"
  "start_ok p \<Longrightarrow> i < length (cp_slots p) \<Longrightarrow> slot_server hmac senv now env' pre i p = (r', err) \<Longrightarrow> start_ok (store_run i (sr_d r') keep p)"
  using client_store_ok server_store_ok by (auto simp: start_ok_def store_run_frame) (auto simp: store_run_def set_slot_def)

lemma queue_start: "start_ok p \<Longrightarrow> start_ok (queueReconnect i p)"
  by (simp add: start_ok_def queueReconnect_ok)

lemma allocateRemaining_start:
  "start_ok p \<Longrightarrow> \<forall>i\<in>set is. i < length (cp_slots p) \<Longrightarrow> start_ok (allocateRemaining hmac senv now env skip is p)"
proof (induction "is" arbitrary: p)
  case (Cons i "is")
  obtain r err where e: "slot_client hmac senv now (env i) i p = (r, err)" by fastforce
  have "start_ok (store_run i (sr_d r) False p)" using store_start(1) [OF Cons.prems(1) _ e] Cons.prems(2) by simp
  then show ?case using Cons by (simp add: e Let_def queue_start)
qed simp

lemma first_slot_start:
  "start_ok p \<Longrightarrow> \<forall>i\<in>set is. i < length (cp_slots p) \<Longrightarrow> start_ok (fst (first_slot hmac senv now env env2 is p err0))"
proof (induction "is" arbitrary: p err0)
  case (Cons i "is")
  obtain r err where e: "slot_client hmac senv now (env i) i p = (r, err)" by fastforce
  have "start_ok (store_run i (sr_d r) k p)" for k using store_start(1) [OF Cons.prems(1) _ e] Cons.prems(2) by simp
  then show ?case using Cons
    by (auto simp: e Let_def allocateRemaining_start split: option.split)
qed (simp split: option.split)

lemma start_client_ok:
  assumes "fresh_joins (length (pc_Services cfg)) jo rnd"
  shows "start_ok (fst (StartClient hmac senv now cancelled jo rnd env env2 (NewCallPool cfg sid)))"
proof -
  let ?p = "create_slots RoleClient (NewCallPool cfg sid)"
  obtain p1 ok where c: "connect_slots cancelled jo rnd [0..<length (cp_slots ?p)] ?p = (p1, ok)" by fastforce
  have "start_ok p1" using connect_slots_start [of ?p jo rnd "[0..<length (cp_slots ?p)]" cancelled] create_slots_start [of RoleClient cfg sid jo rnd] assms c
    by simp
  then show ?thesis using c by (cases ok) (simp_all add: StartClient_def Let_def first_slot_start)
qed

lemma PreAllocate_same:
  "PreAllocate rs s = (s', res) \<Longrightarrow> same_call s' s \<and> sl_activeC s' = sl_activeC s \<and> sl_conns s' = sl_conns s"
  by (auto simp: PreAllocate_def setError_def same_call_def split: option.splits prod.splits sum.splits)

lemma preallocate_start:
  assumes "start_ok p" "i < length (cp_slots p)" "PreAllocate rs (cp_slots p ! i) = (s', res)"
  shows "start_ok (set_slot i s' p)"
proof -
  have "pool_ok ((set_slot i s' p)\<lparr>cp_m := cp_m p\<rparr>)"
    using PreAllocate_same [OF assms(3)] slot_fields [of p i] assms(1,2) by (intro set_slot_ok) (auto simp: start_ok_def)
  then show ?thesis using assms(1) by (simp add: start_ok_def set_slot_def)
qed

lemma preallocate_frame:
  assumes "PreAllocate rs (cp_slots p ! i) = (s', res)" "i < length (cp_slots p)"
  shows "sig_of (set_slot i s' p) = sig_of p" "joined jo rnd (set_slot i s' p) = joined jo rnd p"
proof -
  have nth: "sl_sigClient (cp_slots (set_slot i s' p) ! j) = sl_sigClient (cp_slots p ! j)"
      "sl_nonce (cp_slots (set_slot i s' p) ! j) = sl_nonce (cp_slots p ! j)" for j
    using PreAllocate_same [OF assms(1)] assms(2) by (cases "j = i"; simp add: set_slot_def same_call_def)+
  show s: "sig_of (set_slot i s' p) = sig_of p" by (simp add: sig_of_def nth fun_eq_iff)
  show "joined jo rnd (set_slot i s' p) = joined jo rnd p" by (simp add: joined_def s nth)
qed

lemma connect_server_start:
  assumes "start_ok p" "joined jo rnd p" "fresh_joins (length (cp_slots p)) jo rnd" "distinct is" "\<And>i. i \<in> set is \<Longrightarrow> i < length (cp_slots p) \<and> sig_of p i = None"
  shows "start_ok (fst (connect_server cancelled jo rnd pre is p allocs))"
  using assms
proof (induction "is" arbitrary: p allocs)
  case (Cons i "is")
  obtain q err where q: "connect_slot (jo i) (rnd i) i p = (q, err)" by fastforce
  have sq: "start_ok q \<and> joined jo rnd q" using connect_slot_start [of p jo rnd i] Cons.prems q by auto
  have len: "length (cp_slots q) = length (cp_slots p)" using slots_length(5) [of "jo i" "rnd i" i p] q by simp
  have rest: "j < length (cp_slots q) \<and> sig_of q j = None" if "j \<in> set is" for j
    using that Cons.prems(4,5) connect_slot_frame(2) [of j i "jo i" "rnd i" p] q len by auto
  obtain s' res where pa: "PreAllocate (pre i) (cp_slots q ! i) = (s', res)" by fastforce
  have i: "i < length (cp_slots q)" using Cons.prems(5) len by simp
  have st: "start_ok (set_slot i s' q) \<and> joined jo rnd (set_slot i s' q)"
    using preallocate_start [OF _ i pa] preallocate_frame(2) [OF pa i] sq by simp
  have IH1: "start_ok (fst (connect_server cancelled jo rnd pre is q a))" for a
    using sq rest Cons.prems(3,4) len by (intro Cons.IH) auto
  have IH2: "start_ok (fst (connect_server cancelled jo rnd pre is (set_slot i s' q) a))" for a
    using st rest Cons.prems(3,4) len preallocate_frame(1) [OF pa i] by (intro Cons.IH) auto
  show ?case using Cons.prems(1) IH1 IH2 by (auto simp: q pa split: option.split sum.split)
qed simp

lemma serve_slots_start:
  "start_ok p \<Longrightarrow> \<forall>i\<in>set is. i < length (cp_slots p) \<Longrightarrow> start_ok (serve_slots hmac senv now env pre is p)"
proof (induction "is" arbitrary: p)
  case (Cons i "is")
  obtain r err where e: "slot_server hmac senv now (env i) (pre i) i p = (r, err)" by fastforce
  have "start_ok (store_run i (sr_d r) k p)" for k using store_start(2) [OF Cons.prems(1) _ e] Cons.prems(2) by simp
  then show ?case using Cons by (auto simp: e queue_start split: option.split)
qed simp

lemma start_server_ok:
  assumes "fresh_joins (length (pc_Services cfg)) jo rnd"
  shows "start_ok (fst (StartServer hmac senv now cancelled jo rnd pre env (NewCallPool cfg sid)))"
proof -
  let ?p = "create_slots RoleServer (NewCallPool cfg sid)"
  obtain p1 ok allocs where c: "connect_server cancelled jo rnd pre [0..<length (cp_slots ?p)] ?p (\<lambda>_. []) = (p1, ok, allocs)" by (metis prod_cases3)
  have "start_ok p1"
    using connect_server_start [of ?p jo rnd "[0..<length (cp_slots ?p)]" cancelled pre "\<lambda>_. []"] create_slots_start [of RoleServer cfg sid jo rnd] assms c
    by simp
  then show ?thesis using c by (cases ok) (simp_all add: StartServer_def Let_def serve_slots_start)
qed

inductive pool_reach :: "CallPool \<Rightarrow> bool" where
  client: "fresh_joins (length (pc_Services cfg)) jo rnd \<Longrightarrow>
     pool_reach (fst (StartClient hmac senv now cancelled jo rnd env env2 (NewCallPool cfg sid)))"
| server: "fresh_joins (length (pc_Services cfg)) jo rnd \<Longrightarrow>
     pool_reach (fst (StartServer hmac senv now cancelled jo rnd pre senv2 (NewCallPool cfg sid)))"
| step: "pool_reach p \<Longrightarrow> pool_step p q \<Longrightarrow> pool_reach q"

lemma pool_reach_ok: "pool_reach p \<Longrightarrow> pool_ok p \<and> replaced_ok p"
proof (induction rule: pool_reach.induct)
  case (client cfg jo rnd hmac senv now cancelled env env2 sid)
  from start_client_ok [OF this, of hmac senv now cancelled env env2 sid] show ?case by (simp add: start_ok_def replaced_ok_def)
next
  case (server cfg jo rnd hmac senv now cancelled pre senv2 sid)
  from start_server_ok [OF this, of hmac senv now cancelled pre senv2 sid] show ?case by (simp add: start_ok_def replaced_ok_def)
next
  case (step p q)
  then show ?case using pool_step_ok by blast
qed

text \<open>C7: However a pool is started and whatever its goroutines do, in any order: at most one goroutine reconnects a slot, and the mark against a
  second one is set exactly while it runs; every wait before a reconnect lasts between 3 and 60 seconds; the router finds the signaling
  client of every connected slot by that slot's nonce and, until the pool is closed, has no client of a replaced slot; and the shared
  multiplexer is in a state that its own operations reach.\<close>

theorem pool_invariant:
  assumes "pool_reach p"
  shows "distinct (map fst (cp_tasks p)) \<and> fst ` set (cp_tasks p) = set (cp_reconnecting p)
    \<and> (\<forall>i d. (i, Waiting d) \<in> set (cp_tasks p) \<longrightarrow> 3000000000 \<le> d \<and> d \<le> 60000000000)
    \<and> (\<forall>i<length (cp_slots p). \<forall>c. sl_sigClient (cp_slots p ! i) = Some c \<longrightarrow> client_of (cp_router p) (sl_nonce (cp_slots p ! i)) = Some c)
    \<and> (\<not> cp_done p \<longrightarrow> set (sr_clients (cp_router p)) = {c. \<exists>i<length (cp_slots p). sl_sigClient (cp_slots p ! i) = Some c})
    \<and> distinct (sr_clients (cp_router p)) \<and> mux_reach (cp_m p) \<and> length (reconnectCh p) \<le> reconnectCap p"
proof -
  have ok: "slots_ok p" "routes_ok p" "tasks_ok p" using pool_reach_ok [OF assms] by (simp_all add: pool_ok_def)
  have sig: "sig_of p i = Some c \<longleftrightarrow> i < length (cp_slots p) \<and> sl_sigClient (cp_slots p ! i) = Some c" for i c by (simp add: sig_of_def)
  have "3000000000 \<le> d \<and> d \<le> 60000000000" if "(i, Waiting d) \<in> set (cp_tasks p)" for i d
    using that ok(3) by (force simp: tasks_ok_def delay_range_def reconnectInitDelay_def reconnectMaxDelay_def)
  moreover have "\<not> cp_done p \<Longrightarrow> set (sr_clients (cp_router p)) = {c. \<exists>i<length (cp_slots p). sl_sigClient (cp_slots p ! i) = Some c}"
    using ok(2) unfolding routes_ok_def sig by blast
  moreover have "distinct (sr_clients (cp_router p))" using ok(2) by (simp add: routes_ok_def router_inv_def)
  ultimately show ?thesis using ok unfolding routes_ok_def sig by (simp add: tasks_ok_def slots_ok_def)
qed

section \<open>A retry that is lost\<close>

text \<open>A slot that is not active, not queued and not being reconnected.\<close>

definition stuck :: "nat \<Rightarrow> CallPool \<Rightarrow> bool" where
  "stuck i p \<longleftrightarrow> i < length (cp_slots p) \<and> sl_state (cp_slots p ! i) \<noteq> SlotActive \<and> i \<notin> set (reconnectCh p) \<and> i \<notin> set (cp_reconnecting p)"

lemma monitor_not_queued:
  assumes "slots_ok p" "sl_state (cp_slots p ! i) \<noteq> SlotActive" "i \<notin> set (reconnectCh p)"
  shows "i \<notin> set (reconnectCh (monitor_tick alive p))"
proof -
  have "i \<notin> set (reconnectCh (foldl (\<lambda>p s. monitor_slot alive b s p) q ss))"
    if "i \<notin> set (reconnectCh q)" "\<forall>s\<in>set ss. sl_index s = i \<longrightarrow> sl_state s \<noteq> SlotActive" for q b ss
    using that by (induction ss arbitrary: q) (auto simp: monitor_slot_def queueReconnect_def)
  moreover have "\<forall>s\<in>set (cp_slots p). sl_index s = i \<longrightarrow> sl_state s \<noteq> SlotActive"
    using assms(1,2) by (auto simp: slots_ok_def in_set_conv_nth)
  ultimately show ?thesis using assms(3) by (simp add: monitor_tick_def Let_def)
qed

lemma other_failed: "i \<noteq> j \<Longrightarrow> stuck i p' \<Longrightarrow> stuck i (rs_failed j d p')"
  by (auto simp: stuck_def rs_failed_def queueReconnect_def set_phase_def)

lemma other_succeeded: "stuck i p' \<Longrightarrow> stuck i (rs_succeeded j p')"
  by (simp add: stuck_def rs_succeeded_def set_phase_def)

lemma other_slot: "i \<noteq> j \<Longrightarrow> stuck i p \<Longrightarrow> stuck i (store_run j d k p) \<and> stuck i (fst (connect_slot jo rnd j p))"
  by (auto simp: stuck_def store_run_def set_slot_def connect_slot_def split: prod.split option.split)

lemma stuck_step:
  assumes "pool_step p q" "pool_ok p" "stuck i p"
  shows "stuck i q"
proof -
  have other: "j \<noteq> i" if "(j, ph) \<in> set (cp_tasks p)" for j ph
  proof -
    have "j \<in> fst ` set (cp_tasks p)" using that by (metis fst_conv imageI)
    then have "j \<in> set (cp_reconnecting p)" using assms(2) by (simp add: pool_ok_def tasks_ok_def)
    then show ?thesis using assms(3) by (auto simp: stuck_def)
  qed
  show ?thesis using assms(1)
  proof cases
    case (monitor alive)
    then show ?thesis using assms(2,3) monitor_not_queued [of p i alive] by (simp add: stuck_def pool_ok_def)
  next
    case take
    then show ?thesis using assms(3) by (auto simp: stuck_def loop_take_def Let_def split: list.split)
  next
    case (connect j d jo rnd)
    have ji: "i \<noteq> j" using other [OF connect(2)] by simp
    have "stuck i (fst (connect_slot jo rnd j p))" using other_slot [OF ji assms(3)] by blast
    then show ?thesis using connect(1) ji
      by (auto simp: rs_connect_def other_failed split: prod.split option.split) (simp add: stuck_def set_phase_def)
  next
    case (allocate j d hmac senv now cenv senv')
    have ji: "i \<noteq> j" using other [OF allocate(2)] by simp
    have "stuck i (store_run j d' k p)" for d' k using other_slot [OF ji assms(3)] by blast
    then show ?thesis using allocate(1) ji
      by (auto simp: rs_allocate_def other_succeeded split: Role.split prod.split option.split intro!: other_failed)
  next
    case (timer j d)
    then show ?thesis using other [OF timer(2)] assms(3) by (auto simp: stuck_def rs_replace_def Let_def set_phase_def set_slot_def)
  qed (use assms(3) in \<open>auto simp: stuck_def set_phase_def rs_finish_def pool_Close_def slot_Close_def\<close>)
qed

lemma stuck_forever:
  assumes "pool_step\<^sup>*\<^sup>* p q" "pool_ok p" "replaced_ok p" "stuck i p"
  shows "stuck i q"
proof -
  have "stuck i q \<and> pool_ok q \<and> replaced_ok q" using assms(1)
    by (induction rule: rtranclp_induct) (use assms pool_step_ok stuck_step in blast)+
  then show ?thesis ..
qed

text \<open>The failure of a reconnect, the loop's turn and the end of the goroutine, in this order.\<close>

lemma lost_retry_run:
  assumes ok: "pool_ok p" and t: "(i, Replaced d) \<in> set (cp_tasks p)" and ch: "reconnectCh p = []" "0 < reconnectCap p" "\<not> cp_done p"
    and fresh: "fresh_join jo rnd p" and fail: "fetch_join jo ((cp_slots p ! i)\<lparr>sl_state := SlotConnecting\<rparr>) \<noteq> None"
  shows "pool_step\<^sup>*\<^sup>* p (rs_finish i (loop_take (rs_connect jo rnd i d p))) \<and> stuck i (rs_finish i (loop_take (rs_connect jo rnd i d p)))"
proof -
  have i: "i < length (cp_slots p)" using task_range [OF ok t] by simp
  have "i \<in> fst ` set (cp_tasks p)" using t by (metis fst_conv imageI)
  then have mark: "i \<in> set (cp_reconnecting p)" using ok by (simp add: pool_ok_def tasks_ok_def)
  obtain e where e: "fetch_join jo ((cp_slots p ! i)\<lparr>sl_state := SlotConnecting\<rparr>) = Some e" using fail by blast
  let ?s = "setError e ((cp_slots p ! i)\<lparr>sl_state := SlotConnecting\<rparr>)"
  let ?p1 = "rs_connect jo rnd i d p"
  have p1: "?p1 = rs_failed i d (set_slot i ?s p)" by (simp add: rs_connect_def connect_slot_def slot_Connect_def Let_def e)
  have f1: "reconnectCh ?p1 = [i]" "cp_reconnecting ?p1 = cp_reconnecting p" "cp_done ?p1 = cp_done p" "length (cp_slots ?p1) = length (cp_slots p)"
    "sl_state (cp_slots ?p1 ! i) = SlotConnecting"
    using ch i by (simp_all add: p1 rs_failed_def set_phase_def queueReconnect_def set_slot_def setError_def)
  have p2: "loop_take ?p1 = ?p1\<lparr>reconnectCh := []\<rparr>" using i mark by (simp add: loop_take_def Let_def f1)
  have "(i, Finishing) \<in> set (cp_tasks (set_phase i Finishing p'))" if "cp_tasks p' = cp_tasks p" for p'
    using \<open>i \<in> fst ` set (cp_tasks p)\<close> that unfolding set_phase_tasks by simp
  then have "(i, Finishing) \<in> set (cp_tasks ?p1)" unfolding p1 rs_failed_def by (simp add: set_slot_def)
  then have fin: "(i, Finishing) \<in> set (cp_tasks (loop_take ?p1))" unfolding p2 by simp
  have "pool_step\<^sup>*\<^sup>* p (loop_take ?p1)"
    using pool_step.connect [OF t fresh] pool_step.take [of ?p1] ch(3) f1(3) by (meson rtranclp.rtrancl_into_rtrancl rtranclp.rtrancl_refl)
  then have "pool_step\<^sup>*\<^sup>* p (rs_finish i (loop_take ?p1))" using pool_step.finish [OF fin] by (meson rtranclp.rtrancl_into_rtrancl)
  moreover have "stuck i (rs_finish i (loop_take ?p1))" using i by (simp add: stuck_def rs_finish_def p2 f1)
  ultimately show ?thesis ..
qed

text \<open>The mark against a second reconnect is removed only after the failed goroutine has queued its slot again.  If the loop takes the
  index from the queue in between, it drops it; then the slot is not connected, nobody reconnects it, the monitor looks at active slots only, and so it
  stays out of use for ever, whatever else the pool does.\<close>

theorem pool_retry_lost:
  assumes "pool_reach p" "(i, Replaced d) \<in> set (cp_tasks p)" "reconnectCh p = []" "0 < reconnectCap p" "\<not> cp_done p"
    "fresh_join jo rnd p" "fetch_join jo ((cp_slots p ! i)\<lparr>sl_state := SlotConnecting\<rparr>) \<noteq> None"
  shows "\<exists>q. pool_step\<^sup>*\<^sup>* p q \<and> (\<forall>q'. pool_step\<^sup>*\<^sup>* q q' \<longrightarrow>
      i < length (cp_slots q') \<and> sl_state (cp_slots q' ! i) \<noteq> SlotActive \<and> i \<notin> set (reconnectCh q') \<and> i \<notin> set (cp_reconnecting q'))"
proof -
  have ok: "pool_ok p" "replaced_ok p" using pool_reach_ok [OF assms(1)] by auto
  let ?q = "rs_finish i (loop_take (rs_connect jo rnd i d p))"
  have run: "pool_step\<^sup>*\<^sup>* p ?q" "stuck i ?q" using lost_retry_run [OF ok(1) assms(2-7)] by auto
  have "pool_ok ?q \<and> replaced_ok ?q" using run(1) by (induction rule: rtranclp_induct) (use ok pool_step_ok in blast)+
  then have "stuck i q'" if "pool_step\<^sup>*\<^sup>* ?q q'" for q' using stuck_forever [OF that] run(2) by blast
  then show ?thesis using run(1) unfolding stuck_def by blast
qed

text \<open>A pool of one call: it is started, the monitor finds its signaling client dead and the reconnect has replaced the slot.\<close>

definition demo_cfg :: PoolConfig where
  "demo_cfg = \<lparr>pc_Services = [0], pc_ConnsPerCall = 1, pc_UseTCP = True, pc_AuthToken = [], pc_VKTokens = [], pc_SlotConnectDelay = 0\<rparr>"

definition demo_join :: join_outcome where
  "demo_join = \<lparr>jo_tokenAuth = False, jo_token = (\<lambda>_. None), jo_anon = None, jo_sig = Inr 5, jo_key = None\<rparr>"

definition demo_env :: client_env where
  "demo_env = \<lparr>ce_net = (\<lambda>_ _ _ _. undefined), ce_tap = None, ce_order = id, ce_x0 = demo_exchange [],
     ce_batches = (\<lambda>_. [([demo_relay ''c:1''], True, demo_exchange [''s:1''])])\<rparr>"

definition demo_pool :: CallPool where
  "demo_pool = fst (StartClient (\<lambda>_ _. []) False 0 (\<lambda>_. False) (\<lambda>_. demo_join) (\<lambda>_. replicate 8 0) (\<lambda>_. demo_env) (\<lambda>_. demo_env)
     (NewCallPool demo_cfg (replicate 16 7)))"

definition demo_replaced :: CallPool where
  "demo_replaced = rs_replace 0 3000000000 (loop_take (monitor_tick (\<lambda>_. False) demo_pool))"

lemma demo_pool_values:
  "cp_done demo_pool = False" "cp_done (monitor_tick (\<lambda>_. False) demo_pool) = False"
  "cp_tasks (loop_take (monitor_tick (\<lambda>_. False) demo_pool)) = [(0, Waiting 3000000000)]"
  "cp_tasks demo_replaced = [(0, Replaced 3000000000)]" "reconnectCh demo_replaced = []" "reconnectCap demo_replaced = 8"
  "cp_done demo_replaced = False" "sr_clients (cp_router demo_replaced) = []" "map sl_sigClient (cp_slots demo_replaced) = [None]"
  "map sl_sigClient (cp_slots demo_pool) = [Some 5]" "map sl_nonce (cp_slots demo_pool) = [''0000000000000000'']"
  "map sl_vkTokens (cp_slots demo_replaced) = [[]]"
  by code_simp+

lemma demo_pool_reach: "pool_reach demo_pool" "pool_reach demo_replaced"
proof -
  show r: "pool_reach demo_pool" unfolding demo_pool_def by (rule pool_reach.client) (simp add: fresh_joins_def demo_cfg_def)
  have "pool_reach (loop_take (monitor_tick (\<lambda>_. False) demo_pool))"
    using r demo_pool_values(1,2) by (intro pool_reach.step [OF pool_reach.step [OF r pool_step.monitor] pool_step.take]) simp_all
  then show "pool_reach demo_replaced" unfolding demo_replaced_def
    by (rule pool_reach.step) (rule pool_step.timer, simp add: demo_pool_values)
qed

theorem pool_invariant_witness:
  "client_of (cp_router demo_pool) ''0000000000000000'' = Some 5"
proof -
  have l: "length (cp_slots demo_pool) = 1" using demo_pool_values(10) by (metis length_map length_Cons list.size(3) One_nat_def)
  have "sl_sigClient (cp_slots demo_pool ! 0) = Some 5" "sl_nonce (cp_slots demo_pool ! 0) = ''0000000000000000''"
    using demo_pool_values(10,11) l by (metis nth_Cons_0 nth_map zero_less_one)+
  then show ?thesis using pool_invariant [OF demo_pool_reach(1)] l by simp
qed

text \<open>
  A server's slot that fails after it made the multiplexer, for instance because the next batch of a slow client does not come in time, leaves the
  pool without one: its connections are lost to the pool.
\<close>

lemma server_error_drops_mux:
  assumes "cp_m p = None" "sl_sigClient (cp_slots p ! i) \<noteq> None" "slot_server hmac senv now (env i) (pre i) i p = (r, Some e)"
  shows "cp_m (serve_slots hmac senv now env pre [i] p) = None"
  using assms by (simp add: queueReconnect_def store_run_def)

end
