(* ===== verification/Relay_Session.thy ===== *)
theory Relay_Session
  imports Call_Slot
begin

text \<open>
  One call between a client and a server through relays on both sides: the session the client sets up (\<^verbatim>\<open>connectRelaySession\<close> of
  \<^verbatim>\<open>internal/client/client.go\<close>) and the one the server accepts (\<^verbatim>\<open>acceptOneClient\<close> of \<^verbatim>\<open>internal/server/server.go\<close>).  The call
  service, the signaling client, the TURN library and DTLS are arguments, as in \<open>Call_Slot\<close>.
\<close>

section \<open>Tokens\<close>

fun dedup_seen :: "string list \<Rightarrow> string set \<Rightarrow> string list" where
  "dedup_seen [] seen = []"
| "dedup_seen (t # ts) seen = (if t \<in> seen then dedup_seen ts seen else t # dedup_seen ts (insert t seen))"

definition client_deduplicateTokens :: "string list \<Rightarrow> string list" where
  "client_deduplicateTokens tokens = dedup_seen tokens {}"

definition server_deduplicateTokens :: "string list \<Rightarrow> string list" where
  "server_deduplicateTokens tokens = dedup_seen tokens {}"

section \<open>Joining\<close>

text \<open>
  As in \<^const>\<open>slot_Connect\<close>; \<open>tokens\<close> are those of the configuration.  The signaling clients that are closed, and the error or the
  signaling client.
\<close>

definition relay_fetch_join :: "join_outcome \<Rightarrow> string list \<Rightarrow> goerr option" where
  "relay_fetch_join jo tokens =
     (if jo_tokenAuth jo \<and> tokens \<noteq> [] then (case jo_token jo (hd tokens) of None \<Rightarrow> None | Some e \<Rightarrow> jo_anon jo)
      else jo_anon jo)"

definition relay_join :: "join_outcome \<Rightarrow> bytes \<Rightarrow> string list \<Rightarrow> nat list \<times> (goerr + nat)" where
  "relay_join jo authToken tokens =
     (if authToken = [] then ([], Inl (Errorf ''token is required for relay-to-relay mode''))
      else case relay_fetch_join jo tokens of
             Some e \<Rightarrow> ([], Inl (Wrapf ''join conference'' e))
           | None \<Rightarrow>
               (case jo_sig jo of
                  Inl e \<Rightarrow> ([], Inl (Wrapf ''signaling connect'' e))
                | Inr c \<Rightarrow>
                    (case jo_key jo of
                       Some e \<Rightarrow> ([c], Inl (Wrapf ''set signaling key'' e))
                     | None \<Rightarrow> ([], Inr c))))"

text \<open>\<open>acks i\<close> is what the wait of attempt \<open>i\<close> returns; \<open>left\<close> attempts are left.\<close>

definition disconnectRetries :: nat where "disconnectRetries = 3"

fun disconnect_handshake :: "(nat \<Rightarrow> goerr option) \<Rightarrow> string \<Rightarrow> nat \<Rightarrow> nat \<Rightarrow> sig_event list" where
  "disconnect_handshake acks nonce i 0 = []"
| "disconnect_handshake acks nonce i (Suc left) =
     SendDisconnectReq nonce #
     (case acks i of None \<Rightarrow> [WaitDisconnectAck nonce] | Some e \<Rightarrow> disconnect_handshake acks nonce (i + 1) left)"

section \<open>The client's handshakes\<close>

text \<open>What setting up a session has so far.\<close>

record relay_run =
  rr_mgr :: Manager
  rr_mux :: "Mux option"
  rr_cleanups :: "nat list"
  rr_cleaned :: "nat list"
  rr_batchIdx :: nat
  rr_punchIdx :: nat
  rr_log :: "sig_event list"
  rr_pairs :: "pairing list"

definition relay_maxAttempts :: nat where "relay_maxAttempts = 2"

text \<open>
  The goroutine of one pair: the result it sends, and the cleanup function it has called.  The preamble is written before the
  result is sent.
\<close>

definition relay_dial :: "(bytes \<Rightarrow> bytes \<Rightarrow> bytes) \<Rightarrow> exchange \<Rightarrow> bytes \<Rightarrow> bytes \<Rightarrow> string list \<Rightarrow> nat \<Rightarrow> nat list \<times> (goerr + dconn)" where
  "relay_dial hmac x authToken sessionID serverAddrs i =
     (case ex_resolve x (serverAddrs ! i) of
        Some e \<Rightarrow> ([], Inl e)
      | None \<Rightarrow>
          (case dtls_attempts (ex_dial x i) 1 (relay_maxAttempts - 1) of
             Inl e \<Rightarrow> ([], Inl e)
           | Inr c \<Rightarrow>
               let auth = (if authToken \<noteq> [] then WriteAuthToken hmac (ex_rnd x i) authToken else [])
               in if \<not> list_all (dc_write c) [0..<length auth] then ([dc_id c], Inl (Errorf ''write auth token''))
                  else if \<not> list_all (dc_write c) [length auth..<length auth + length (WriteSessionID sessionID)]
                  then ([dc_id c], Inl (Errorf ''write session id''))
                  else ([], Inr c)))"

definition take_relay_result :: "bool \<Rightarrow> int \<Rightarrow> nat list \<times> (goerr + dconn) \<Rightarrow> relay_run \<Rightarrow> relay_run" where
  "take_relay_result senv now res r =
     (let r1 = r\<lparr>rr_cleaned := rr_cleaned r @ fst res\<rparr>
      in case snd res of
           Inl e \<Rightarrow> r1
         | Inr c \<Rightarrow> r1\<lparr>rr_cleanups := rr_cleanups r1 @ [dc_id c], rr_mux := add_to_mux senv now (rr_mux r1)\<rparr>)"

text \<open>The handshakes of one batch; \<open>ex_order\<close> is the order in which their results arrive.\<close>

definition relay_handshakes ::
  "(bytes \<Rightarrow> bytes \<Rightarrow> bytes) \<Rightarrow> bool \<Rightarrow> int \<Rightarrow> exchange \<Rightarrow> bytes \<Rightarrow> bytes \<Rightarrow> Allocation list \<Rightarrow> string list \<Rightarrow> relay_run \<Rightarrow> relay_run" where
  "relay_handshakes hmac senv now x authToken sessionID allocs serverAddrs r =
     (let pairCount = min (length allocs) (length serverAddrs);
          r1 = foldl (\<lambda>r i. take_relay_result senv now (relay_dial hmac x authToken sessionID serverAddrs i) r) r (ex_order x pairCount)
      in r1\<lparr>rr_pairs := rr_pairs r @ batch_pairs (rr_punchIdx r) allocs serverAddrs, rr_punchIdx := rr_punchIdx r + pairCount\<rparr>)"

section \<open>The client's allocations\<close>

definition client_token_alloc ::
  "turn_net \<Rightarrow> int \<Rightarrow> token_join \<Rightarrow> Credentials \<Rightarrow> string list \<Rightarrow> nat \<Rightarrow> Manager \<Rightarrow> Manager \<times> (goerr + Allocation)" where
  "client_token_alloc net now tap creds tokens idx mgr =
     (if idx = 0 then AllocateWithCredentials net now creds mgr else allocateWithToken net now tap (tokens ! idx) mgr)"

text \<open>The goroutines of the tokens in the order in which they finish; \<open>got\<close> is the slice that they fill.\<close>

fun client_token_allocs ::
  "turn_net \<Rightarrow> int \<Rightarrow> token_join \<Rightarrow> Credentials \<Rightarrow> string list \<Rightarrow> nat list \<Rightarrow> Manager \<Rightarrow> Allocation option list \<Rightarrow> Manager \<times> Allocation option list" where
  "client_token_allocs net now tap creds tokens [] mgr got = (mgr, got)"
| "client_token_allocs net now tap creds tokens (i # is) mgr got =
     (case client_token_alloc net now tap creds tokens i mgr of
        (mgr1, Inl e) \<Rightarrow> client_token_allocs net now tap creds tokens is mgr1 got
      | (mgr1, Inr a) \<Rightarrow> client_token_allocs net now tap creds tokens is mgr1 (got[i := Some a]))"

section \<open>The client's session\<close>

text \<open>
  The loop over the batches of \<^verbatim>\<open>AllocateGradual\<close>, which end it when sending or receiving fails.  A receive that never returns is one
  that ends with the context.
\<close>

definition keep_relays :: "Allocation list \<Rightarrow> relay_run \<Rightarrow> relay_run" where
  "keep_relays as r = r\<lparr>rr_mgr := (rr_mgr r)\<lparr>allocations := allocations (rr_mgr r) @ as\<rparr>\<rparr>"

definition log_relay :: "sig_event \<Rightarrow> relay_run \<Rightarrow> relay_run" where
  "log_relay e r = r\<lparr>rr_log := rr_log r @ [e]\<rparr>"

fun relay_batches ::
  "(bytes \<Rightarrow> bytes \<Rightarrow> bytes) \<Rightarrow> bool \<Rightarrow> int \<Rightarrow> bytes \<Rightarrow> bytes \<Rightarrow> string \<Rightarrow> client_batch list \<Rightarrow> relay_run \<Rightarrow> relay_run" where
  "relay_batches hmac senv now authToken sessionID nonce [] r = r"
| "relay_batches hmac senv now authToken sessionID nonce ((as, final, x) # bs) r =
     (let r0 = keep_relays as r
      in if as = [] then (if final then r0 else relay_batches hmac senv now authToken sessionID nonce bs r0)
         else case ex_send x of
                Some e \<Rightarrow> r0
              | None \<Rightarrow>
                  let r1 = log_relay (SendRelayBatch (allocAddrs as) RoleClient nonce (rr_batchIdx r0) final) r0
                  in case ex_recv x of
                       Inl e \<Rightarrow> r1
                     | Inr serverAddrs \<Rightarrow>
                         let r2 = relay_handshakes hmac senv now x authToken sessionID as serverAddrs (log_relay (RecvRelayBatch serverAddrs) r1);
                             r3 = r2\<lparr>rr_batchIdx := rr_batchIdx r2 + 1\<rparr>
                         in if final then r3 else relay_batches hmac senv now authToken sessionID nonce bs r3)"

text \<open>The batch of the token allocations: the run, the number of those that failed, and the error that ends the setup.\<close>

definition token_batch ::
  "(bytes \<Rightarrow> bytes \<Rightarrow> bytes) \<Rightarrow> bool \<Rightarrow> int \<Rightarrow> bytes \<Rightarrow> bytes \<Rightarrow> string \<Rightarrow> exchange \<Rightarrow> nat \<Rightarrow> Allocation option list \<Rightarrow> relay_run
    \<Rightarrow> relay_run \<times> nat \<times> goerr option" where
  "token_batch hmac senv now authToken sessionID nonce x anonConns tokenAllocs r =
     (let successAllocs = somes tokenAllocs; failedTokens = length tokenAllocs - length successAllocs;
          fin = (\<lambda>r. (r\<lparr>rr_batchIdx := rr_batchIdx r + 1\<rparr>, failedTokens, None))
      in if successAllocs = [] then fin r
         else case ex_send x of
                Some e \<Rightarrow> (r, failedTokens, Some (Wrapf ''send token relay batch'' e))
              | None \<Rightarrow>
                  let r1 = log_relay (SendRelayBatch (allocAddrs successAllocs) RoleClient nonce (rr_batchIdx r) (anonConns = 0)) r
                  in case ex_recv x of
                       Inl e \<Rightarrow> (r1, failedTokens, Some (Wrapf ''recv token relay batch'' e))
                     | Inr serverAddrs \<Rightarrow>
                         fin (relay_handshakes hmac senv now x authToken sessionID successAllocs serverAddrs (log_relay (RecvRelayBatch serverAddrs) r1)))"

record relaySession =
  rs_sigClient :: nat
  rs_mgr :: Manager
  rs_m :: Mux
  rs_sessionID :: bytes
  rs_cleanups :: "nat list"

text \<open>
  What setting up leaves: the signaling clients and connections that were cleaned up, whether the allocations were closed, and the log.
\<close>

record relay_trace =
  rt_sigClosed :: "nat list"
  rt_cleaned :: "nat list"
  rt_allClosed :: bool
  rt_log :: "sig_event list"
  rt_pairs :: "pairing list"

definition trace_of :: "nat list \<Rightarrow> nat list \<Rightarrow> bool \<Rightarrow> relay_run \<Rightarrow> relay_trace" where
  "trace_of sigs cls all r =
     \<lparr>rt_sigClosed = sigs, rt_cleaned = rr_cleaned r @ cls, rt_allClosed = all, rt_log = rr_log r, rt_pairs = rr_pairs r\<rparr>"

text \<open>The environment of one setup: the service, the acknowledgements, random bytes, orders of goroutines and what the exchanges meet.\<close>

record relay_env =
  re_join :: join_outcome
  re_creds :: Credentials
  re_acks :: "nat \<Rightarrow> goerr option"
  re_rnd :: bytes
  re_sessionID :: bytes
  re_net :: turn_net
  re_tap :: token_join
  re_tokenOrder :: "nat \<Rightarrow> nat list"
  re_x0 :: exchange
  re_batches :: "nat \<Rightarrow> client_batch list"

definition relay_start :: "bool \<Rightarrow> relay_env \<Rightarrow> relay_run" where
  "relay_start tcp env =
     (let nonce = generateNonce (re_rnd env)
      in \<lparr>rr_mgr = SetInitialCredentials (Some (re_creds env)) (NewManager True tcp), rr_mux = None, rr_cleanups = [], rr_cleaned = [],
          rr_batchIdx = 0, rr_punchIdx = 0,
          rr_log = disconnect_handshake (re_acks env) nonce 0 disconnectRetries @ [StartPunchDispatcher nonce], rr_pairs = []\<rparr>)"

text \<open>The token allocations and their batch, if there are tokens.\<close>

definition token_phase ::
  "(bytes \<Rightarrow> bytes \<Rightarrow> bytes) \<Rightarrow> bool \<Rightarrow> int \<Rightarrow> bytes \<Rightarrow> string list \<Rightarrow> nat \<Rightarrow> relay_env \<Rightarrow> relay_run \<Rightarrow> relay_run \<times> nat \<times> goerr option" where
  "token_phase hmac senv now authToken tokens anonConns env r =
     (if tokens = [] then (r, 0, None)
      else case client_token_allocs (re_net env) now (re_tap env) (re_creds env) tokens (re_tokenOrder env (length tokens)) (rr_mgr r)
                  (replicate (length tokens) None) of
             (mgr1, tokenAllocs) \<Rightarrow>
               token_batch hmac senv now authToken (re_sessionID env) (generateNonce (re_rnd env)) (re_x0 env) anonConns tokenAllocs (r\<lparr>rr_mgr := mgr1\<rparr>))"

definition anon_phase :: "(bytes \<Rightarrow> bytes \<Rightarrow> bytes) \<Rightarrow> bool \<Rightarrow> int \<Rightarrow> bytes \<Rightarrow> nat \<Rightarrow> relay_env \<Rightarrow> relay_run \<Rightarrow> relay_run" where
  "anon_phase hmac senv now authToken anonConns env r =
     log_relay StopPunchDispatcher
       (if anonConns > 0
        then relay_batches hmac senv now authToken (re_sessionID env) (generateNonce (re_rnd env)) (re_batches env anonConns) r
        else r)"

definition relay_result :: "nat \<Rightarrow> bytes \<Rightarrow> relay_run \<Rightarrow> relay_trace \<times> (goerr + relaySession)" where
  "relay_result c sessionID r =
     (case rr_mux r of
        None \<Rightarrow> (trace_of [c] (rr_cleanups r) True r, Inl (Errorf ''no relay DTLS connections established''))
      | Some m \<Rightarrow>
          (trace_of [] [] False r,
           Inr \<lparr>rs_sigClient = c, rs_mgr = rr_mgr r, rs_m = m, rs_sessionID = sessionID, rs_cleanups = rr_cleanups r\<rparr>))"

definition connectRelaySession ::
  "(bytes \<Rightarrow> bytes \<Rightarrow> bytes) \<Rightarrow> bool \<Rightarrow> int \<Rightarrow> nat \<Rightarrow> bool \<Rightarrow> bytes \<Rightarrow> string list \<Rightarrow> relay_env \<Rightarrow> relay_trace \<times> (goerr + relaySession)" where
  "connectRelaySession hmac senv now numConns tcp authToken vkTokens env =
     (case relay_join (re_join env) authToken vkTokens of
        (sigs, Inl e) \<Rightarrow> (\<lparr>rt_sigClosed = sigs, rt_cleaned = [], rt_allClosed = False, rt_log = [], rt_pairs = []\<rparr>, Inl e)
      | (_, Inr c) \<Rightarrow>
          let tokens = take numConns (client_deduplicateTokens vkTokens);
              anonConns = numConns - length tokens
          in case token_phase hmac senv now authToken tokens anonConns env (relay_start tcp env) of
               (r1, failedTokens, Some e) \<Rightarrow> (trace_of [c] [] True r1, Inl e)
             | (r1, failedTokens, None) \<Rightarrow>
                 relay_result c (re_sessionID env) (anon_phase hmac senv now authToken (anonConns + failedTokens) env r1))"

section \<open>The server's batches\<close>

text \<open>
  The results channel is kept as the number of results in it; \<open>ar_pairs\<close> are the handshakes that were started or whose address could not be
  resolved.
\<close>

record accept_run =
  ar_mgr :: Manager
  ar_tokenIdx :: nat
  ar_nonce :: string
  ar_total :: nat
  ar_chan :: nat
  ar_log :: "sig_event list"
  ar_pairs :: "pairing list"

definition results_cap :: nat where "results_cap = 16"

datatype accept_outcome = Proceed accept_run | Abort accept_run goerr | Stuck accept_run

text \<open>The tokens that are left, at most one for each address; \<open>init\<close> are the credentials of the join.\<close>

fun accept_tokens ::
  "turn_net \<Rightarrow> int \<Rightarrow> (string \<Rightarrow> goerr + Credentials) \<Rightarrow> Credentials option \<Rightarrow> string list \<Rightarrow> nat \<Rightarrow> nat \<Rightarrow> Manager \<Rightarrow> Manager \<times> nat \<times> Allocation list" where
  "accept_tokens net now fetch init tokens 0 tokenIdx mgr = (mgr, tokenIdx, [])"
| "accept_tokens net now fetch init tokens (Suc n) tokenIdx mgr =
     (if tokenIdx \<ge> length tokens then (mgr, tokenIdx, [])
      else case (if tokenIdx = 0 \<and> init \<noteq> None then Inr (the init) else fetch (tokens ! tokenIdx)) of
             Inl e \<Rightarrow> (mgr, tokenIdx + 1, [])
           | Inr creds \<Rightarrow>
               (case AllocateWithCredentials net now creds mgr of
                  (mgr1, Inl e) \<Rightarrow> accept_tokens net now fetch init tokens n (tokenIdx + 1) mgr1
                | (mgr1, Inr a) \<Rightarrow>
                    (case accept_tokens net now fetch init tokens n (tokenIdx + 1) mgr1 of (mgr2, idx, as) \<Rightarrow> (mgr2, idx, a # as))))"

text \<open>
  The loop that starts the handshakes of a batch: \<open>arrived i\<close> is how many results the handshakes started so far put into the channel
  before address \<open>i\<close> is looked at.  The loop itself puts a result where an address cannot be resolved, and stays there when the channel is full.
\<close>

fun start_handshakes :: "(string \<Rightarrow> goerr option) \<Rightarrow> (nat \<Rightarrow> nat) \<Rightarrow> string list \<Rightarrow> nat \<Rightarrow> nat \<Rightarrow> nat option" where
  "start_handshakes resolve arrived [] i chan = Some chan"
| "start_handshakes resolve arrived (a # as) i chan =
     (let chan1 = min results_cap (chan + arrived i)
      in case resolve a of
           None \<Rightarrow> start_handshakes resolve arrived as (i + 1) chan1
         | Some e \<Rightarrow> if chan1 < results_cap then start_handshakes resolve arrived as (i + 1) (chan1 + 1) else None)"

text \<open>
  What the server receives: an error and whether its context has ended, or a batch; with the anonymous allocations, the exchange and the
  arriving results.
\<close>

type_synonym accept_msg =
  "((goerr \<times> bool) + (string list \<times> bool \<times> string)) \<times> (nat \<Rightarrow> (nat \<times> (goerr + Allocation)) list) \<times> exchange \<times> (nat \<Rightarrow> nat)"

definition log_accept :: "sig_event \<Rightarrow> accept_run \<Rightarrow> accept_run" where
  "log_accept e r = r\<lparr>ar_log := ar_log r @ [e]\<rparr>"

text \<open>The allocations of a batch: of tokens, then anonymous ones, and the error of the latter.\<close>

definition accept_allocs ::
  "turn_net \<Rightarrow> int \<Rightarrow> token_join \<Rightarrow> Credentials option \<Rightarrow> string list \<Rightarrow> (nat \<Rightarrow> (nat \<times> (goerr + Allocation)) list) \<Rightarrow> nat \<Rightarrow> accept_run
    \<Rightarrow> accept_run \<times> Allocation list \<times> goerr option" where
  "accept_allocs net now tap init tokens anon needed r =
     (let (mgr1, idx, allocs) = (case tap of
            Some fetch \<Rightarrow> if ar_tokenIdx r < length tokens then accept_tokens net now fetch init tokens needed (ar_tokenIdx r) (ar_mgr r)
                          else (ar_mgr r, ar_tokenIdx r, [])
          | None \<Rightarrow> (ar_mgr r, ar_tokenIdx r, []));
          remaining = needed - length allocs
      in if remaining > 0 then
           (case Allocate (anon remaining) mgr1 of
              (mgr2, Inl e) \<Rightarrow> (r\<lparr>ar_mgr := mgr2, ar_tokenIdx := idx\<rparr>, allocs, Some e)
            | (mgr2, Inr anonAllocs) \<Rightarrow> (r\<lparr>ar_mgr := mgr2, ar_tokenIdx := idx\<rparr>, allocs @ anonAllocs, None))
         else (r\<lparr>ar_mgr := mgr1, ar_tokenIdx := idx\<rparr>, allocs, None))"

text \<open>An answer that is not sent for an error of the signaling client is logged as the code ignores that error there.\<close>

definition answer_none :: "exchange \<Rightarrow> bool \<Rightarrow> accept_run \<Rightarrow> accept_run" where
  "answer_none x final r =
     (if ex_send x = None then log_accept (SendRelayBatch [] RoleServer (ar_nonce r) (ar_total r) final) r else r)"

definition accept_pairs :: "exchange \<Rightarrow> (nat \<Rightarrow> nat) \<Rightarrow> bool \<Rightarrow> string list \<Rightarrow> Allocation list \<Rightarrow> accept_run \<Rightarrow> accept_outcome" where
  "accept_pairs x arrived final clientAddrs allocs r =
     (case ex_send x of
        Some e \<Rightarrow> Abort r (Wrapf ''send relay batch'' e)
      | None \<Rightarrow>
          let r1 = log_accept (SendRelayBatch (allocAddrs allocs) RoleServer (ar_nonce r) (ar_total r) final) r;
              batchPairs = min (length allocs) (length clientAddrs)
          in case start_handshakes (ex_resolve x) arrived (take batchPairs clientAddrs) 0 (ar_chan r1) of
               None \<Rightarrow> Stuck r1
             | Some chan \<Rightarrow>
                 Proceed (r1\<lparr>ar_chan := chan, ar_pairs := ar_pairs r1 @ batch_pairs (ar_total r1) allocs clientAddrs,
                             ar_total := ar_total r1 + batchPairs\<rparr>))"

fun accept_batches ::
  "turn_net \<Rightarrow> int \<Rightarrow> token_join \<Rightarrow> Credentials option \<Rightarrow> string list \<Rightarrow> accept_msg list \<Rightarrow> accept_run \<Rightarrow> accept_outcome" where
  "accept_batches net now tap init tokens [] r = Abort r (Wrapf ''recv relay batch'' ErrContext)"
| "accept_batches net now tap init tokens ((Inl (e, ctxErr), io) # ms) r =
     (case as_disconnect e of
        Some n \<Rightarrow>
          let r1 = log_accept (SendDisconnectAck n) r
          in if ar_nonce r = [] \<and> ar_total r = 0 then accept_batches net now tap init tokens ms r1
             else Abort r1 (Wrapf ''aborted by new client disconnect'' e)
      | None \<Rightarrow>
          if ar_nonce r \<noteq> [] \<and> \<not> ctxErr then Proceed r else Abort r (Wrapf ''recv relay batch'' e))"
| "accept_batches net now tap init tokens ((Inr (clientAddrs, final, batchNonce), anon, x, arrived) # ms) r =
     (let r0 = (if ar_nonce r = [] then r\<lparr>ar_nonce := batchNonce\<rparr> else r);
          go = (\<lambda>r. if final then Proceed r else accept_batches net now tap init tokens ms r)
      in if clientAddrs = [] then go r0
         else case accept_allocs net now tap init tokens anon (length clientAddrs) r0 of
                (r1, allocs, err) \<Rightarrow>
                  if err \<noteq> None \<and> is_expired_error (the err)
                  then Abort (answer_none x final r1) (Wrapf ''credentials expired during allocation'' ErrCredentialsExpired)
                  else if err \<noteq> None \<and> allocs = [] then go (answer_none x final r1)
                  else case accept_pairs x arrived final clientAddrs allocs r1 of
                         Proceed r2 \<Rightarrow> go r2
                       | Abort r2 e \<Rightarrow> Abort r2 e
                       | Stuck r2 \<Rightarrow> Stuck r2)"

definition accept_start :: "bool \<Rightarrow> Credentials option \<Rightarrow> accept_run" where
  "accept_start tcp init =
     \<lparr>ar_mgr = (if init \<noteq> None then SetInitialCredentials init (NewManager True tcp) else NewManager True tcp),
      ar_tokenIdx = 0, ar_nonce = [], ar_total = 0, ar_chan = 0, ar_log = [], ar_pairs = []\<rparr>"

section \<open>The server's session\<close>

text \<open>The options that every session of the server sets.\<close>

definition session_mux :: "bool \<Rightarrow> int \<Rightarrow> Mux" where
  "session_mux senv now =
     SetMaxStreams 10000 (SetIdleTimeout 90000000000 (EnableStreamAccept 64 (EnableRawPackets 4096 (New senv now 0))))"

record serve_run =
  sv_mux :: Mux
  sv_cleanups :: "nat list"
  sv_connsClosed :: "nat list"
  sv_added :: nat

text \<open>One result of a handshake and the check of its preamble.\<close>

definition serve_result :: "(bytes \<Rightarrow> bytes \<Rightarrow> bytes) \<Rightarrow> int \<Rightarrow> bytes \<Rightarrow> goerr + dconn \<Rightarrow> serve_run \<Rightarrow> serve_run" where
  "serve_result hmac now authToken res v =
     (case res of
        Inl e \<Rightarrow> v
      | Inr c \<Rightarrow>
          let v1 = v\<lparr>sv_cleanups := sv_cleanups v @ [dc_id c]\<rparr>
          in case server_preamble hmac authToken (dc_in c) of
               Inl e \<Rightarrow> v1\<lparr>sv_connsClosed := sv_connsClosed v1 @ [dc_id c]\<rparr>
             | Inr _ \<Rightarrow> v1\<lparr>sv_mux := AddConn now (sv_mux v1), sv_added := sv_added v1 + 1\<rparr>)"

definition serve_start :: "bool \<Rightarrow> int \<Rightarrow> serve_run" where
  "serve_start senv now = \<lparr>sv_mux = session_mux senv now, sv_cleanups = [], sv_connsClosed = [], sv_added = 0\<rparr>"

text \<open>
  \<^verbatim>\<open>acceptOneClient\<close> up to its session loop: \<open>results\<close> are the results of the handshakes in the order in which they arrive, up to the
  moment at which the loop that waits for the first connection looks, or all of them when it gives up.
\<close>

definition acceptOneClient ::
  "(bytes \<Rightarrow> bytes \<Rightarrow> bytes) \<Rightarrow> bool \<Rightarrow> int \<Rightarrow> turn_net \<Rightarrow> token_join \<Rightarrow> bool \<Rightarrow> bytes \<Rightarrow> Credentials option \<Rightarrow> string list
    \<Rightarrow> accept_msg list \<Rightarrow> (accept_run \<Rightarrow> (goerr + dconn) list) \<Rightarrow> (accept_run \<times> (goerr + serve_run)) option" where
  "acceptOneClient hmac senv now net tap tcp authToken init vkTokens ms results =
     (case accept_batches net now tap init (server_deduplicateTokens vkTokens) ms (accept_start tcp init) of
        Stuck r \<Rightarrow> None
      | Abort r e \<Rightarrow> Some (r, Inl e)
      | Proceed r \<Rightarrow>
          let v = foldl (\<lambda>v res. serve_result hmac now authToken res v) (serve_start senv now) (results r)
          in if sv_added v = 0 then Some (r, Inl (Errorf ''no connections passed auth/session handshake''))
             else Some (r, Inr v))"

end
