(* ===== verification/Go_Base64.thy ===== *)
theory Go_Base64
  imports Go_Ip
begin

text \<open>
  What the signaling code uses of Go's \<^verbatim>\<open>encoding/base64\<close> and \<^verbatim>\<open>strings\<close>: the standard encoding with padding, whose decoder skips line breaks, and
  joining and splitting at a separator.
\<close>

section \<open>Base64\<close>

definition b64_char :: "nat \<Rightarrow> char" where
  "b64_char n = (if n < 26 then char_of (65 + n) else if n < 52 then char_of (71 + n) else if n < 62 then char_of (n - 4)
     else if n = 62 then CHR ''+'' else CHR ''/'')"

definition b64_val :: "char \<Rightarrow> nat option" where
  "b64_val c =
     (let k = (of_char c :: nat)
      in if 65 \<le> k \<and> k \<le> 90 then Some (k - 65) else if 97 \<le> k \<and> k \<le> 122 then Some (k - 71)
         else if 48 \<le> k \<and> k \<le> 57 then Some (k + 4) else if k = 43 then Some 62 else if k = 47 then Some 63 else None)"

fun b64_encode :: "bytes \<Rightarrow> string" where
  "b64_encode [] = []"
| "b64_encode [x] = [b64_char (unat x div 4), b64_char (unat x mod 4 * 16), CHR ''='', CHR ''='']"
| "b64_encode [x, y] = [b64_char (unat x div 4), b64_char (unat x mod 4 * 16 + unat y div 16), b64_char (unat y mod 16 * 4), CHR ''='']"
| "b64_encode (x # y # z # r) =
     b64_char (unat x div 4) # b64_char (unat x mod 4 * 16 + unat y div 16) # b64_char (unat y mod 16 * 4 + unat z div 64)
     # b64_char (unat z mod 64) # b64_encode r"

text \<open>The three bytes of four sextets.\<close>

definition octet1 :: "nat \<Rightarrow> nat \<Rightarrow> byte" where "octet1 va vb = of_nat (va * 4 + vb div 16)"
definition octet2 :: "nat \<Rightarrow> nat \<Rightarrow> byte" where "octet2 vb vc = of_nat (vb mod 16 * 16 + vc div 4)"
definition octet3 :: "nat \<Rightarrow> nat \<Rightarrow> byte" where "octet3 vc vd = of_nat (vc mod 4 * 64 + vd)"

fun b64_quads :: "string \<Rightarrow> bytes option" where
  "b64_quads [] = Some []"
| "b64_quads (a # b # c # d # r) =
     (case (b64_val a, b64_val b) of
        (Some va, Some vb) \<Rightarrow>
          let x = octet1 va vb
          in if d = CHR ''='' then
               (if r \<noteq> [] then None
                else if c = CHR ''='' then Some [x]
                else (case b64_val c of Some vc \<Rightarrow> Some [x, octet2 vb vc] | None \<Rightarrow> None))
             else
               (case (b64_val c, b64_val d, b64_quads r) of
                  (Some vc, Some vd, Some bs) \<Rightarrow> Some (x # octet2 vb vc # octet3 vc vd # bs)
                | _ \<Rightarrow> None)
      | _ \<Rightarrow> None)"
| "b64_quads _ = None"

definition b64_decode :: "string \<Rightarrow> bytes option" where
  "b64_decode s = b64_quads (filter (\<lambda>c. c \<noteq> CHR 0x0A \<and> c \<noteq> CHR 0x0D) s)"

lemma b64_val_char: "n < 64 \<Longrightarrow> b64_val (b64_char n) = Some n"
  by (auto simp: b64_val_def b64_char_def Let_def)

lemma b64_char_plain: "n < 64 \<Longrightarrow> b64_char n \<noteq> CHR ''='' \<and> b64_char n \<noteq> CHR 0x0A \<and> b64_char n \<noteq> CHR 0x0D"
  using b64_val_char [of n] by (auto simp: b64_val_def)

lemma word_of_nat_unat_id: "of_nat (unat (x :: byte)) = x"
  by simp

lemma byte_bound: "unat (x :: byte) < 256"
  using unsigned_less [of x, where ?'a = nat] by simp

lemma sextets [simp]:
  "unat (x :: byte) div 4 < 64" "unat x mod 4 * 16 < 64" "unat x mod 4 * 16 + unat (y :: byte) div 16 < 64" "unat y mod 16 * 4 < 64"
  "unat y mod 16 * 4 + unat (z :: byte) div 64 < 64" "unat z mod 64 < 64"
proof -
  have "unat x div 4 < 64" "unat y div 16 < 16" "unat z div 64 < 4" "unat x mod 4 < 4" "unat y mod 16 < 16"
    using byte_bound [of x] byte_bound [of y] byte_bound [of z] by simp_all
  then show "unat x div 4 < 64" "unat x mod 4 * 16 < 64" "unat x mod 4 * 16 + unat y div 16 < 64" "unat y mod 16 * 4 < 64"
    "unat y mod 16 * 4 + unat z div 64 < 64" "unat z mod 64 < 64" by simp_all
qed

lemma octets [simp]:
  "octet1 (unat x div 4) (unat x mod 4 * 16) = x"
  "octet1 (unat x div 4) (unat x mod 4 * 16 + unat (y :: byte) div 16) = x"
  "octet2 (unat x mod 4 * 16 + unat y div 16) (unat y mod 16 * 4) = y"
  "octet2 (unat x mod 4 * 16 + unat y div 16) (unat y mod 16 * 4 + unat (z :: byte) div 64) = y"
  "octet3 (unat y mod 16 * 4 + unat z div 64) (unat z mod 64) = z"
proof -
  have b: "unat y div 16 < 16" "unat z div 64 < 4" using byte_bound [of y] byte_bound [of z] by simp_all
  have "unat x div 4 * 4 + unat x mod 4 * 16 div 16 = unat x" by simp
  then show "octet1 (unat x div 4) (unat x mod 4 * 16) = x" unfolding octet1_def by (metis word_of_nat_unat_id)
  have "unat x div 4 * 4 + (unat x mod 4 * 16 + unat y div 16) div 16 = unat x" using b(1) by simp
  then show "octet1 (unat x div 4) (unat x mod 4 * 16 + unat y div 16) = x" unfolding octet1_def by (metis word_of_nat_unat_id)
  have "(unat x mod 4 * 16 + unat y div 16) mod 16 = unat y div 16" using b(1) by simp
  moreover have "unat y div 16 * 16 + unat y mod 16 * 4 div 4 = unat y" by simp
  moreover have "(unat y mod 16 * 4 + unat z div 64) div 4 = unat y mod 16" using b(2) by simp
  moreover have "unat y div 16 * 16 + unat y mod 16 = unat y" by simp
  ultimately show "octet2 (unat x mod 4 * 16 + unat y div 16) (unat y mod 16 * 4) = y"
    "octet2 (unat x mod 4 * 16 + unat y div 16) (unat y mod 16 * 4 + unat z div 64) = y"
    unfolding octet2_def by (metis word_of_nat_unat_id)+
  have "(unat y mod 16 * 4 + unat z div 64) mod 4 = unat z div 64" using b(2) by simp
  moreover have "unat z div 64 * 64 + unat z mod 64 = unat z" by simp
  ultimately show "octet3 (unat y mod 16 * 4 + unat z div 64) (unat z mod 64) = z"
    unfolding octet3_def by (metis word_of_nat_unat_id)
qed

lemma b64_quads_encode: "b64_quads (b64_encode bs) = Some bs"
  by (induction bs rule: b64_encode.induct) (simp_all add: b64_val_char b64_char_plain)

lemma b64_encode_plain: "c \<in> set (b64_encode bs) \<Longrightarrow> c \<noteq> CHR 0x0A \<and> c \<noteq> CHR 0x0D"
  by (induction bs rule: b64_encode.induct) (auto simp: b64_char_plain)

lemma b64_roundtrip [simp]: "b64_decode (b64_encode bs) = Some bs"
proof -
  have "filter (\<lambda>c. c \<noteq> CHR 0x0A \<and> c \<noteq> CHR 0x0D) (b64_encode bs) = b64_encode bs"
    using b64_encode_plain [of _ bs] by (intro filter_True) blast
  then show ?thesis by (simp add: b64_decode_def b64_quads_encode)
qed

section \<open>Strings, joining and splitting\<close>

definition bytes_of_string :: "string \<Rightarrow> bytes" where
  "bytes_of_string s = map (\<lambda>c. of_nat (of_char c)) s"

definition string_of :: "bytes \<Rightarrow> string" where
  "string_of bs = map (\<lambda>b. char_of (unat b)) bs"

lemma string_of_bytes_of [simp]: "string_of (bytes_of_string s) = s"
proof -
  have "char_of (unat (of_nat (of_char c) :: byte)) = c" for c
    by (simp add: unat_of_nat)
  then show ?thesis by (simp add: string_of_def bytes_of_string_def comp_def)
qed

fun strings_Join :: "string list \<Rightarrow> string \<Rightarrow> string" where
  "strings_Join [] sep = []"
| "strings_Join [a] sep = a"
| "strings_Join (a # b # r) sep = a @ sep @ strings_Join (b # r) sep"

lemma split_on_plain: "sep \<notin> set a \<Longrightarrow> split_on sep a = [a]"
  by (induction a) auto

lemma split_join:
  "as \<noteq> [] \<Longrightarrow> \<forall>a\<in>set as. sep \<notin> set a \<Longrightarrow> split_on sep (strings_Join as [sep]) = as"
  by (induction as "[sep]" rule: strings_Join.induct) (auto simp: split_on_plain split_on_append)

end
