(* ===== verification/Vk_Signal.thy ===== *)
theory Vk_Signal
  imports Go_Base64
begin

text \<open>
  The signaling client of the VK service (\<^verbatim>\<open>internal/provider/vk/signal.go\<close>): sealed messages between the two sides of a call, the filters
  of the receiving loops, subscribers, and the dispatcher of punch signals.  The WebSocket, AES-GCM and the JSON library are arguments:
  a notification has what the JSON library finds in it, and \<open>marshal\<close> and \<open>unmarshal\<close> stand for the encoding of the inner messages.
\<close>

section \<open>Data\<close>

definition wireType :: string where "wireType = ''av-sync''"
definition wireDisconnect :: string where "wireDisconnect = ''av-reset''"
definition wireDisconnectAck :: string where "wireDisconnectAck = ''av-reset-ack''"
definition wirePunchReady :: string where "wirePunchReady = ''av-punch''"
definition wireRoleServer :: string where "wireRoleServer = ''pub''"
definition wireRoleClient :: string where "wireRoleClient = ''sub''"

lemmas wire_defs = wireType_def wireDisconnect_def wireDisconnectAck_def wirePunchReady_def wireRoleServer_def wireRoleClient_def

text \<open>The cipher: size of its nonces, sealing and opening with a nonce.\<close>

record AEAD =
  aead_NonceSize :: nat
  aead_Seal :: "bytes \<Rightarrow> bytes \<Rightarrow> bytes"
  aead_Open :: "bytes \<Rightarrow> bytes \<Rightarrow> goerr + bytes"

text \<open>
  A notification: its name, the data field where that is a JSON string, and what the message has under \<^verbatim>\<open>participantId\<close> and under
  \<^verbatim>\<open>participant.peerId.id\<close> where it can be parsed for that.
\<close>

record notification =
  n_Name :: string
  n_Data :: "string option"
  n_participantId :: "string option"
  n_joinedId :: "string option"

record relayData =
  rd_Type :: string
  rd_Payload :: string
  rd_Mode :: string
  rd_Nonce :: string
  rd_Index :: int
  rd_Batch :: int
  rd_Final :: bool

definition relayData0 :: relayData where
  "relayData0 = \<lparr>rd_Type = [], rd_Payload = [], rd_Mode = [], rd_Nonce = [], rd_Index = 0, rd_Batch = 0, rd_Final = False\<rparr>"

record SignalMessage =
  sm_Type :: string
  sm_Payload :: string
  sm_Nonce :: string
  sm_Index :: int

text \<open>A command on the wire: its name, its sequence number and its data.\<close>

type_synonym wire_cmd = "string \<times> int \<times> string option"

text \<open>
  Subscribers' channels are numbers into a store of capacities and contents; \<open>sc_written\<close> is what was written to the socket.
\<close>

record SignalingClient =
  sc_aead :: "AEAD option"
  sc_myPeerID :: string
  sc_remotePeer :: string
  sc_seq :: int
  sc_incoming :: "notification list"
  sc_done :: bool
  sc_subs :: "string \<rightharpoonup> nat"
  sc_chans :: "(nat \<times> SignalMessage list) list"
  sc_written :: "wire_cmd list"
  sc_pongs :: nat

definition new_client :: "string \<Rightarrow> SignalingClient" where
  "new_client peerID =
     \<lparr>sc_aead = None, sc_myPeerID = peerID, sc_remotePeer = [], sc_seq = 0, sc_incoming = [], sc_done = False, sc_subs = (\<lambda>_. None),
      sc_chans = [], sc_written = [], sc_pongs = 0\<rparr>"

text \<open>The first message of the server: an error, another notification or the one that tells our identifier.\<close>

record envelope =
  env_Error :: string
  env_Message :: string
  env_Notification :: string
  env_PeerID :: string

definition ConnectSignaling :: "goerr option \<Rightarrow> goerr option \<Rightarrow> envelope option \<Rightarrow> goerr + SignalingClient" where
  "ConnectSignaling dial read first =
     (case dial of
        Some e \<Rightarrow> Inl (Wrapf ''ws dial'' e)
      | None \<Rightarrow>
          (case read of
             Some e \<Rightarrow> Inl (Wrapf ''read connection notification'' e)
           | None \<Rightarrow>
               (case first of
                  None \<Rightarrow> Inl (Errorf ''parse first message'')
                | Some env \<Rightarrow>
                    if env_Error env \<noteq> [] then Inl (Errorf (''signaling error: '' @ env_Error env @ '': '' @ env_Message env))
                    else if env_Notification env \<noteq> ''connection'' then Inl (Errorf ''expected connection notification'')
                    else Inr (new_client (env_PeerID env)))))"

section \<open>Sealing\<close>

text \<open>The hash of the token keys the cipher; \<open>NewCipher\<close> and \<open>NewGCM\<close> are the constructors of the library.\<close>

definition SetKey :: "(bytes \<Rightarrow> bytes) \<Rightarrow> (bytes \<Rightarrow> goerr + 'b) \<Rightarrow> ('b \<Rightarrow> goerr + AEAD) \<Rightarrow> bytes \<Rightarrow> SignalingClient \<Rightarrow> SignalingClient \<times> goerr option" where
  "SetKey sha256 NewCipher NewGCM token c =
     (if token = [] then (c, None)
      else case NewCipher (sha256 token) of
             Inl e \<Rightarrow> (c, Some (Wrapf ''aes cipher'' e))
           | Inr block \<Rightarrow>
               (case NewGCM block of
                  Inl e \<Rightarrow> (c\<lparr>sc_aead := None\<rparr>, Some (Wrapf ''gcm'' e))
                | Inr a \<Rightarrow> (c\<lparr>sc_aead := Some a\<rparr>, None)))"

definition seal :: "AEAD option \<Rightarrow> bytes \<Rightarrow> bytes \<Rightarrow> string" where
  "seal aead nonce plaintext =
     (case aead of None \<Rightarrow> b64_encode plaintext | Some a \<Rightarrow> b64_encode (nonce @ aead_Seal a nonce plaintext))"

definition open_blob :: "AEAD option \<Rightarrow> string \<Rightarrow> goerr + bytes" where
  "open_blob aead blob =
     (case b64_decode blob of
        None \<Rightarrow> Inl (Errorf ''illegal base64 data'')
      | Some raw \<Rightarrow>
          (case aead of
             None \<Rightarrow> Inr raw
           | Some a \<Rightarrow>
               if length raw < aead_NonceSize a then Inl (Errorf ''ciphertext too short'')
               else aead_Open a (take (aead_NonceSize a) raw) (drop (aead_NonceSize a) raw)))"

definition encodeAddrs :: "string list \<Rightarrow> string" where
  "encodeAddrs addrs = b64_encode (bytes_of_string (strings_Join addrs '',''))"

definition decodeAddrs :: "string \<Rightarrow> goerr + string list" where
  "decodeAddrs payload =
     (case b64_decode payload of None \<Rightarrow> Inl (Errorf ''illegal base64 data'') | Some raw \<Rightarrow> Inr (split_on CHR '','' (string_of raw)))"

definition toWireRole :: "string \<Rightarrow> string" where
  "toWireRole role = (if role = ''server'' then wireRoleServer else wireRoleClient)"

definition fromWireRole :: "string \<Rightarrow> string" where
  "fromWireRole mode = (if mode = wireRoleServer then ''server'' else ''client'')"

section \<open>Sending\<close>

text \<open>\<open>werr\<close> is the error of the write, \<open>rnd\<close> the random nonce.\<close>

definition sendCommand :: "goerr option \<Rightarrow> string \<Rightarrow> string option \<Rightarrow> SignalingClient \<Rightarrow> SignalingClient \<times> goerr option" where
  "sendCommand werr cmd dat c =
     (let c1 = c\<lparr>sc_seq := sc_seq c + 1\<rparr>
      in case werr of
           Some e \<Rightarrow> (c1, Some e)
         | None \<Rightarrow> (c1\<lparr>sc_written := sc_written c1 @ [(cmd, sc_seq c1, dat)]\<rparr>, None))"

definition sendInner :: "(relayData \<Rightarrow> bytes) \<Rightarrow> goerr option \<Rightarrow> bytes \<Rightarrow> relayData \<Rightarrow> SignalingClient \<Rightarrow> SignalingClient \<times> goerr option" where
  "sendInner marshal werr rnd inner c =
     (case sendCommand werr ''custom-data'' (Some (seal (sc_aead c) rnd (marshal inner))) c of
        (c1, Some e) \<Rightarrow> (c1, Some (Wrapf ''write command'' e))
      | (c1, None) \<Rightarrow> (c1, None))"

definition addrs_msg :: "string list \<Rightarrow> string \<Rightarrow> string \<Rightarrow> relayData" where
  "addrs_msg addrs role nonce = relayData0\<lparr>rd_Type := wireType, rd_Payload := encodeAddrs addrs, rd_Mode := toWireRole role, rd_Nonce := nonce\<rparr>"

definition SendRelayAddrs :: "(relayData \<Rightarrow> bytes) \<Rightarrow> goerr option \<Rightarrow> bytes \<Rightarrow> string list \<Rightarrow> string \<Rightarrow> string \<Rightarrow> SignalingClient \<Rightarrow> SignalingClient \<times> goerr option" where
  "SendRelayAddrs marshal werr rnd addrs role nonce c = sendInner marshal werr rnd (addrs_msg addrs role nonce) c"

definition batch_msg :: "string list \<Rightarrow> string \<Rightarrow> string \<Rightarrow> int \<Rightarrow> bool \<Rightarrow> relayData" where
  "batch_msg addrs role nonce batch final = (addrs_msg addrs role nonce)\<lparr>rd_Batch := batch, rd_Final := final\<rparr>"

definition vk_SendRelayBatch ::
  "(relayData \<Rightarrow> bytes) \<Rightarrow> goerr option \<Rightarrow> bytes \<Rightarrow> string list \<Rightarrow> string \<Rightarrow> string \<Rightarrow> int \<Rightarrow> bool \<Rightarrow> SignalingClient \<Rightarrow> SignalingClient \<times> goerr option" where
  "vk_SendRelayBatch marshal werr rnd addrs role nonce batch final c = sendInner marshal werr rnd (batch_msg addrs role nonce batch final) c"

definition vk_SendDisconnectReq :: "(relayData \<Rightarrow> bytes) \<Rightarrow> goerr option \<Rightarrow> bytes \<Rightarrow> string \<Rightarrow> SignalingClient \<Rightarrow> SignalingClient \<times> goerr option" where
  "vk_SendDisconnectReq marshal werr rnd nonce c = sendInner marshal werr rnd (relayData0\<lparr>rd_Type := wireDisconnect, rd_Nonce := nonce\<rparr>) c"

definition vk_SendDisconnectAck :: "(relayData \<Rightarrow> bytes) \<Rightarrow> goerr option \<Rightarrow> bytes \<Rightarrow> string \<Rightarrow> SignalingClient \<Rightarrow> SignalingClient \<times> goerr option" where
  "vk_SendDisconnectAck marshal werr rnd nonce c = sendInner marshal werr rnd (relayData0\<lparr>rd_Type := wireDisconnectAck, rd_Nonce := nonce\<rparr>) c"

definition SendPunchReady :: "(relayData \<Rightarrow> bytes) \<Rightarrow> goerr option \<Rightarrow> bytes \<Rightarrow> string \<Rightarrow> int \<Rightarrow> SignalingClient \<Rightarrow> SignalingClient \<times> goerr option" where
  "SendPunchReady marshal werr rnd nonce index c =
     sendInner marshal werr rnd (relayData0\<lparr>rd_Type := wirePunchReady, rd_Nonce := nonce, rd_Index := index\<rparr>) c"

definition SendPayload :: "(relayData \<Rightarrow> bytes) \<Rightarrow> goerr option \<Rightarrow> bytes \<Rightarrow> string \<Rightarrow> bytes \<Rightarrow> SignalingClient \<Rightarrow> SignalingClient \<times> goerr option" where
  "SendPayload marshal werr rnd tag d c = sendInner marshal werr rnd (relayData0\<lparr>rd_Type := tag, rd_Payload := b64_encode d\<rparr>) c"

definition SendHangup :: "goerr option \<Rightarrow> SignalingClient \<Rightarrow> SignalingClient \<times> goerr option" where
  "SendHangup werr c = sendCommand werr ''hangup'' None c"

definition SendAcceptCall :: "goerr option \<Rightarrow> SignalingClient \<Rightarrow> SignalingClient \<times> goerr option" where
  "SendAcceptCall werr c = sendCommand werr ''accept-call'' None c"

text \<open>One tick of the keep-alive; \<open>False\<close>: the goroutine ends.  \<open>fakeSDP\<close> is the constant of the code.\<close>

definition keepalive_tick :: "string \<Rightarrow> goerr option \<Rightarrow> goerr option \<Rightarrow> SignalingClient \<Rightarrow> SignalingClient \<times> bool" where
  "keepalive_tick fakeSDP werr1 werr2 c =
     (case sendCommand werr1 ''transmit-data'' (Some fakeSDP) c of
        (c1, Some e) \<Rightarrow> (c1, False)
      | (c1, None) \<Rightarrow>
          (case sendCommand werr2 ''change-media-settings'' None c1 of
             (c2, Some e) \<Rightarrow> (c2, False)
           | (c2, None) \<Rightarrow> (c2, True)))"

definition Close_signaling :: "goerr option \<Rightarrow> SignalingClient \<Rightarrow> SignalingClient" where
  "Close_signaling werr c = (fst (SendHangup werr c))\<lparr>sc_done := True\<rparr>"

section \<open>The read loop\<close>

datatype ws_msg = WsError | WsPing | WsUnparsed | WsNotif notification

definition incomingCap :: nat where "incomingCap = 256"

definition read_msg :: "ws_msg \<Rightarrow> SignalingClient \<Rightarrow> SignalingClient" where
  "read_msg m c =
     (case m of
        WsError \<Rightarrow> c\<lparr>sc_done := True\<rparr>
      | WsPing \<Rightarrow> c\<lparr>sc_pongs := sc_pongs c + 1\<rparr>
      | WsUnparsed \<Rightarrow> c
      | WsNotif n \<Rightarrow>
          if n_Name n = [] then c
          else if length (sc_incoming c) < incomingCap then c\<lparr>sc_incoming := sc_incoming c @ [n]\<rparr>
          else c)"

section \<open>Receiving\<close>

definition extractTag :: "(bytes \<Rightarrow> relayData option) \<Rightarrow> AEAD option \<Rightarrow> notification \<Rightarrow> relayData option" where
  "extractTag unmarshal aead n =
     (case n_Data n of
        None \<Rightarrow> None
      | Some blob \<Rightarrow> (case open_blob aead blob of Inl e \<Rightarrow> None | Inr inner \<Rightarrow> unmarshal inner))"

definition setRemotePeerFromNotif :: "notification \<Rightarrow> SignalingClient \<Rightarrow> SignalingClient" where
  "setRemotePeerFromNotif n c =
     (case n_participantId n of None \<Rightarrow> c | Some pid \<Rightarrow> if pid = [] \<or> pid = ''0'' then c else c\<lparr>sc_remotePeer := pid\<rparr>)"

definition isRemotePeerHungup :: "notification \<Rightarrow> SignalingClient \<Rightarrow> bool" where
  "isRemotePeerHungup n c =
     (case n_participantId n of
        None \<Rightarrow> True
      | Some pid \<Rightarrow> pid = [] \<or> pid = ''0'' \<or> sc_remotePeer c = [] \<or> pid = sc_remotePeer c)"

definition stop_error :: "SignalingClient \<Rightarrow> goerr" where
  "stop_error c = (if sc_done c then Errorf ''signaling connection closed'' else ErrContext)"

text \<open>
  The receiving loops take from \<open>sc_incoming\<close>, which holds what is there and what arrives while they wait; when nothing is left, the
  context or the connection ends.
\<close>

fun recv_relay :: "(bytes \<Rightarrow> relayData option) \<Rightarrow> string \<Rightarrow> string \<Rightarrow> notification list \<Rightarrow> SignalingClient \<Rightarrow> SignalingClient \<times> (goerr + relayData)" where
  "recv_relay unmarshal skipRole filterNonce [] c = (c\<lparr>sc_incoming := []\<rparr>, Inl (stop_error c))"
| "recv_relay unmarshal skipRole filterNonce (n # ns) c =
     (if n_Name n \<noteq> ''custom-data'' then recv_relay unmarshal skipRole filterNonce ns c
      else case extractTag unmarshal (sc_aead c) n of
             None \<Rightarrow> recv_relay unmarshal skipRole filterNonce ns c
           | Some d \<Rightarrow>
               if rd_Type d = wireDisconnect then (c\<lparr>sc_incoming := ns\<rparr>, Inl (DisconnectError (rd_Nonce d)))
               else if rd_Type d \<noteq> wireType then recv_relay unmarshal skipRole filterNonce ns c
               else if filterNonce \<noteq> [] \<and> rd_Nonce d \<noteq> filterNonce then recv_relay unmarshal skipRole filterNonce ns c
               else if skipRole \<noteq> [] \<and> fromWireRole (rd_Mode d) = skipRole then recv_relay unmarshal skipRole filterNonce ns c
               else (setRemotePeerFromNotif n (c\<lparr>sc_incoming := ns\<rparr>), Inr d))"

definition recvRelayData :: "(bytes \<Rightarrow> relayData option) \<Rightarrow> string \<Rightarrow> string \<Rightarrow> SignalingClient \<Rightarrow> SignalingClient \<times> (goerr + relayData)" where
  "recvRelayData unmarshal skipRole filterNonce c = recv_relay unmarshal skipRole filterNonce (sc_incoming c) c"

definition RecvRelayAddrs ::
  "(bytes \<Rightarrow> relayData option) \<Rightarrow> string \<Rightarrow> string \<Rightarrow> SignalingClient \<Rightarrow> SignalingClient \<times> (goerr + (string list \<times> string \<times> string))" where
  "RecvRelayAddrs unmarshal skipRole filterNonce c =
     (case recvRelayData unmarshal skipRole filterNonce c of
        (c1, Inl e) \<Rightarrow> (c1, Inl e)
      | (c1, Inr d) \<Rightarrow>
          (case decodeAddrs (rd_Payload d) of
             Inl e \<Rightarrow> (c1, Inl (Wrapf ''decode relay addrs'' e))
           | Inr addrs \<Rightarrow> (c1, Inr (addrs, fromWireRole (rd_Mode d), rd_Nonce d))))"

definition vk_RecvRelayBatch ::
  "(bytes \<Rightarrow> relayData option) \<Rightarrow> string \<Rightarrow> string \<Rightarrow> SignalingClient \<Rightarrow> SignalingClient \<times> (goerr + (string list \<times> int \<times> bool \<times> string))" where
  "vk_RecvRelayBatch unmarshal skipRole filterNonce c =
     (case recvRelayData unmarshal skipRole filterNonce c of
        (c1, Inl e) \<Rightarrow> (c1, Inl e)
      | (c1, Inr d) \<Rightarrow>
          (case decodeAddrs (rd_Payload d) of
             Inl e \<Rightarrow> (c1, Inl (Wrapf ''decode relay batch'' e))
           | Inr addrs \<Rightarrow> (c1, Inr (addrs, rd_Batch d, rd_Final d, rd_Nonce d))))"

definition Drain :: "SignalingClient \<Rightarrow> SignalingClient" where
  "Drain c = c\<lparr>sc_incoming := []\<rparr>"

fun wait_peer :: "nat \<Rightarrow> nat \<Rightarrow> notification list \<Rightarrow> SignalingClient \<Rightarrow> SignalingClient \<times> (goerr + string)" where
  "wait_peer skipped skipCount [] c = (c\<lparr>sc_incoming := []\<rparr>, Inl (stop_error c))"
| "wait_peer skipped skipCount (n # ns) c =
     (if n_Name n \<noteq> ''participant-joined'' then wait_peer skipped skipCount ns c
      else case n_joinedId n of
             None \<Rightarrow> wait_peer skipped skipCount ns c
           | Some pid \<Rightarrow>
               if skipped < skipCount then wait_peer (skipped + 1) skipCount ns c
               else (c\<lparr>sc_incoming := ns, sc_remotePeer := pid\<rparr>, Inr pid))"

definition WaitForPeer :: "nat \<Rightarrow> SignalingClient \<Rightarrow> SignalingClient \<times> (goerr + string)" where
  "WaitForPeer skipCount c = wait_peer 0 skipCount (sc_incoming c) c"

definition WaitForHungup :: "SignalingClient \<Rightarrow> SignalingClient" where
  "WaitForHungup c = c\<lparr>sc_incoming := tl (dropWhile (\<lambda>n. n_Name n \<noteq> ''hungup'') (sc_incoming c))\<rparr>"

fun wait_ack :: "(bytes \<Rightarrow> relayData option) \<Rightarrow> string \<Rightarrow> notification list \<Rightarrow> SignalingClient \<Rightarrow> SignalingClient \<times> goerr option" where
  "wait_ack unmarshal nonce [] c = (c\<lparr>sc_incoming := []\<rparr>, Some (stop_error c))"
| "wait_ack unmarshal nonce (n # ns) c =
     (if n_Name n \<noteq> ''custom-data'' then wait_ack unmarshal nonce ns c
      else case extractTag unmarshal (sc_aead c) n of
             None \<Rightarrow> wait_ack unmarshal nonce ns c
           | Some d \<Rightarrow>
               if rd_Type d = wireDisconnectAck \<and> rd_Nonce d = nonce then (c\<lparr>sc_incoming := ns\<rparr>, None)
               else wait_ack unmarshal nonce ns c)"

definition vk_WaitDisconnectAck :: "(bytes \<Rightarrow> relayData option) \<Rightarrow> string \<Rightarrow> SignalingClient \<Rightarrow> SignalingClient \<times> goerr option" where
  "vk_WaitDisconnectAck unmarshal nonce c = wait_ack unmarshal nonce (sc_incoming c) c"

fun recv_payload :: "(bytes \<Rightarrow> relayData option) \<Rightarrow> string \<Rightarrow> notification list \<Rightarrow> SignalingClient \<Rightarrow> SignalingClient \<times> (goerr + bytes)" where
  "recv_payload unmarshal tag [] c = (c\<lparr>sc_incoming := []\<rparr>, Inl (stop_error c))"
| "recv_payload unmarshal tag (n # ns) c =
     (if n_Name n \<noteq> ''custom-data'' then recv_payload unmarshal tag ns c
      else case extractTag unmarshal (sc_aead c) n of
             None \<Rightarrow> recv_payload unmarshal tag ns c
           | Some d \<Rightarrow>
               if rd_Type d \<noteq> tag then recv_payload unmarshal tag ns c
               else (case b64_decode (rd_Payload d) of
                       None \<Rightarrow> recv_payload unmarshal tag ns c
                     | Some p \<Rightarrow> (c\<lparr>sc_incoming := ns\<rparr>, Inr p)))"

definition RecvPayload :: "(bytes \<Rightarrow> relayData option) \<Rightarrow> string \<Rightarrow> SignalingClient \<Rightarrow> SignalingClient \<times> (goerr + bytes)" where
  "RecvPayload unmarshal tag c = recv_payload unmarshal tag (sc_incoming c) c"

section \<open>Subscribers\<close>

definition Subscribe :: "string \<Rightarrow> nat \<Rightarrow> SignalingClient \<Rightarrow> SignalingClient \<times> nat" where
  "Subscribe tag bufSize c =
     (let ch = length (sc_chans c) in (c\<lparr>sc_chans := sc_chans c @ [(bufSize, [])], sc_subs := (sc_subs c)(tag \<mapsto> ch)\<rparr>, ch))"

text \<open>The function that \<^verbatim>\<open>Subscribe\<close> returns.\<close>

definition unsubscribe :: "string \<Rightarrow> nat \<Rightarrow> SignalingClient \<Rightarrow> SignalingClient" where
  "unsubscribe tag ch c = (if sc_subs c tag = Some ch then c\<lparr>sc_subs := (sc_subs c)(tag := None)\<rparr> else c)"

definition signal_of :: "relayData \<Rightarrow> SignalMessage" where
  "signal_of d = \<lparr>sm_Type = rd_Type d, sm_Payload = rd_Payload d, sm_Nonce = rd_Nonce d, sm_Index = rd_Index d\<rparr>"

definition chan_send :: "nat \<Rightarrow> SignalMessage \<Rightarrow> SignalingClient \<Rightarrow> SignalingClient" where
  "chan_send ch m c =
     (case sc_chans c ! ch of (bufSize, q) \<Rightarrow>
        if length q < bufSize then c\<lparr>sc_chans := (sc_chans c)[ch := (bufSize, q @ [m])]\<rparr> else c)"

definition routeToSubscriber :: "(bytes \<Rightarrow> relayData option) \<Rightarrow> notification \<Rightarrow> SignalingClient \<Rightarrow> SignalingClient \<times> bool" where
  "routeToSubscriber unmarshal n c =
     (case extractTag unmarshal (sc_aead c) n of
        None \<Rightarrow> (c, False)
      | Some d \<Rightarrow>
          (case sc_subs c (rd_Type d) of
             None \<Rightarrow> (c, False)
           | Some ch \<Rightarrow> (chan_send ch (signal_of d) c, True)))"

definition isDisconnectSignal :: "(bytes \<Rightarrow> relayData option) \<Rightarrow> AEAD option \<Rightarrow> notification \<Rightarrow> string option" where
  "isDisconnectSignal unmarshal aead n =
     (case extractTag unmarshal aead n of None \<Rightarrow> None | Some d \<Rightarrow> if rd_Type d = wireDisconnect then Some (rd_Nonce d) else None)"

datatype SessionEndReason = SessionEndHungup | SessionEndDisconnect | SessionEndClosed

fun wait_end :: "(bytes \<Rightarrow> relayData option) \<Rightarrow> notification list \<Rightarrow> SignalingClient \<Rightarrow> SignalingClient \<times> SessionEndReason \<times> string" where
  "wait_end unmarshal [] c = (c\<lparr>sc_incoming := []\<rparr>, SessionEndClosed, [])"
| "wait_end unmarshal (n # ns) c =
     (if n_Name n = ''hungup'' then
        (if isRemotePeerHungup n c then (c\<lparr>sc_incoming := ns\<rparr>, SessionEndHungup, []) else wait_end unmarshal ns c)
      else if n_Name n = ''custom-data'' then
        (case routeToSubscriber unmarshal n c of
           (c1, True) \<Rightarrow> wait_end unmarshal ns c1
         | (c1, False) \<Rightarrow>
             (case isDisconnectSignal unmarshal (sc_aead c1) n of
                Some nonce \<Rightarrow> (c1\<lparr>sc_incoming := ns\<rparr>, SessionEndDisconnect, nonce)
              | None \<Rightarrow> wait_end unmarshal ns c1))
      else wait_end unmarshal ns c)"

definition WaitForSessionEnd :: "(bytes \<Rightarrow> relayData option) \<Rightarrow> SignalingClient \<Rightarrow> SignalingClient \<times> SessionEndReason \<times> string" where
  "WaitForSessionEnd unmarshal c = wait_end unmarshal (sc_incoming c) c"

definition DrainAndRoute :: "(bytes \<Rightarrow> relayData option) \<Rightarrow> SignalingClient \<Rightarrow> SignalingClient" where
  "DrainAndRoute unmarshal c =
     (foldl (\<lambda>c n. if n_Name n = ''custom-data'' then fst (routeToSubscriber unmarshal n c) else c) c (sc_incoming c))\<lparr>sc_incoming := []\<rparr>"

definition IsAlive :: "SignalingClient \<Rightarrow> bool" where
  "IsAlive c = (\<not> sc_done c)"

section \<open>Punch signals\<close>

text \<open>
  Waiters are numbers; \<open>pd_waiters\<close> has the one for an index, and \<open>pd_signalled\<close> those whose channel holds a signal.
\<close>

record punchDispatcher =
  pd_nonce :: string
  pd_waiters :: "int \<rightharpoonup> nat"
  pd_signalled :: "nat set"
  pd_next :: nat

definition StartPunchDispatcher :: "string \<Rightarrow> SignalingClient \<Rightarrow> SignalingClient \<times> nat \<times> punchDispatcher" where
  "StartPunchDispatcher nonce c =
     (case Subscribe wirePunchReady 32 c of
        (c1, ch) \<Rightarrow> (c1, ch, \<lparr>pd_nonce = nonce, pd_waiters = (\<lambda>_. None), pd_signalled = {}, pd_next = 0\<rparr>))"

text \<open>The goroutine takes a message from its channel.\<close>

definition punch_deliver :: "SignalMessage \<Rightarrow> punchDispatcher \<Rightarrow> punchDispatcher" where
  "punch_deliver m pd =
     (if sm_Nonce m \<noteq> pd_nonce pd then pd
      else case pd_waiters pd (sm_Index m) of None \<Rightarrow> pd | Some w \<Rightarrow> pd\<lparr>pd_signalled := insert w (pd_signalled pd)\<rparr>)"

text \<open>
  \<^verbatim>\<open>PreparePunchWait\<close> registers the waiter of an index; without a dispatcher there is no channel and the wait ends with its context.
\<close>

definition PreparePunchWait :: "int \<Rightarrow> punchDispatcher option \<Rightarrow> punchDispatcher option \<times> nat option" where
  "PreparePunchWait index disp =
     (case disp of
        None \<Rightarrow> (None, None)
      | Some pd \<Rightarrow>
          (Some (pd\<lparr>pd_waiters := (pd_waiters pd)(index \<mapsto> pd_next pd), pd_next := pd_next pd + 1\<rparr>), Some (pd_next pd)))"

text \<open>The function that \<^verbatim>\<open>PreparePunchWait\<close> returns, called when a signal is there or the context has ended.\<close>

definition punch_wait :: "int \<Rightarrow> nat option \<Rightarrow> punchDispatcher option \<Rightarrow> punchDispatcher option \<times> goerr option" where
  "punch_wait index ch disp =
     (case (ch, disp) of
        (Some w, Some pd) \<Rightarrow>
          (Some (pd\<lparr>pd_waiters := (pd_waiters pd)(index := None)\<rparr>), if w \<in> pd_signalled pd then None else Some ErrContext)
      | _ \<Rightarrow> (disp, Some ErrContext))"

end
