(* ===== verification/Reconnect.thy ===== *)
theory Reconnect
  imports Relay_Session Vk_Signal
begin

text \<open>
  Reconnecting (\<^verbatim>\<open>internal/client/reconnect.go\<close>): the manager that watches the multiplexer of a session, one attempt of the client and
  its answer by the server (\<^verbatim>\<open>handleOneReconnect\<close> of \<^verbatim>\<open>internal/server/server.go\<close>), and the loop of \<^verbatim>\<open>RunRelayToRelay\<close>
  that replaces a whole session.
\<close>

definition WireConnNew :: string where "WireConnNew = ''av-conn-new''"
definition WireConnOk :: string where "WireConnOk = ''av-conn-ok''"

section \<open>One attempt of the client\<close>

text \<open>
  \<open>rc_ack\<close> is what the subscriber's channel holds, \<open>rc_sent\<close> the addresses announced to the server, \<open>rc_pairs\<close> the handshakes, own address and
  that of the server.
\<close>

record reconn =
  rc_mgr :: Manager
  rc_m :: Mux
  rc_ack :: "SignalMessage list"
  rc_sent :: "string list"
  rc_pairs :: "(string \<times> string) list"
  rc_connsClosed :: "nat list"

text \<open>
  What an attempt meets: whether the signaling client is alive, the allocation, the errors of sending, the acknowledgements that arrive
  while it waits and the error when none comes, how addresses resolve, the handshake and the random bytes; then whether the context
  ends while it backs off, the acknowledgements that arrive meanwhile and what others do to the multiplexer, and the time.
\<close>

record attempt_env =
  ae_alive :: bool
  ae_allocs :: "(nat \<times> (goerr + Allocation)) list"
  ae_send :: "goerr option"
  ae_acks :: "SignalMessage list"
  ae_stop :: goerr
  ae_resolve :: "string \<Rightarrow> goerr option"
  ae_dial :: "goerr + dconn"
  ae_rnd :: bytes
  ae_done :: bool
  ae_late :: "SignalMessage list"
  ae_mux :: "Mux \<Rightarrow> Mux"
  ae_now :: int

definition ackCap :: nat where "ackCap = 8"

definition ack_arrive :: "SignalMessage list \<Rightarrow> SignalMessage list \<Rightarrow> SignalMessage list" where
  "ack_arrive ch ms = ch @ take (ackCap - length ch) ms"

text \<open>The address in an acknowledgement.\<close>

definition ack_addr :: "SignalMessage \<Rightarrow> string option" where
  "ack_addr m = map_option string_of (b64_decode (sm_Payload m))"

definition reconnect_dtls :: "(bytes \<Rightarrow> bytes \<Rightarrow> bytes) \<Rightarrow> bytes \<Rightarrow> bytes \<Rightarrow> attempt_env \<Rightarrow> string \<Rightarrow> string \<Rightarrow> reconn \<Rightarrow> reconn \<times> goerr option" where
  "reconnect_dtls hmac authToken sessionID e myAddr serverAddr r =
     (case ae_resolve e serverAddr of
        Some err \<Rightarrow> (r, Some (Wrapf ''resolve server addr'' err))
      | None \<Rightarrow>
          let r1 = r\<lparr>rc_pairs := rc_pairs r @ [(myAddr, serverAddr)]\<rparr>
          in case ae_dial e of
               Inl err \<Rightarrow> (r1, Some (Wrapf ''DialOverTURN'' err))
             | Inr c \<Rightarrow>
                 let auth = (if authToken \<noteq> [] then WriteAuthToken hmac (ae_rnd e) authToken else []);
                     cl = r1\<lparr>rc_connsClosed := rc_connsClosed r1 @ [dc_id c]\<rparr>
                 in if \<not> list_all (dc_write c) [0..<length auth] then (cl, Some (Errorf ''write auth token''))
                    else if \<not> list_all (dc_write c) [length auth..<length auth + length (WriteSessionID sessionID)]
                    then (cl, Some (Errorf ''write session id''))
                    else (r1\<lparr>rc_m := AddConn (ae_now e) (rc_m r1)\<rparr>, None))"

definition reconnectOne :: "(bytes \<Rightarrow> bytes \<Rightarrow> bytes) \<Rightarrow> bytes \<Rightarrow> bytes \<Rightarrow> attempt_env \<Rightarrow> reconn \<Rightarrow> reconn \<times> goerr option" where
  "reconnectOne hmac authToken sessionID e r =
     (case Allocate (ae_allocs e) (rc_mgr r) of
        (mgr1, Inl err) \<Rightarrow> (r\<lparr>rc_mgr := mgr1\<rparr>, Some (Wrapf ''allocate TURN'' err))
      | (mgr1, Inr allocs) \<Rightarrow>
          let myAddr = RelayAddr (hd allocs); r1 = r\<lparr>rc_mgr := mgr1\<rparr>
          in case ae_send e of
               Some err \<Rightarrow> (r1, Some (Wrapf ''send conn-new'' err))
             | None \<Rightarrow>
                 let r2 = r1\<lparr>rc_sent := rc_sent r1 @ [myAddr], rc_ack := ack_arrive (rc_ack r1) (ae_acks e)\<rparr>
                 in case rc_ack r2 of
                      [] \<Rightarrow> (r2, Some (ae_stop e))
                    | msg # rest \<Rightarrow>
                        let r3 = r2\<lparr>rc_ack := rest\<rparr>
                        in case ack_addr msg of
                             None \<Rightarrow> (r3, Some (Errorf ''decode ack payload''))
                           | Some serverAddr \<Rightarrow> reconnect_dtls hmac authToken sessionID e myAddr serverAddr r3)"

section \<open>The manager\<close>

definition rm_minActive :: "nat \<Rightarrow> nat" where
  "rm_minActive target = (let a = target div 2; b = (if a < 2 then 2 else a) in if b > target then target else b)"

definition rm_healthTimeout :: int where "rm_healthTimeout = 10 * 10 ^ 9"
definition normalMaxAttempts :: nat where "normalMaxAttempts = 5"
definition rm_maxBackoff :: int where "rm_maxBackoff = 30 * 10 ^ 9"

definition is_critical :: "nat \<Rightarrow> int \<Rightarrow> Mux \<Rightarrow> bool" where
  "is_critical target now m \<longleftrightarrow> ActiveConns m < int (rm_minActive target) \<or> \<not> IsHealthy now rm_healthTimeout m"

text \<open>What a tick or a wakeup decides.\<close>

datatype rm_action = RmFull | RmIdle | RmProbe bool | RmReconnect nat bool

definition rm_check :: "bool \<Rightarrow> int \<Rightarrow> nat \<Rightarrow> Mux \<Rightarrow> rm_action" where
  "rm_check alive now target m =
     (if \<not> alive then RmFull
      else if ActiveConns m \<ge> int target \<and> IsHealthy now rm_healthTimeout m then RmIdle
      else let needed = int target - ActiveConns m
           in if needed \<le> 0 then RmProbe (is_critical target now m) else RmReconnect (nat needed) (is_critical target now m))"

text \<open>After a probe and the wait for its effect.\<close>

definition rm_after_probe :: "nat \<Rightarrow> bool \<Rightarrow> Mux \<Rightarrow> rm_action" where
  "rm_after_probe target critical m =
     (let needed = int target - ActiveConns m in if needed \<le> 0 then RmIdle else RmReconnect (nat needed) critical)"

text \<open>How the attempts for one connection end.\<close>

datatype slot_end = SlotErr "goerr option" | SlotCtx | SlotSignalDead

definition end_reconnect :: "reconn \<Rightarrow> reconn" where
  "end_reconnect r = r\<lparr>rc_m := EndReconnect (rc_m r)\<rparr>"

text \<open>
  The attempts for one connection, with the waits between them and whether the state is critical at the end.  When no environment is left the
  context has ended during the last wait.
\<close>

fun reconnect_attempts ::
  "(bytes \<Rightarrow> bytes \<Rightarrow> bytes) \<Rightarrow> bytes \<Rightarrow> bytes \<Rightarrow> nat \<Rightarrow> nat \<Rightarrow> int \<Rightarrow> bool \<Rightarrow> attempt_env list \<Rightarrow> reconn
    \<Rightarrow> reconn \<times> bool \<times> int list \<times> slot_end" where
  "reconnect_attempts hmac tok sid target attempt backoff critical [] r = (end_reconnect r, critical, [], SlotCtx)"
| "reconnect_attempts hmac tok sid target attempt backoff critical (e # es) r =
     (if \<not> ae_alive e then (end_reconnect r, critical, [], SlotSignalDead)
      else case reconnectOne hmac tok sid e r of
             (r1, None) \<Rightarrow> (end_reconnect r1, critical, [], SlotErr None)
           | (r1, Some err) \<Rightarrow>
               if \<not> critical \<and> attempt \<ge> normalMaxAttempts then (end_reconnect r1, critical, [], SlotErr (Some err))
               else if ae_done e then (end_reconnect r1, critical, [backoff], SlotCtx)
               else let r2 = r1\<lparr>rc_m := ae_mux e (rc_m r1), rc_ack := ack_arrive (rc_ack r1) (ae_late e)\<rparr>;
                        backoff' = (if backoff * 2 > rm_maxBackoff then rm_maxBackoff else backoff * 2)
                    in case reconnect_attempts hmac tok sid target (attempt + 1) backoff' (is_critical target (ae_now e) (rc_m r2)) es r2 of
                         (r3, crit, waits, out) \<Rightarrow> (r3, crit, backoff # waits, out))"

text \<open>The loop over the connections that are missing; \<open>True\<close>: a reconnect of the whole session is asked for.\<close>

fun reconnect_needed ::
  "(bytes \<Rightarrow> bytes \<Rightarrow> bytes) \<Rightarrow> bytes \<Rightarrow> bytes \<Rightarrow> nat \<Rightarrow> bool \<Rightarrow> attempt_env list list \<Rightarrow> reconn \<Rightarrow> reconn \<times> bool" where
  "reconnect_needed hmac tok sid target critical [] r = (r, False)"
| "reconnect_needed hmac tok sid target critical (es # ess) r =
     (case reconnect_attempts hmac tok sid target 1 (10 ^ 9) critical es (r\<lparr>rc_m := BeginReconnect (rc_m r)\<rparr>) of
        (r1, crit, waits, SlotSignalDead) \<Rightarrow> (r1, True)
      | (r1, crit, waits, SlotCtx) \<Rightarrow> (r1, False)
      | (r1, crit, waits, SlotErr err) \<Rightarrow>
          if err \<noteq> None \<and> \<not> crit then (r1, False) else reconnect_needed hmac tok sid target crit ess r1)"

text \<open>
  One round of the loop of \<^verbatim>\<open>Run\<close>: \<open>probed\<close> is what others do to the multiplexer after a probe, and \<open>env k\<close> are the environments for \<open>k\<close>
  connections.
\<close>

definition rm_round ::
  "(bytes \<Rightarrow> bytes \<Rightarrow> bytes) \<Rightarrow> bytes \<Rightarrow> bytes \<Rightarrow> nat \<Rightarrow> bool \<Rightarrow> int \<Rightarrow> write_oracle \<Rightarrow> (Mux \<Rightarrow> Mux) \<Rightarrow> (nat \<Rightarrow> attempt_env list list) \<Rightarrow> reconn
    \<Rightarrow> reconn \<times> bool" where
  "rm_round hmac tok sid target alive now wok probed env r =
     (case rm_check alive now target (rc_m r) of
        RmFull \<Rightarrow> (r, True)
      | RmIdle \<Rightarrow> (r, False)
      | RmReconnect k critical \<Rightarrow> reconnect_needed hmac tok sid target critical (take k (env k)) r
      | RmProbe critical \<Rightarrow>
          let r1 = r\<lparr>rc_m := probed (ProbeConnections wok (rc_m r))\<rparr>
          in case rm_after_probe target critical (rc_m r1) of
               RmReconnect k crit \<Rightarrow> reconnect_needed hmac tok sid target crit (take k (env k)) r1
             | _ \<Rightarrow> (r1, False))"

text \<open>The goroutine that drains the deaths of connections.\<close>

definition rm_conn_died :: "write_oracle \<Rightarrow> int \<Rightarrow> int \<Rightarrow> reconn \<Rightarrow> reconn" where
  "rm_conn_died wok now idx r = r\<lparr>rc_m := RemoveConn wok now idx (rc_m r)\<rparr>"

section \<open>The server's answer\<close>

record reconn_server =
  rv_mgr :: Manager
  rv_m :: Mux
  rv_answers :: "string list"
  rv_pairs :: "(string \<times> string) list"
  rv_connsClosed :: "nat list"

definition handleOneReconnect ::
  "(bytes \<Rightarrow> bytes \<Rightarrow> bytes) \<Rightarrow> bytes \<Rightarrow> attempt_env \<Rightarrow> string \<Rightarrow> reconn_server \<Rightarrow> reconn_server \<times> goerr option" where
  "handleOneReconnect hmac authToken e clientAddr r =
     (case ae_resolve e clientAddr of
        Some err \<Rightarrow> (r, Some (Wrapf ''resolve client addr'' err))
      | None \<Rightarrow>
          (case Allocate (ae_allocs e) (rv_mgr r) of
             (mgr1, Inl err) \<Rightarrow> (r\<lparr>rv_mgr := mgr1\<rparr>, Some (Wrapf ''allocate TURN'' err))
           | (mgr1, Inr allocs) \<Rightarrow>
               let myAddr = RelayAddr (hd allocs); r1 = r\<lparr>rv_mgr := mgr1\<rparr>
               in case ae_send e of
                    Some err \<Rightarrow> (r1, Some (Wrapf ''send conn-ok'' err))
                  | None \<Rightarrow>
                      let r2 = r1\<lparr>rv_answers := rv_answers r1 @ [myAddr], rv_pairs := rv_pairs r1 @ [(myAddr, clientAddr)]\<rparr>
                      in case ae_dial e of
                           Inl err \<Rightarrow> (r2, Some (Wrapf ''AcceptOverTURN'' err))
                         | Inr c \<Rightarrow>
                             (case server_preamble hmac authToken (dc_in c) of
                                Inl err \<Rightarrow> (r2\<lparr>rv_connsClosed := rv_connsClosed r2 @ [dc_id c]\<rparr>, Some (Errorf ''auth or session id''))
                              | Inr _ \<Rightarrow> (r2\<lparr>rv_m := AddConn (ae_now e) (rv_m r2)\<rparr>, None))))"

text \<open>\<open>handleReconnections\<close>: a message of its subscription starts a handler, unless its payload cannot be decoded.\<close>

definition handle_conn_new ::
  "(bytes \<Rightarrow> bytes \<Rightarrow> bytes) \<Rightarrow> bytes \<Rightarrow> attempt_env \<Rightarrow> SignalMessage \<Rightarrow> reconn_server \<Rightarrow> reconn_server" where
  "handle_conn_new hmac authToken e msg r =
     (case ack_addr msg of None \<Rightarrow> r | Some clientAddr \<Rightarrow> fst (handleOneReconnect hmac authToken e clientAddr r))"

section \<open>Replacing a session\<close>

text \<open>
  The goroutines of \<^verbatim>\<open>RunRelayToRelay\<close>.  Sessions are numbers; \<open>fr_signal\<close> tells whether the channel \<^verbatim>\<open>fullReconnect\<close>, of capacity one,
  holds a signal, \<open>fr_managers\<close> and \<open>fr_monitors\<close> the sessions whose reconnect manager and hang-up monitor run.
\<close>

datatype fr_phase = FrWaiting | FrConnecting int

record full_reconnect =
  fr_signal :: bool
  fr_managers :: "nat list"
  fr_monitors :: "nat list"
  fr_alive :: "nat \<Rightarrow> bool"
  fr_cur :: nat
  fr_phase :: fr_phase
  fr_next :: nat

definition fr_init :: full_reconnect where
  "fr_init = \<lparr>fr_signal = False, fr_managers = [0], fr_monitors = [0], fr_alive = (\<lambda>k. k = 0), fr_cur = 0, fr_phase = FrWaiting, fr_next = 1\<rparr>"

definition fr_maxBackoff :: int where "fr_maxBackoff = 60 * 10 ^ 9"

text \<open>A manager that finds its signaling client dead asks for a reconnect and ends.\<close>

definition fr_manager_dead :: "nat \<Rightarrow> full_reconnect \<Rightarrow> full_reconnect" where
  "fr_manager_dead k f = f\<lparr>fr_signal := True, fr_managers := remove1 k (fr_managers f)\<rparr>"

text \<open>A monitor whose wait ends with a hang-up asks for a reconnect; otherwise it just ends.\<close>

definition fr_monitor_end :: "SessionEndReason \<Rightarrow> nat \<Rightarrow> full_reconnect \<Rightarrow> full_reconnect" where
  "fr_monitor_end reason k f =
     f\<lparr>fr_signal := fr_signal f \<or> reason = SessionEndHungup, fr_monitors := remove1 k (fr_monitors f)\<rparr>"

text \<open>The loop takes a signal and closes the signaling client of the current session.\<close>

definition fr_take :: "full_reconnect \<Rightarrow> full_reconnect" where
  "fr_take f = f\<lparr>fr_signal := False, fr_alive := (fr_alive f)(fr_cur f := False), fr_phase := FrConnecting (10 ^ 9)\<rparr>"

definition fr_failed :: "int \<Rightarrow> full_reconnect \<Rightarrow> full_reconnect" where
  "fr_failed backoff f = f\<lparr>fr_phase := FrConnecting (if backoff * 2 > fr_maxBackoff then fr_maxBackoff else backoff * 2)\<rparr>"

text \<open>The new session takes the place of the old one, and gets a manager and a monitor.\<close>

definition fr_connected :: "full_reconnect \<Rightarrow> full_reconnect" where
  "fr_connected f =
     (let k = fr_next f
      in f\<lparr>fr_cur := k, fr_next := k + 1, fr_alive := (fr_alive f)(k := True), fr_managers := k # fr_managers f,
           fr_monitors := k # fr_monitors f, fr_phase := FrWaiting\<rparr>)"

end
