(* ===== verification/Speedtest.thy ===== *)
theory Speedtest
  imports Mux_Transfer Mux_Invariant
begin

text \<open>
  The speed test (\<^verbatim>\<open>internal/speedtest/protocol.go\<close> and \<^verbatim>\<open>speedtest.go\<close>): a protocol of commands with five-byte headers on reserved streams
  of the multiplexer.  The stream read from is the stream of \<^verbatim>\<open>Mux_Stream\<close>; what a write to it returns is an oracle indexed by the number of the write
  (the number of bytes written and whether there was no error), and the readings of the clock come from a list.  A run whose stream
  holds no further bytes or whose clock list is used up has got no further: it \<^emph>\<open>blocks\<close>.  The floating-point statistics of the client (rates, mean and
  deviation of the round trips) and the progress reports, which every caller switches off, are left out.
\<close>

section \<open>Protocol\<close>

definition StreamIDBase :: u32 where "StreamIDBase = 0xFFFF0000"

definition IsSpeedTestStream :: "u32 \<Rightarrow> bool" where
  "IsSpeedTestStream i \<longleftrightarrow> i \<ge> StreamIDBase"

definition CmdDownload :: byte where "CmdDownload = 1"
definition CmdUpload :: byte where "CmdUpload = 2"
definition CmdPing :: byte where "CmdPing = 3"
definition CmdResult :: byte where "CmdResult = 4"
definition CmdData :: byte where "CmdData = 5"
definition CmdDone :: byte where "CmdDone = 6"

definition HeaderSize :: nat where "HeaderSize = 5"

text \<open>One side of a stream: what it reads, what it has written, and the clock readings to come.\<close>

type_synonym speed_writes = "nat \<Rightarrow> bytes \<Rightarrow> nat \<times> bool"

record speed =
  sp_in :: Stream
  sp_out :: "bytes list"
  sp_clock :: "int list"

definition header_bytes :: "byte \<Rightarrow> u32 \<Rightarrow> bytes" where
  "header_bytes cmd len = cmd # PutUint32 len"

definition sp_write :: "speed_writes \<Rightarrow> bytes \<Rightarrow> speed \<Rightarrow> speed \<times> nat \<times> bool" where
  "sp_write wr d s = (case wr (length (sp_out s)) d of (n, ok) \<Rightarrow> (s\<lparr>sp_out := sp_out s @ [take n d]\<rparr>, n, ok))"

definition writeHeader :: "speed_writes \<Rightarrow> byte \<Rightarrow> u32 \<Rightarrow> speed \<Rightarrow> speed \<times> bool" where
  "writeHeader wr cmd len s = (case sp_write wr (header_bytes cmd len) s of (s1, n, ok) \<Rightarrow> (s1, ok))"

text \<open>\<^verbatim>\<open>io.ReadFull\<close> on a stream: reads until the buffer is full; None where the stream ends before.\<close>

definition stream_size :: "Stream \<Rightarrow> nat" where
  "stream_size s = length (leftover s) + sum_list (map (\<lambda>d. Suc (length d)) (recv s))"

lemma Stream_Read_size:
  "Stream_Read n s = Ret s' (Some b) \<Longrightarrow> 0 < n \<Longrightarrow> stream_size s' < stream_size s \<and> stream_size s' + length b \<le> stream_size s"
  by (auto simp: Stream_Read_def stream_size_def split: if_splits list.splits)

function stream_ReadFull :: "nat \<Rightarrow> bytes \<Rightarrow> Stream \<Rightarrow> (Stream, bytes option) outcome" where
  "stream_ReadFull n acc s =
     (if n = 0 then Ret s (Some acc)
      else case Stream_Read n s of
             Ret s' (Some b) \<Rightarrow> stream_ReadFull (n - length b) (acc @ b) s'
           | Ret s' None \<Rightarrow> Ret s' None
           | Blocks s' \<Rightarrow> Blocks s'
           | Panics e \<Rightarrow> Panics e)"
  by pat_completeness auto
termination
  by (relation "measure (\<lambda>(n, acc, s). stream_size s)") (auto dest: Stream_Read_size)

declare stream_ReadFull.simps [simp del]

definition sp_ReadFull :: "nat \<Rightarrow> speed \<Rightarrow> (speed, bytes option) outcome" where
  "sp_ReadFull n s =
     (case stream_ReadFull n [] (sp_in s) of
        Ret x r \<Rightarrow> Ret (s\<lparr>sp_in := x\<rparr>) r
      | Blocks x \<Rightarrow> Blocks (s\<lparr>sp_in := x\<rparr>)
      | Panics e \<Rightarrow> Panics e)"

definition readHeader :: "speed \<Rightarrow> (speed, (byte \<times> u32) option) outcome" where
  "readHeader s =
     (case sp_ReadFull HeaderSize s of
        Ret s1 (Some b) \<Rightarrow> Ret s1 (Some (b ! 0, Uint32 (drop 1 b)))
      | Ret s1 None \<Rightarrow> Ret s1 None
      | Blocks s1 \<Rightarrow> Blocks s1
      | Panics e \<Rightarrow> Panics e)"

text \<open>
  The inner loop of both directions: the payload of a data command is read through a buffer of \<open>room\<close> bytes and counted.  The number of
  bytes counted, and whether the stream went on to the end of the payload.
\<close>

function read_payload :: "nat \<Rightarrow> nat \<Rightarrow> nat \<Rightarrow> Stream \<Rightarrow> (Stream, nat \<times> bool) outcome" where
  "read_payload room remaining tot s =
     (if remaining = 0 then Ret s (tot, True)
      else if room = 0 then Blocks s
      else case Stream_Read (min remaining room) s of
             Ret s' (Some b) \<Rightarrow> read_payload room (remaining - length b) (tot + length b) s'
           | Ret s' None \<Rightarrow> Ret s' (tot, False)
           | Blocks s' \<Rightarrow> Blocks s'
           | Panics e \<Rightarrow> Panics e)"
  by pat_completeness auto
termination
  by (relation "measure (\<lambda>(room, r, tot, s). stream_size s)") (auto dest: Stream_Read_size)

declare read_payload.simps [simp del]

section \<open>What reading does\<close>

text \<open>The reads depend only on the bytes to come and on whether the stream has ended.\<close>

lemma Stream_Read_cases:
  assumes "0 < n"
  obtains s' b where "Stream_Read n s = Ret s' (Some b)" "length b \<le> n" "unread s = b @ unread s'" "recvClosed s' = recvClosed s"
  | "Stream_Read n s = Ret s None" "unread s = []" "recvClosed s"
  | "Stream_Read n s = Blocks s" "unread s = []" "\<not> recvClosed s"
proof (cases "leftover s \<noteq> [] \<or> recv s \<noteq> []")
  case True
  then obtain s' b where *: "Stream_Read n s = Ret s' (Some b)" "length b \<le> n" "recvClosed s' = recvClosed s"
    by (cases "leftover s = []"; cases "recv s") (auto simp: Stream_Read_def intro: that)
  with Stream_Read_unread [OF *(1)] that(1) show ?thesis by blast
next
  case False
  then show ?thesis using that(2,3) by (cases "recvClosed s") (auto simp: Stream_Read_def unread_def)
qed

lemma stream_ReadFull_enough:
  assumes "n \<le> length (unread s)"
  shows "\<exists>s'. stream_ReadFull n acc s = Ret s' (Some (acc @ take n (unread s))) \<and> unread s' = drop n (unread s) \<and>
    recvClosed s' = recvClosed s \<and> stream_size s' + n \<le> stream_size s"
  using assms
proof (induction n acc s rule: stream_ReadFull.induct)
  case (1 n acc s)
  show ?case
  proof (cases "n = 0")
    case False
    then have n: "0 < n" by simp
    have "unread s \<noteq> []" using False 1(2) by auto
    then obtain s1 b where r: "Stream_Read n s = Ret s1 (Some b)" "length b \<le> n" "unread s = b @ unread s1" "recvClosed s1 = recvClosed s"
      using Stream_Read_cases [OF n, of s] by metis
    have "n - length b \<le> length (unread s1)" using 1(2) r(3) by simp
    then obtain s' where s': "stream_ReadFull (n - length b) (acc @ b) s1 = Ret s' (Some ((acc @ b) @ take (n - length b) (unread s1)))"
      "unread s' = drop (n - length b) (unread s1)" "recvClosed s' = recvClosed s1" "stream_size s' + (n - length b) \<le> stream_size s1"
      using 1(1) [OF False r(1) refl] by blast
    have "stream_size s' + n \<le> stream_size s" using s'(4) Stream_Read_size [OF r(1) n] r(2) by linarith
    moreover have "stream_ReadFull n acc s = Ret s' (Some (acc @ take n (unread s)))"
      using False r s'(1) by (subst stream_ReadFull.simps) simp
    moreover have "unread s' = drop n (unread s)" using s'(2) r(2,3) by simp
    ultimately show ?thesis using s'(3) r(4) by metis
  qed (simp add: stream_ReadFull.simps)
qed

lemma stream_ReadFull_short:
  assumes "length (unread s) < n"
  shows "\<exists>s'. stream_ReadFull n acc s = (if recvClosed s then Ret s' None else Blocks s') \<and> unread s' = [] \<and>
    recvClosed s' = recvClosed s \<and> stream_size s' \<le> stream_size s"
  using assms
proof (induction n acc s rule: stream_ReadFull.induct)
  case (1 n acc s)
  then have n: "0 < n" by simp
  from n show ?case
  proof (cases rule: Stream_Read_cases [of n s])
    case (1 s1 b)
    have "length (unread s1) < n - length b" using "1.prems" 1(3) by simp
    then obtain s' where s': "stream_ReadFull (n - length b) (acc @ b) s1 = (if recvClosed s1 then Ret s' None else Blocks s')"
      "unread s' = []" "recvClosed s' = recvClosed s1" "stream_size s' \<le> stream_size s1"
      using "1.IH" n 1(1) by blast
    then have "stream_ReadFull n acc s = (if recvClosed s then Ret s' None else Blocks s')"
      using n 1 by (subst stream_ReadFull.simps) simp
    then show ?thesis using s' 1(4) Stream_Read_size [OF 1(1) n] by (intro exI [of _ s']) auto
  next
    case 2
    then show ?thesis using n by (subst stream_ReadFull.simps) auto
  next
    case 3
    then show ?thesis using n by (subst stream_ReadFull.simps) auto
  qed
qed

lemma read_payload_enough:
  assumes "0 < room" "n \<le> length (unread s)"
  shows "\<exists>s'. read_payload room n tot s = Ret s' (tot + n, True) \<and> unread s' = drop n (unread s) \<and>
    recvClosed s' = recvClosed s \<and> stream_size s' + n \<le> stream_size s"
  using assms
proof (induction room n tot s rule: read_payload.induct)
  case (1 room n tot s)
  show ?case
  proof (cases "n = 0")
    case False
    then have n: "0 < min n room" and room: "room \<noteq> 0" using 1(2) by simp_all
    have "unread s \<noteq> []" using False 1(3) by auto
    then obtain s1 b where r: "Stream_Read (min n room) s = Ret s1 (Some b)" "length b \<le> min n room" "unread s = b @ unread s1" "recvClosed s1 = recvClosed s"
      using Stream_Read_cases [OF n, of s] by metis
    have "n - length b \<le> length (unread s1)" using 1(3) r(3) by simp
    then obtain s' where s': "read_payload room (n - length b) (tot + length b) s1 = Ret s' (tot + length b + (n - length b), True)"
      "unread s' = drop (n - length b) (unread s1)" "recvClosed s' = recvClosed s1" "stream_size s' + (n - length b) \<le> stream_size s1"
      using 1(1) [OF False room r(1) refl 1(2)] by blast
    have "stream_size s' + n \<le> stream_size s" using s'(4) Stream_Read_size [OF r(1) n] r(2) by linarith
    moreover have "read_payload room n tot s = Ret s' (tot + n, True)"
      using False r s'(1) room by (subst read_payload.simps) simp
    moreover have "unread s' = drop n (unread s)" using s'(2) r(2,3) by simp
    ultimately show ?thesis using s'(3) r(4) by metis
  qed (simp add: read_payload.simps)
qed

lemma read_payload_short:
  assumes "0 < room" "length (unread s) < n"
  shows "\<exists>s'. read_payload room n tot s = (if recvClosed s then Ret s' (tot + length (unread s), False) else Blocks s') \<and> unread s' = [] \<and>
    recvClosed s' = recvClosed s \<and> stream_size s' \<le> stream_size s"
  using assms
proof (induction room n tot s rule: read_payload.induct)
  case (1 room n tot s)
  then have n: "0 < min n room" "n \<noteq> 0" "room \<noteq> 0" by simp_all
  from n(1) show ?case
  proof (cases rule: Stream_Read_cases [of "min n room" s])
    case (1 s1 b)
    have "length (unread s1) < n - length b" using "1.prems"(2) 1(3) by simp
    then obtain s' where s': "read_payload room (n - length b) (tot + length b) s1 =
        (if recvClosed s1 then Ret s' (tot + length b + length (unread s1), False) else Blocks s')"
      "unread s' = []" "recvClosed s' = recvClosed s1" "stream_size s' \<le> stream_size s1"
      using "1.IH" [OF n(2,3) 1(1) refl "1.prems"(1)] by blast
    then have "read_payload room n tot s = (if recvClosed s then Ret s' (tot + length (unread s), False) else Blocks s')"
      using n 1 by (subst read_payload.simps) simp
    then show ?thesis using s' 1(4) Stream_Read_size [OF 1(1) n(1)] by (intro exI [of _ s']) auto
  next
    case 2
    then show ?thesis using n by (subst read_payload.simps) auto
  next
    case 3
    then show ?thesis using n by (subst read_payload.simps) auto
  qed
qed

lemma sp_ReadFull_bytes:
  assumes "unread (sp_in s) = a @ r" "length a = n"
  shows "\<exists>x. sp_ReadFull n s = Ret (s\<lparr>sp_in := x\<rparr>) (Some a) \<and> unread x = r \<and> recvClosed x = recvClosed (sp_in s) \<and>
    stream_size x + n \<le> stream_size (sp_in s)"
proof -
  have "n \<le> length (unread (sp_in s))" using assms by simp
  from stream_ReadFull_enough [OF this, of "[]"] show ?thesis
    using assms by (auto simp: sp_ReadFull_def)
qed

lemma readHeader_bytes:
  assumes "unread (sp_in s) = header_bytes cmd len @ r"
  shows "\<exists>x. readHeader s = Ret (s\<lparr>sp_in := x\<rparr>) (Some (cmd, len)) \<and> unread x = r \<and> recvClosed x = recvClosed (sp_in s) \<and>
    stream_size x + HeaderSize \<le> stream_size (sp_in s)"
proof -
  have "length (header_bytes cmd len) = HeaderSize" by (simp add: header_bytes_def HeaderSize_def)
  from sp_ReadFull_bytes [OF assms this] show ?thesis by (auto simp: readHeader_def header_bytes_def)
qed


lemma stream_ReadFull_size:
  assumes "stream_ReadFull n acc s = Ret s' r"
  shows "stream_size s' \<le> stream_size s" "r = Some b \<Longrightarrow> stream_size s' + n \<le> stream_size s"
proof -
  have "stream_size s' \<le> stream_size s \<and> (r = Some b \<longrightarrow> stream_size s' + n \<le> stream_size s)"
  proof (cases "n \<le> length (unread s)")
    case True
    from stream_ReadFull_enough [OF this, of acc] show ?thesis using assms by auto
  next
    case False
    then have "length (unread s) < n" by simp
    from stream_ReadFull_short [OF this, of acc] show ?thesis using assms by (auto split: if_splits)
  qed
  then show "stream_size s' \<le> stream_size s" "r = Some b \<Longrightarrow> stream_size s' + n \<le> stream_size s" by simp_all
qed

lemma read_payload_size: "read_payload room n tot s = Ret s' r \<Longrightarrow> stream_size s' \<le> stream_size s"
proof -
  assume r: "read_payload room n tot s = Ret s' r"
  consider "n = 0" | "n \<noteq> 0" "room = 0" | "0 < room" "n \<le> length (unread s)" | "0 < room" "length (unread s) < n" by linarith
  then show ?thesis
  proof cases
    case 3
    from read_payload_enough [OF this, of tot] show ?thesis using r by auto
  next
    case 4
    from read_payload_short [OF this, of tot] show ?thesis using r by (auto split: if_splits)
  qed (use r in \<open>simp_all add: read_payload.simps\<close>)
qed

lemma sp_ReadFull_size:
  assumes "sp_ReadFull n s = Ret s' r"
  shows "stream_size (sp_in s') \<le> stream_size (sp_in s)" "r = Some b \<Longrightarrow> stream_size (sp_in s') + n \<le> stream_size (sp_in s)"
  using assms stream_ReadFull_size [of n "[]" "sp_in s"] by (auto simp: sp_ReadFull_def split: outcome.splits)

lemma readHeader_size:
  assumes "readHeader s = Ret s' r"
  shows "stream_size (sp_in s') \<le> stream_size (sp_in s)" "r = Some cl \<Longrightarrow> stream_size (sp_in s') < stream_size (sp_in s)"
proof -
  show "stream_size (sp_in s') \<le> stream_size (sp_in s)"
    using assms sp_ReadFull_size(1) [of HeaderSize s] by (auto simp: readHeader_def split: outcome.splits option.splits)
  assume "r = Some cl"
  then obtain b where "sp_ReadFull HeaderSize s = Ret s' (Some b)"
    using assms by (auto simp: readHeader_def split: outcome.splits option.splits)
  from sp_ReadFull_size(2) [OF this refl] show "stream_size (sp_in s') < stream_size (sp_in s)" by (simp add: HeaderSize_def)
qed

lemma sp_write_in [simp]: "sp_in (fst (sp_write wr d s)) = sp_in s" "sp_clock (fst (sp_write wr d s)) = sp_clock s"
  by (simp_all add: sp_write_def split: prod.split)

lemma writeHeader_in [simp]: "sp_in (fst (writeHeader wr c l s)) = sp_in s" "sp_clock (fst (writeHeader wr c l s)) = sp_clock s"
  using sp_write_in [of wr "header_bytes c l" s] by (cases "sp_write wr (header_bytes c l) s"; simp add: writeHeader_def)+

lemma writeHeader_inD: "writeHeader wr c l s = (s1, ok) \<Longrightarrow> sp_in s1 = sp_in s"
  using writeHeader_in(1) [of wr c l s] by simp

section \<open>The server's side\<close>

text \<open>\<^verbatim>\<open>handlePing\<close> echoes the bytes of the request.\<close>

definition handlePing :: "speed_writes \<Rightarrow> u32 \<Rightarrow> speed \<Rightarrow> (speed, unit) outcome" where
  "handlePing wr len s =
     (case sp_ReadFull (unat len) s of
        Ret s1 None \<Rightarrow> Ret s1 ()
      | Ret s1 (Some b) \<Rightarrow>
          (case writeHeader wr CmdPing (of_nat (length b)) s1 of (s2, ok) \<Rightarrow>
             if ok then Ret (fst (sp_write wr b s2)) () else Ret s2 ())
      | Blocks s1 \<Rightarrow> Blocks s1
      | Panics e \<Rightarrow> Panics e)"

text \<open>
  The loop of \<^verbatim>\<open>handleDownload\<close>, over the readings of the clock: data commands with the whole payload until the deadline, then the end
  command.  The value is \<^verbatim>\<open>totalBytes\<close> and whether the loop was left at the deadline.
\<close>

fun download_writes :: "speed_writes \<Rightarrow> bytes \<Rightarrow> int \<Rightarrow> int list \<Rightarrow> nat \<Rightarrow> speed \<Rightarrow> (speed, nat \<times> bool) outcome" where
  "download_writes wr payload deadline [] tot s = Blocks (s\<lparr>sp_clock := []\<rparr>)"
| "download_writes wr payload deadline (t # ts) tot s =
     (if t < deadline then
        (case writeHeader wr CmdData (of_nat (length payload)) s of (s1, ok) \<Rightarrow>
           if \<not> ok then Ret (s1\<lparr>sp_clock := ts\<rparr>) (tot, False)
           else case sp_write wr payload s1 of (s2, n, ok2) \<Rightarrow>
                  if ok2 then download_writes wr payload deadline ts (tot + n) s2
                  else Ret (s2\<lparr>sp_clock := ts\<rparr>) (tot + n, False))
      else Ret (s\<lparr>sp_clock := ts\<rparr>) (tot, True))"

definition sp_seconds :: "int \<Rightarrow> int" where
  "sp_seconds n = n * 10 ^ 9"

definition handleDownload :: "speed_writes \<Rightarrow> bytes \<Rightarrow> speed \<Rightarrow> (speed, nat) outcome" where
  "handleDownload wr payload s =
     (case sp_clock s of
        [] \<Rightarrow> Blocks s
      | t # ts \<Rightarrow>
          (case download_writes wr payload (t + sp_seconds 10) ts 0 s of
             Ret s1 (tot, True) \<Rightarrow> Ret (fst (writeHeader wr CmdDone 0 s1)) tot
           | Ret s1 (tot, False) \<Rightarrow> Ret s1 tot
           | Blocks s1 \<Rightarrow> Blocks s1
           | Panics e \<Rightarrow> Panics e))"

text \<open>
  The loop of \<^verbatim>\<open>handleUpload\<close>: \<^verbatim>\<open>totalBytes\<close>, and whether the loop was left by \<^verbatim>\<open>break\<close>, so that a result is sent.
\<close>

lemma upload_read_size:
  "readHeader s = Ret s1 (Some cl) \<Longrightarrow> read_payload room n tot (sp_in s1) = Ret x r \<Longrightarrow> stream_size x < stream_size (sp_in s)"
  using readHeader_size(2) [of s s1 "Some cl" cl] read_payload_size [of room n tot "sp_in s1" x r] by simp

function upload_reads :: "nat \<Rightarrow> nat \<Rightarrow> speed \<Rightarrow> (speed, nat \<times> bool) outcome" where
  "upload_reads room tot s =
     (case readHeader s of
        Ret s1 None \<Rightarrow> Ret s1 (tot, True)
      | Ret s1 (Some (cmd, len)) \<Rightarrow>
          if cmd = CmdDone then Ret s1 (tot, True)
          else if cmd \<noteq> CmdData then Ret s1 (tot, True)
          else (case read_payload room (unat len) tot (sp_in s1) of
                  Ret x (tot1, True) \<Rightarrow> upload_reads room tot1 (s1\<lparr>sp_in := x\<rparr>)
                | Ret x (tot1, False) \<Rightarrow> Ret (s1\<lparr>sp_in := x\<rparr>) (tot1, False)
                | Blocks x \<Rightarrow> Blocks (s1\<lparr>sp_in := x\<rparr>)
                | Panics e \<Rightarrow> Panics e)
      | Blocks s1 \<Rightarrow> Blocks s1
      | Panics e \<Rightarrow> Panics e)"
  by pat_completeness auto
termination
  by (relation "measure (\<lambda>(room, tot, s). stream_size (sp_in s))") (auto dest: upload_read_size)

declare upload_reads.simps [simp del]

text \<open>The result carries both numbers in 32 bits; \<open>start\<close> and the reading at the end give the duration.\<close>

definition upload_result :: "nat \<Rightarrow> int \<Rightarrow> bytes" where
  "upload_result tot dur = PutUint32 (of_nat tot) @ PutUint32 (word_of_int (quot64 dur (10 ^ 6)))"

definition handleUpload :: "nat \<Rightarrow> speed_writes \<Rightarrow> speed \<Rightarrow> (speed, nat) outcome" where
  "handleUpload room wr s =
     (case sp_clock s of
        [] \<Rightarrow> Blocks s
      | start # ts \<Rightarrow>
          (case upload_reads room 0 (s\<lparr>sp_clock := ts\<rparr>) of
             Ret s1 (tot, False) \<Rightarrow> Ret s1 tot
           | Ret s1 (tot, True) \<Rightarrow>
               (case sp_clock s1 of
                  [] \<Rightarrow> Blocks s1
                | t # ts1 \<Rightarrow>
                    (case writeHeader wr CmdResult 8 (s1\<lparr>sp_clock := ts1\<rparr>) of (s2, ok) \<Rightarrow>
                       if ok then Ret (fst (sp_write wr (upload_result tot (i64 (t - start))) s2)) tot else Ret s2 tot))
           | Blocks s1 \<Rightarrow> Blocks s1
           | Panics e \<Rightarrow> Panics e))"

lemma handlePing_size: "handlePing wr len s = Ret s' r \<Longrightarrow> stream_size (sp_in s') \<le> stream_size (sp_in s)"
proof -
  assume h: "handlePing wr len s = Ret s' r"
  then obtain s1 b where s1: "sp_ReadFull (unat len) s = Ret s1 b"
    by (auto simp: handlePing_def split: outcome.splits option.splits)
  have "sp_in s' = sp_in s1"
    using h s1 by (cases b) (auto simp: handlePing_def split: prod.splits if_splits dest!: writeHeader_inD)
  then show ?thesis using sp_ReadFull_size(1) [OF s1] by simp
qed

lemma download_writes_in: "download_writes wr payload d ts tot s = Ret s' r \<Longrightarrow> sp_in s' = sp_in s"
proof (induction ts arbitrary: tot s)
  case (Cons t ts)
  obtain s1 ok where w1: "writeHeader wr CmdData (of_nat (length payload)) s = (s1, ok)" by fastforce
  obtain s2 n ok2 where w2: "sp_write wr payload s1 = (s2, n, ok2)" using prod_cases3 by blast
  have "sp_in s1 = sp_in s" "sp_in s2 = sp_in s1"
    using writeHeader_in(1) [of wr CmdData "of_nat (length payload)" s] sp_write_in(1) [of wr payload s1] w1 w2 by simp_all
  then show ?case using Cons w1 w2 by (auto split: if_splits)
qed simp

lemma handleDownload_in: "handleDownload wr payload s = Ret s' r \<Longrightarrow> sp_in s' = sp_in s"
  by (auto simp: handleDownload_def split: list.splits outcome.splits bool.splits dest!: download_writes_in)

lemma upload_reads_size: "upload_reads room tot s = Ret s' r \<Longrightarrow> stream_size (sp_in s') \<le> stream_size (sp_in s)"
proof (induction room tot s rule: upload_reads.induct)
  case (1 room tot s)
  obtain s1 q where q: "readHeader s = Ret s1 q" using 1(2) by (subst (asm) upload_reads.simps) (auto split: outcome.splits)
  show ?case
  proof (cases "\<exists>len. q = Some (CmdData, len)")
    case True
    then obtain len where len: "q = Some (CmdData, len)" by blast
    then obtain x tot1 go where x: "read_payload room (unat len) tot (sp_in s1) = Ret x (tot1, go)"
      using 1(2) q by (subst (asm) upload_reads.simps) (auto simp: CmdData_def CmdDone_def split: outcome.splits)
    have le: "stream_size x \<le> stream_size (sp_in s)" using upload_read_size [OF q [unfolded len] x] by simp
    show ?thesis
    proof (cases go)
      case True
      then have "upload_reads room tot1 (s1\<lparr>sp_in := x\<rparr>) = Ret s' r"
        using 1(2) q len x by (subst (asm) upload_reads.simps) (simp add: CmdData_def CmdDone_def)
      then have "stream_size (sp_in s') \<le> stream_size x"
        using 1(1) [of s1 q _ CmdData len x "(tot1, go)" tot1 go] q len x True by (simp add: CmdData_def CmdDone_def)
      then show ?thesis using le by simp
    next
      case False
      then have "s' = s1\<lparr>sp_in := x\<rparr>" using 1(2) q len x by (subst (asm) upload_reads.simps) (simp add: CmdData_def CmdDone_def)
      then show ?thesis using le by simp
    qed
  next
    case False
    then have "s' = s1" using 1(2) q by (subst (asm) upload_reads.simps) (auto split: option.splits if_splits)
    then show ?thesis using readHeader_size(1) [OF q] by simp
  qed
qed

lemma handleUpload_size: "handleUpload room wr s = Ret s' r \<Longrightarrow> stream_size (sp_in s') \<le> stream_size (sp_in s)"
proof -
  assume h: "handleUpload room wr s = Ret s' r"
  then obtain t ts where t: "sp_clock s = t # ts" by (auto simp: handleUpload_def split: list.splits)
  obtain s1 tot go where u: "upload_reads room 0 (s\<lparr>sp_clock := ts\<rparr>) = Ret s1 (tot, go)"
    using h t by (auto simp: handleUpload_def split: outcome.splits)
  have "sp_in s' = sp_in s1"
  proof (cases go)
    case True
    then obtain t1 ts1 where t1: "sp_clock s1 = t1 # ts1" using h t u by (auto simp: handleUpload_def split: list.splits)
    obtain s2 ok where w: "writeHeader wr CmdResult 8 (s1\<lparr>sp_clock := ts1\<rparr>) = (s2, ok)" by fastforce
    have "sp_in s2 = sp_in s1" using writeHeader_in(1) [of wr CmdResult 8 "s1\<lparr>sp_clock := ts1\<rparr>"] w by simp
    then show ?thesis using h t u True t1 w by (auto simp: handleUpload_def split: if_splits)
  next
    case False
    then show ?thesis using h t u by (simp add: handleUpload_def)
  qed
  then show ?thesis using upload_reads_size [OF u] by simp
qed

text \<open>\<^verbatim>\<open>HandleServer\<close>: every round reads a header first, so the loop ends with the bytes of the stream.\<close>

definition speed_payload :: "nat \<Rightarrow> bytes" where
  "speed_payload room = map (\<lambda>i. of_nat (i mod 256)) [0..<room]"

definition speed_room :: "int option \<Rightarrow> nat" where
  "speed_room env = nat (MaxFramePayload env)"

definition handle_command :: "int option \<Rightarrow> speed_writes \<Rightarrow> byte \<Rightarrow> u32 \<Rightarrow> speed \<Rightarrow> (speed, bool) outcome" where
  "handle_command env wr cmd len s =
     (if cmd = CmdPing then
        (case handlePing wr len s of Ret s1 _ \<Rightarrow> Ret s1 True | Blocks s1 \<Rightarrow> Blocks s1 | Panics e \<Rightarrow> Panics e)
      else if cmd = CmdDownload then
        (case handleDownload wr (speed_payload (speed_room env)) s of Ret s1 _ \<Rightarrow> Ret s1 True | Blocks s1 \<Rightarrow> Blocks s1 | Panics e \<Rightarrow> Panics e)
      else if cmd = CmdUpload then
        (case handleUpload (speed_room env) wr s of Ret s1 _ \<Rightarrow> Ret s1 True | Blocks s1 \<Rightarrow> Blocks s1 | Panics e \<Rightarrow> Panics e)
      else Ret s False)"

lemma handle_command_size: "handle_command env wr cmd len s = Ret s' go \<Longrightarrow> stream_size (sp_in s') \<le> stream_size (sp_in s)"
  by (auto simp: handle_command_def split: if_splits outcome.splits
      dest: handlePing_size handleDownload_in handleUpload_size)

lemma server_round_size:
  "readHeader s = Ret s1 (Some cl) \<Longrightarrow> handle_command env wr cmd len s1 = Ret s2 go \<Longrightarrow> stream_size (sp_in s2) < stream_size (sp_in s)"
  using readHeader_size(2) [of s s1 "Some cl" cl] handle_command_size [of env wr cmd len s1 s2 go] by simp

function HandleServer :: "int option \<Rightarrow> speed_writes \<Rightarrow> speed \<Rightarrow> (speed, unit) outcome" where
  "HandleServer env wr s =
     (case readHeader s of
        Ret s1 None \<Rightarrow> Ret s1 ()
      | Ret s1 (Some (cmd, len)) \<Rightarrow>
          (case handle_command env wr cmd len s1 of
             Ret s2 True \<Rightarrow> HandleServer env wr s2
           | Ret s2 False \<Rightarrow> Ret s2 ()
           | Blocks s2 \<Rightarrow> Blocks s2
           | Panics e \<Rightarrow> Panics e)
      | Blocks s1 \<Rightarrow> Blocks s1
      | Panics e \<Rightarrow> Panics e)"
  by pat_completeness auto
termination
  by (relation "measure (\<lambda>(env, wr, s). stream_size (sp_in s))") (auto dest: server_round_size)

declare HandleServer.simps [simp del]

section \<open>The client's side\<close>

text \<open>\<^verbatim>\<open>runPing\<close>: the round trips in nanoseconds; None is an error.\<close>

fun runPing :: "speed_writes \<Rightarrow> nat \<Rightarrow> int list \<Rightarrow> speed \<Rightarrow> (speed, int list option) outcome" where
  "runPing wr 0 rtts s = Ret s (Some rtts)"
| "runPing wr (Suc k) rtts s =
     (case sp_clock s of
        [] \<Rightarrow> Blocks s
      | ts # rest \<Rightarrow>
          (case writeHeader wr CmdPing 8 (s\<lparr>sp_clock := rest\<rparr>) of (s1, ok) \<Rightarrow>
             if \<not> ok then Ret s1 None
             else (case sp_write wr (PutUint64 (word_of_int ts)) s1 of (s2, n, ok2) \<Rightarrow>
                     if \<not> ok2 then Ret s2 None
                     else (case readHeader s2 of
                             Ret s3 (Some (cmd, len)) \<Rightarrow>
                               if cmd \<noteq> CmdPing \<or> len \<noteq> 8 then Ret s3 None
                               else (case sp_ReadFull 8 s3 of
                                       Ret s4 (Some echo) \<Rightarrow>
                                         (case sp_clock s4 of
                                            [] \<Rightarrow> Blocks s4
                                          | t # rest2 \<Rightarrow> runPing wr k (rtts @ [i64 (t - ts)]) (s4\<lparr>sp_clock := rest2\<rparr>))
                                     | Ret s4 None \<Rightarrow> Ret s4 None
                                     | Blocks s4 \<Rightarrow> Blocks s4
                                     | Panics e \<Rightarrow> Panics e)
                           | Ret s3 None \<Rightarrow> Ret s3 None
                           | Blocks s3 \<Rightarrow> Blocks s3
                           | Panics e \<Rightarrow> Panics e))))"

text \<open>The loop of \<^verbatim>\<open>runDownload\<close>: the bytes counted, None where an error is returned.\<close>

function download_reads :: "nat \<Rightarrow> nat \<Rightarrow> speed \<Rightarrow> (speed, nat option) outcome" where
  "download_reads room tot s =
     (case readHeader s of
        Ret s1 None \<Rightarrow> Ret s1 None
      | Ret s1 (Some (cmd, len)) \<Rightarrow>
          if cmd = CmdDone then Ret s1 (Some tot)
          else if cmd \<noteq> CmdData then Ret s1 None
          else (case read_payload room (unat len) tot (sp_in s1) of
                  Ret x (tot1, True) \<Rightarrow> download_reads room tot1 (s1\<lparr>sp_in := x\<rparr>)
                | Ret x (tot1, False) \<Rightarrow> Ret (s1\<lparr>sp_in := x\<rparr>) None
                | Blocks x \<Rightarrow> Blocks (s1\<lparr>sp_in := x\<rparr>)
                | Panics e \<Rightarrow> Panics e)
      | Blocks s1 \<Rightarrow> Blocks s1
      | Panics e \<Rightarrow> Panics e)"
  by pat_completeness auto
termination
  by (relation "measure (\<lambda>(room, tot, s). stream_size (sp_in s))") (auto dest: upload_read_size)

declare download_reads.simps [simp del]

text \<open>The bytes and the duration of a transfer.\<close>

record TransferResult =
  tr_Bytes :: nat
  tr_Duration :: int

definition runDownload :: "int option \<Rightarrow> speed_writes \<Rightarrow> speed \<Rightarrow> (speed, TransferResult option) outcome" where
  "runDownload env wr s =
     (case writeHeader wr CmdDownload 0 s of (s1, ok) \<Rightarrow>
        if \<not> ok then Ret s1 None
        else case sp_clock s1 of
               [] \<Rightarrow> Blocks s1
             | start # rest \<Rightarrow>
                 (case download_reads (speed_room env) 0 (s1\<lparr>sp_clock := rest\<rparr>) of
                    Ret s2 None \<Rightarrow> Ret s2 None
                  | Ret s2 (Some tot) \<Rightarrow>
                      (case sp_clock s2 of
                         [] \<Rightarrow> Blocks s2
                       | t # rest2 \<Rightarrow> Ret (s2\<lparr>sp_clock := rest2\<rparr>) (Some \<lparr>tr_Bytes = tot, tr_Duration = i64 (t - start)\<rparr>))
                  | Blocks s2 \<Rightarrow> Blocks s2
                  | Panics e \<Rightarrow> Panics e))"

text \<open>
  \<^verbatim>\<open>runUpload\<close>: its loop writes what the loop of \<^verbatim>\<open>handleDownload\<close> writes, a write error only ends it.  The eight bytes of the server's
  result are read and not used.
\<close>

definition runUpload :: "int option \<Rightarrow> speed_writes \<Rightarrow> speed \<Rightarrow> (speed, TransferResult option) outcome" where
  "runUpload env wr s =
     (case writeHeader wr CmdUpload 0 s of (s1, ok) \<Rightarrow>
        if \<not> ok then Ret s1 None
        else case sp_clock s1 of
               [] \<Rightarrow> Blocks s1
             | start # rest \<Rightarrow>
                 (case download_writes wr (speed_payload (speed_room env)) (start + sp_seconds 10) rest 0 s1 of
                    Ret s2 (tot, _) \<Rightarrow>
                      (case writeHeader wr CmdDone 0 s2 of (s3, ok2) \<Rightarrow>
                         if \<not> ok2 then Ret s3 None
                         else case readHeader s3 of
                                Ret s4 (Some (cmd, len)) \<Rightarrow>
                                  if cmd \<noteq> CmdResult \<or> len \<noteq> 8 then Ret s4 None
                                  else (case sp_ReadFull 8 s4 of
                                          Ret s5 (Some res) \<Rightarrow>
                                            (case sp_clock s5 of
                                               [] \<Rightarrow> Blocks s5
                                             | t # rest2 \<Rightarrow> Ret (s5\<lparr>sp_clock := rest2\<rparr>) (Some \<lparr>tr_Bytes = tot, tr_Duration = i64 (t - start)\<rparr>))
                                        | Ret s5 None \<Rightarrow> Ret s5 None
                                        | Blocks s5 \<Rightarrow> Blocks s5
                                        | Panics e \<Rightarrow> Panics e)
                              | Ret s4 None \<Rightarrow> Ret s4 None
                              | Blocks s4 \<Rightarrow> Blocks s4
                              | Panics e \<Rightarrow> Panics e)
                  | Blocks s2 \<Rightarrow> Blocks s2
                  | Panics e \<Rightarrow> Panics e))"

text \<open>
  The three phases as they use one stream: the round trips on the first stream have to succeed, a failed download does not keep the upload from being
  tried.
\<close>

definition stream_phases :: "int option \<Rightarrow> speed_writes \<Rightarrow> nat \<Rightarrow> speed
    \<Rightarrow> (speed, (int list \<times> TransferResult option \<times> TransferResult option) option) outcome" where
  "stream_phases env wr n s =
     (case runPing wr n [] s of
        Ret s1 None \<Rightarrow> Ret s1 None
      | Ret s1 (Some rtts) \<Rightarrow>
          (case runDownload env wr s1 of
             Ret s2 d \<Rightarrow>
               (case runUpload env wr s2 of
                  Ret s3 u \<Rightarrow> Ret s3 (Some (rtts, d, u))
                | Blocks s3 \<Rightarrow> Blocks s3
                | Panics e \<Rightarrow> Panics e)
           | Blocks s2 \<Rightarrow> Blocks s2
           | Panics e \<Rightarrow> Panics e)
      | Blocks s1 \<Rightarrow> Blocks s1
      | Panics e \<Rightarrow> Panics e)"

text \<open>
  \<^verbatim>\<open>RunClient\<close> opens a stream for each active connection, closing those already open when one cannot be opened.
\<close>

fun close_speed_streams :: "write_oracle \<Rightarrow> int \<Rightarrow> nat list \<Rightarrow> Mux \<Rightarrow> (Mux, unit) outcome" where
  "close_speed_streams wok now [] m = Ret m ()"
| "close_speed_streams wok now (p # ps) m =
     (case Stream_Close wok now p m of
        Ret m1 _ \<Rightarrow> close_speed_streams wok now ps m1
      | Blocks m1 \<Rightarrow> Blocks m1
      | Panics e \<Rightarrow> Panics e)"

fun open_speed_streams :: "write_oracle \<Rightarrow> int \<Rightarrow> nat \<Rightarrow> nat list \<Rightarrow> Mux \<Rightarrow> (Mux, mux_error + nat list) outcome" where
  "open_speed_streams wok now 0 ps m = Ret m (Inr ps)"
| "open_speed_streams wok now (Suc k) ps m =
     (case OpenStream wok now (StreamIDBase + of_nat (length ps)) m of
        (m1, Inr p) \<Rightarrow> open_speed_streams wok now k (ps @ [p]) m1
      | (m1, Inl e) \<Rightarrow>
          (case close_speed_streams wok now ps m1 of
             Ret m2 _ \<Rightarrow> Ret m2 (Inl e)
           | Blocks m2 \<Rightarrow> Blocks m2
           | Panics x \<Rightarrow> Panics x))"

text \<open>
  The results: the byte counts of connection \<open>i\<close> come from the \<open>i\<close>-th entries of the statistics taken before the download, after it and after the
  upload, which the code indexes without a check; the totals from what the streams counted, a failed transfer counting as empty.
\<close>

record ConnResult =
  cr_Index :: nat
  cr_DownBytes :: int
  cr_UpBytes :: int
  cr_Down :: TransferResult
  cr_Up :: TransferResult
  cr_LatencyNs :: int

record speed_result =
  res_Ping :: "int list"
  res_Download :: TransferResult
  res_Upload :: TransferResult
  res_Connections :: "ConnResult list"

definition no_transfer :: TransferResult where
  "no_transfer = \<lparr>tr_Bytes = 0, tr_Duration = 0\<rparr>"

definition add_transfer :: "TransferResult \<Rightarrow> TransferResult \<Rightarrow> TransferResult" where
  "add_transfer a r = \<lparr>tr_Bytes = tr_Bytes a + tr_Bytes r,
     tr_Duration = (if tr_Duration r > tr_Duration a then tr_Duration r else tr_Duration a)\<rparr>"

fun build_results :: "ConnStat list \<Rightarrow> ConnStat list \<Rightarrow> ConnStat list \<Rightarrow> (TransferResult option \<times> TransferResult option) list
    \<Rightarrow> speed_result \<Rightarrow> panic + speed_result" where
  "build_results pre mid post [] r = Inr r"
| "build_results pre mid post ((d, u) # cts) r =
     (let i = length (res_Connections r)
      in if i \<ge> length mid \<or> i \<ge> length pre \<or> i \<ge> length post then Inl IndexOutOfRange
         else let dr = (case d of None \<Rightarrow> no_transfer | Some t \<Rightarrow> t);
                  ur = (case u of None \<Rightarrow> no_transfer | Some t \<Rightarrow> t)
              in build_results pre mid post cts
                   (r\<lparr>res_Download := add_transfer (res_Download r) dr, res_Upload := add_transfer (res_Upload r) ur,
                      res_Connections := res_Connections r @
                        [\<lparr>cr_Index = i, cr_DownBytes = i64 (cs_BytesRecv (mid ! i) - cs_BytesRecv (pre ! i)),
                          cr_UpBytes = i64 (cs_BytesSent (post ! i) - cs_BytesSent (mid ! i)),
                          cr_Down = dr, cr_Up = ur, cr_LatencyNs = cs_LatencyNs (post ! i)\<rparr>]\<rparr>))"

text \<open>
  What the phases bring: the round trips, the transfers of every stream, and the multiplexer at the three moments of the statistics.
\<close>

record speed_phases =
  ph_ping :: "int list option"
  ph_transfers :: "(TransferResult option \<times> TransferResult option) list"
  ph_pre :: Mux
  ph_mid :: Mux
  ph_post :: Mux

datatype speed_run =
  NoConnections
| OpenFailed mux_error
| PingFailed
| Completed speed_result

definition RunClient :: "write_oracle \<Rightarrow> int \<Rightarrow> (nat list \<Rightarrow> Mux \<Rightarrow> speed_phases) \<Rightarrow> Mux \<Rightarrow> (Mux, speed_run) outcome" where
  "RunClient wok now phases m =
     (if ActiveConns m = 0 then Ret m NoConnections
      else case open_speed_streams wok now (nat (ActiveConns m)) [] m of
             Ret m1 (Inl e) \<Rightarrow> Ret m1 (OpenFailed e)
           | Ret m1 (Inr ps) \<Rightarrow>
               (let ph = phases ps m1
                in case ph_ping ph of
                     None \<Rightarrow>
                       (case close_speed_streams wok now ps (ph_pre ph) of
                          Ret m2 _ \<Rightarrow> Ret m2 PingFailed
                        | Blocks m2 \<Rightarrow> Blocks m2
                        | Panics x \<Rightarrow> Panics x)
                   | Some rtts \<Rightarrow>
                       (case build_results (ConnStats (ph_pre ph)) (ConnStats (ph_mid ph)) (ConnStats (ph_post ph)) (ph_transfers ph)
                               \<lparr>res_Ping = rtts, res_Download = no_transfer, res_Upload = no_transfer, res_Connections = []\<rparr> of
                          Inl x \<Rightarrow> Panics x
                        | Inr r \<Rightarrow>
                            (case close_speed_streams wok now ps (ph_post ph) of
                               Ret m2 _ \<Rightarrow> Ret m2 (Completed r)
                             | Blocks m2 \<Rightarrow> Blocks m2
                             | Panics x \<Rightarrow> Panics x)))
           | Blocks m1 \<Rightarrow> Blocks m1
           | Panics x \<Rightarrow> Panics x)"

end
