(* ===== verification/Server_Sessions.thy ===== *)
theory Server_Sessions
  imports Reconnect Speedtest
begin

text \<open>
  The server (\<^verbatim>\<open>internal/server/server.go\<close>): its modes and their retry loops, the sessions of direct mode and of Telemost mode, what ends the session of
  one client in relay mode, and the relaying of one stream.  The accepting of one client in relay mode is in \<open>Relay_Session\<close>.
\<close>

section \<open>Modes\<close>

datatype server_mode = MultiRelay | Telemost | Relay | Direct

definition Start_mode :: "nat \<Rightarrow> bool option \<Rightarrow> server_mode" where
  "Start_mode services service =
     (if services > 1 then MultiRelay
      else case service of Some isTelemost \<Rightarrow> if isTelemost then Telemost else Relay | None \<Rightarrow> Direct)"

definition srv_backoff0 :: int where "srv_backoff0 = 3 * 10 ^ 9"
definition srv_maxBackoff :: int where "srv_maxBackoff = 300 * 10 ^ 9"

text \<open>One round of the retry loops: how long the session lived, whether it failed, the wait and the backoff afterwards.\<close>

definition multi_round :: "int \<Rightarrow> int \<Rightarrow> int \<times> int" where
  "multi_round lived backoff =
     (let b = (if lived > 60 * 10 ^ 9 then srv_backoff0 else backoff) in (b, min (b * 2) srv_maxBackoff))"

definition relay_round :: "int \<Rightarrow> bool \<Rightarrow> int \<Rightarrow> int \<times> int" where
  "relay_round lived failed backoff =
     (let b = (if lived > 60 * 10 ^ 9 then srv_backoff0 else backoff)
      in (b, if failed then min (b * 2) srv_maxBackoff else srv_backoff0))"

section \<open>Sessions\<close>

text \<open>
  Sessions are objects in a store; \<open>ss_members\<close> are the connections that were handed to the multiplexer, \<open>ss_pending\<close> the frames that its
  dispatcher holds, and \<open>ss_running\<close> tells whether the goroutine that accepts streams has not ended yet.
\<close>

record session =
  ss_id :: bytes
  ss_m :: Mux
  ss_pending :: pending
  ss_conns :: int
  ss_members :: "dconn list"
  ss_running :: bool

record Server =
  srv_AuthToken :: bytes
  srv_sessions :: "bytes \<rightharpoonup> nat"
  srv_store :: "session list"
  srv_rejected :: "nat list"

definition New_server :: "bytes \<Rightarrow> Server" where
  "New_server authToken = \<lparr>srv_AuthToken = authToken, srv_sessions = (\<lambda>_. None), srv_store = [], srv_rejected = []\<rparr>"

definition upd_session :: "nat \<Rightarrow> (session \<Rightarrow> session) \<Rightarrow> Server \<Rightarrow> Server" where
  "upd_session p f s = s\<lparr>srv_store := (srv_store s)[p := f (srv_store s ! p)]\<rparr>"

definition getOrCreateSession :: "bool \<Rightarrow> int \<Rightarrow> bytes \<Rightarrow> Server \<Rightarrow> Server \<times> nat" where
  "getOrCreateSession senv now i s =
     (case srv_sessions s i of
        Some p \<Rightarrow> (s, p)
      | None \<Rightarrow>
          let p = length (srv_store s);
              sess = \<lparr>ss_id = i, ss_m = session_mux senv now, ss_pending = [], ss_conns = 0, ss_members = [], ss_running = True\<rparr>
          in (s\<lparr>srv_store := srv_store s @ [sess], srv_sessions := (srv_sessions s)(i \<mapsto> p)\<rparr>, p))"

text \<open>The connection is handed to the multiplexer of the session, under the session's lock.\<close>

definition session_add :: "int \<Rightarrow> nat \<Rightarrow> dconn \<Rightarrow> Server \<Rightarrow> Server" where
  "session_add now p c s =
     upd_session p (\<lambda>x. x\<lparr>ss_m := AddConn now (ss_m x), ss_conns := ss_conns x + 1, ss_members := ss_members x @ [c]\<rparr>) s"

definition reject_conn :: "dconn \<Rightarrow> Server \<Rightarrow> Server" where
  "reject_conn c s = s\<lparr>srv_rejected := srv_rejected s @ [dc_id c]\<rparr>"

text \<open>\<^verbatim>\<open>handleConnection\<close> up to the session, and as a whole when nothing else happens meanwhile.\<close>

definition handle_identify :: "(bytes \<Rightarrow> bytes \<Rightarrow> bytes) \<Rightarrow> bool \<Rightarrow> int \<Rightarrow> dconn \<Rightarrow> Server \<Rightarrow> Server \<times> nat option" where
  "handle_identify hmac senv now c s =
     (case server_preamble hmac (srv_AuthToken s) (dc_in c) of
        Inl e \<Rightarrow> (reject_conn c s, None)
      | Inr (sessionID, rest) \<Rightarrow> (case getOrCreateSession senv now sessionID s of (s1, p) \<Rightarrow> (s1, Some p)))"

definition handleConnection :: "(bytes \<Rightarrow> bytes \<Rightarrow> bytes) \<Rightarrow> bool \<Rightarrow> int \<Rightarrow> dconn \<Rightarrow> Server \<Rightarrow> Server" where
  "handleConnection hmac senv now c s =
     (case handle_identify hmac senv now c s of (s1, None) \<Rightarrow> s1 | (s1, Some p) \<Rightarrow> session_add now p c s1)"

text \<open>The goroutine that drains dead connections, and the end of the goroutine that accepts streams.\<close>

definition session_drain :: "write_oracle \<Rightarrow> int \<Rightarrow> int \<Rightarrow> nat \<Rightarrow> Server \<Rightarrow> Server" where
  "session_drain wok now idx p s = upd_session p (\<lambda>x. x\<lparr>ss_m := RemoveConn wok now idx (ss_m x)\<rparr>) s"

definition session_end :: "nat \<Rightarrow> Server \<Rightarrow> Server" where
  "session_end p s =
     (let s1 = s\<lparr>srv_sessions := (srv_sessions s)(ss_id (srv_store s ! p) := None)\<rparr>
      in upd_session p (\<lambda>x. x\<lparr>ss_m := Mux_Close (ss_m x), ss_running := False\<rparr>) s1)"

record SessionInfo =
  si_SessionID :: string
  si_ActiveConns :: int
  si_TotalConns :: int

text \<open>\<open>order\<close> is the order in which the map is traversed.\<close>

definition GetSessionsInfo :: "bytes list \<Rightarrow> Server \<Rightarrow> SessionInfo list" where
  "GetSessionsInfo order s =
     concat (map (\<lambda>i. case srv_sessions s i of
        None \<Rightarrow> []
      | Some p \<Rightarrow> [\<lparr>si_SessionID = concat (map hex_byte i), si_ActiveConns = ActiveConns (ss_m (srv_store s ! p)),
                   si_TotalConns = ss_conns (srv_store s ! p)\<rparr>]) order)"

section \<open>Telemost sessions\<close>

text \<open>The state of the loop over the connections: the server, the session and its identifier, and the number added.\<close>

definition telemost_conn ::
  "(bytes \<Rightarrow> bytes \<Rightarrow> bytes) \<Rightarrow> bool \<Rightarrow> int \<Rightarrow> dconn \<Rightarrow> Server \<times> (nat \<times> bytes) option \<times> nat \<Rightarrow> Server \<times> (nat \<times> bytes) option \<times> nat" where
  "telemost_conn hmac senv now c st =
     (case st of (s, sess, added) \<Rightarrow>
        (case server_preamble hmac (srv_AuthToken s) (dc_in c) of
           Inl e \<Rightarrow> (reject_conn c s, sess, added)
         | Inr (sessionID, rest) \<Rightarrow>
             (case sess of
                None \<Rightarrow>
                  (case getOrCreateSession senv now sessionID s of
                     (s1, p) \<Rightarrow> (session_add now p c s1, Some (p, sessionID), added + 1))
              | Some (p, firstSessionID) \<Rightarrow>
                  if sessionID \<noteq> firstSessionID then (reject_conn c s, sess, added)
                  else (session_add now p c s, sess, added + 1))))"

text \<open>
  \<open>results\<close> are the outcomes of joining with so many participants.  The error or the session whose end is waited for, and the cleanups called.
\<close>

definition runTelemostSession ::
  "(bytes \<Rightarrow> bytes \<Rightarrow> bytes) \<Rightarrow> bool \<Rightarrow> int \<Rightarrow> (goerr + dconn) list \<Rightarrow> Server \<Rightarrow> Server \<times> (goerr + nat) \<times> nat list" where
  "runTelemostSession hmac senv now results s =
     (let conns = concat (map (\<lambda>r. case r of Inl e \<Rightarrow> [] | Inr c \<Rightarrow> [c]) results); cleanups = map dc_id conns
      in if conns = [] then (s, Inl (Errorf ''no Telemost connections established''), cleanups)
         else case foldl (\<lambda>st c. telemost_conn hmac senv now c st) (s, None, 0) conns of
                (s1, sess, added) \<Rightarrow>
                  if added = 0 then (s1, Inl (Errorf ''no Telemost connections passed handshake''), cleanups)
                  else (s1, Inr (fst (the sess)), cleanups))"

section \<open>A relay session that stays in the call\<close>

text \<open>
  After each client: whether the context and the context of the credentials have ended, whether the signaling client is alive, and the error of the client.
\<close>

record client_end =
  ce_ctxErr :: bool
  ce_credErr :: bool
  ce_alive :: bool
  ce_err :: "goerr option"

fun serve_clients :: "client_end list \<Rightarrow> goerr option" where
  "serve_clients [] = None"
| "serve_clients (e # es) =
     (if ce_ctxErr e then None
      else if ce_credErr e then Some (Errorf ''proactive session refresh'')
      else if \<not> ce_alive e then Some (Errorf ''signaling connection lost'')
      else case ce_err e of
             Some err \<Rightarrow> if is_expired_error err then Some (Errorf ''credentials expired, need rejoin'') else serve_clients es
           | None \<Rightarrow> serve_clients es)"

definition runPersistentRelaySession :: "join_outcome \<Rightarrow> bytes \<Rightarrow> string list \<Rightarrow> client_end list \<Rightarrow> nat list \<times> goerr option" where
  "runPersistentRelaySession jo authToken vkTokens clients =
     (case relay_join jo authToken vkTokens of
        (sigs, Inl e) \<Rightarrow> (sigs, Some e)
      | (sigs, Inr c) \<Rightarrow> (sigs @ [c], serve_clients clients))"

text \<open>What the end of the signaling session does: the acknowledgement sent, whether the session is cancelled and whether the pings stop.\<close>

record client_session =
  cs_m :: Mux
  cs_acks :: "string list"
  cs_cancelled :: bool
  cs_pinging :: bool
  cs_routing :: bool

definition on_session_end :: "SessionEndReason \<times> string \<Rightarrow> client_session \<Rightarrow> client_session" where
  "on_session_end r s =
     (case r of
        (SessionEndDisconnect, nonce) \<Rightarrow> s\<lparr>cs_acks := cs_acks s @ [nonce], cs_cancelled := True\<rparr>
      | (SessionEndHungup, nonce) \<Rightarrow> s\<lparr>cs_pinging := False, cs_m := SetIdleTimeout (15 * 10 ^ 9) (cs_m s), cs_routing := True\<rparr>
      | (SessionEndClosed, nonce) \<Rightarrow> s)"

text \<open>A tick of the rotation; \<open>maxConnAge\<close> was drawn when the session began.\<close>

definition rotation_minAlive :: "nat \<Rightarrow> int" where
  "rotation_minAlive numConns = max (int (numConns div 2)) 2"

definition rotation_tick :: "int \<Rightarrow> int \<Rightarrow> nat \<Rightarrow> Mux \<Rightarrow> Mux" where
  "rotation_tick now maxConnAge numConns m = fst (CloseOldestConn now maxConnAge (rotation_minAlive numConns) m)"

section \<open>Streams\<close>

text \<open>
  The download direction: the reads of the target, bytes and whether an error came with them; \<open>write\<close> is what writing to the stream returns, the number of bytes
  and whether there was an error.  The bytes handed to the stream and their number.
\<close>

fun download_loop :: "(bytes \<Rightarrow> nat \<times> bool) \<Rightarrow> (bytes \<times> bool) list \<Rightarrow> bytes list \<Rightarrow> nat \<Rightarrow> bytes list \<times> nat" where
  "download_loop write [] out n = (out, n)"
| "download_loop write ((d, readErr) # rs) out n =
     (if d \<noteq> [] then
        (case write d of (nw, writeErr) \<Rightarrow>
           let out1 = out @ [take nw d]; n1 = n + nw
           in if writeErr \<or> nw \<noteq> length d then (out1, n1)
              else if readErr then (out1, n1)
              else download_loop write rs out1 n1)
      else if readErr then (out, n)
      else download_loop write rs out n)"

datatype stream_end =
  SpeedTest
| NoAddress
| DialFailed string
| Relayed string "bytes list" nat

text \<open>
  \<^verbatim>\<open>handleStream\<close>: \<open>first\<close> is the first read of at most 512 bytes, \<open>dial\<close> the reads of the target where dialling succeeds.
\<close>

definition handleStream :: "u32 \<Rightarrow> bytes option \<Rightarrow> (string \<Rightarrow> (bytes \<times> bool) list option) \<Rightarrow> (bytes \<Rightarrow> nat \<times> bool) \<Rightarrow> stream_end" where
  "handleStream i first dial write =
     (if IsSpeedTestStream i then SpeedTest
      else case first of
             None \<Rightarrow> NoAddress
           | Some b \<Rightarrow>
               let target = string_of b
               in case dial target of
                    None \<Rightarrow> DialFailed target
                  | Some reads \<Rightarrow> (case download_loop write reads [] 0 of (out, n) \<Rightarrow> Relayed target out n))"

end
