(* ===== verification/Vk_Signal_Props.thy ===== *)
theory Vk_Signal_Props
  imports Vk_Signal
begin

text \<open>
  Properties of the VK signaling client: what one side sends the other receives, whatever else arrives, and when a session ends.
\<close>

section \<open>Sealed messages\<close>

text \<open>What the code relies on in the cipher: opening undoes sealing.\<close>

definition aead_ok :: "AEAD option \<Rightarrow> bytes \<Rightarrow> bool" where
  "aead_ok aead rnd \<longleftrightarrow>
     (case aead of None \<Rightarrow> True | Some a \<Rightarrow> length rnd = aead_NonceSize a \<and> (\<forall>p. aead_Open a rnd (aead_Seal a rnd p) = Inr p))"

lemma open_seal: "aead_ok aead rnd \<Longrightarrow> open_blob aead (seal aead rnd p) = Inr p"
  by (auto simp: open_blob_def seal_def aead_ok_def split: option.splits)

lemma addrs_roundtrip: "addrs \<noteq> [] \<Longrightarrow> \<forall>a\<in>set addrs. CHR '','' \<notin> set a \<Longrightarrow> decodeAddrs (encodeAddrs addrs) = Inr addrs"
  by (simp add: decodeAddrs_def encodeAddrs_def split_join)

text \<open>No address at all comes back as one empty address.\<close>

lemma addrs_empty: "decodeAddrs (encodeAddrs []) = Inr [[]]"
  by (simp add: decodeAddrs_def encodeAddrs_def)

section \<open>The receiving loop\<close>

text \<open>What the loop passes over: other notifications, what cannot be opened, other types, other nonces and echoes of the own role.\<close>

definition passed_over :: "(bytes \<Rightarrow> relayData option) \<Rightarrow> AEAD option \<Rightarrow> string \<Rightarrow> string \<Rightarrow> notification \<Rightarrow> bool" where
  "passed_over unmarshal aead skipRole filterNonce n \<longleftrightarrow>
     n_Name n \<noteq> ''custom-data''
     \<or> (case extractTag unmarshal aead n of
          None \<Rightarrow> True
        | Some d \<Rightarrow> rd_Type d \<noteq> wireDisconnect
            \<and> (rd_Type d \<noteq> wireType \<or> filterNonce \<noteq> [] \<and> rd_Nonce d \<noteq> filterNonce \<or> skipRole \<noteq> [] \<and> fromWireRole (rd_Mode d) = skipRole))"

lemma recv_relay_spec:
  "recv_relay unmarshal skipRole filterNonce ns c =
     (case dropWhile (passed_over unmarshal (sc_aead c) skipRole filterNonce) ns of
        [] \<Rightarrow> (c\<lparr>sc_incoming := []\<rparr>, Inl (stop_error c))
      | n # rest \<Rightarrow>
          (case extractTag unmarshal (sc_aead c) n of
             None \<Rightarrow> undefined
           | Some d \<Rightarrow>
               if rd_Type d = wireDisconnect then (c\<lparr>sc_incoming := rest\<rparr>, Inl (DisconnectError (rd_Nonce d)))
               else (setRemotePeerFromNotif n (c\<lparr>sc_incoming := rest\<rparr>), Inr d)))"
proof (induction ns)
  case (Cons n ns)
  show ?case
  proof (cases "passed_over unmarshal (sc_aead c) skipRole filterNonce n")
    case True
    then have "recv_relay unmarshal skipRole filterNonce (n # ns) c = recv_relay unmarshal skipRole filterNonce ns c"
      by (auto simp: passed_over_def split: option.splits)
    then show ?thesis using Cons True by simp
  next
    case False
    then obtain d where d: "n_Name n = ''custom-data''" "extractTag unmarshal (sc_aead c) n = Some d"
      "rd_Type d = wireDisconnect \<or> rd_Type d = wireType \<and> \<not> (filterNonce \<noteq> [] \<and> rd_Nonce d \<noteq> filterNonce)
         \<and> \<not> (skipRole \<noteq> [] \<and> fromWireRole (rd_Mode d) = skipRole)"
      by (auto simp: passed_over_def split: option.splits)
    then show ?thesis using False by (cases "rd_Type d = wireDisconnect") auto
  qed
qed simp

lemma dropWhile_filter_Cons:
  "filter (\<lambda>x. \<not> P x) xs = y # ys \<Longrightarrow> \<exists>r. dropWhile P xs = y # r \<and> filter (\<lambda>x. \<not> P x) r = ys"
  by (induction xs) (auto split: if_splits)

lemma setRemotePeer_frame [simp]:
  "sc_incoming (setRemotePeerFromNotif n c) = sc_incoming c" "sc_aead (setRemotePeerFromNotif n c) = sc_aead c"
  "sc_chans (setRemotePeerFromNotif n c) = sc_chans c"
  by (simp_all add: setRemotePeerFromNotif_def split: option.split)

text \<open>Several calls of \<^verbatim>\<open>RecvRelayBatch\<close> one after the other.\<close>

fun recv_batches :: "(bytes \<Rightarrow> relayData option) \<Rightarrow> string \<Rightarrow> string \<Rightarrow> nat \<Rightarrow> SignalingClient \<Rightarrow> (goerr + (string list \<times> int \<times> bool \<times> string)) list" where
  "recv_batches unmarshal skipRole filterNonce 0 c = []"
| "recv_batches unmarshal skipRole filterNonce (Suc k) c =
     (case vk_RecvRelayBatch unmarshal skipRole filterNonce c of (c1, r) \<Rightarrow> r # recv_batches unmarshal skipRole filterNonce k c1)"

text \<open>The other side sends batches one after the other, each with fresh random bytes.\<close>

fun send_batches :: "(relayData \<Rightarrow> bytes) \<Rightarrow> string \<Rightarrow> string \<Rightarrow> (bytes \<times> string list \<times> int \<times> bool) list \<Rightarrow> SignalingClient \<Rightarrow> SignalingClient" where
  "send_batches marshal role nonce [] c = c"
| "send_batches marshal role nonce ((rnd, addrs, batch, final) # bs) c =
     send_batches marshal role nonce bs (fst (vk_SendRelayBatch marshal None rnd addrs role nonce batch final c))"

lemma send_batches_written:
  "map (\<lambda>w. snd (snd w)) (sc_written (send_batches marshal role nonce bs c)) =
     map (\<lambda>w. snd (snd w)) (sc_written c)
     @ map (\<lambda>(rnd, addrs, batch, final). Some (seal (sc_aead c) rnd (marshal (batch_msg addrs role nonce batch final)))) bs"
proof (induction bs arbitrary: c)
  case (Cons b bs)
  obtain rnd addrs batch final where b: "b = (rnd, addrs, batch, final)" by (metis prod_cases4)
  show ?case by (simp add: b Cons vk_SendRelayBatch_def sendInner_def sendCommand_def Let_def)
qed simp

text \<open>One batch, received after things that are passed over.\<close>

lemma recv_one_batch:
  assumes f: "filter (\<lambda>n. \<not> passed_over unmarshal (sc_aead c) skipRole filterNonce n) (sc_incoming c) = n # ns"
    and n: "n_Name n = ''custom-data''" "n_Data n = Some (seal (sc_aead c) rnd (marshal (batch_msg addrs role nonce batch final)))"
    and codec: "aead_ok (sc_aead c) rnd" "unmarshal (marshal (batch_msg addrs role nonce batch final)) = Some (batch_msg addrs role nonce batch final)"
    and addrs: "addrs \<noteq> []" "\<forall>a\<in>set addrs. CHR '','' \<notin> set a"
  shows "\<exists>c'. vk_RecvRelayBatch unmarshal skipRole filterNonce c = (c', Inr (addrs, batch, final, nonce)) \<and> sc_aead c' = sc_aead c
    \<and> filter (\<lambda>n. \<not> passed_over unmarshal (sc_aead c) skipRole filterNonce n) (sc_incoming c') = ns"
proof -
  obtain r where r: "dropWhile (passed_over unmarshal (sc_aead c) skipRole filterNonce) (sc_incoming c) = n # r"
    "filter (\<lambda>n. \<not> passed_over unmarshal (sc_aead c) skipRole filterNonce n) r = ns" using dropWhile_filter_Cons [OF f] by blast
  have e: "extractTag unmarshal (sc_aead c) n = Some (batch_msg addrs role nonce batch final)"
    using codec n by (simp add: extractTag_def open_seal)
  have t: "rd_Type (batch_msg addrs role nonce batch final) = wireType" "rd_Payload (batch_msg addrs role nonce batch final) = encodeAddrs addrs"
    "rd_Batch (batch_msg addrs role nonce batch final) = batch" "rd_Final (batch_msg addrs role nonce batch final) = final"
    "rd_Nonce (batch_msg addrs role nonce batch final) = nonce"
    by (simp_all add: batch_msg_def addrs_msg_def)
  have "recvRelayData unmarshal skipRole filterNonce c = (setRemotePeerFromNotif n (c\<lparr>sc_incoming := r\<rparr>), Inr (batch_msg addrs role nonce batch final))"
    unfolding recvRelayData_def recv_relay_spec r(1) by (simp add: e t(1)) (simp add: wire_defs)
  then show ?thesis using r(2) addrs_roundtrip [OF addrs] by (simp add: vk_RecvRelayBatch_def t)
qed

text \<open>C15: Batches of relay addresses that one side sends are received by the other side exactly, in order and each once, with their
  numbers, marks and nonce, whatever else arrives in between: other notifications, messages under another key, of other types or nonces, and echoes of
  the receiver's own messages.\<close>

theorem vk_batches_delivered:
  assumes "sc_aead c = sc_aead s"
    and "\<And>rnd addrs batch final. (rnd, addrs, batch, final) \<in> set bs \<Longrightarrow>
        aead_ok (sc_aead s) rnd \<and> unmarshal (marshal (batch_msg addrs role nonce batch final)) = Some (batch_msg addrs role nonce batch final)
        \<and> addrs \<noteq> [] \<and> (\<forall>a\<in>set addrs. CHR '','' \<notin> set a)"
    and "sc_written s = []"
    and "map n_Data (filter (\<lambda>n. \<not> passed_over unmarshal (sc_aead c) skipRole filterNonce n) (sc_incoming c))
       = map (\<lambda>w. snd (snd w)) (sc_written (send_batches marshal role nonce bs s))"
  shows "recv_batches unmarshal skipRole filterNonce (length bs) c = map (\<lambda>(rnd, addrs, batch, final). Inr (addrs, batch, final, nonce)) bs"
proof -
  let ?blob = "\<lambda>(rnd, addrs, batch, final). Some (seal (sc_aead s) rnd (marshal (batch_msg addrs role nonce batch final)))"
  have "map n_Data (filter (\<lambda>n. \<not> passed_over unmarshal (sc_aead s) skipRole filterNonce n) (sc_incoming c)) = map ?blob bs"
    using assms(1,3,4) send_batches_written [of marshal role nonce bs s] by simp
  then show ?thesis using assms(1,2)
  proof (induction bs arbitrary: c)
    case (Cons b bs)
    obtain rnd addrs batch final where b: "b = (rnd, addrs, batch, final)" by (metis prod_cases4)
    obtain n ns where f: "filter (\<lambda>n. \<not> passed_over unmarshal (sc_aead c) skipRole filterNonce n) (sc_incoming c) = n # ns"
      and n: "n_Data n = ?blob b" "map n_Data ns = map ?blob bs" using Cons.prems(1,2) by auto
    have "\<not> passed_over unmarshal (sc_aead c) skipRole filterNonce n" using arg_cong [OF f, of set] by auto
    then have name: "n_Name n = ''custom-data''" by (simp add: passed_over_def)
    have cod: "aead_ok (sc_aead c) rnd" "unmarshal (marshal (batch_msg addrs role nonce batch final)) = Some (batch_msg addrs role nonce batch final)"
      "addrs \<noteq> []" "\<forall>a\<in>set addrs. CHR '','' \<notin> set a" using Cons.prems(3) [of rnd addrs batch final] Cons.prems(2) b by simp_all
    have nd: "n_Data n = Some (seal (sc_aead c) rnd (marshal (batch_msg addrs role nonce batch final)))" using n(1) b Cons.prems(2) by simp
    obtain c' where c': "vk_RecvRelayBatch unmarshal skipRole filterNonce c = (c', Inr (addrs, batch, final, nonce))" "sc_aead c' = sc_aead c"
      "filter (\<lambda>n. \<not> passed_over unmarshal (sc_aead c) skipRole filterNonce n) (sc_incoming c') = ns"
      using recv_one_batch [where marshal = marshal and rnd = rnd and addrs = addrs and role = role and nonce = nonce and batch = batch and final = final, OF f name nd cod] by blast
    have "recv_batches unmarshal skipRole filterNonce (length bs) c' = map (\<lambda>(rnd, addrs, batch, final). Inr (addrs, batch, final, nonce)) bs"
    proof (rule Cons.IH)
      show "map n_Data (filter (\<lambda>n. \<not> passed_over unmarshal (sc_aead s) skipRole filterNonce n) (sc_incoming c')) = map ?blob bs"
        using c'(3) n(2) Cons.prems(2) by simp
      show "sc_aead c' = sc_aead s" using c'(2) Cons.prems(2) by simp
    qed (rule Cons.prems(3), simp)
    then show ?case using c' b by simp
  qed simp
qed

definition demo_marshal :: "relayData \<Rightarrow> bytes" where
  "demo_marshal d = bytes_of_string (rd_Payload d)"

definition demo_unmarshal :: "bytes \<Rightarrow> relayData option" where
  "demo_unmarshal b = Some (batch_msg [''1.2.3.4:5''] ''client'' ''n'' 0 True)"

theorem vk_batches_delivered_witness:
  "recv_batches demo_unmarshal ''server'' ''n'' 1
     ((new_client ''1'')\<lparr>sc_incoming := [\<lparr>n_Name = ''hungup'', n_Data = None, n_participantId = None, n_joinedId = None\<rparr>,
        \<lparr>n_Name = ''custom-data'', n_Data = Some (b64_encode (demo_marshal (batch_msg [''1.2.3.4:5''] ''client'' ''n'' 0 True))), n_participantId = None, n_joinedId = None\<rparr>]\<rparr>)
   = [Inr ([''1.2.3.4:5''], 0, True, ''n'')]"
proof -
  let ?c = "(new_client ''1'')\<lparr>sc_incoming := [\<lparr>n_Name = ''hungup'', n_Data = None, n_participantId = None, n_joinedId = None\<rparr>,
        \<lparr>n_Name = ''custom-data'', n_Data = Some (b64_encode (demo_marshal (batch_msg [''1.2.3.4:5''] ''client'' ''n'' 0 True))), n_participantId = None, n_joinedId = None\<rparr>]\<rparr>"
  have "sc_aead ?c = sc_aead (new_client ''2'')" by (simp add: new_client_def)
  moreover have "map n_Data (filter (\<lambda>n. \<not> passed_over demo_unmarshal (sc_aead ?c) ''server'' ''n'' n) (sc_incoming ?c))
     = map (\<lambda>w. snd (snd w)) (sc_written (send_batches demo_marshal ''client'' ''n'' [([], [''1.2.3.4:5''], 0, True)] (new_client ''2'')))"
    by (simp add: passed_over_def extractTag_def open_blob_def new_client_def demo_unmarshal_def vk_SendRelayBatch_def sendInner_def sendCommand_def
        seal_def Let_def batch_msg_def addrs_msg_def fromWireRole_def toWireRole_def wire_defs)
  ultimately show ?thesis
    using vk_batches_delivered [of ?c "new_client ''2''" "[([], [''1.2.3.4:5''], 0, True)]" demo_unmarshal demo_marshal "''client''" "''n''" "''server''" "''n''"]
    by (simp add: aead_ok_def new_client_def demo_unmarshal_def)
qed

section \<open>The end of a session\<close>

text \<open>Why a notification ends the session, if it does.\<close>

definition ending :: "(bytes \<Rightarrow> relayData option) \<Rightarrow> SignalingClient \<Rightarrow> notification \<Rightarrow> (SessionEndReason \<times> string) option" where
  "ending unmarshal c n =
     (if n_Name n = ''hungup'' then (if isRemotePeerHungup n c then Some (SessionEndHungup, []) else None)
      else if n_Name n = ''custom-data'' then
        (case extractTag unmarshal (sc_aead c) n of
           None \<Rightarrow> None
         | Some d \<Rightarrow> if sc_subs c (rd_Type d) = None \<and> rd_Type d = wireDisconnect then Some (SessionEndDisconnect, rd_Nonce d) else None)
      else None)"

text \<open>The messages with a tag among notifications.\<close>

definition tagged :: "(bytes \<Rightarrow> relayData option) \<Rightarrow> AEAD option \<Rightarrow> string \<Rightarrow> notification \<Rightarrow> SignalMessage list" where
  "tagged unmarshal aead tag n =
     (if n_Name n = ''custom-data'' then
        (case extractTag unmarshal aead n of None \<Rightarrow> [] | Some d \<Rightarrow> if rd_Type d = tag then [signal_of d] else [])
      else [])"

lemma chan_send_frame [simp]:
  "sc_subs (chan_send ch m c) = sc_subs c" "sc_aead (chan_send ch m c) = sc_aead c" "sc_remotePeer (chan_send ch m c) = sc_remotePeer c"
  "length (sc_chans (chan_send ch m c)) = length (sc_chans c)" "ch' \<noteq> ch \<Longrightarrow> sc_chans (chan_send ch m c) ! ch' = sc_chans c ! ch'"
  by (simp_all add: chan_send_def split: prod.split)

lemma ending_cong: "sc_subs c' = sc_subs c \<Longrightarrow> sc_aead c' = sc_aead c \<Longrightarrow> sc_remotePeer c' = sc_remotePeer c \<Longrightarrow> ending unmarshal c' = ending unmarshal c"
  by (simp add: ending_def isRemotePeerHungup_def fun_eq_iff split: option.split)

text \<open>A channel that gets messages as long as there is room, and a channel that is the one of a tag only.\<close>

definition fill :: "nat \<times> SignalMessage list \<Rightarrow> SignalMessage list \<Rightarrow> nat \<times> SignalMessage list" where
  "fill b ms = (fst b, snd b @ take (fst b - length (snd b)) ms)"

definition own_chan :: "SignalingClient \<Rightarrow> string \<Rightarrow> nat \<Rightarrow> bool" where
  "own_chan c tag ch \<longleftrightarrow> sc_subs c tag = Some ch \<and> (\<forall>t. sc_subs c t = Some ch \<longrightarrow> t = tag) \<and> ch < length (sc_chans c)
     \<and> length (snd (sc_chans c ! ch)) \<le> fst (sc_chans c ! ch)"

lemma fill_simps [simp]: "fill b [] = b" "fill (fill b ms) ms' = fill b (ms @ ms')"
  by (cases "length ms \<le> fst b - length (snd b)"; simp add: fill_def min_def)+

lemma fill_bound: "length (snd b) \<le> fst b \<Longrightarrow> length (snd (fill b ms)) \<le> fst (fill b ms)"
  by (simp add: fill_def)

lemma chan_send_own: "own_chan c tag ch \<Longrightarrow> sc_chans (chan_send ch m c) ! ch = fill (sc_chans c ! ch) [m]"
  by (auto simp: chan_send_def own_chan_def fill_def split: prod.split)

text \<open>A notification that does not end the session adds its message to the channel of its tag.\<close>

definition routed :: "(bytes \<Rightarrow> relayData option) \<Rightarrow> SignalingClient \<Rightarrow> notification list \<Rightarrow> SignalingClient \<Rightarrow> bool" where
  "routed unmarshal c ns c' \<longleftrightarrow> sc_subs c' = sc_subs c \<and> sc_aead c' = sc_aead c \<and> sc_remotePeer c' = sc_remotePeer c
     \<and> (\<forall>tag ch. own_chan c tag ch \<longrightarrow> own_chan c' tag ch \<and> sc_chans c' ! ch = fill (sc_chans c ! ch) (concat (map (tagged unmarshal (sc_aead c) tag) ns)))"

lemma routed_Nil: "routed unmarshal c [] c"
  by (simp add: routed_def)

lemma own_chan_sub: "own_chan c tag ch \<Longrightarrow> sc_subs c tag = Some ch"
  by (simp add: own_chan_def)

lemma own_chan_incoming [simp]: "own_chan (c\<lparr>sc_incoming := r\<rparr>) = own_chan c"
  by (simp add: own_chan_def fun_eq_iff)

lemma routed_incoming: "routed unmarshal c ns c' \<Longrightarrow> routed unmarshal c ns (c'\<lparr>sc_incoming := r\<rparr>)"
  by (simp add: routed_def)

lemma routed_Cons: "routed unmarshal c [n] c1 \<Longrightarrow> routed unmarshal c1 ns c' \<Longrightarrow> routed unmarshal c (n # ns) c'"
  unfolding routed_def by (intro conjI allI impI) (simp_all flip: fill_simps(2), metis)

lemma routed_send:
  assumes "n_Name n = ''custom-data''" "extractTag unmarshal (sc_aead c) n = Some d" "sc_subs c (rd_Type d) = Some ch0"
  shows "routed unmarshal c [n] (chan_send ch0 (signal_of d) c)"
proof -
  have "own_chan (chan_send ch0 (signal_of d) c) tag ch
      \<and> sc_chans (chan_send ch0 (signal_of d) c) ! ch = fill (sc_chans c ! ch) (tagged unmarshal (sc_aead c) tag n)" if o: "own_chan c tag ch" for tag ch
  proof (cases "ch = ch0")
    case True
    then have "rd_Type d = tag" using o assms(3) by (simp add: own_chan_def)
    then have t: "tagged unmarshal (sc_aead c) tag n = [signal_of d]" using assms by (simp add: tagged_def)
    have e: "sc_chans (chan_send ch0 (signal_of d) c) ! ch = fill (sc_chans c ! ch) [signal_of d]" using chan_send_own [OF o, of "signal_of d"] True by simp
    moreover have "own_chan (chan_send ch0 (signal_of d) c) tag ch"
      using o fill_bound [of "sc_chans c ! ch" "[signal_of d]"] unfolding own_chan_def e by simp
    ultimately show ?thesis unfolding t by blast
  next
    case False
    then have t: "tagged unmarshal (sc_aead c) tag n = []" using own_chan_sub [OF o] assms by (auto simp: tagged_def)
    have e: "sc_chans (chan_send ch0 (signal_of d) c) ! ch = sc_chans c ! ch" using False by simp
    have "own_chan (chan_send ch0 (signal_of d) c) tag ch" using o unfolding own_chan_def e by simp
    then show ?thesis unfolding t e by simp
  qed
  then show ?thesis by (simp add: routed_def)
qed

lemma routed_skip:
  assumes "\<And>tag ch. own_chan c tag ch \<Longrightarrow> tagged unmarshal (sc_aead c) tag n = []"
  shows "routed unmarshal c [n] c"
  using assms by (simp add: routed_def)

lemma wait_end_step:
  assumes "ending unmarshal c n = None"
  shows "\<exists>c1. wait_end unmarshal (n # ns) c = wait_end unmarshal ns c1 \<and> routed unmarshal c [n] c1"
proof (cases "n_Name n = ''custom-data'' \<and> extractTag unmarshal (sc_aead c) n \<noteq> None")
  case True
  then obtain d where d: "n_Name n = ''custom-data''" "extractTag unmarshal (sc_aead c) n = Some d" by auto
  show ?thesis
  proof (cases "sc_subs c (rd_Type d)")
    case None
    have "routed unmarshal c [n] c" by (rule routed_skip) (use d None in \<open>auto simp: tagged_def dest: own_chan_sub\<close>)
    moreover have "wait_end unmarshal (n # ns) c = wait_end unmarshal ns c"
      using None d assms by (auto simp: routeToSubscriber_def isDisconnectSignal_def ending_def split: if_splits)
    ultimately show ?thesis by blast
  next
    case (Some ch0)
    then have "wait_end unmarshal (n # ns) c = wait_end unmarshal ns (chan_send ch0 (signal_of d) c)" using d by (simp add: routeToSubscriber_def)
    then show ?thesis using routed_send [OF d Some] by blast
  qed
next
  case False
  have "routed unmarshal c [n] c" by (rule routed_skip) (use False in \<open>auto simp: tagged_def split: option.split\<close>)
  moreover have "wait_end unmarshal (n # ns) c = wait_end unmarshal ns c"
    using False assms by (auto simp: routeToSubscriber_def isDisconnectSignal_def ending_def split: if_splits)
  ultimately show ?thesis by blast
qed

lemma wait_end_spec:
  assumes "wait_end unmarshal ns c = (c', reason, nonce)"
  shows "(case dropWhile (\<lambda>n. ending unmarshal c n = None) ns of
       [] \<Rightarrow> reason = SessionEndClosed
     | n # rest \<Rightarrow> ending unmarshal c n = Some (reason, nonce) \<and> sc_incoming c' = rest)
    \<and> routed unmarshal c (takeWhile (\<lambda>n. ending unmarshal c n = None) ns) c'"
  using assms
proof (induction ns arbitrary: c)
  case Nil
  then show ?case using routed_incoming [OF routed_Nil] by auto
next
  case (Cons n ns)
  show ?case
  proof (cases "ending unmarshal c n")
    case None
    then obtain c1 where c1: "wait_end unmarshal (n # ns) c = wait_end unmarshal ns c1" "routed unmarshal c [n] c1"
      using wait_end_step [OF None, of ns] by blast
    have e: "ending unmarshal c1 = ending unmarshal c" using c1(2) unfolding routed_def by (intro ending_cong) simp_all
    have w: "wait_end unmarshal ns c1 = (c', reason, nonce)" using Cons.prems c1(1) by simp
    show ?thesis using Cons.IH [OF w] routed_Cons [OF c1(2)] None unfolding e by simp
  next
    case (Some x)
    then have "wait_end unmarshal (n # ns) c = (c\<lparr>sc_incoming := ns\<rparr>, x)"
      by (auto simp: ending_def routeToSubscriber_def isDisconnectSignal_def split: if_splits option.splits)
    then show ?thesis using Some Cons.prems routed_incoming [OF routed_Nil, of unmarshal c ns] by auto
  qed
qed

text \<open>A session ends with the first notification that ends it, a hang-up of the paired participant (or of an unknown one) or a reset that has no
  subscriber, and with that one's reason and nonce; everything after it stays to be read, and every message before it that has a subscriber has been put into
  that subscriber's channel, in order, as long as there was room.\<close>

theorem vk_session_end:
  assumes "WaitForSessionEnd unmarshal c = (c', reason, nonce)" "own_chan c tag ch"
  shows "(case dropWhile (\<lambda>n. ending unmarshal c n = None) (sc_incoming c) of
       [] \<Rightarrow> reason = SessionEndClosed
     | n # rest \<Rightarrow> ending unmarshal c n = Some (reason, nonce) \<and> sc_incoming c' = rest)
    \<and> sc_chans c' ! ch
      = fill (sc_chans c ! ch) (concat (map (tagged unmarshal (sc_aead c) tag) (takeWhile (\<lambda>n. ending unmarshal c n = None) (sc_incoming c))))"
  using wait_end_spec [of unmarshal "sc_incoming c" c c' reason nonce] assms by (simp add: WaitForSessionEnd_def routed_def)

section \<open>Punch signals\<close>

text \<open>A wait that was prepared before the signal of its index arrives returns, whatever signals of other indices or nonces come too, as long as no other
  wait is prepared for the index.\<close>

lemma punch_deliver_frame [simp]: "pd_nonce (punch_deliver m pd) = pd_nonce pd" "pd_waiters (punch_deliver m pd) = pd_waiters pd"
  by (simp_all add: punch_deliver_def split: option.split)

lemma punch_deliver_mono: "pd_signalled pd \<subseteq> pd_signalled (punch_deliver m pd)"
  by (auto simp: punch_deliver_def split: option.split)

lemma punch_fold_mono: "pd_signalled pd \<subseteq> pd_signalled (fold punch_deliver ms pd)"
  by (induction ms arbitrary: pd) (auto intro: punch_deliver_mono [THEN subsetD])

lemma punch_fold_signalled:
  assumes "pd_waiters pd index = Some w" "m \<in> set ms" "sm_Nonce m = pd_nonce pd" "sm_Index m = index"
  shows "w \<in> pd_signalled (fold punch_deliver ms pd)"
  using assms
proof (induction ms arbitrary: pd)
  case (Cons a ms)
  show ?case
  proof (cases "m = a")
    case True
    then have "w \<in> pd_signalled (punch_deliver a pd)" using Cons.prems by (simp add: punch_deliver_def)
    then show ?thesis using punch_fold_mono [of "punch_deliver a pd" ms] by auto
  qed (use Cons in auto)
qed simp

lemma punch_prepared_returns:
  assumes "PreparePunchWait index (Some pd) = (Some pd1, Some w)" "m \<in> set ms" "sm_Nonce m = pd_nonce pd" "sm_Index m = index"
  shows "snd (punch_wait index (Some w) (Some (fold punch_deliver ms pd1))) = None"
  using assms punch_fold_signalled [of pd1 index w m ms] by (auto simp: PreparePunchWait_def punch_wait_def)

text \<open>The receiving loop of relay addresses and the wait for an acknowledgement route nothing: a message for a subscriber that they read is lost.\<close>

lemma recv_relay_chans: "sc_chans (fst (recv_relay unmarshal skipRole filterNonce ns c)) = sc_chans c"
  by (induction ns) (auto split: option.split)

lemma wait_ack_chans: "sc_chans (fst (wait_ack unmarshal nonce ns c)) = sc_chans c"
  by (induction ns) (auto split: option.split)

lemma recv_relay_loses_signal:
  assumes "sc_incoming c = [n]" "n_Name n = ''custom-data''" "extractTag unmarshal (sc_aead c) n = Some d" "rd_Type d = wirePunchReady"
  shows "sc_incoming (fst (recvRelayData unmarshal skipRole filterNonce c)) = []
    \<and> sc_chans (fst (recvRelayData unmarshal skipRole filterNonce c)) = sc_chans c"
  using assms by (simp add: recvRelayData_def wire_defs recv_relay_chans)

end
