(* ===== verification/Relay_Props.thy ===== *)
theory Relay_Props
  imports Relay_Session Slot_Props Vk_Signal_Props
begin

text \<open>
  Properties of a session between relays: both sides pair the same relays under the same punch indices, when the setup of a client cannot
  end, when the server's loop blocks, and which connections a session gets.
\<close>

section \<open>Pairs in a run of the client\<close>

lemma batch_pairs_enumerate: "batch_pairs p as addrs = List.enumerate p (zip (allocAddrs as) addrs)"
  by (rule nth_equalityI) (simp_all add: batch_pairs_def Let_def allocAddrs_def nth_enumerate_eq)

text \<open>The pairs of what was sent and received, numbered.\<close>

definition exchanged :: "(string list \<times> bool \<times> string) list \<Rightarrow> string list list \<Rightarrow> (string \<times> string) list" where
  "exchanged sent got = concat (map2 (\<lambda>b. zip (fst b)) sent got)"



definition relay_numbered :: "relay_run \<Rightarrow> bool" where
  "relay_numbered r \<longleftrightarrow>
     rr_pairs r = List.enumerate 0 (exchanged (sent_batches (rr_log r)) (received_batches (rr_log r)))
     \<and> rr_punchIdx r = length (rr_pairs r)"


lemma relay_fields [simp]:
  "rr_log (log_relay e r) = rr_log r @ [e]" "rr_pairs (log_relay e r) = rr_pairs r" "rr_punchIdx (log_relay e r) = rr_punchIdx r"
  "rr_mux (log_relay e r) = rr_mux r" "rr_cleanups (log_relay e r) = rr_cleanups r" "rr_batchIdx (log_relay e r) = rr_batchIdx r"
  "rr_log (keep_relays as r) = rr_log r" "rr_pairs (keep_relays as r) = rr_pairs r" "rr_punchIdx (keep_relays as r) = rr_punchIdx r"
  "rr_mux (keep_relays as r) = rr_mux r" "rr_cleanups (keep_relays as r) = rr_cleanups r" "rr_batchIdx (keep_relays as r) = rr_batchIdx r"
  by (simp_all add: log_relay_def keep_relays_def)

lemma take_relay_result_fields [simp]:
  "rr_log (take_relay_result senv now res r) = rr_log r" "rr_pairs (take_relay_result senv now res r) = rr_pairs r"
  "rr_punchIdx (take_relay_result senv now res r) = rr_punchIdx r"
  by (simp_all add: take_relay_result_def Let_def split: sum.split)

lemma take_relay_results_fields [simp]:
  "rr_log (foldl (\<lambda>r i. take_relay_result senv now (f i) r) r is) = rr_log r"
  "rr_pairs (foldl (\<lambda>r i. take_relay_result senv now (f i) r) r is) = rr_pairs r"
  "rr_punchIdx (foldl (\<lambda>r i. take_relay_result senv now (f i) r) r is) = rr_punchIdx r"
  by (induction "is" arbitrary: r) simp_all

lemma relay_handshakes_fields [simp]:
  "rr_log (relay_handshakes hmac senv now x tok sid as addrs r) = rr_log r"
  "rr_pairs (relay_handshakes hmac senv now x tok sid as addrs r) = rr_pairs r @ List.enumerate (rr_punchIdx r) (zip (allocAddrs as) addrs)"
  "rr_punchIdx (relay_handshakes hmac senv now x tok sid as addrs r) = rr_punchIdx r + min (length as) (length addrs)"
  by (simp_all add: relay_handshakes_def Let_def batch_pairs_enumerate)

lemma relay_numbered_cong:
  "relay_numbered r \<Longrightarrow> rr_log r' = rr_log r \<Longrightarrow> rr_pairs r' = rr_pairs r \<Longrightarrow> rr_punchIdx r' = rr_punchIdx r \<Longrightarrow> relay_numbered r'"
  by (simp add: relay_numbered_def)






lemma disconnect_handshake_batches [simp]:
  "sent_batches (disconnect_handshake acks nonce i k) = []" "received_batches (disconnect_handshake acks nonce i k) = []"
  by (induction acks nonce i k rule: disconnect_handshake.induct) (simp_all split: option.split)





section \<open>Pairs in a run of the server\<close>

definition outcome_run :: "accept_outcome \<Rightarrow> accept_run" where
  "outcome_run out = (case out of Proceed r \<Rightarrow> r | Abort r e \<Rightarrow> r | Stuck r \<Rightarrow> r)"

lemma outcome_run_simps [simp]: "outcome_run (Proceed r) = r" "outcome_run (Abort r e) = r" "outcome_run (Stuck r) = r"
  by (simp_all add: outcome_run_def)

text \<open>The batches among the messages of a server.\<close>

definition accept_received :: "accept_msg list \<Rightarrow> (string list \<times> bool \<times> string) list" where
  "accept_received ms = concat (map (\<lambda>m. case fst m of Inl e \<Rightarrow> [] | Inr b \<Rightarrow> [b]) ms)"

lemma accept_received_simps [simp]:
  "accept_received [] = []" "accept_received ((Inl e, io) # ms) = accept_received ms"
  "accept_received ((Inr b, io) # ms) = b # accept_received ms"
  by (simp_all add: accept_received_def)

lemma accept_allocs_fields [simp]:
  "ar_log (fst (accept_allocs net now tap init tokens anon k r)) = ar_log r"
  "ar_pairs (fst (accept_allocs net now tap init tokens anon k r)) = ar_pairs r"
  "ar_total (fst (accept_allocs net now tap init tokens anon k r)) = ar_total r"
  "ar_nonce (fst (accept_allocs net now tap init tokens anon k r)) = ar_nonce r"
  by (simp_all add: accept_allocs_def Let_def split: prod.split sum.split)

lemma log_accept_fields [simp]:
  "ar_log (log_accept e r) = ar_log r @ [e]" "ar_pairs (log_accept e r) = ar_pairs r" "ar_total (log_accept e r) = ar_total r"
  "ar_nonce (log_accept e r) = ar_nonce r" "ar_chan (log_accept e r) = ar_chan r"
  by (simp_all add: log_accept_def)

text \<open>The number of batches up to the first that is marked as the last one.\<close>

fun upto_final :: "(string list \<times> bool \<times> string) list \<Rightarrow> nat" where
  "upto_final [] = 0"
| "upto_final (b # bs) = (if fst (snd b) then 1 else Suc (upto_final bs))"

text \<open>
  What a run of the server adds: answers, at most one for each batch up to the last one, and where there is one for each batch, the pairs of both.
\<close>

definition accept_adds :: "accept_run \<Rightarrow> (string list \<times> bool \<times> string) list \<Rightarrow> accept_run \<Rightarrow> bool" where
  "accept_adds r got r' \<longleftrightarrow>
     (\<exists>new. sent_batches (ar_log r') = sent_batches (ar_log r) @ new \<and> length new \<le> upto_final got
       \<and> (length new = length got \<longrightarrow>
            ar_pairs r' = ar_pairs r @ List.enumerate (ar_total r) (concat (map2 (\<lambda>b c. zip (fst b) (fst c)) new got))))"

lemma upto_final_le: "upto_final bs \<le> length bs"
  by (induction bs) auto

lemma accept_adds_none: "sent_batches (ar_log r') = sent_batches (ar_log r) \<Longrightarrow> ar_pairs r' = ar_pairs r \<Longrightarrow> accept_adds r got r'"
  by (cases got) (auto simp: accept_adds_def intro: exI [of _ "[]"])

lemma accept_adds_skip:
  assumes "accept_adds r1 got r'" "\<not> fst (snd b) \<or> got = []" "sent_batches (ar_log r1) = sent_batches (ar_log r)"
  shows "accept_adds r (b # got) r'"
proof -
  obtain new where "sent_batches (ar_log r') = sent_batches (ar_log r) @ new" "length new \<le> upto_final got"
    using assms(1,3) unfolding accept_adds_def by auto
  moreover from this(2) have "length new \<noteq> length (b # got)" using upto_final_le [of got] by simp
  moreover have "upto_final got \<le> upto_final (b # got)" using assms(2) by auto
  ultimately show ?thesis unfolding accept_adds_def by (intro exI [of _ new]) simp
qed

lemma accept_adds_close: "accept_adds r (b # (if fst (snd b) then [] else got)) r' \<Longrightarrow> accept_adds r (b # got) r'"
  by (cases got; cases "fst (snd b)") (auto simp: accept_adds_def)

lemma accept_adds_start:
  "accept_adds r1 got r' \<Longrightarrow> sent_batches (ar_log r1) = sent_batches (ar_log r) \<Longrightarrow> ar_pairs r1 = ar_pairs r \<Longrightarrow> ar_total r1 = ar_total r \<Longrightarrow>
   accept_adds r got r'"
  by (simp add: accept_adds_def)

lemma accept_adds_answer:
  assumes "accept_adds r1 got r'" "\<not> fst (snd c) \<or> got = []" "sent_batches (ar_log r1) = sent_batches (ar_log r) @ [b]"
    "ar_pairs r1 = ar_pairs r @ List.enumerate (ar_total r) (zip (fst b) (fst c))" "ar_total r1 = ar_total r + min (length (fst b)) (length (fst c))"
  shows "accept_adds r (c # got) r'"
proof -
  obtain new where n: "sent_batches (ar_log r') = sent_batches (ar_log r1) @ new" "length new \<le> upto_final got"
    "length new = length got \<longrightarrow> ar_pairs r' = ar_pairs r1 @ List.enumerate (ar_total r1) (concat (map2 (\<lambda>b c. zip (fst b) (fst c)) new got))"
    using assms(1) unfolding accept_adds_def by blast
  show ?thesis unfolding accept_adds_def
    by (rule exI [of _ "b # new"]) (use n assms(2-5) in \<open>auto simp: enumerate_append_eq\<close>)
qed

lemma accept_pairs_cases:
  assumes "accept_pairs x arrived final addrs allocs r = out"
  shows "(\<exists>e. out = Abort r e)
    \<or> (let r1 = log_accept (SendRelayBatch (allocAddrs allocs) RoleServer (ar_nonce r) (ar_total r) final) r
       in out = Stuck r1 \<or> (\<exists>chan. out = Proceed (r1\<lparr>ar_chan := chan, ar_pairs := ar_pairs r @ List.enumerate (ar_total r) (zip (allocAddrs allocs) addrs),
            ar_total := ar_total r + min (length allocs) (length addrs)\<rparr>)))"
  using assms by (auto simp: accept_pairs_def Let_def batch_pairs_enumerate split: option.splits)

lemma answer_none_cases:
  "answer_none x final r = r \<or> answer_none x final r = log_accept (SendRelayBatch [] RoleServer (ar_nonce r) (ar_total r) final) r"
  by (simp add: answer_none_def)

text \<open>One batch: the run after it, unless it ends the loop.\<close>

lemma accept_batch_adds:
  assumes "accept_allocs net now tap init tokens anon k r0 = (r1, allocs, err)"
    "sent_batches (ar_log r0) = sent_batches (ar_log r)" "ar_pairs r0 = ar_pairs r" "ar_total r0 = ar_total r"
  shows "accept_adds (answer_none x final r1) (if fst (snd b) then [] else got) r' \<Longrightarrow> accept_adds r (b # got) r'"
    and "accept_pairs x arrived final (fst b) allocs r1 = Proceed r2 \<Longrightarrow> accept_adds r2 (if fst (snd b) then [] else got) r' \<Longrightarrow>
      accept_adds r (b # got) r'"
    and "accept_pairs x arrived final (fst b) allocs r1 = Abort r2 e \<Longrightarrow> accept_adds r got' r2"
proof -
  have r1: "sent_batches (ar_log r1) = sent_batches (ar_log r)" "ar_pairs r1 = ar_pairs r" "ar_total r1 = ar_total r"
    using accept_allocs_fields(1-3) [of net now tap init tokens anon k r0] assms by simp_all
  have fin: "\<not> fst (snd b) \<or> (if fst (snd b) then [] else got) = []" by simp
  show "accept_adds r (b # got) r'" if "accept_adds (answer_none x final r1) (if fst (snd b) then [] else got) r'"
    using answer_none_cases [of x final r1]
  proof
    assume "answer_none x final r1 = r1"
    then show ?thesis using accept_adds_close [OF accept_adds_skip [OF that fin, of r]] r1 by simp
  next
    assume "answer_none x final r1 = log_accept (SendRelayBatch [] RoleServer (ar_nonce r1) (ar_total r1) final) r1"
    then show ?thesis using accept_adds_close [OF accept_adds_answer [OF that fin, of r "([], final, ar_nonce r1)"]] r1 by simp
  qed
  show "accept_adds r (b # got) r'" if "accept_pairs x arrived final (fst b) allocs r1 = Proceed r2"
    "accept_adds r2 (if fst (snd b) then [] else got) r'"
  proof (rule accept_adds_close [OF accept_adds_answer [OF that(2) fin, of r "(allocAddrs allocs, final, ar_nonce r1)"]])
  qed (use accept_pairs_cases [OF that(1)] r1 in \<open>auto simp: Let_def allocAddrs_def\<close>)
  show "accept_adds r got' r2" if "accept_pairs x arrived final (fst b) allocs r1 = Abort r2 e"
    using accept_pairs_cases [OF that] r1 by (auto simp: Let_def intro: accept_adds_none)
qed

lemma accept_batches_adds:
  assumes "accept_batches net now tap init tokens ms r = out" "\<And>r'. out \<noteq> Stuck r'"
  shows "accept_adds r (accept_received ms) (outcome_run out)"
  using assms
proof (induction ms arbitrary: r)
  case Nil
  then show ?case by (auto intro: accept_adds_none)
next
  case (Cons m ms)
  obtain msg anon x arrived where m: "m = (msg, anon, x, arrived)" by (metis prod_cases4)
  show ?case
  proof (cases msg)
    case (Inl ec)
    obtain e c where ec: "ec = (e, c)" by fastforce
    have "accept_adds r (accept_received ms) (outcome_run out)"
      if "out = accept_batches net now tap init tokens ms (log_accept (SendDisconnectAck k) r)" for k
      using accept_adds_start [OF Cons.IH [of "log_accept (SendDisconnectAck k) r"]] that Cons.prems(2) by simp
    then show ?thesis using Cons.prems(1) unfolding m Inl ec
      by (auto simp: Let_def split: option.splits if_splits intro: accept_adds_none)
  next
    case (Inr b)
    obtain addrs final nonce where b: "b = (addrs, final, nonce)" by (cases b) auto
    let ?r0 = "if ar_nonce r = [] then r\<lparr>ar_nonce := nonce\<rparr> else r"
    obtain r1 allocs err where a: "accept_allocs net now tap init tokens anon (length addrs) ?r0 = (r1, allocs, err)" by (metis prod_cases3)
    have r0: "sent_batches (ar_log ?r0) = sent_batches (ar_log r)" "ar_pairs ?r0 = ar_pairs r" "ar_total ?r0 = ar_total r" by simp_all
    note steps = accept_batch_adds [OF a r0]
    define go where "go = (\<lambda>r. if final then Proceed r else accept_batches net now tap init tokens ms r)"
    have go: "accept_adds r2 (if fst (snd b) then [] else accept_received ms) (outcome_run out)" if "out = go r2" for r2
      using Cons.IH [of r2] Cons.prems(2) that by (cases final) (auto simp: go_def b intro: accept_adds_none)
    show ?thesis
    proof (cases "addrs = [] ")
      case True
      then have "out = go ?r0" using Cons.prems(1) by (simp add: m Inr b Let_def go_def)
      then have "accept_adds r (b # (if fst (snd b) then [] else accept_received ms)) (outcome_run out)"
        using accept_adds_skip [OF go, of ?r0 b r] by simp
      then show ?thesis using accept_adds_close by (simp add: m Inr)
    next
      case False
      then have out: "out = (if err \<noteq> None \<and> is_expired_error (the err)
          then Abort (answer_none x final r1) (Wrapf ''credentials expired during allocation'' ErrCredentialsExpired)
          else if err \<noteq> None \<and> allocs = [] then go (answer_none x final r1)
          else case accept_pairs x arrived final addrs allocs r1 of Proceed r2 \<Rightarrow> go r2 | Abort r2 e \<Rightarrow> Abort r2 e | Stuck r2 \<Rightarrow> Stuck r2)"
        using Cons.prems(1) [symmetric] unfolding m Inr b accept_batches.simps Let_def a prod.case go_def by (simp only: False if_False)
      then consider (expired) e where "out = Abort (answer_none x final r1) e" | (none) "out = go (answer_none x final r1)"
        | (pairs) r2 where "accept_pairs x arrived final addrs allocs r1 = Proceed r2" "out = go r2"
        | (aborted) r2 e where "accept_pairs x arrived final addrs allocs r1 = Abort r2 e" "out = Abort r2 e"
        | (stuck) r2 where "out = Stuck r2"
        by (cases "accept_pairs x arrived final addrs allocs r1") (auto split: if_splits)
      then show ?thesis
      proof cases
        case expired
        then show ?thesis using steps(1) [of x final b "accept_received ms"] accept_adds_none [OF refl refl] by (simp add: m Inr)
      next
        case none
        then show ?thesis using steps(1) [OF go] by (simp add: m Inr)
      next
        case pairs
        then show ?thesis using steps(2) [of x arrived final b, OF _ go] by (simp add: m Inr b)
      next
        case aborted
        then show ?thesis using steps(3) [of x arrived final b] by (simp add: m Inr b)
      next
        case stuck
        then show ?thesis using Cons.prems(2) by blast
      qed
    qed
  qed
qed


lemma accept_run_adds:
  assumes "acceptOneClient hmac senv now net tap tcp tok init tokens ms results = Some (ra, res)"
  shows "accept_adds (accept_start tcp init) (accept_received ms) ra"
proof -
  let ?out = "accept_batches net now tap init (server_deduplicateTokens tokens) ms (accept_start tcp init)"
  have "ra = outcome_run ?out" "\<And>r'. ?out \<noteq> Stuck r'"
    using assms by (auto simp: acceptOneClient_def Let_def split: accept_outcome.splits if_splits)
  then show ?thesis using accept_batches_adds [OF refl] by simp
qed


text \<open>A call in which the client has two tokens, of which the second fails, and the server one relay for each address.\<close>

definition demo_creds :: Credentials where
  "demo_creds = \<lparr>Username = ''u'', Password = ''p'', Host = ''h'', Port = ''1'', Servers = []\<rparr>"

definition demo_net :: turn_net where
  "demo_net = (\<lambda>_ _ _ _. \<lparr>dial_err = None, client_err = None, listen_err = None, alloc_res = Inr ''c:1''\<rparr>)"

definition demo_join :: join_outcome where
  "demo_join = \<lparr>jo_tokenAuth = True, jo_token = (\<lambda>_. None), jo_anon = None, jo_sig = Inr 5, jo_key = None\<rparr>"

definition demo_env :: "client_batch list \<Rightarrow> relay_env" where
  "demo_env bs =
     \<lparr>re_join = demo_join, re_creds = demo_creds, re_acks = (\<lambda>_. None), re_rnd = [7], re_sessionID = replicate 16 7, re_net = demo_net,
      re_tap = Some (\<lambda>t. Inl (Errorf t)), re_tokenOrder = (\<lambda>n. [0..<n]), re_x0 = demo_exchange [''s:1''], re_batches = (\<lambda>_. bs)\<rparr>"

definition demo_msg :: "string list \<Rightarrow> bool \<Rightarrow> accept_msg" where
  "demo_msg addrs final =
     (Inr (addrs, final, ''07''), \<lambda>k. map (\<lambda>i. (i, Inr (demo_relay ''s:1''))) [0..<k], demo_exchange [], \<lambda>_. 0)"






section \<open>A last batch that is not the last\<close>

lemma relay_batches_log: "\<exists>es. rr_log (relay_batches hmac senv now tok sid nonce bs r) = rr_log r @ es"
proof (induction bs arbitrary: r)
  case (Cons b bs)
  have "\<exists>es. rr_log (relay_batches hmac senv now tok sid nonce bs r') = rr_log r @ es" if "rr_log r' = rr_log r @ es'" for r' es'
    using Cons [of r'] that by auto
  then show ?case by (cases b) (force simp: Let_def split: option.split sum.split)
qed simp

lemma relay_batches_sends:
  assumes "as \<noteq> []" "ex_send x = None"
  shows "\<exists>rest. sent_batches (rr_log (relay_batches hmac senv now tok sid nonce ((as, final, x) # bs) r))
    = sent_batches (rr_log r) @ (allocAddrs as, final, nonce) # rest"
proof -
  let ?r1 = "log_relay (SendRelayBatch (allocAddrs as) RoleClient nonce (rr_batchIdx r) final) (keep_relays as r)"
  have "\<exists>es. rr_log (relay_batches hmac senv now tok sid nonce ((as, final, x) # bs) r) = rr_log ?r1 @ es"
  proof (cases "ex_recv x")
    case (Inr addrs)
    let ?r3 = "(relay_handshakes hmac senv now x tok sid as addrs (log_relay (RecvRelayBatch addrs) ?r1))"
    show ?thesis using Inr assms relay_batches_log [of hmac senv now tok sid nonce bs "?r3\<lparr>rr_batchIdx := rr_batchIdx ?r3 + 1\<rparr>"]
      by (auto simp: Let_def)
  qed (use assms in simp)
  then show ?thesis by auto
qed

lemma client_token_allocs_length: "length (snd (client_token_allocs net now tap creds tokens is mgr got)) = length got"
  by (induction net now tap creds tokens "is" mgr got rule: client_token_allocs.induct) (auto split: prod.split sum.split)

text \<open>With as many tokens as connections, of which some but not all give a relay, a client marks the batch of the tokens as the last one and
  then sends another one for the connections that are missing; the server answers at most one of them, so the client waits for an answer that never comes.\<close>

theorem relay_batch_unanswered:
  assumes join: "relay_join (re_join env) tok tokens = (sigs, Inr c)"
    and ts: "take n (client_deduplicateTokens tokens) = ts" "length ts = n"
    and alloc: "client_token_allocs (re_net env) now (re_tap env) (re_creds env) ts (re_tokenOrder env n) (rr_mgr (relay_start tcp env))
      (replicate n None) = (mgr, got)" "0 < length (somes got)" "length (somes got) < n"
    and x0: "ex_send (re_x0 env) = None" "ex_recv (re_x0 env) = Inr addrs"
    and batch: "re_batches env (n - length (somes got)) = (as, final, x) # bs" "as \<noteq> []" "ex_send x = None"
    and run: "connectRelaySession hmac senv now n tcp tok tokens env = (t, res)"
    and server: "acceptOneClient hmac' senv' now' net tap tcp' tok' init tokens' ms results = Some (ra, sres)"
      "accept_received ms = sent_batches (rt_log t)"
  shows "length (sent_batches (ar_log ra)) \<le> 1 \<and> 2 \<le> length (sent_batches (rt_log t))"
proof -
  let ?nonce = "generateNonce (re_rnd env)"
  have "length got = n" using client_token_allocs_length [of "re_net env" now "re_tap env" "re_creds env" ts "re_tokenOrder env n"
      "rr_mgr (relay_start tcp env)" "replicate n None"] alloc(1) by simp
  moreover have "ts \<noteq> []" using ts alloc(3) by auto
  moreover have "somes got \<noteq> []" using alloc(2) by auto
  ultimately obtain r1 where tp: "token_phase hmac senv now tok ts 0 env (relay_start tcp env) = (r1, n - length (somes got), None)"
    and l: "rr_log r1 = rr_log (relay_start tcp env) @ [SendRelayBatch (allocAddrs (somes got)) RoleClient ?nonce 0 True, RecvRelayBatch addrs]"
    using alloc x0 ts(2) by (auto simp: token_phase_def token_batch_def Let_def relay_start_def)
  let ?r2 = "anon_phase hmac senv now tok (n - length (somes got)) env r1"
  obtain rest where "sent_batches (rr_log ?r2) = (allocAddrs (somes got), True, ?nonce) # (allocAddrs as, final, ?nonce) # rest"
    using relay_batches_sends [OF batch(2,3), of hmac senv now tok "re_sessionID env" ?nonce final bs r1] alloc(3)
    by (auto simp: anon_phase_def batch(1) l relay_start_def Let_def)
  moreover have "rt_log t = rr_log ?r2"
    using run join ts tp by (auto simp: connectRelaySession_def relay_result_def trace_of_def Let_def split: option.splits)
  ultimately have sent: "sent_batches (rt_log t) = (allocAddrs (somes got), True, ?nonce) # (allocAddrs as, final, ?nonce) # rest" by simp
  have "accept_adds (accept_start tcp' init) (accept_received ms) ra" using accept_run_adds [OF server(1)] .
  then show ?thesis unfolding server(2) sent by (auto simp: accept_adds_def accept_start_def)
qed

definition demo_env2 :: relay_env where
  "demo_env2 = demo_env [([demo_relay ''c:2''], True, demo_exchange [''s:2''])]"

definition demo_connect2 :: "relay_trace \<times> (goerr + relaySession)" where
  "demo_connect2 = connectRelaySession (\<lambda>_ _. []) False 0 2 True [1] [''t'', ''u''] demo_env2"

definition demo_accept2 :: "(accept_run \<times> (goerr + serve_run)) option" where
  "demo_accept2 = acceptOneClient (\<lambda>_ _. []) False 0 demo_net None True [] None [] [demo_msg [''c:1''] True, demo_msg [''c:2''] True]
     (\<lambda>_. [Inr \<lparr>dc_id = 0, dc_cleanup = True, dc_write = (\<lambda>_. True), dc_in = replicate 16 7\<rparr>])"

lemma demo_two_runs:
  "demo_accept2 \<noteq> None" "sent_batches (rt_log (fst demo_connect2)) = [([''c:1''], True, ''07''), ([''c:2''], True, ''07'')]"
  by code_simp+

lemma demo_two_allocs:
  "client_token_allocs (re_net demo_env2) 0 (re_tap demo_env2) (re_creds demo_env2) [''t'', ''u''] (re_tokenOrder demo_env2 2)
     (rr_mgr (relay_start True demo_env2)) (replicate 2 None)
   = (fst (client_token_allocs (re_net demo_env2) 0 (re_tap demo_env2) (re_creds demo_env2) [''t'', ''u''] [0, 1]
       (rr_mgr (relay_start True demo_env2)) [None, None]),
      [Some \<lparr>RelayAddr = ''c:1'', al_Creds = demo_creds, CreatedAt = 0\<rparr>, None])"
  by code_simp

section \<open>Which connections a session gets\<close>

definition admitted :: "(bytes \<Rightarrow> bytes \<Rightarrow> bytes) \<Rightarrow> bytes \<Rightarrow> goerr + dconn \<Rightarrow> bool" where
  "admitted hmac tok res = (case res of Inl e \<Rightarrow> False | Inr c \<Rightarrow> \<not> isl (server_preamble hmac tok (dc_in c)))"

definition established :: "(goerr + dconn) list \<Rightarrow> nat list" where
  "established rs = concat (map (\<lambda>res. case res of Inl e \<Rightarrow> [] | Inr c \<Rightarrow> [dc_id c]) rs)"

lemma session_mux_reach: "mux_reach (Some (session_mux senv now))"
proof -
  have "reachable (session_mux senv now, pd)" if "reachable (New senv now 0, pd)" for pd
    unfolding session_mux_def
    by (intro reachable.step [OF _ mux_step.set_max] reachable.step [OF _ mux_step.set_idle] reachable.step [OF _ mux_step.enable_accept]
        reachable.step [OF _ mux_step.enable_raw] that) simp
  then show ?thesis using reachable.init by (auto simp: mux_reach_def intro: exI [of _ "[]"])
qed

text \<open>What a session has after some results.\<close>

definition serve_ok :: "(bytes \<Rightarrow> bytes \<Rightarrow> bytes) \<Rightarrow> bytes \<Rightarrow> (goerr + dconn) list \<Rightarrow> serve_run \<Rightarrow> bool" where
  "serve_ok hmac tok rs v \<longleftrightarrow>
     sv_added v = length (filter (admitted hmac tok) rs) \<and> ActiveConns (sv_mux v) = int (sv_added v) \<and> mux_reach (Some (sv_mux v))
     \<and> sv_connsClosed v = established (filter (\<lambda>r. \<not> admitted hmac tok r) rs) \<and> sv_cleanups v = established rs"

lemma serve_start_ok: "serve_ok hmac tok [] (serve_start senv now)"
  using session_mux_reach [of senv now]
  by (simp add: serve_ok_def serve_start_def established_def)
     (simp add: session_mux_def ActiveConns_def New_def SetMaxStreams_def SetIdleTimeout_def EnableStreamAccept_def EnableRawPackets_def)

lemma serve_result_ok: "serve_ok hmac tok rs v \<Longrightarrow> serve_ok hmac tok (rs @ [res]) (serve_result hmac now tok res v)"
  using add_to_mux_readers [of False now "Some (sv_mux v)"] add_to_mux_reach [of "Some (sv_mux v)" False now]
  by (cases res)
     (auto simp: serve_ok_def serve_result_def admitted_def established_def add_to_mux_def readers_def Let_def split: sum.split)

text \<open>The session of a server has exactly as many active connections as there are results whose preamble is admitted, its multiplexer stays in a
  state that its own operations reach, the connections that are not admitted are closed, and every connection that was established has its cleanup kept.\<close>

theorem serve_admits:
  "serve_ok hmac tok rs (foldl (\<lambda>v res. serve_result hmac now tok res v) (serve_start senv now) rs)"
  by (induction rs rule: rev_induct) (simp_all add: serve_start_ok serve_result_ok)

section \<open>The loop that starts the handshakes\<close>

text \<open>
  Addresses that resolve never stop the loop.  More addresses that do not resolve than the channel has room for stop it for ever: the loop
  itself has to put their results, and nothing takes any before the loop ends.
\<close>

lemma start_handshakes_resolved: "\<forall>a\<in>set as. resolve a = None \<Longrightarrow> start_handshakes resolve arrived as i chan \<noteq> None"
  by (induction as arbitrary: i chan) (simp_all add: Let_def)

lemma start_handshakes_full:
  "\<forall>a\<in>set as. resolve a \<noteq> None \<Longrightarrow> results_cap - chan < length as \<Longrightarrow> start_handshakes resolve arrived as i chan = None"
proof (induction as arbitrary: i chan)
  case (Cons a as)
  obtain e where "resolve a = Some e" using Cons.prems(1) by auto
  then show ?case using Cons.prems Cons.IH [of "min results_cap (chan + arrived i) + 1" "i + 1"] by (auto simp: Let_def min_def split: if_splits)
qed simp

lemma accept_loop_blocks:
  assumes "ex_send x = None" "\<forall>a\<in>set addrs. ex_resolve x a \<noteq> None" "results_cap < min (length allocs) (length addrs)"
  shows "\<exists>r1. accept_pairs x arrived final addrs allocs r = Stuck r1"
proof -
  have "start_handshakes (ex_resolve x) arrived (take (min (length allocs) (length addrs)) addrs) 0 (ar_chan r) = None"
    by (rule start_handshakes_full) (use assms(2,3) in \<open>auto dest: in_set_takeD\<close>)
  then show ?thesis using assms(1) by (simp add: accept_pairs_def Let_def)
qed

end
