(* ===== verification/Reconnect_Props.thy ===== *)
theory Reconnect_Props
  imports Reconnect Slot_Props
begin

text \<open>
  Properties of reconnecting: what one attempt does, that the multiplexer's count of reconnects in progress is balanced on every path, which relays a
  late acknowledgement pairs, and that a hang-up makes the client replace its session for ever.
\<close>

section \<open>One attempt\<close>

lemma reconnect_dtls_mux:
  "reconnect_dtls hmac tok sid e mine theirs r = (r', err) \<Longrightarrow>
   rc_m r' = (if err = None then AddConn (ae_now e) (rc_m r) else rc_m r) \<and> rc_ack r' = rc_ack r"
  by (auto simp: reconnect_dtls_def Let_def split: option.splits sum.splits if_splits)

lemma reconnectOne_mux:
  assumes "reconnectOne hmac tok sid e r = (r', err)"
  shows "rc_m r' = (if err = None then AddConn (ae_now e) (rc_m r) else rc_m r)"
  using assms reconnect_dtls_mux
  by (fastforce simp: reconnectOne_def Let_def split: prod.splits sum.splits option.splits list.splits)

text \<open>The attempt at the level of addresses: the pair it tries when everything up to the handshake succeeds.\<close>

lemma reconnectOne_pair:
  assumes "Allocate (ae_allocs e) (rc_mgr r) = (mgr1, Inr (a # as))" "ae_send e = None"
    "ack_arrive (rc_ack r) (ae_acks e) = msg # rest" "ack_addr msg = Some s" "ae_resolve e s = None"
  shows "rc_pairs (fst (reconnectOne hmac tok sid e r)) = rc_pairs r @ [(RelayAddr a, s)]
    \<and> rc_ack (fst (reconnectOne hmac tok sid e r)) = rest \<and> rc_sent (fst (reconnectOne hmac tok sid e r)) = rc_sent r @ [RelayAddr a]
    \<and> rc_mgr (fst (reconnectOne hmac tok sid e r)) = mgr1"
  using assms by (simp add: reconnectOne_def reconnect_dtls_def Let_def split: sum.split)

section \<open>Balance\<close>

text \<open>What other goroutines do to the multiplexer meanwhile leaves the count of reconnects alone; here the goroutine that drains the deaths.\<close>

definition mux_keeps :: "Mux \<Rightarrow> Mux \<Rightarrow> bool" where
  "mux_keeps m m' \<longleftrightarrow> reconnecting m' = reconnecting m"

lemma mux_keeps_refl [simp]: "mux_keeps m m"
  by (simp add: mux_keeps_def)

lemma mux_keeps_trans: "mux_keeps m m' \<Longrightarrow> mux_keeps m' m'' \<Longrightarrow> mux_keeps m m''"
  by (simp add: mux_keeps_def)

lemma mux_keeps_AddConn: "mux_keeps m (AddConn now m)"
  by (simp add: mux_keeps_def AddConn_def Let_def split: prod.split)

lemma mux_keeps_only_conns: "only_conns m m' \<Longrightarrow> mux_keeps m m'"
  using only_conns_fields(14) by (simp add: mux_keeps_def)

lemma mux_keeps_probe: "mux_keeps m (ProbeConnections wok m)"
  by (rule mux_keeps_only_conns [OF only_conns_probe])

lemma mux_keeps_closeStream: "mux_keeps m (closeStream p m)"
  by (simp add: mux_keeps_def closeStream_def Let_def split: prod.split option.split)

lemma mux_keeps_RemoveConn: "mux_keeps m (RemoveConn wok now idx m)"
proof -
  have "mux_keeps m' (foldl (\<lambda>m p. if stale_gap now m p then closeStream p m else m) m' ps)" for m' ps
    by (induction ps arbitrary: m') (auto intro: mux_keeps_trans mux_keeps_closeStream)
  moreover have "mux_keeps m' (retransmit wok fs (upd_conn a f m'))" for fs a f m'
    using mux_keeps_only_conns only_conns_trans [OF only_conns_upd_conn only_conns_retransmit] by blast
  ultimately show ?thesis unfolding RemoveConn_def
    by (auto simp: Let_def mux_keeps_def split: prod.split option.split)
qed

lemma mux_keeps_reconnectOne: "reconnectOne hmac tok sid e r = (r', err) \<Longrightarrow> mux_keeps (rc_m r) (rc_m r')"
  using reconnectOne_mux mux_keeps_AddConn by (metis mux_keeps_refl)

definition env_keeps :: "attempt_env \<Rightarrow> bool" where
  "env_keeps e \<longleftrightarrow> (\<forall>m. mux_keeps m (ae_mux e m))"

text \<open>The multiplexer after the attempts: one that is kept, then the end of the reconnect.\<close>

lemma reconnect_attempts_keeps:
  assumes "\<forall>e\<in>set es. env_keeps e" "reconnect_attempts hmac tok sid target attempt backoff critical es r = (r', crit, waits, out)"
  shows "\<exists>m. mux_keeps (rc_m r) m \<and> rc_m r' = EndReconnect m"
  using assms
proof (induction es arbitrary: attempt backoff critical r crit waits)
  case Nil
  then show ?case by (auto simp: end_reconnect_def intro: exI [of _ "rc_m r"])
next
  case (Cons e es)
  obtain r1 err where r1: "reconnectOne hmac tok sid e r = (r1, err)" by fastforce
  have k: "mux_keeps (rc_m r) (rc_m r1)" by (rule mux_keeps_reconnectOne [OF r1])
  have e: "mux_keeps (rc_m r1) (ae_mux e (rc_m r1))" using Cons.prems(1) by (simp add: env_keeps_def)
  let ?r2 = "r1\<lparr>rc_m := ae_mux e (rc_m r1), rc_ack := ack_arrive (rc_ack r1) (ae_late e)\<rparr>"
  consider (stop) "r' = end_reconnect r" | (fin) "r' = end_reconnect r1"
    | (more) attempt' backoff' critical' waits' where
        "reconnect_attempts hmac tok sid target attempt' backoff' critical' es ?r2 = (r', crit, waits', out)"
    using Cons.prems(2) r1 by (auto simp: Let_def split: if_splits option.splits prod.splits)
  then show ?case
  proof cases
    case stop
    then show ?thesis by (auto simp: end_reconnect_def intro: exI [of _ "rc_m r"])
  next
    case fin
    then show ?thesis using k by (auto simp: end_reconnect_def)
  next
    case more
    then obtain m where "mux_keeps (rc_m ?r2) m" "rc_m r' = EndReconnect m" using Cons.IH [OF _ more] Cons.prems(1) by auto
    then show ?thesis using mux_keeps_trans [OF k mux_keeps_trans [OF e]] by auto
  qed
qed

lemma mux_keeps_bracket: "mux_keeps (BeginReconnect m) m1 \<Longrightarrow> mux_keeps m (EndReconnect m1)"
  by (simp add: mux_keeps_def EndReconnect_def BeginReconnect_def Let_def)

lemma reconnect_needed_keeps:
  assumes "\<forall>es\<in>set ess. \<forall>e\<in>set es. env_keeps e"
  shows "mux_keeps (rc_m r) (rc_m (fst (reconnect_needed hmac tok sid target critical ess r)))"
  using assms
proof (induction ess arbitrary: critical r)
  case (Cons es ess)
  obtain r1 crit waits out where a: "reconnect_attempts hmac tok sid target 1 (10 ^ 9) critical es (r\<lparr>rc_m := BeginReconnect (rc_m r)\<rparr>)
      = (r1, crit, waits, out)" by (metis prod_cases4)
  have k: "mux_keeps (rc_m r) (rc_m r1)" using reconnect_attempts_keeps [OF _ a] Cons.prems mux_keeps_bracket by auto
  then show ?case using a Cons.prems mux_keeps_trans [OF k Cons.IH] by (auto split: slot_end.split)
qed simp

text \<open>C14: A round of the reconnect manager, whatever the allocations, the server and the handshakes answer, and whichever way it ends (all
  connections back, giving up until the next round, the context or the signaling connection ending), leaves the count of reconnects in progress as it
  was, so that the multiplexer can shut down again once its last connection is gone.\<close>

theorem reconnect_round_balanced:
  assumes "\<forall>m. mux_keeps m (probed m)" "\<forall>k. \<forall>es\<in>set (env k). \<forall>e\<in>set es. env_keeps e"
  shows "reconnecting (rc_m (fst (rm_round hmac tok sid target alive now wok probed env r))) = reconnecting (rc_m r)"
proof -
  have n: "mux_keeps (rc_m r') (rc_m (fst (reconnect_needed hmac tok sid target c (take k (env k)) r')))" for r' c k
    by (rule reconnect_needed_keeps) (use assms(2) in \<open>auto dest: in_set_takeD\<close>)
  have p: "mux_keeps (rc_m r) (probed (ProbeConnections wok (rc_m r)))" using mux_keeps_trans [OF mux_keeps_probe] assms(1) by blast
  have "mux_keeps (rc_m r) (rc_m (fst (rm_round hmac tok sid target alive now wok probed env r)))"
    using n p mux_keeps_trans [OF p n [of "r\<lparr>rc_m := probed (ProbeConnections wok (rc_m r))\<rparr>", simplified]]
    by (auto simp: rm_round_def Let_def split: rm_action.split)
  then show ?thesis by (simp add: mux_keeps_def)
qed

text \<open>A session with one connection of two; one attempt brings the other one back.\<close>

definition demo_ack :: "string \<Rightarrow> SignalMessage" where
  "demo_ack addr = \<lparr>sm_Type = WireConnOk, sm_Payload = b64_encode (bytes_of_string addr), sm_Nonce = [], sm_Index = 0\<rparr>"

definition demo_attempt :: "string \<Rightarrow> string \<Rightarrow> attempt_env" where
  "demo_attempt mine theirs =
     \<lparr>ae_alive = True, ae_allocs = [(0, Inr (demo_relay mine))], ae_send = None, ae_acks = [demo_ack theirs], ae_stop = ErrContext,
      ae_resolve = (\<lambda>_. None), ae_dial = Inr \<lparr>dc_id = 0, dc_cleanup = True, dc_write = (\<lambda>_. True), dc_in = []\<rparr>, ae_rnd = [],
      ae_done = False, ae_late = [], ae_mux = id, ae_now = 0\<rparr>"

definition demo_reconn :: "SignalMessage list \<Rightarrow> reconn" where
  "demo_reconn acks =
     \<lparr>rc_mgr = NewManager True True, rc_m = New False 0 1, rc_ack = acks, rc_sent = [], rc_pairs = [], rc_connsClosed = []\<rparr>"

definition demo_round :: "reconn \<times> bool" where
  "demo_round = rm_round (\<lambda>_ _. []) [] (replicate 16 7) 2 True 0 (\<lambda>_ _. True) id (\<lambda>_. [[demo_attempt ''c:1'' ''s:1'']]) (demo_reconn [])"

lemma demo_round_run: "ActiveConns (rc_m (fst demo_round)) = 2" "rc_pairs (fst demo_round) = [(''c:1'', ''s:1'')]"
  by code_simp+

theorem reconnect_round_balanced_witness:
  "reconnecting (rc_m (fst demo_round)) = 0 \<and> ActiveConns (rc_m (fst demo_round)) = 2"
proof -
  have "env_keeps (demo_attempt ''c:1'' ''s:1'')" by (simp add: env_keeps_def demo_attempt_def)
  moreover have "reconnecting (rc_m (demo_reconn [])) = 0" by (simp add: demo_reconn_def New_def)
  ultimately show ?thesis
    using reconnect_round_balanced [of id "\<lambda>_. [[demo_attempt ''c:1'' ''s:1'']]" "\<lambda>_ _. []" "[]" "replicate 16 7" 2 True 0 "\<lambda>_ _. True" "demo_reconn []"]
      demo_round_run(1)
    by (simp add: demo_round_def)
qed

section \<open>Removing a connection late\<close>

lemma RemoveConn_cstore: "length (cstore (RemoveConn wok now idx m)) = length (cstore m)"
proof -
  have c: "length (cstore (foldl (\<lambda>m p. if stale_gap now m p then closeStream p m else m) m' ps)) = length (cstore m')" for m' ps
    by (induction ps arbitrary: m') (simp_all add: closeStream_def Let_def split: prod.split option.split)
  have "length (cstore (retransmit wok fs (upd_conn a f m'))) = length (cstore m')" for fs a f m'
    using only_conns_fields(12) [OF only_conns_trans [OF only_conns_upd_conn only_conns_retransmit]] .
  then show ?thesis unfolding RemoveConn_def by (simp add: c Let_def split: prod.split option.split)
qed

lemma reader_exit_conns:
  assumes "mux_inv m" "idx < length (conns m)" "conns m ! idx = Some a"
  shows "conns (reader_exit wok now (int idx) a m) = (conns m)[idx := None]"
    "length (cstore (reader_exit wok now (int idx) a m)) = length (cstore m)"
proof -
  let ?m1 = "upd_conn a (\<lambda>c. c\<lparr>connClosed := True, writeChClosed := True\<rparr>) m"
  have m1: "mux_inv ?m1" "conns ?m1 = conns m" "length (cstore ?m1) = length (cstore m)"
    using only_conns_inv [OF only_conns_upd_conn assms(1)] only_conns_fields [OF only_conns_upd_conn] by simp_all
  have "conns (RemoveConn wok now (int idx) ?m1) = (conns m)[idx := None]"
    using RemoveConn_inv [of ?m1 "int idx" a wok now] m1 assms by (simp add: fix_readers_id)
  then show "conns (reader_exit wok now (int idx) a m) = (conns m)[idx := None]" by (simp add: reader_exit_def Let_def)
  show "length (cstore (reader_exit wok now (int idx) a m)) = length (cstore m)"
    using RemoveConn_cstore [of wok now "int idx" ?m1] m1(3) by (simp add: reader_exit_def Let_def)
qed

lemma in_somes: "x \<in> set (somes xs) \<longleftrightarrow> Some x \<in> set xs"
  by (induction xs rule: somes.induct) auto

lemma first_free_at: "i < length cs \<Longrightarrow> cs ! i = None \<Longrightarrow> \<forall>j<i. cs ! j \<noteq> None \<Longrightarrow> first_free cs = Some i"
proof (induction cs arbitrary: i rule: first_free.induct)
  case (2 cs)
  then show ?case by (cases i) auto
next
  case (3 a cs)
  then show ?case by (cases i) (auto simp: All_less_Suc2)
qed simp

text \<open>When a connection dies, its slot is freed and its index announced; when a new connection has taken the slot before the announcement is handled, the handler
  removes the new connection from the slots: it stays open and counted as active, but nothing is sent over it any more.\<close>

theorem late_removal_drops_connection:
  assumes "reachable (m, pd)" "idx < length (conns m)" "conns m ! idx = Some a" "\<forall>j<idx. conns m ! j \<noteq> None"
    "rc_m r = AddConn now' (reader_exit wok now (int idx) a m)"
  shows "let b = length (cstore m); m' = rc_m (rm_conn_died wok' now'' (int idx) r)
    in b \<in> set (live_conns (rc_m r)) \<and> b \<notin> set (live_conns m') \<and> ActiveConns m' = ActiveConns (rc_m r) \<and> ActiveConns m' = int (TotalConns m') + 1"
proof -
  have inv: "mux_inv m" using reachable_inv [OF assms(1)] by simp
  let ?m1 = "reader_exit wok now (int idx) a m"
  note e = reader_exit_conns [OF inv assms(2,3), of wok now]
  have "first_free (conns ?m1) = Some idx" unfolding e(1) by (rule first_free_at) (use assms(2-4) in auto)
  then have c: "conns (rc_m r) = (conns m)[idx := Some (length (cstore m))]" by (simp add: assms(5) AddConn_def Let_def e)
  have "reachable (rc_m r, pd)"
    unfolding assms(5) by (intro reachable.step [OF _ mux_step.add_conn] reachable.step [OF assms(1) mux_step.reader_exit]) (use assms(2,3) in auto)
  then have inv2: "mux_inv (rc_m r)" using reachable_inv by fastforce
  have i: "conns (rc_m r) ! idx = Some (length (cstore m))" "idx < length (conns (rc_m r))" using c assms(2) by simp_all
  have d: "distinct (somes (conns (rc_m r)))" using inv2 by (auto simp: mux_inv_def conns_ok_def live_conns_def)
  have m': "conns (RemoveConn wok' now'' (int idx) (rc_m r)) = (conns (rc_m r))[idx := None]"
    "activeReaders (RemoveConn wok' now'' (int idx) (rc_m r)) = activeReaders (rc_m r)"
    using RemoveConn_inv [of "rc_m r" "int idx" "length (cstore m)" wok' now''] inv2 i by (simp_all add: fix_readers_id)
  have "x < length (cstore m)" if "Some x \<in> set (conns m)" for x
    using inv that by (auto simp: mux_inv_def conns_ok_def live_conns_def in_somes)
  then have b: "length (cstore m) \<notin> set (somes ((conns (rc_m r))[idx := None]))" "length (cstore m) \<in> set (somes (conns (rc_m r)))"
    using set_update_subset_insert [of "conns m" idx None] set_update_memI [OF assms(2), of "Some (length (cstore m))"] by (auto simp: c in_somes)
  show ?thesis using somes_set_None [OF i(2,1) d] m' inv2 b
    by (simp add: rm_conn_died_def Let_def live_conns_def ActiveConns_def TotalConns_def mux_inv_def)
qed

section \<open>Waits\<close>

text \<open>Between two attempts the manager waits at least a second and at most half a minute, and twice as long each time up to that.\<close>

lemma reconnect_waits:
  assumes "reconnect_attempts hmac tok sid target attempt backoff critical es r = (r', crit, waits, out)"
    "10 ^ 9 \<le> backoff" "backoff \<le> rm_maxBackoff"
  shows "\<forall>w\<in>set waits. 10 ^ 9 \<le> w \<and> w \<le> rm_maxBackoff"
  using assms
proof (induction es arbitrary: attempt backoff critical r waits)
  case (Cons e es)
  have b: "(10::int) ^ 9 \<le> (if backoff * 2 > rm_maxBackoff then rm_maxBackoff else backoff * 2)"
    "(if backoff * 2 > rm_maxBackoff then rm_maxBackoff else backoff * 2) \<le> rm_maxBackoff"
    using Cons.prems(2,3) by (auto simp: rm_maxBackoff_def)
  show ?case using Cons.prems Cons.IH [OF _ b] by (auto simp: Let_def split: if_splits option.splits prod.splits)
qed simp

section \<open>Late acknowledgements\<close>

text \<open>Several attempts one after the other.\<close>

definition attempts :: "(bytes \<Rightarrow> bytes \<Rightarrow> bytes) \<Rightarrow> bytes \<Rightarrow> bytes \<Rightarrow> attempt_env list \<Rightarrow> reconn \<Rightarrow> reconn" where
  "attempts hmac tok sid es r = foldl (\<lambda>r e. fst (reconnectOne hmac tok sid e r)) r es"

text \<open>An attempt that gets a relay \<open>c\<close> and the server's answer \<open>s\<close> to its announcement.\<close>

definition answered :: "attempt_env \<Rightarrow> string \<times> string \<Rightarrow> bool" where
  "answered e cs \<longleftrightarrow> (\<exists>i a. ae_allocs e = [(i, Inr a)] \<and> RelayAddr a = fst cs) \<and> ae_send e = None
     \<and> (\<exists>m. ae_acks e = [m] \<and> ack_addr m = Some (snd cs)) \<and> (\<forall>s. ae_resolve e s = None)"

lemma Allocate_one: "Allocate [(i, Inr a)] mgr = (mgr\<lparr>allocations := allocations mgr @ [a]\<rparr>, Inr [a])"
  by (simp add: Allocate_def successes_def failures_def Let_def)

lemma answered_attempt:
  assumes "answered e (c, s)" "rc_ack r = [m0]" "ack_addr m0 = Some s0"
  shows "\<exists>m. rc_ack (fst (reconnectOne hmac tok sid e r)) = [m] \<and> ack_addr m = Some s
    \<and> rc_pairs (fst (reconnectOne hmac tok sid e r)) = rc_pairs r @ [(c, s0)]
    \<and> rc_sent (fst (reconnectOne hmac tok sid e r)) = rc_sent r @ [c]"
proof -
  obtain i a m where e: "ae_allocs e = [(i, Inr a)]" "RelayAddr a = c" "ae_send e = None" "ae_acks e = [m]" "ack_addr m = Some s"
    "ae_resolve e s0 = None" using assms(1) by (auto simp: answered_def)
  have "ack_arrive (rc_ack r) (ae_acks e) = m0 # [m]" by (simp add: ack_arrive_def assms(2) e ackCap_def)
  then show ?thesis using reconnectOne_pair [of e r, OF _ e(3) _ assms(3) e(6)] e by (simp add: Allocate_one)
qed

text \<open>When the acknowledgement of an attempt comes after the attempt has given up, every later attempt takes the acknowledgement of the one before it: although
  the server answers each announcement, no relay is paired with the server's relay for it.\<close>

theorem reconnect_stale_acks:
  assumes "list_all2 answered es css" "rc_ack r = [m0]" "ack_addr m0 = Some s0"
  shows "rc_pairs (attempts hmac tok sid es r) = rc_pairs r @ zip (map fst css) (s0 # map snd css)
    \<and> rc_sent (attempts hmac tok sid es r) = rc_sent r @ map fst css"
  using assms
proof (induction arbitrary: r m0 s0 rule: list_all2_induct)
  case (Cons e es cs css)
  obtain c s where cs: "cs = (c, s)" by fastforce
  let ?r = "fst (reconnectOne hmac tok sid e r)"
  obtain m where m: "rc_ack ?r = [m]" "ack_addr m = Some s" "rc_pairs ?r = rc_pairs r @ [(c, s0)]" "rc_sent ?r = rc_sent r @ [c]"
    using answered_attempt [OF Cons.hyps(1) [unfolded cs] Cons.prems, of hmac tok sid] by blast
  have "rc_pairs (attempts hmac tok sid es ?r) = rc_pairs ?r @ zip (map fst css) (s # map snd css)
    \<and> rc_sent (attempts hmac tok sid es ?r) = rc_sent ?r @ map fst css"
    using Cons.IH [OF m(1,2)] .
  then show ?case using m by (simp add: attempts_def cs)
qed (simp add: attempts_def)

lemma demo_answered: "answered (demo_attempt c s) (c, s)" if "ack_addr (demo_ack s) = Some s"
  using that by (simp add: answered_def demo_attempt_def demo_relay_def)

section \<open>Replacing the session\<close>

text \<open>
  The steps that the goroutines take when no signaling connection ends by itself, nobody hangs up and every setup succeeds.
\<close>

inductive fr_step :: "full_reconnect \<Rightarrow> full_reconnect \<Rightarrow> bool" where
  take: "fr_phase f = FrWaiting \<Longrightarrow> fr_signal f \<Longrightarrow> fr_step f (fr_take f)"
| connected: "fr_phase f = FrConnecting b \<Longrightarrow> fr_step f (fr_connected f)"
| manager: "k \<in> set (fr_managers f) \<Longrightarrow> \<not> fr_alive f k \<Longrightarrow> fr_step f (fr_manager_dead k f)"
| monitor: "k \<in> set (fr_monitors f) \<Longrightarrow> \<not> fr_alive f k \<Longrightarrow> fr_step f (fr_monitor_end SessionEndClosed k f)"

inductive_cases fr_stepE: "fr_step f f'"

text \<open>Somebody will ask for a reconnect, and while the loop waits the current session is alive and watched.\<close>

definition fr_restless :: "full_reconnect \<Rightarrow> bool" where
  "fr_restless f \<longleftrightarrow> (fr_signal f \<or> (\<exists>k\<in>set (fr_managers f). \<not> fr_alive f k))
     \<and> (fr_phase f = FrWaiting \<longrightarrow> fr_cur f \<in> set (fr_managers f) \<and> fr_alive f (fr_cur f))
     \<and> (\<forall>k\<in>set (fr_managers f). k < fr_next f)"

lemma fr_restless_step: "fr_step f f' \<Longrightarrow> fr_restless f \<Longrightarrow> fr_restless f'"
proof (induction rule: fr_step.induct)
  case (manager k f)
  then have "fr_phase f = FrWaiting \<Longrightarrow> k \<noteq> fr_cur f" by (auto simp: fr_restless_def)
  with manager show ?case by (auto simp: fr_restless_def fr_manager_dead_def dest: notin_set_remove1 set_remove1_subset [THEN subsetD])
next
  case (connected f b)
  then show ?case by (fastforce simp: fr_restless_def fr_connected_def Let_def)
qed (auto simp: fr_restless_def fr_take_def fr_monitor_end_def)

lemma fr_restless_reach: "fr_step\<^sup>*\<^sup>* f f' \<Longrightarrow> fr_restless f \<Longrightarrow> fr_restless f'"
  by (induction rule: rtranclp_induct) (auto intro: fr_restless_step)

lemma fr_restless_reconnects:
  assumes "fr_restless f"
  shows "\<exists>f'. fr_step\<^sup>*\<^sup>* f f' \<and> fr_next f < fr_next f'"
proof -
  have conn: "\<exists>f'. fr_step\<^sup>*\<^sup>* g f' \<and> fr_next g < fr_next f'" if "fr_phase g = FrConnecting b" for g b
    using fr_step.connected [OF that] by (intro exI [of _ "fr_connected g"]) (auto simp: fr_connected_def Let_def)
  have take: "\<exists>f'. fr_step\<^sup>*\<^sup>* g f' \<and> fr_next g < fr_next f'" if "fr_phase g = FrWaiting" "fr_signal g" for g
    using conn [of "fr_take g"] fr_step.take [OF that] by (auto simp: fr_take_def intro: converse_rtranclp_into_rtranclp)
  show ?thesis
  proof (cases "fr_phase f")
    case FrWaiting
    show ?thesis
    proof (cases "fr_signal f")
      case True
      then show ?thesis using take FrWaiting by blast
    next
      case False
      then obtain k where k: "k \<in> set (fr_managers f)" "\<not> fr_alive f k" using assms by (auto simp: fr_restless_def)
      then show ?thesis using take [of "fr_manager_dead k f"] FrWaiting fr_step.manager [OF k]
        by (auto simp: fr_manager_dead_def intro: converse_rtranclp_into_rtranclp)
    qed
  qed (use conn in blast)
qed

text \<open>C13: After one hang-up the client never comes to rest: although every setup succeeds, no signaling connection ends by itself and nobody hangs up
  again, from every state that its goroutines reach it goes on to replace the session once more.  The loop closes the signaling client of the session
  it replaces, whose reconnect manager takes this for a failure and asks for another reconnect.\<close>

theorem hungup_reconnects_forever:
  assumes "fr_step\<^sup>*\<^sup>* (fr_monitor_end SessionEndHungup 0 fr_init) f"
  shows "\<exists>f'. fr_step\<^sup>*\<^sup>* f f' \<and> fr_next f < fr_next f'"
proof -
  have "fr_restless (fr_monitor_end SessionEndHungup 0 fr_init)" by (simp add: fr_restless_def fr_monitor_end_def fr_init_def)
  then show ?thesis using fr_restless_reconnects fr_restless_reach [OF assms] by blast
qed

theorem hungup_reconnects_forever_witness:
  "\<exists>f'. fr_step\<^sup>*\<^sup>* (fr_connected (fr_take (fr_monitor_end SessionEndHungup 0 fr_init))) f' \<and> 2 < fr_next f'"
proof -
  let ?f = "fr_monitor_end SessionEndHungup 0 fr_init"
  have "fr_step ?f (fr_take ?f)" by (rule fr_step.take) (simp_all add: fr_monitor_end_def fr_init_def)
  moreover have "fr_step (fr_take ?f) (fr_connected (fr_take ?f))" by (rule fr_step.connected) (simp add: fr_take_def)
  ultimately have "fr_step\<^sup>*\<^sup>* ?f (fr_connected (fr_take ?f))" by simp
  from hungup_reconnects_forever [OF this] show ?thesis
    by (simp add: fr_connected_def fr_take_def fr_monitor_end_def fr_init_def Let_def numeral_2_eq_2)
qed

text \<open>A signaling connection that ends by itself is found by the manager, which ends; then one reconnect is enough.\<close>

lemma dead_signaling_reconnects_once:
  assumes "fr_step f' g" "f' = fr_connected (fr_take (fr_monitor_end SessionEndClosed 0 (fr_manager_dead 0 (fr_init\<lparr>fr_alive := (\<lambda>_. False)\<rparr>))))"
  shows False
  using assms by (auto elim!: fr_stepE simp: fr_connected_def fr_take_def fr_monitor_end_def fr_manager_dead_def fr_init_def Let_def)

end
