(* ===== verification/Server_Props.thy ===== *)
theory Server_Props
  imports Server_Sessions Relay_Props Reconnect_Props
begin

text \<open>
  Properties of the server: its sessions hold only connections that presented the token and the session's identifier, whatever the goroutines interleave; the
  waits of its retry loops; the relaying of a stream.
\<close>

section \<open>Interleavings of direct mode\<close>

text \<open>
  \<open>fly\<close> are the goroutines of \<^verbatim>\<open>handleConnection\<close> that have their session but have not added their connection yet.  The multiplexer of a session moves by itself
  as long as it gets no connection.
\<close>

type_synonym srv_conf = "Server \<times> (dconn \<times> nat) list"

inductive srv_step :: "(bytes \<Rightarrow> bytes \<Rightarrow> bytes) \<Rightarrow> srv_conf \<Rightarrow> srv_conf \<Rightarrow> bool" for hmac where
  reject: "handle_identify hmac senv now c s = (s', None) \<Longrightarrow> srv_step hmac (s, fly) (s', fly)"
| identify: "handle_identify hmac senv now c s = (s', Some p) \<Longrightarrow> srv_step hmac (s, fly) (s', fly @ [(c, p)])"
| add: "(c, p) \<in> set fly \<Longrightarrow> srv_step hmac (s, fly) (session_add now p c s, remove1 (c, p) fly)"
| drain: "p < length (srv_store s) \<Longrightarrow> ss_running (srv_store s ! p) \<Longrightarrow> srv_step hmac (s, fly) (session_drain wok now idx p s, fly)"
| mux: "p < length (srv_store s) \<Longrightarrow> mux_step (ss_m (srv_store s ! p), ss_pending (srv_store s ! p)) (m', pd') \<Longrightarrow>
    length (cstore m') = length (cstore (ss_m (srv_store s ! p))) \<Longrightarrow>
    srv_step hmac (s, fly) (upd_session p (\<lambda>x. x\<lparr>ss_m := m', ss_pending := pd'\<rparr>) s, fly)"
| finish: "p < length (srv_store s) \<Longrightarrow> ss_running (srv_store s ! p) \<Longrightarrow> srv_step hmac (s, fly) (session_end p s, fly)"

text \<open>A connection that may be in a session.\<close>

definition belongs :: "(bytes \<Rightarrow> bytes \<Rightarrow> bytes) \<Rightarrow> bytes \<Rightarrow> bytes \<Rightarrow> dconn \<Rightarrow> bool" where
  "belongs hmac tok i c \<longleftrightarrow> (\<exists>rest. server_preamble hmac tok (dc_in c) = Inr (i, rest))"

definition session_ok :: "(bytes \<Rightarrow> bytes \<Rightarrow> bytes) \<Rightarrow> bytes \<Rightarrow> session \<Rightarrow> bool" where
  "session_ok hmac tok x \<longleftrightarrow>
     list_all (belongs hmac tok (ss_id x)) (ss_members x) \<and> ss_conns x = int (length (ss_members x))
     \<and> length (cstore (ss_m x)) = length (ss_members x)"

text \<open>The map has exactly the running sessions.\<close>

definition index_ok :: "Server \<Rightarrow> bool" where
  "index_ok s \<longleftrightarrow> (\<forall>i p. srv_sessions s i = Some p \<longleftrightarrow> p < length (srv_store s) \<and> ss_id (srv_store s ! p) = i \<and> ss_running (srv_store s ! p))"

definition srv_inv :: "(bytes \<Rightarrow> bytes \<Rightarrow> bytes) \<Rightarrow> bytes \<Rightarrow> srv_conf \<Rightarrow> bool" where
  "srv_inv hmac tok sf \<longleftrightarrow>
     srv_AuthToken (fst sf) = tok \<and> index_ok (fst sf) \<and> (\<forall>x\<in>set (srv_store (fst sf)). session_ok hmac tok x)
     \<and> (\<forall>(c, p)\<in>set (snd sf). p < length (srv_store (fst sf)) \<and> belongs hmac tok (ss_id (srv_store (fst sf) ! p)) c)"

lemma upd_session_fields [simp]:
  "srv_AuthToken (upd_session p f s) = srv_AuthToken s" "srv_sessions (upd_session p f s) = srv_sessions s"
  "length (srv_store (upd_session p f s)) = length (srv_store s)"
  by (simp_all add: upd_session_def)

lemma upd_session_nth: "q < length (srv_store s) \<Longrightarrow> srv_store (upd_session p f s) ! q = (if q = p then f (srv_store s ! p) else srv_store s ! q)"
  by (simp add: upd_session_def)

text \<open>A change of one session that keeps its identifier and whether it runs.\<close>

lemma srv_inv_upd:
  assumes "srv_inv hmac tok (s, fly)" "p < length (srv_store s)" "session_ok hmac tok (f (srv_store s ! p))"
    "ss_id (f (srv_store s ! p)) = ss_id (srv_store s ! p)" "ss_running (f (srv_store s ! p)) = ss_running (srv_store s ! p)" "set fly' \<subseteq> set fly"
  shows "srv_inv hmac tok (upd_session p f s, fly')"
proof -
  have id: "ss_id (srv_store (upd_session p f s) ! q) = ss_id (srv_store s ! q)"
    "ss_running (srv_store (upd_session p f s) ! q) = ss_running (srv_store s ! q)" if "q < length (srv_store s)" for q
    using assms(4,5) that by (simp_all add: upd_session_nth)
  have "index_ok (upd_session p f s)" using assms(1) id by (auto simp: srv_inv_def index_ok_def)
  moreover have "\<forall>x\<in>set (srv_store (upd_session p f s)). session_ok hmac tok x"
    using assms(1-3) set_update_subset_insert [of "srv_store s" p] by (auto simp: srv_inv_def upd_session_def)
  moreover have "q < length (srv_store s) \<and> belongs hmac tok (ss_id (srv_store s ! q)) c" if "(c, q) \<in> set fly'" for c q
    using assms(1,6) that unfolding srv_inv_def by auto
  then have "\<forall>(c, q)\<in>set fly'. q < length (srv_store (upd_session p f s)) \<and> belongs hmac tok (ss_id (srv_store (upd_session p f s) ! q)) c"
    using id(1) by auto
  moreover have "srv_AuthToken s = tok" using assms(1) by (simp add: srv_inv_def)
  ultimately show ?thesis by (simp add: srv_inv_def)
qed

lemma session_mux_cstore [simp]: "cstore (session_mux senv now) = []"
  by (simp add: session_mux_def New_def SetMaxStreams_def SetIdleTimeout_def EnableStreamAccept_def EnableRawPackets_def)

lemma AddConn_cstore: "length (cstore (AddConn now m)) = Suc (length (cstore m))"
  by (simp add: AddConn_def Let_def split: prod.split)

lemma session_ok_add: "session_ok hmac tok x \<Longrightarrow> belongs hmac tok (ss_id x) c \<Longrightarrow>
   session_ok hmac tok (x\<lparr>ss_m := AddConn now (ss_m x), ss_conns := ss_conns x + 1, ss_members := ss_members x @ [c]\<rparr>)"
  by (simp add: session_ok_def AddConn_cstore)

lemma getOrCreateSession_inv:
  assumes "srv_inv hmac tok (s, fly)" "getOrCreateSession senv now i s = (s', p)"
  shows "srv_inv hmac tok (s', fly) \<and> p < length (srv_store s') \<and> ss_id (srv_store s' ! p) = i"
proof (cases "srv_sessions s i")
  case (Some q)
  then show ?thesis using assms by (auto simp: getOrCreateSession_def srv_inv_def index_ok_def)
next
  case None
  let ?x = "\<lparr>ss_id = i, ss_m = session_mux senv now, ss_pending = [], ss_conns = 0, ss_members = [], ss_running = True\<rparr>"
  have s': "s' = s\<lparr>srv_store := srv_store s @ [?x], srv_sessions := (srv_sessions s)(i \<mapsto> length (srv_store s))\<rparr>" "p = length (srv_store s)"
    using assms(2) None by (auto simp: getOrCreateSession_def Let_def)
  have idx: "srv_sessions s j = Some q \<longleftrightarrow> q < length (srv_store s) \<and> ss_id (srv_store s ! q) = j \<and> ss_running (srv_store s ! q)" for j q
    using assms(1) by (simp add: srv_inv_def index_ok_def)
  have "\<not> (q < length (srv_store s) \<and> ss_id (srv_store s ! q) = i \<and> ss_running (srv_store s ! q))" for q using idx [of i q] None by simp
  then have "index_ok s'" using idx unfolding s' index_ok_def by (auto simp: nth_append less_Suc_eq)
  moreover have "session_ok hmac tok ?x" by (simp add: session_ok_def)
  ultimately show ?thesis using assms(1) by (auto simp: srv_inv_def s' nth_append)
qed







text \<open>
  A session can end between the moment a connection finds it and the moment the connection is added: the connection then goes to a closed multiplexer that nobody serves.
\<close>

lemma connection_to_ended_session:
  assumes "p < length (srv_store s)" "ss_running (srv_store s ! p)" "(c, p) \<in> set fly"
  shows "\<exists>s'. (srv_step hmac)\<^sup>*\<^sup>* (s, fly) (s', remove1 (c, p) fly) \<and> c \<in> set (ss_members (srv_store s' ! p)) \<and> \<not> ss_running (srv_store s' ! p)"
proof -
  let ?s' = "session_add 0 p c (session_end p s)"
  have "(srv_step hmac)\<^sup>*\<^sup>* (s, fly) (?s', remove1 (c, p) fly)"
    using srv_step.finish [OF assms(1,2), of hmac fly] srv_step.add [OF assms(3), of hmac "session_end p s" 0] by (meson r_into_rtranclp rtranclp.rtrancl_into_rtrancl)
  moreover have "c \<in> set (ss_members (srv_store ?s' ! p)) \<and> \<not> ss_running (srv_store ?s' ! p)"
    using assms(1) by (simp add: session_add_def session_end_def Let_def upd_session_def)
  ultimately show ?thesis by blast
qed

section \<open>Telemost sessions\<close>

text \<open>The loop keeps the invariant, and adds connections of one identifier only.\<close>

lemma telemost_conn_inv:
  assumes "srv_inv hmac tok (s, [])" "case sess of None \<Rightarrow> True | Some (p, i) \<Rightarrow> p < length (srv_store s) \<and> ss_id (srv_store s ! p) = i"
    "telemost_conn hmac senv now c (s, sess, added) = (s', sess', added')"
  shows "srv_inv hmac tok (s', []) \<and> (case sess' of None \<Rightarrow> True | Some (p, i) \<Rightarrow> p < length (srv_store s') \<and> ss_id (srv_store s' ! p) = i)"
proof -
  have tok: "srv_AuthToken s = tok" using assms(1) by (simp add: srv_inv_def)
  have add: "srv_inv hmac tok (session_add now p c s1, []) \<and> p < length (srv_store (session_add now p c s1))
      \<and> ss_id (srv_store (session_add now p c s1) ! p) = i"
    if "srv_inv hmac tok (s1, [])" "p < length (srv_store s1)" "ss_id (srv_store s1 ! p) = i" "belongs hmac tok i c" for s1 p i
  proof -
    have "session_ok hmac tok (srv_store s1 ! p)" using that(1,2) by (auto simp: srv_inv_def)
    then have "srv_inv hmac tok (session_add now p c s1, [])" unfolding session_add_def
      by (intro srv_inv_upd [OF that(1,2)]) (use that in \<open>auto intro: session_ok_add\<close>)
    then show ?thesis using that by (simp add: session_add_def upd_session_nth)
  qed
  have rej: "srv_inv hmac tok (reject_conn c s, [])" using assms(1) by (simp add: srv_inv_def reject_conn_def index_ok_def)
  show ?thesis
  proof (cases "server_preamble hmac tok (dc_in c)")
    case (Inl e)
    then show ?thesis using assms(2,3) rej tok by (auto simp: telemost_conn_def reject_conn_def split: option.splits)
  next
    case (Inr ir)
    obtain i rest where ir: "ir = (i, rest)" by fastforce
    have b: "belongs hmac tok i c" using Inr ir by (simp add: belongs_def)
    show ?thesis
    proof (cases sess)
      case None
      obtain s1 p where g: "getOrCreateSession senv now i s = (s1, p)" by fastforce
      show ?thesis using add [OF _ _ _ b] getOrCreateSession_inv [OF assms(1) g] assms(3) Inr ir None tok g by (auto simp: telemost_conn_def)
    next
      case (Some pi)
      then show ?thesis using add [OF assms(1) _ _ b] rej assms(2,3) Inr ir tok
        by (auto simp: telemost_conn_def reject_conn_def split: if_splits prod.splits)
    qed
  qed
qed

section \<open>Retry loops\<close>

text \<open>The waits stay between three seconds and five minutes.\<close>

lemma retry_backoff_bounds:
  assumes "srv_backoff0 \<le> b" "b \<le> srv_maxBackoff"
  shows "srv_backoff0 \<le> fst (multi_round lived b) \<and> fst (multi_round lived b) \<le> srv_maxBackoff"
    "srv_backoff0 \<le> snd (multi_round lived b) \<and> snd (multi_round lived b) \<le> srv_maxBackoff"
    "srv_backoff0 \<le> fst (relay_round lived failed b) \<and> fst (relay_round lived failed b) \<le> srv_maxBackoff"
    "srv_backoff0 \<le> snd (relay_round lived failed b) \<and> snd (relay_round lived failed b) \<le> srv_maxBackoff"
  using assms by (auto simp: multi_round_def relay_round_def srv_backoff0_def srv_maxBackoff_def Let_def)

section \<open>Streams\<close>

text \<open>What the download direction hands to the stream is a prefix of what the target sent, and the count is its length.\<close>

lemma download_prefix:
  assumes "\<And>d. fst (write d) \<le> length d" "download_loop write rs out n = (out', n')" "n = length (concat out)"
  shows "\<exists>ext. concat out' = concat out @ ext \<and> prefix ext (concat (map fst rs)) \<and> n' = length (concat out')"
  using assms(2,3)
proof (induction rs arbitrary: out n)
  case (Cons r rs)
  obtain d err where r: "r = (d, err)" by fastforce
  obtain nw werr where w: "write d = (nw, werr)" by fastforce
  have nw: "nw \<le> length d" using assms(1) [of d] w by simp
  show ?case
  proof (cases "d \<noteq> [] \<and> \<not> werr \<and> nw = length d \<and> \<not> err")
    case True
    then have "download_loop write rs (out @ [d]) (n + length d) = (out', n')" using Cons.prems(1) w by (simp add: r)
    from Cons.IH [OF this] show ?thesis using Cons.prems(2) by (auto simp: r)
  next
    case False
    show ?thesis
    proof (cases "d = []")
      case True
      then show ?thesis using Cons by (cases err) (auto simp: r)
    next
      case d: False
      then have "out' = out @ [take nw d]" "n' = n + nw" using Cons.prems(1) False w by (auto simp: r Let_def split: if_splits)
      then show ?thesis using Cons.prems(2) nw by (auto simp: r intro: prefix_prefix take_is_prefix)
    qed
  qed
qed auto

end
