(* ===== verification/Http_Proxy.thy ===== *)
theory Http_Proxy
  imports Socks5
begin

text \<open>
  The HTTP front end (\<^verbatim>\<open>internal/proxy/http/http.go\<close>).  A request is what \<^verbatim>\<open>net/http\<close> has read; the outcomes of dialling, of taking over the
  connection, and of the exchange with the target are arguments.
\<close>

section \<open>Requests\<close>

text \<open>Header names are in the canonical form that \<^verbatim>\<open>net/http\<close> gives them.\<close>

record http_request =
  rq_Method :: string
  rq_Path :: string
  rq_URLHost :: string
  rq_Host :: string
  rq_Header :: "(string \<times> string list) list"

record http_response =
  rs_StatusCode :: nat
  rs_Header :: "(string \<times> string list) list"
  rs_Body :: bytes

text \<open>What the client gets: an answer of the proxy itself, a tunnel, or the answer of the target.  The flag tells whether the tunnel was bypassed.\<close>

datatype http_result =
    SpeedTestPage
  | HttpError nat string
  | HijackFailed bool string
  | Tunnelled bool string
  | Proxied bool string http_request http_response

record http_env =
  he_bypass :: "Matcher option"
  he_speedtest :: bool
  he_direct :: "string \<Rightarrow> bool"
  he_tunnel :: "string \<Rightarrow> bool"
  he_hijacker :: bool
  he_hijack_ok :: bool
  he_write_ok :: bool
  he_response :: "http_response option"

text \<open>\<^verbatim>\<open>dial\<close>: whether the tunnel is bypassed, and whether the connection is there.\<close>

definition http_dial :: "http_env \<Rightarrow> string \<Rightarrow> bool \<times> bool" where
  "http_dial e addr =
     (let bypassed = (case he_bypass e of None \<Rightarrow> False | Some m \<Rightarrow> bypass_Match addr m)
      in (bypassed, if bypassed then he_direct e addr else he_tunnel e addr))"

definition handleConnect :: "http_env \<Rightarrow> http_request \<Rightarrow> http_result" where
  "handleConnect e r =
     (case http_dial e (rq_Host r) of (bypassed, ok) \<Rightarrow>
        if \<not> ok then HttpError 502 ''Bad Gateway''
        else if \<not> he_hijacker e then HttpError 500 ''Hijacking not supported''
        else if \<not> he_hijack_ok e then HijackFailed bypassed (rq_Host r)
        else Tunnelled bypassed (rq_Host r))"

text \<open>\<^verbatim>\<open>Header.Del\<close>, and the headers that concern the proxy only.\<close>

definition Header_Del :: "string \<Rightarrow> (string \<times> string list) list \<Rightarrow> (string \<times> string list) list" where
  "Header_Del k hs = filter (\<lambda>(n, v). n \<noteq> k) hs"

definition remove_hop_headers :: "(string \<times> string list) list \<Rightarrow> (string \<times> string list) list" where
  "remove_hop_headers hs = Header_Del ''Proxy-Authorization'' (Header_Del ''Proxy-Authenticate'' (Header_Del ''Proxy-Connection'' hs))"

definition http_target :: "string \<Rightarrow> string" where
  "http_target host = (case SplitHostPort host of None \<Rightarrow> JoinHostPort host ''80'' | Some _ \<Rightarrow> host)"

definition handleHTTP :: "http_env \<Rightarrow> http_request \<Rightarrow> http_result" where
  "handleHTTP e r =
     (if rq_URLHost r = [] then HttpError 400 ''Missing host''
      else let host = http_target (rq_URLHost r)
           in case http_dial e host of (bypassed, ok) \<Rightarrow>
                if \<not> ok then HttpError 502 ''Bad Gateway''
                else if \<not> he_write_ok e then HttpError 502 ''Error writing request''
                else case he_response e of
                       None \<Rightarrow> HttpError 502 ''Error reading response''
                     | Some resp \<Rightarrow> Proxied bypassed host (r\<lparr>rq_Header := remove_hop_headers (rq_Header r)\<rparr>) resp)"

definition ServeHTTP :: "http_env \<Rightarrow> http_request \<Rightarrow> http_result" where
  "ServeHTTP e r =
     (if rq_Path r = ''/__speedtest__'' \<and> he_speedtest e then SpeedTestPage
      else if rq_Method r = ''CONNECT'' then handleConnect e r
      else handleHTTP e r)"

section \<open>Which target is dialled\<close>

text \<open>A host without a colon or a bracket gets port 80, a host with a port stays as it is.\<close>

lemma http_target_plain:
  assumes "CHR '':'' \<notin> set h"
  shows "http_target h = h @ '':80''"
proof -
  have "cut2 CHR '':'' (rev h) = None" using assms cut2_None_iff [of "CHR '':''" "rev h"] by simp
  then have "last_colon h = None" by (simp add: last_colon_def)
  then show ?thesis using assms by (simp add: http_target_def SplitHostPort_def JoinHostPort_def)
qed

lemma http_target_with_port: "SplitHostPort h = Some hp \<Longrightarrow> http_target h = h"
  by (simp add: http_target_def)

text \<open>An IPv6 address without a port is put into brackets a second time, and no port can be told apart in the result.\<close>

lemma http_target_ipv6: "http_target ''[::1]'' = ''[[::1]]:80'' \<and> SplitHostPort (http_target ''[::1]'') = None"
  by code_simp

text \<open>The headers for the proxy are gone from what is sent, all others stay in order.\<close>

lemma remove_hop_headers_filter:
  "remove_hop_headers hs = filter (\<lambda>x. fst x \<notin> {''Proxy-Connection'', ''Proxy-Authenticate'', ''Proxy-Authorization''}) hs"
  by (simp add: remove_hop_headers_def Header_Del_def case_prod_beta)

text \<open>A target outside of the bypass list reaches only the tunnel, a target on it never does.\<close>

lemma ServeHTTP_bypass:
  assumes "ServeHTTP e r = Tunnelled b t \<or> (\<exists>r' resp. ServeHTTP e r = Proxied b t r' resp)"
  shows "b \<longleftrightarrow> (\<exists>m. he_bypass e = Some m \<and> bypass_Match t m)" "if b then he_direct e t else he_tunnel e t"
  using assms
  by (auto simp: ServeHTTP_def handleConnect_def handleHTTP_def http_dial_def Let_def split: if_splits option.splits)

end
