(* ===== verification/Tunnel_Proxy.thy ===== *)
theory Tunnel_Proxy
  imports Server_Sessions Http_Proxy Mux_Transfer Mux_Invariant
begin

text \<open>
  From a front end of the client to the target that the server dials: \<^verbatim>\<open>dialTunnel\<close> of \<^verbatim>\<open>internal/client/proxy.go\<close>, which opens a stream
  of the multiplexer and writes the address of the target to it, and the server's reading of that address, over the connection
  between both multiplexers.
\<close>

section \<open>Dialling through the tunnel\<close>

datatype dial_error = TunnelNotAvailable | OpenStreamError mux_error | SendTargetError mux_error

text \<open>
  \<open>ctr\<close> is the counter of the streams that the two front ends share.  Without a multiplexer, which only the variant for sessions between relays
  looks for, the counter is not used.  A \<^verbatim>\<open>Write\<close> that never ends is a call that blocks.
\<close>

definition dialTunnel :: "int option \<Rightarrow> write_oracle \<Rightarrow> int \<Rightarrow> string \<Rightarrow> u32 \<Rightarrow> Mux \<Rightarrow> u32 \<times> (Mux, dial_error + nat) outcome" where
  "dialTunnel env wok now addr ctr m =
     (let i = ctr + 1
      in (i, case OpenStream wok now i m of
               (m1, Inl e) \<Rightarrow> Ret m1 (Inl (OpenStreamError e))
             | (m1, Inr p) \<Rightarrow>
                 (case Stream_Write env wok now p (bytes_of_string addr) m1 of
                    None \<Rightarrow> Blocks m1
                  | Some (Inl x) \<Rightarrow> Panics x
                  | Some (Inr (m2, n, Some e)) \<Rightarrow>
                      (case Stream_Close wok now p m2 of
                         Ret m3 _ \<Rightarrow> Ret m3 (Inl (SendTargetError e))
                       | Blocks m3 \<Rightarrow> Blocks m3
                       | Panics x \<Rightarrow> Panics x)
                  | Some (Inr (m2, n, None)) \<Rightarrow> Ret m2 (Inr p))))"

definition relay_dialTunnel :: "int option \<Rightarrow> write_oracle \<Rightarrow> int \<Rightarrow> string \<Rightarrow> u32 \<Rightarrow> Mux option \<Rightarrow> u32 \<times> (Mux option, dial_error + nat) outcome" where
  "relay_dialTunnel env wok now addr ctr mo =
     (case mo of
        None \<Rightarrow> (ctr, Ret None (Inl TunnelNotAvailable))
      | Some m \<Rightarrow>
          (case dialTunnel env wok now addr ctr m of
             (i, Ret m1 r) \<Rightarrow> (i, Ret (Some m1) r)
           | (i, Blocks m1) \<Rightarrow> (i, Blocks (Some m1))
           | (i, Panics x) \<Rightarrow> (i, Panics x)))"

text \<open>What \<^verbatim>\<open>httpCallback\<close> writes for the phases of a speed test.\<close>

definition cb_OnPhase :: "string \<Rightarrow> string" where
  "cb_OnPhase phase = ''{\"phase\":\"'' @ phase @ ''\"}'' @ [CHR 0x0A]"

definition cb_OnError :: "string \<Rightarrow> string" where
  "cb_OnError err = ''{\"error\":\"'' @ err @ ''\"}'' @ [CHR 0x0A]"

definition cb_OnProgress :: "string \<Rightarrow> string" where
  "cb_OnProgress jsonData = jsonData @ [CHR 0x0A]"

section \<open>Writing the address\<close>

lemma map_update_same: "f y = f (xs ! i) \<Longrightarrow> map f (xs[i := y]) = map f xs"
proof (cases "i < length xs")
  case True
  assume "f y = f (xs ! i)"
  then have "map f (xs[i := y]) = (map f xs)[i := map f xs ! i]" using True by (simp add: map_update)
  then show ?thesis by simp
qed (simp add: list_update_beyond)

lemma mux_nextSeq_upd_conn [simp]: "mux_nextSeq (upd_conn a f m) = mux_nextSeq m"
  by (simp add: upd_conn_def)

lemma swrr_pass_wire: "swrr_pass el cs best bcw tw = (cs', best', tw') \<Longrightarrow> map wire cs' = map wire cs \<and> map connClosed cs' = map connClosed cs"
proof (induction el arbitrary: cs best bcw tw)
  case (Cons a el)
  define w where "w = (cs ! a)\<lparr>wrrCurrent := i64 (wrrCurrent (cs ! a) + conn_weight (cs ! a))\<rparr>"
  have w: "wire w = wire (cs ! a)" "connClosed w = connClosed (cs ! a)" by (simp_all add: w_def)
  have "map wire (cs[a := w]) = map wire cs" "map connClosed (cs[a := w]) = map connClosed cs"
    by (rule map_update_same, rule w)+
  then show ?case using Cons by (auto simp: Let_def w_def split: if_splits)
qed simp

lemma selectConn_wire: 
  assumes "selectConn m = (m', r)"
  shows "map wire (cstore m') = map wire (cstore m)" "map connClosed (cstore m') = map connClosed (cstore m)"
proof -
  have "map wire (cstore m') = map wire (cstore m) \<and> map connClosed (cstore m') = map connClosed (cstore m)"
  proof (cases "conns m = []")
    case False
    obtain cs best tw where p: "swrr_pass (eligible m) (cstore m) None minInt64 0 = (cs, best, tw)" using prod_cases3 by blast
    note w = swrr_pass_wire [OF p]
    show ?thesis
    proof (cases best)
      case (Some b)
      define x where "x = (cs ! b)\<lparr>wrrCurrent := i64 (wrrCurrent (cs ! b) - tw)\<rparr>"
      have "map wire (cs[b := x]) = map wire cs" "map connClosed (cs[b := x]) = map connClosed cs"
        by (rule map_update_same, simp add: x_def)+
      then show ?thesis using assms False p Some w by (auto simp: selectConn_def x_def)
    qed (use assms False p w in \<open>auto simp: selectConn_def\<close>)
  qed (use assms in \<open>simp add: selectConn_def\<close>)
  then show "map wire (cstore m') = map wire (cstore m)" "map connClosed (cstore m') = map connClosed (cstore m)" by simp_all
qed

text \<open>A new stream of a multiplexer that does not stripe, and the open frame it puts on its connection.\<close>

lemma MarshalBinary_ctl: "\<exists>b. MarshalBinary (ctl_frame i t sq) = Inr b"
  by (simp add: MarshalBinary_def ctl_frame_def)

lemma OpenStream_plain:
  assumes "selectConn A = (A1, Some a)" "\<not> shouldStripe A1" "a < length (cstore A)" "\<not> connClosed (cstore A ! a)" "\<forall>n. wok a n"
  shows "\<exists>A' b. OpenStream wok now i A = (A', Inr (length (sstore A))) \<and> sstore A' = sstore A @ [new_Stream i (Some a) False] \<and>
    MarshalBinary (ctl_frame i FrameOpen (mux_nextSeq A + 1)) = Inr b \<and> mux_nextSeq A' = mux_nextSeq A + 1 \<and>
    length (cstore A') = length (cstore A) \<and> \<not> connClosed (cstore A' ! a) \<and> wire (cstore A' ! a) = wire (cstore A ! a) @ [b]"
proof -
  note oc = only_conns_fields [OF only_conns_selectConn [OF assms(1)]]
  have len: "length (cstore A1) = length (cstore A)" and a: "a < length (cstore A1)"
    using assms(3) map_eq_imp_length_eq [OF selectConn_wire(1) [OF assms(1)]] by simp_all
  have cl: "\<not> connClosed (cstore A1 ! a)" and wi: "wire (cstore A1 ! a) = wire (cstore A ! a)"
    using selectConn_wire [OF assms(1)] assms(3,4) a nth_map by metis+
  have sq: "mux_nextSeq A1 = mux_nextSeq A" using assms(1) by (auto simp: selectConn_def split: if_splits prod.splits option.splits)
  obtain b where b: "MarshalBinary (ctl_frame i FrameOpen (mux_nextSeq A + 1)) = Inr b" using MarshalBinary_ctl by blast
  define A2 where "A2 = fst (add_stream (new_Stream i (Some a) False) A1)"
  have A2: "cstore A2 = cstore A1" "sstore A2 = sstore A1 @ [new_Stream i (Some a) False]" "mux_nextSeq A2 = mux_nextSeq A1"
    by (simp_all add: A2_def add_stream_def)
  have "sendFrameOn wok now (Some a) (ctl_frame i FrameOpen (mux_nextSeq A + 1)) (A2\<lparr>mux_nextSeq := mux_nextSeq A2 + 1\<rparr>) =
      (written now a b (A2\<lparr>mux_nextSeq := mux_nextSeq A2 + 1\<rparr>), None)"
    using sendFrameOn_ok [of a "A2\<lparr>mux_nextSeq := mux_nextSeq A2 + 1\<rparr>" wok _ b now] A2(1) a cl assms(5) b by simp
  then have "OpenStream wok now i A = (written now a b (A2\<lparr>mux_nextSeq := mux_nextSeq A2 + 1\<rparr>), Inr (length (sstore A)))"
    using assms(1,2) A2 sq oc by (simp add: OpenStream_def add_stream_def A2_def case_prod_beta Let_def)
  then show ?thesis using b A2 sq oc a len cl wi
    by (intro exI [of _ "written now a b (A2\<lparr>mux_nextSeq := mux_nextSeq A2 + 1\<rparr>)"] exI [of _ b]) (simp add: written_def)
qed

text \<open>The peer's dispatcher makes a stream of its own for an open frame.\<close>

lemma dispatch_open_new:
  assumes "\<not> max_streams_reached B" "acceptedStreams B = Some (n, q)" "length q < n" "\<not> acceptClosed B"
    and "Type f = FrameOpen" "StreamID f = i" "map_of pend i = None"
  shows "\<exists>B' asg. dispatch_frame wok pick now pend f B = Ret B' pend \<and> sstore B' = sstore B @ [new_Stream i asg (shouldStripe B)] \<and>
    map_of (streams B') i = Some (length (sstore B)) \<and> acceptedStreams B' = Some (n, q @ [length (sstore B)])"
proof -
  obtain B1 asg where s: "selectConn B = (B1, asg)" by fastforce
  note oc = only_conns_fields [OF only_conns_selectConn [OF s]]
  have "dispatch_frame wok pick now pend f B = dispatch_open pick now pend f B"
    using assms(5) by (simp add: dispatch_frame_def FrameOpen_def FramePing_def FramePong_def FrameData_def)
  then show ?thesis
    using assms s oc
    by (intro exI [of _ "(fst (add_stream (new_Stream i asg (shouldStripe B)) B1))\<lparr>acceptedStreams := Some (n, q @ [length (sstore B)])\<rparr>"] exI [of _ asg])
       (simp add: dispatch_open_def add_stream_def Let_def AList.update_conv)
qed

lemma Stream_Read_first:
  assumes "leftover s = []" "recv s = d # ds" "length d \<le> n"
  shows "Stream_Read n s = Ret (s\<lparr>recv := ds\<rparr>) (Some d)"
  using assms by (simp add: Stream_Read_def)

lemma chunks_one: "d \<noteq> [] \<Longrightarrow> length d \<le> n \<Longrightarrow> chunks n d = [d]"
  by (cases n) (simp_all add: chunks.simps)

lemma bytes_of_string_simps [simp]: "length (bytes_of_string s) = length s" "bytes_of_string s = [] \<longleftrightarrow> s = []"
  by (simp_all add: bytes_of_string_def)

text \<open>What the client puts on the connection for a target: an open frame and the frames of the address.\<close>

lemma dialTunnel_wire:
  assumes "selectConn A = (A1, Some a)" "\<not> shouldStripe A1" "a < length (cstore A)" "\<not> connClosed (cstore A ! a)" "\<forall>n. wok a n"
  shows "\<exists>A' bs. dialTunnel env wok now addr ctr A = (ctr + 1, Ret A' (Inr (length (sstore A)))) \<and>
    wire (cstore A' ! a) = wire (cstore A ! a) @ bs \<and>
    list_all2 (\<lambda>f b. MarshalBinary f = Inr b)
      (ctl_frame (ctr + 1) FrameOpen (mux_nextSeq A + 1) #
        data_frames (ctr + 1) (mux_nextSeq A + 1) (chunks (nat (MaxFramePayload env)) (bytes_of_string addr))) bs"
proof -
  obtain A2 b where o: "OpenStream wok now (ctr + 1) A = (A2, Inr (length (sstore A)))" "sstore A2 = sstore A @ [new_Stream (ctr + 1) (Some a) False]"
    "MarshalBinary (ctl_frame (ctr + 1) FrameOpen (mux_nextSeq A + 1)) = Inr b" "mux_nextSeq A2 = mux_nextSeq A + 1"
    "length (cstore A2) = length (cstore A)" "\<not> connClosed (cstore A2 ! a)" "wire (cstore A2 ! a) = wire (cstore A ! a) @ [b]"
    using OpenStream_plain [where wok = wok and now = now and i = "ctr + 1", OF assms] by blast
  have mc: "0 < MaxFramePayload env" "MaxFramePayload env \<le> int maxPayload" by (auto simp: MaxFramePayload_def maxPayload_def split: option.splits)
  obtain A' bs where w: "write_loop wok now (length (sstore A)) (MaxFramePayload env) (bytes_of_string addr) 0 A2 = Some (Inr (A', length addr, None))"
    "wire (cstore A' ! a) = wire (cstore A2 ! a) @ bs"
    "list_all2 (\<lambda>f b. MarshalBinary f = Inr b)
      (data_frames (ctr + 1) (mux_nextSeq A2) (chunks (nat (MaxFramePayload env)) (bytes_of_string addr))) bs"
    using write_loop_plain [of "length (sstore A)" A2 a wok "MaxFramePayload env" now "bytes_of_string addr" 0] o assms(3,5) mc by auto
  have "Stream_Write env wok now (length (sstore A)) (bytes_of_string addr) A2 = Some (Inr (A', length addr, None))"
    using w(1) o(2) by (simp add: Stream_Write_def)
  then have "dialTunnel env wok now addr ctr A = (ctr + 1, Ret A' (Inr (length (sstore A))))"
    using o(1) by (simp add: dialTunnel_def Let_def)
  then show ?thesis using w(2,3) o(3,4,7) by (intro exI [of _ A'] exI [of _ "b # bs"]) simp
qed

section \<open>Properties\<close>

text \<open>
  C2: The target of a front end is the target that the server dials.  On a client that does not stripe, \<^verbatim>\<open>dialTunnel\<close> succeeds when
  the connection takes the writes, and once the server's read loop and dispatcher have processed the bytes this puts on the connection, the
  server has accepted one more stream, whose first read of 512 bytes gives exactly the address, so that \<^verbatim>\<open>handleStream\<close> dials that address and
  no other; this needs an address that fits into one frame and into 512 bytes, and a server that does not stripe either.
\<close>

theorem tunnel_dials_target:
  assumes "selectConn A = (A1, Some a)" "\<not> shouldStripe A1" "a < length (cstore A)" "\<not> connClosed (cstore A ! a)" "\<forall>n. wok a n"
    and "addr \<noteq> []" "length addr \<le> 512" "int (length addr) \<le> MaxFramePayload env" "ctr + 1 \<noteq> 0" "ctr + 1 < StreamIDBase"
    and "\<not> max_streams_reached B" "\<not> shouldStripe B" "acceptedStreams B = Some (n, q)" "length q < n" "\<not> acceptClosed B" "map_of pend (ctr + 1) = None"
  shows "\<exists>A' bs B' s b. dialTunnel env wok now addr ctr A = (ctr + 1, Ret A' (Inr (length (sstore A)))) \<and>
    wire (cstore A' ! a) = wire (cstore A ! a) @ bs \<and>
    dispatch_all wok' pick (map (Pair now') (fst (read_frames idx (concat bs)))) pend B = Ret B' pend \<and>
    acceptedStreams B' = Some (n, q @ [length (sstore B)]) \<and> Stream_Read 512 (sstore B' ! length (sstore B)) = Ret s (Some b) \<and> unread s = [] \<and>
    handleStream (ctr + 1) (Some b) dial write =
      (case dial addr of
         None \<Rightarrow> stream_end.DialFailed addr
       | Some reads \<Rightarrow> (case download_loop write reads [] 0 of (out, k) \<Rightarrow> stream_end.Relayed addr out k))"
proof -
  let ?i = "ctr + 1" and ?d = "bytes_of_string addr"
  let ?o = "ctl_frame ?i FrameOpen (mux_nextSeq A + 1)"
  have ch: "chunks (nat (MaxFramePayload env)) ?d = [?d]" using assms(6,8) by (intro chunks_one) (simp_all add: nat_le_iff le_nat_iff)
  obtain A' bs where w: "dialTunnel env wok now addr ctr A = (?i, Ret A' (Inr (length (sstore A))))" "wire (cstore A' ! a) = wire (cstore A ! a) @ bs"
    "list_all2 (\<lambda>f b. MarshalBinary f = Inr b) (?o # data_frames ?i (mux_nextSeq A + 1) [?d]) bs"
    using dialTunnel_wire [where wok = wok and env = env and now = now and addr = addr and ctr = ctr, OF assms(1-5)] unfolding ch by blast
  have rf: "fst (read_frames idx (concat bs)) = map (\<lambda>f. (on_wire f)\<lparr>connIdx := idx\<rparr>) [?o, data_frame ?i (mux_nextSeq A + 1 + 1) ?d]"
    using read_frames_marshalled [OF w(3)] by simp
  obtain B1 asg where b1: "dispatch_frame wok' pick now' pend ((on_wire ?o)\<lparr>connIdx := idx\<rparr>) B = Ret B1 pend" "sstore B1 = sstore B @ [new_Stream ?i asg False]"
    "map_of (streams B1) ?i = Some (length (sstore B))" "acceptedStreams B1 = Some (n, q @ [length (sstore B)])"
    using dispatch_open_new [OF assms(11,13-15), where f = "(on_wire ?o)\<lparr>connIdx := idx\<rparr>" and i = ?i and pend = pend and wok = wok' and pick = pick and now = now'] assms(12,16)
    by (auto simp: on_wire_def ctl_frame_def)
  let ?f = "(on_wire (data_frame ?i (mux_nextSeq A + 1 + 1) ?d))\<lparr>connIdx := idx\<rparr>"
  have "dispatch_all wok' pick [(now', ?f)] pend B1 =
      Ret (upd_stream (length (sstore B)) (\<lambda>s. s\<lparr>recv := recv s @ map (\<lambda>x. Payload (snd x)) [(now', ?f)]\<rparr>) B1) pend"
    using b1 assms(9) by (intro dispatch_all_plain [where i = ?i]) (simp_all add: recvCap_def on_wire_def)
  then have d: "dispatch_all wok' pick (map (Pair now') (fst (read_frames idx (concat bs)))) pend B =
      Ret (upd_stream (length (sstore B)) (\<lambda>s. s\<lparr>recv := recv s @ [?d]\<rparr>) B1) pend"
    using b1(1) by (simp add: rf) (simp add: on_wire_def)
  let ?B = "upd_stream (length (sstore B)) (\<lambda>s. s\<lparr>recv := recv s @ [?d]\<rparr>) B1"
  have "sstore ?B ! length (sstore B) = (new_Stream ?i asg False)\<lparr>recv := [?d]\<rparr>" using b1(2) by simp
  moreover have "Stream_Read 512 ((new_Stream ?i asg False)\<lparr>recv := [?d]\<rparr>) = Ret (new_Stream ?i asg False) (Some ?d)"
    using Stream_Read_first [of "(new_Stream ?i asg False)\<lparr>recv := [?d]\<rparr>" ?d "[]" 512] assms(7) by (simp add: new_Stream_def)
  moreover have "handleStream ?i (Some ?d) dial write = (case dial addr of None \<Rightarrow> stream_end.DialFailed addr
      | Some reads \<Rightarrow> (case download_loop write reads [] 0 of (out, k) \<Rightarrow> stream_end.Relayed addr out k))"
    using assms(10) by (simp add: handleStream_def IsSpeedTestStream_def Let_def flip: not_less)
  moreover have "acceptedStreams ?B = Some (n, q @ [length (sstore B)])" "unread (new_Stream ?i asg False) = []"
    using b1(4) by (simp_all add: upd_stream_def unread_def)
  ultimately show ?thesis using w(1,2) d by (intro exI [of _ A'] exI [of _ bs] exI [of _ ?B] exI [of _ "new_Stream ?i asg False"] exI [of _ ?d]) simp
qed

text \<open>A client and a server with one connection each.\<close>

definition tunnel_client :: Mux where
  "tunnel_client = New False 0 1"

definition tunnel_server :: Mux where
  "tunnel_server = (New False 0 1)\<lparr>acceptedStreams := Some (8, [])\<rparr>"

theorem tunnel_dials_target_witness:
  "\<exists>A' bs B' s b. dialTunnel None (\<lambda>_ _. True) 0 ''a.b:80'' 0 tunnel_client = (0 + 1, Ret A' (Inr (length (sstore tunnel_client)))) \<and>
    wire (cstore A' ! 0) = wire (cstore tunnel_client ! 0) @ bs \<and>
    dispatch_all (\<lambda>_ _. True) True (map (Pair 0) (fst (read_frames 0 (concat bs)))) [] tunnel_server = Ret B' [] \<and>
    acceptedStreams B' = Some (8, [] @ [length (sstore tunnel_server)]) \<and>
    Stream_Read 512 (sstore B' ! length (sstore tunnel_server)) = Ret s (Some b) \<and> unread s = [] \<and>
    handleStream (0 + 1) (Some b) (\<lambda>_. None) (\<lambda>d. (0, True)) =
      (case None of
         None \<Rightarrow> stream_end.DialFailed ''a.b:80''
       | Some reads \<Rightarrow> (case download_loop (\<lambda>d. (0, True)) reads [] 0 of (out, k) \<Rightarrow> stream_end.Relayed ''a.b:80'' out k))"
proof (rule tunnel_dials_target)
  show "selectConn tunnel_client = (fst (selectConn tunnel_client), Some 0)" by code_simp
  show "\<not> shouldStripe (fst (selectConn tunnel_client))" by code_simp
  show "0 < length (cstore tunnel_client)" by code_simp
  show "\<not> connClosed (cstore tunnel_client ! 0)" by code_simp
  show "\<not> max_streams_reached tunnel_server" by code_simp
  show "\<not> shouldStripe tunnel_server" by code_simp
  show "(0 :: u32) + 1 < StreamIDBase" by code_simp
qed (simp_all add: MaxFramePayload_def tunnel_server_def New_def)

text \<open>A frame of a stream that is striped only on the receiving side.\<close>

lemma heap_Push_Nil: "heap_Push lt x [] = [x]"
  by (simp add: heap_Push_def heap_up.simps)

lemma flush_ready_waits: "stripSeq e \<noteq> 0 \<Longrightarrow> flush_ready \<lparr>h = [e], nextSeq = 0, gapSince = g, seenSet = S\<rparr> [] = (\<lparr>h = [e], nextSeq = 0, gapSince = g, seenSet = S\<rparr>, [])"
  by (subst flush_ready.simps) simp

lemma Insert_fresh:
  assumes "seq \<noteq> 0"
  shows "\<exists>rb. Insert now seq d newReorderBuffer = (rb, []) \<and> \<not> Overflowed rb \<and> \<not> GapTimedOut now reorderGapTimeout rb"
proof (cases "serial_lt seq 0")
  case True
  then show ?thesis by (simp add: Insert_def Overflowed_def GapTimedOut_def newReorderBuffer_def reorderMaxFrames_def)
next
  case False
  then show ?thesis using assms
    by (simp add: Insert_def Let_def newReorderBuffer_def heap_Push_Nil flush_ready_waits Overflowed_def GapTimedOut_def reorderMaxFrames_def reorderGapTimeout_def)
qed

lemma nonzero_char:
  assumes "c \<noteq> CHR 0x00"
  shows "(of_nat (of_char c) :: byte) \<noteq> 0"
proof
  assume z: "(of_nat (of_char c) :: byte) = 0"
  have "char_of (unat (of_nat (of_char c) :: byte)) = c"
    using string_of_bytes_of [of "[c]"] by (simp add: string_of_def bytes_of_string_def)
  then have "c = char_of (0 :: nat)" unfolding z by simp
  then show False using assms by (simp add: char_of_def)
qed

lemma dispatch_mismatch:
  assumes "map_of (streams B) i = Some p" "sstore B ! p = new_Stream i asg True" "p < length (sstore B)"
    and "Type f = FrameData" "StreamID f = i" "Payload f \<noteq> []" "hd (Payload f) \<noteq> 0"
  shows "\<exists>B'. dispatch pick now f B = Ret B' () \<and> leftover (sstore B' ! p) = [] \<and> recv (sstore B' ! p) = [] \<and> \<not> recvClosed (sstore B' ! p)
    \<and> acceptedStreams B' = acceptedStreams B"
proof (cases "length (Payload f) < stripSeqSize")
  case True
  then show ?thesis using assms by (intro exI [of _ B]) (simp add: dispatch_def dispatchStriped_def)
next
  case False
  let ?seq = "Uint32 (bslice 0 stripSeqSize (Payload f))"
  have "?seq \<noteq> 0"
  proof
    assume z: "?seq = 0"
    have "length (bslice 0 stripSeqSize (Payload f)) = 4" using False by (simp add: stripSeqSize_def bslice_def)
    from PutUint32_Uint32 [OF this] have "bslice 0 stripSeqSize (Payload f) = PutUint32 0" unfolding z by simp
    then have "take 4 (Payload f) = [0, 0, 0, 0]" by (simp add: stripSeqSize_def PutUint32_def)
    moreover have "hd (take 4 (Payload f)) = hd (Payload f)" using assms(6) by (cases "Payload f") simp_all
    ultimately show False using assms(7) by simp
  qed
  then obtain rb where rb: "Insert now ?seq (drop stripSeqSize (Payload f)) newReorderBuffer = (rb, [])" "\<not> Overflowed rb" "\<not> GapTimedOut now reorderGapTimeout rb"
    using Insert_fresh by blast
  then have "dispatch pick now f B = Ret (upd_stream p (\<lambda>_. (new_Stream i asg True)\<lparr>reorder := Some rb\<rparr>) B) ()"
    using assms False by (simp add: dispatch_def dispatchStriped_def)
  then show ?thesis using assms(3) by (intro exI [of _ "upd_stream p (\<lambda>_. (new_Stream i asg True)\<lparr>reorder := Some rb\<rparr>) B"]) (simp add: upd_stream_def)
qed

text \<open>
  C19: Client and server decide on their own whether a stream is striped.  When the client's multiplexer does not stripe and the server's does
  (it has more connections, or only its environment asks for it), \<^verbatim>\<open>dialTunnel\<close> succeeds, but the server takes the first four bytes of the address for a sequence number: it
  accepts the stream and its read of the address has nothing to return, although all the client has sent has arrived.
\<close>

theorem striping_mismatch_loses_target:
  assumes "selectConn A = (A1, Some a)" "\<not> shouldStripe A1" "a < length (cstore A)" "\<not> connClosed (cstore A ! a)" "\<forall>n. wok a n"
    and "addr \<noteq> []" "hd addr \<noteq> CHR 0x00" "int (length addr) \<le> MaxFramePayload env" "ctr + 1 \<noteq> 0"
    and "\<not> max_streams_reached B" "shouldStripe B" "acceptedStreams B = Some (n, q)" "length q < n" "\<not> acceptClosed B" "map_of pend (ctr + 1) = None"
  shows "\<exists>A' bs B' s. dialTunnel env wok now addr ctr A = (ctr + 1, Ret A' (Inr (length (sstore A)))) \<and>
    wire (cstore A' ! a) = wire (cstore A ! a) @ bs \<and>
    dispatch_all wok' pick (map (Pair now') (fst (read_frames idx (concat bs)))) pend B = Ret B' pend \<and>
    acceptedStreams B' = Some (n, q @ [length (sstore B)]) \<and> Stream_Read 512 (sstore B' ! length (sstore B)) = Blocks s"
proof -
  let ?i = "ctr + 1" and ?d = "bytes_of_string addr"
  let ?o = "ctl_frame ?i FrameOpen (mux_nextSeq A + 1)"
  have ch: "chunks (nat (MaxFramePayload env)) ?d = [?d]" using assms(6,8) by (intro chunks_one) (simp_all add: nat_le_iff le_nat_iff)
  obtain A' bs where w: "dialTunnel env wok now addr ctr A = (?i, Ret A' (Inr (length (sstore A))))" "wire (cstore A' ! a) = wire (cstore A ! a) @ bs"
    "list_all2 (\<lambda>f b. MarshalBinary f = Inr b) (?o # data_frames ?i (mux_nextSeq A + 1) [?d]) bs"
    using dialTunnel_wire [where wok = wok and env = env and now = now and addr = addr and ctr = ctr, OF assms(1-5)] unfolding ch by blast
  have rf: "fst (read_frames idx (concat bs)) = map (\<lambda>f. (on_wire f)\<lparr>connIdx := idx\<rparr>) [?o, data_frame ?i (mux_nextSeq A + 1 + 1) ?d]"
    using read_frames_marshalled [OF w(3)] by simp
  obtain B1 asg where b1: "dispatch_frame wok' pick now' pend ((on_wire ?o)\<lparr>connIdx := idx\<rparr>) B = Ret B1 pend" "sstore B1 = sstore B @ [new_Stream ?i asg True]"
    "map_of (streams B1) ?i = Some (length (sstore B))" "acceptedStreams B1 = Some (n, q @ [length (sstore B)])"
    using dispatch_open_new [OF assms(10,12-14), where f = "(on_wire ?o)\<lparr>connIdx := idx\<rparr>" and i = ?i and pend = pend and wok = wok' and pick = pick and now = now'] assms(11,15)
    by (auto simp: on_wire_def ctl_frame_def)
  let ?f = "(on_wire (data_frame ?i (mux_nextSeq A + 1 + 1) ?d))\<lparr>connIdx := idx\<rparr>"
  have "hd ?d \<noteq> 0"
  proof -
    obtain c cs where "addr = c # cs" using assms(6) by (cases addr) auto
    moreover have "(of_nat (of_char c) :: byte) \<noteq> 0" if "c \<noteq> CHR 0x00" using nonzero_char [OF that] .
    ultimately show ?thesis using assms(7) by (simp add: bytes_of_string_def)
  qed
  then obtain B' where b2: "dispatch pick now' ?f B1 = Ret B' ()" "leftover (sstore B' ! length (sstore B)) = []" "recv (sstore B' ! length (sstore B)) = []"
    "\<not> recvClosed (sstore B' ! length (sstore B))" "acceptedStreams B' = acceptedStreams B1"
    using dispatch_mismatch [OF b1(3), where asg = asg and f = ?f and pick = pick and now = now'] b1(2) assms(6) by (auto simp: on_wire_def)
  have "dispatch_frame wok' pick now' pend ?f B1 = Ret B' pend"
    using dispatch_frame_stream [of ?f B1 "length (sstore B)" wok' pick now' pend] b1(3) b2(1) assms(9) by (simp add: on_wire_def)
  then have "dispatch_all wok' pick (map (Pair now') (fst (read_frames idx (concat bs)))) pend B = Ret B' pend"
    using b1(1) by (simp add: rf)
  moreover have "Stream_Read 512 (sstore B' ! length (sstore B)) = Blocks (sstore B' ! length (sstore B))"
    using b2 by (simp add: Stream_Read_def)
  ultimately show ?thesis using w b1(4) b2(5) by auto
qed

text \<open>A server with two connections whose environment asks for striping.\<close>

definition striping_server :: Mux where
  "striping_server = (New True 0 2)\<lparr>acceptedStreams := Some (8, [])\<rparr>"

theorem striping_mismatch_loses_target_witness:
  "\<exists>A' bs B' s. dialTunnel None (\<lambda>_ _. True) 0 ''a.b:80'' 0 tunnel_client = (0 + 1, Ret A' (Inr (length (sstore tunnel_client)))) \<and>
    wire (cstore A' ! 0) = wire (cstore tunnel_client ! 0) @ bs \<and>
    dispatch_all (\<lambda>_ _. True) True (map (Pair 0) (fst (read_frames 0 (concat bs)))) [] striping_server = Ret B' [] \<and>
    acceptedStreams B' = Some (8, [] @ [length (sstore striping_server)]) \<and> Stream_Read 512 (sstore B' ! length (sstore striping_server)) = Blocks s"
proof (rule striping_mismatch_loses_target)
  show "selectConn tunnel_client = (fst (selectConn tunnel_client), Some 0)" by code_simp
  show "\<not> shouldStripe (fst (selectConn tunnel_client))" by code_simp
  show "0 < length (cstore tunnel_client)" by code_simp
  show "\<not> connClosed (cstore tunnel_client ! 0)" by code_simp
  show "\<not> max_streams_reached striping_server" by code_simp
  show "shouldStripe striping_server" by code_simp
qed (simp_all add: MaxFramePayload_def striping_server_def New_def)

end
