(* ===== verification/Dtls_Bridge.thy ===== *)
theory Dtls_Bridge
  imports Proxy_Prelude
begin

text \<open>
  Encrypted connections over a relay (\<^verbatim>\<open>internal/dtls/relay.go\<close>, \<^verbatim>\<open>client.go\<close>, \<^verbatim>\<open>server.go\<close>): the probes that open a path through
  the relays, the two goroutines that carry packets between the relay and the DTLS layer, and the set-up and the removal of such a connection.
  The DTLS protocol itself, certificates and the pipe are libraries; whether their operations succeed is an argument.
\<close>

section \<open>Punch probes\<close>

text \<open>\<open>rnd\<close> are the twelve random bytes of the transaction.\<close>

definition buildPunchProbe :: "bytes \<Rightarrow> bytes" where
  "buildPunchProbe rnd = [0x00, 0x02, 0, 0, 0x21, 0x12, 0xA4, 0x42] @ rnd"

text \<open>The packet is the first \<open>n\<close> bytes of the buffer.\<close>

definition isPunch :: "bytes \<Rightarrow> bool" where
  "isPunch p \<longleftrightarrow>
     (length p = 1 \<and> p ! 0 = 0x00) \<or>
     (length p = 20 \<and> p ! 0 = 0x00 \<and> p ! 1 = 0x02 \<and> p ! 4 = 0x21 \<and> p ! 5 = 0x12 \<and> p ! 6 = 0xA4 \<and> p ! 7 = 0x42)"

text \<open>\<^verbatim>\<open>PunchRelay\<close>: the outcomes of the writes; the number of writes made and whether one succeeded.\<close>

fun punch_attempts :: "nat \<Rightarrow> bool list \<Rightarrow> nat \<Rightarrow> nat \<times> bool" where
  "punch_attempts 0 ws k = (k, False)"
| "punch_attempts (Suc n) (ok # ws) k = (if ok then (Suc k, True) else punch_attempts n ws (Suc k))"
| "punch_attempts (Suc n) [] k = (k, False)"

definition PunchRelay :: "bool list \<Rightarrow> nat \<times> bool" where
  "PunchRelay ws = punch_attempts 3 ws 0"

text \<open>\<^verbatim>\<open>StartPunchLoop\<close> on the events it sees: the number of probes in the fast and in the steady phase, and whether it has ended.\<close>

datatype punch_event = FastTick | SwitchTimer | SlowTick | PunchDone

fun steady_loop :: "punch_event list \<Rightarrow> nat \<Rightarrow> nat \<times> bool" where
  "steady_loop [] k = (k, False)"
| "steady_loop (PunchDone # es) k = (k, True)"
| "steady_loop (SlowTick # es) k = steady_loop es (Suc k)"
| "steady_loop (_ # es) k = steady_loop es k"

fun StartPunchLoop :: "punch_event list \<Rightarrow> nat \<Rightarrow> nat \<times> nat \<times> bool" where
  "StartPunchLoop [] k = (k, 0, False)"
| "StartPunchLoop (PunchDone # es) k = (k, 0, True)"
| "StartPunchLoop (SwitchTimer # es) k = (case steady_loop es 0 of (n, d) \<Rightarrow> (k, n, d))"
| "StartPunchLoop (FastTick # es) k = StartPunchLoop es (Suc k)"
| "StartPunchLoop (SlowTick # es) k = StartPunchLoop es k"

section \<open>Pacing\<close>

definition DefaultWritePace :: int where "DefaultWritePace = 5 * 10 ^ 6"

definition WritePaceForConns :: "int \<Rightarrow> int" where
  "WritePaceForConns n = (if n \<le> 1 then DefaultWritePace else i64 (DefaultWritePace * n))"

text \<open>The pace of the process, after \<^verbatim>\<open>ScalePaceIfStriping\<close>; \<open>env\<close> is whether \<^verbatim>\<open>ENABLE_STRIPING\<close> is \<^verbatim>\<open>1\<close>.\<close>

definition ScalePaceIfStriping :: "bool \<Rightarrow> int \<Rightarrow> int \<Rightarrow> int" where
  "ScalePaceIfStriping env numConns pace = (if env then WritePaceForConns numConns else pace)"

section \<open>The bridge\<close>

text \<open>
  Each goroutine is at the top of its loop, in its read, or gone.  The bridge may be cancelled, the function that \<^verbatim>\<open>AfterFunc\<close> has registered may have run, and
  the relay and the pipe may have a deadline in the past.  Of the packets there are those that wait at the relay and in the pipe, and those
  that were written to the pipe and to the relay.
\<close>

datatype gphase = GTop | GRead | GDone

record bridge =
  br_cancelled :: bool
  br_fired :: bool
  br_relay_dl :: bool
  br_pipe_dl :: bool
  br_rp :: gphase
  br_pr :: gphase
  br_relay_rx :: "bytes list"
  br_pipe_rx :: "bytes list"
  br_pipe_tx :: "bytes list"
  br_relay_tx :: "bytes list"

definition new_bridge :: "bool \<Rightarrow> bridge" where
  "new_bridge dl = \<lparr>br_cancelled = False, br_fired = False, br_relay_dl = dl, br_pipe_dl = False, br_rp = GTop, br_pr = GTop, br_relay_rx = [], br_pipe_rx = [], br_pipe_tx = [], br_relay_tx = []\<rparr>"

text \<open>The function registered with \<^verbatim>\<open>AfterFunc\<close>.\<close>

definition after_cancel :: "bridge \<Rightarrow> bridge" where
  "after_cancel b = b\<lparr>br_fired := True, br_relay_dl := True, br_pipe_dl := True\<rparr>"

text \<open>The end of a goroutine cancels the bridge.\<close>

definition rp_exit :: "bridge \<Rightarrow> bridge" where
  "rp_exit b = b\<lparr>br_rp := GDone, br_cancelled := True\<rparr>"

definition pr_exit :: "bridge \<Rightarrow> bridge" where
  "pr_exit b = b\<lparr>br_pr := GDone, br_cancelled := True\<rparr>"

definition rp_top :: "bridge \<Rightarrow> bridge" where
  "rp_top b = (if br_cancelled b then rp_exit b else b\<lparr>br_rp := GRead\<rparr>)"

definition pr_top :: "bridge \<Rightarrow> bridge" where
  "pr_top b = (if br_cancelled b then pr_exit b else b\<lparr>br_pr := GRead\<rparr>)"

text \<open>A packet from the relay: a probe is dropped, any other is written to the pipe; \<open>ok\<close> is whether that succeeds.\<close>

definition rp_packet :: "bool \<Rightarrow> bytes \<Rightarrow> bytes list \<Rightarrow> bridge \<Rightarrow> bridge" where
  "rp_packet ok p rest b =
     (let b1 = b\<lparr>br_relay_rx := rest\<rparr>
      in if isPunch p then b1\<lparr>br_rp := GTop\<rparr>
         else if ok then b1\<lparr>br_pipe_tx := br_pipe_tx b @ [p], br_rp := GTop\<rparr>
         else rp_exit b1)"

definition pr_packet :: "bool \<Rightarrow> bytes \<Rightarrow> bytes list \<Rightarrow> bridge \<Rightarrow> bridge" where
  "pr_packet ok p rest b =
     (let b1 = b\<lparr>br_pipe_rx := rest\<rparr>
      in if ok then b1\<lparr>br_relay_tx := br_relay_tx b @ [p], br_pr := GTop\<rparr> else pr_exit b1)"

section \<open>Setting up and removing a connection\<close>

text \<open>
  What the goroutine of the caller does to remove a connection, one operation after the other; \<open>WaitBridge\<close> is \<^verbatim>\<open>wg.Wait()\<close>.
\<close>

datatype teardown = CloseDtls | CancelBridge | WaitBridge | ClosePipe1 | ClosePipe2

datatype dtls_error = RsaKey | SelfSigned | DtlsCreate | DtlsHandshake

definition undo_create :: "teardown list" where
  "undo_create = [CancelBridge, WaitBridge, ClosePipe1, ClosePipe2]"

definition undo_all :: "teardown list" where
  "undo_all = [CloseDtls, CancelBridge, WaitBridge, ClosePipe1, ClosePipe2]"

text \<open>
  The outcomes of the library calls.  The result is an error with what is done before it is returned, or success with the function that the
  caller gets for removing the connection; the flag tells whether the bridge was started.
\<close>

record dtls_setup =
  su_rsa :: bool
  su_cert :: bool
  su_create :: bool
  su_handshake :: bool

definition DialOverTURN :: "dtls_setup \<Rightarrow> bool \<times> (dtls_error \<times> teardown list) + teardown list" where
  "DialOverTURN su =
     (if \<not> su_rsa su then Inl (False, RsaKey, [])
      else if \<not> su_cert su then Inl (False, SelfSigned, [])
      else if \<not> su_create su then Inl (True, DtlsCreate, undo_create)
      else if \<not> su_handshake su then Inl (True, DtlsHandshake, undo_all)
      else Inr undo_all)"

definition AcceptOverTURN :: "dtls_setup \<Rightarrow> bool \<times> (dtls_error \<times> teardown list) + teardown list" where
  "AcceptOverTURN su =
     (if \<not> su_cert su then Inl (False, SelfSigned, [])
      else if \<not> su_create su then Inl (True, DtlsCreate, undo_create)
      else if \<not> su_handshake su then Inl (True, DtlsHandshake, undo_all)
      else Inr undo_all)"

text \<open>\<^verbatim>\<open>VerifyConnection\<close> of the client: pinning of the certificate, if a fingerprint is expected; \<open>sha256\<close> is the hash.\<close>

definition VerifyConnection :: "(bytes \<Rightarrow> bytes) \<Rightarrow> bytes \<Rightarrow> bytes list \<Rightarrow> bool" where
  "VerifyConnection sha256 expectedFP certs =
     (if expectedFP = [] then True
      else case certs of [] \<Rightarrow> False | c # _ \<Rightarrow> sha256 c = expectedFP)"

text \<open>The listener of direct mode: \<^verbatim>\<open>Handshake\<close> gives the connection or closes it; the flag is whether it was closed.\<close>

definition Listener_Handshake :: "bool \<Rightarrow> bool \<Rightarrow> bool \<times> bool" where
  "Listener_Handshake is_dtls handshake_ok = (if \<not> is_dtls then (False, True) else if \<not> handshake_ok then (False, True) else (True, False))"

definition CertFingerprint :: "(bytes \<Rightarrow> bytes) \<Rightarrow> bytes list \<Rightarrow> bytes" where
  "CertFingerprint sha256 certificate = sha256 (certificate ! 0)"

text \<open>A connection with its bridge, its two pipe ends and the removal that is in progress.\<close>

record dtls_conn =
  dc_bridge :: bridge
  dc_dtls_closed :: bool
  dc_pipe1_closed :: bool
  dc_pipe2_closed :: bool
  dc_todo :: "teardown list"

definition do_teardown :: "teardown \<Rightarrow> dtls_conn \<Rightarrow> dtls_conn option" where
  "do_teardown t d =
     (case t of
        CloseDtls \<Rightarrow> Some (d\<lparr>dc_dtls_closed := True\<rparr>)
      | CancelBridge \<Rightarrow> Some (d\<lparr>dc_bridge := (dc_bridge d)\<lparr>br_cancelled := True\<rparr>\<rparr>)
      | WaitBridge \<Rightarrow> if br_rp (dc_bridge d) = GDone \<and> br_pr (dc_bridge d) = GDone then Some d else None
      | ClosePipe1 \<Rightarrow> Some (d\<lparr>dc_pipe1_closed := True\<rparr>)
      | ClosePipe2 \<Rightarrow> Some (d\<lparr>dc_pipe2_closed := True\<rparr>))"

end
