(* ===== verification/Dtls_Props.thy ===== *)
theory Dtls_Props
  imports Dtls_Bridge "HOL-Library.Sublist"
begin

text \<open>
  Properties of connections over a relay: the bridge carries every packet of the DTLS layer and only drops probes; removing a connection always
  comes to an end, with the goroutines gone before the pipe is closed; a relay that a failed attempt has used stays unusable.
\<close>

section \<open>The bridge and its goroutines as steps\<close>

text \<open>
  The packets that have arrived at the relay and that the DTLS layer has put into the pipe are the first two arguments.  Reads and writes keep the contract of
  \<^verbatim>\<open>net.PacketConn\<close>: past the deadline they fail, before it they may fail at any time.
\<close>

inductive bridge_env :: "bytes list \<times> bytes list \<times> bridge \<Rightarrow> bytes list \<times> bytes list \<times> bridge \<Rightarrow> bool" where
  relay_arrives: "bridge_env (xs, ys, b) (xs @ [p], ys, b\<lparr>br_relay_rx := br_relay_rx b @ [p]\<rparr>)"
| dtls_writes: "bridge_env (xs, ys, b) (xs, ys @ [p], b\<lparr>br_pipe_rx := br_pipe_rx b @ [p]\<rparr>)"

inductive bridge_act :: "bridge \<Rightarrow> bridge \<Rightarrow> bool" where
  rp_at_top: "br_rp b = GTop \<Longrightarrow> bridge_act b (rp_top b)"
| pr_at_top: "br_pr b = GTop \<Longrightarrow> bridge_act b (pr_top b)"
| rp_reads: "br_rp b = GRead \<Longrightarrow> \<not> br_relay_dl b \<Longrightarrow> br_relay_rx b = p # rest \<Longrightarrow> (ok \<longrightarrow> \<not> br_pipe_dl b) \<Longrightarrow> bridge_act b (rp_packet ok p rest b)"
| pr_reads: "br_pr b = GRead \<Longrightarrow> \<not> br_pipe_dl b \<Longrightarrow> br_pipe_rx b = p # rest \<Longrightarrow> (ok \<longrightarrow> \<not> br_relay_dl b) \<Longrightarrow> bridge_act b (pr_packet ok p rest b)"
| rp_fails: "br_rp b = GRead \<Longrightarrow> bridge_act b (rp_exit b)"
| pr_fails: "br_pr b = GRead \<Longrightarrow> bridge_act b (pr_exit b)"
| after_func: "br_cancelled b \<Longrightarrow> \<not> br_fired b \<Longrightarrow> bridge_act b (after_cancel b)"

text \<open>A connection: its bridge, and the goroutine that removes it.\<close>

inductive conn_act :: "dtls_conn \<Rightarrow> dtls_conn \<Rightarrow> bool" where
  by_bridge: "bridge_act (dc_bridge d) b \<Longrightarrow> conn_act d (d\<lparr>dc_bridge := b\<rparr>)"
| by_caller: "dc_todo d = t # ts \<Longrightarrow> do_teardown t d = Some d' \<Longrightarrow> conn_act d (d'\<lparr>dc_todo := ts\<rparr>)"

inductive conn_step :: "bytes list \<times> bytes list \<times> dtls_conn \<Rightarrow> bytes list \<times> bytes list \<times> dtls_conn \<Rightarrow> bool" where
  from_outside: "bridge_env (xs, ys, dc_bridge d) (xs', ys', b) \<Longrightarrow> conn_step (xs, ys, d) (xs', ys', d\<lparr>dc_bridge := b\<rparr>)"
| from_inside: "conn_act d d' \<Longrightarrow> conn_step (xs, ys, d) (xs, ys, d')"

definition new_conn :: "bool \<Rightarrow> teardown list \<Rightarrow> dtls_conn" where
  "new_conn dl todo = \<lparr>dc_bridge = new_bridge dl, dc_dtls_closed = False, dc_pipe1_closed = False, dc_pipe2_closed = False, dc_todo = todo\<rparr>"

section \<open>What the bridge carries\<close>

text \<open>While a goroutine lives it has passed on all it has taken; one that has ended may have lost the packet it was writing.\<close>

definition carried :: "bytes list \<Rightarrow> bytes list \<Rightarrow> bridge \<Rightarrow> bool" where
  "carried xs ys b \<longleftrightarrow>
     (\<exists>taken. xs = taken @ br_relay_rx b \<and> prefix (br_pipe_tx b) (filter (\<lambda>p. \<not> isPunch p) taken) \<and>
        (br_rp b \<noteq> GDone \<longrightarrow> br_pipe_tx b = filter (\<lambda>p. \<not> isPunch p) taken)) \<and>
     (\<exists>taken. ys = taken @ br_pipe_rx b \<and> prefix (br_relay_tx b) taken \<and> (br_pr b \<noteq> GDone \<longrightarrow> br_relay_tx b = taken))"

lemmas bridge_defs = rp_top_def pr_top_def rp_exit_def pr_exit_def rp_packet_def pr_packet_def after_cancel_def

lemma carried_cong:
  assumes "carried xs ys b" "br_relay_rx b' = br_relay_rx b" "br_pipe_rx b' = br_pipe_rx b" "br_pipe_tx b' = br_pipe_tx b" "br_relay_tx b' = br_relay_tx b"
    and "br_rp b = GDone \<longrightarrow> br_rp b' = GDone" "br_pr b = GDone \<longrightarrow> br_pr b' = GDone"
  shows "carried xs ys b'"
  using assms unfolding carried_def by auto

lemma carried_env:
  assumes "bridge_env (xs, ys, b) (xs', ys', b')" "carried xs ys b"
  shows "carried xs' ys' b'"
  using assms(1)
proof (cases rule: bridge_env.cases)
  case (relay_arrives p)
  then show ?thesis using assms(2) unfolding carried_def by auto
next
  case (dtls_writes p)
  then show ?thesis using assms(2) unfolding carried_def by auto
qed

lemma carried_act:
  assumes "bridge_act b b'" "carried xs ys b"
  shows "carried xs ys b'"
  using assms(1)
proof (cases rule: bridge_act.cases)
  case (rp_reads p rest ok)
  obtain taken where t: "xs = taken @ p # rest" "br_pipe_tx b = filter (\<lambda>p. \<not> isPunch p) taken"
    using assms(2) rp_reads unfolding carried_def by auto
  have "xs = (taken @ [p]) @ br_relay_rx b'" using rp_reads t(1) by (simp add: rp_packet_def rp_exit_def Let_def)
  moreover have "prefix (br_pipe_tx b') (filter (\<lambda>p. \<not> isPunch p) (taken @ [p]))" "br_rp b' \<noteq> GDone \<longrightarrow> br_pipe_tx b' = filter (\<lambda>p. \<not> isPunch p) (taken @ [p])"
    using rp_reads t(2) by (auto simp: rp_packet_def rp_exit_def Let_def)
  moreover have "\<exists>taken. ys = taken @ br_pipe_rx b' \<and> prefix (br_relay_tx b') taken \<and> (br_pr b' \<noteq> GDone \<longrightarrow> br_relay_tx b' = taken)"
    using assms(2) rp_reads unfolding carried_def by (auto simp: rp_packet_def rp_exit_def Let_def)
  ultimately show ?thesis unfolding carried_def by blast
next
  case (pr_reads p rest ok)
  obtain taken where t: "ys = taken @ p # rest" "br_relay_tx b = taken"
    using assms(2) pr_reads unfolding carried_def by auto
  have "ys = (taken @ [p]) @ br_pipe_rx b'" using pr_reads t(1) by (simp add: pr_packet_def pr_exit_def Let_def)
  moreover have "prefix (br_relay_tx b') (taken @ [p])" "br_pr b' \<noteq> GDone \<longrightarrow> br_relay_tx b' = taken @ [p]"
    using pr_reads t(2) by (auto simp: pr_packet_def pr_exit_def Let_def)
  moreover have "\<exists>taken. xs = taken @ br_relay_rx b' \<and> prefix (br_pipe_tx b') (filter (\<lambda>p. \<not> isPunch p) taken) \<and>
        (br_rp b' \<noteq> GDone \<longrightarrow> br_pipe_tx b' = filter (\<lambda>p. \<not> isPunch p) taken)"
    using assms(2) pr_reads unfolding carried_def by (auto simp: pr_packet_def pr_exit_def Let_def)
  ultimately show ?thesis unfolding carried_def by blast
qed (use assms(2) in \<open>auto simp: bridge_defs elim!: carried_cong\<close>)

lemma do_teardown_bridge:
  "do_teardown t d = Some d' \<Longrightarrow> dc_bridge d' = dc_bridge d \<or> dc_bridge d' = (dc_bridge d)\<lparr>br_cancelled := True\<rparr>"
  by (auto simp: do_teardown_def split: teardown.splits if_splits)

lemma carried_step:
  assumes "conn_step (xs, ys, d) (xs', ys', d')" "carried xs ys (dc_bridge d)"
  shows "carried xs' ys' (dc_bridge d')"
  using assms(1)
proof (cases rule: conn_step.cases)
  case (from_outside b)
  then show ?thesis using carried_env assms(2) by simp
next
  case from_inside
  from from_inside(3) show ?thesis
  proof (cases rule: conn_act.cases)
    case (by_bridge b)
    then show ?thesis using carried_act assms(2) from_inside(1,2) by simp
  next
    case (by_caller t ts e)
    then show ?thesis using do_teardown_bridge [OF by_caller(3)] assms(2) from_inside(1,2) by (auto elim!: carried_cong)
  qed
qed

lemma isPunch_probe: "length rnd = 12 \<Longrightarrow> isPunch (buildPunchProbe rnd)"
  by (simp add: isPunch_def buildPunchProbe_def)

lemma not_isPunch: "p \<noteq> [] \<Longrightarrow> hd p \<noteq> 0 \<Longrightarrow> \<not> isPunch p"
  by (cases p) (auto simp: isPunch_def)

section \<open>Removal\<close>

text \<open>
  What every state satisfies: \<^verbatim>\<open>AfterFunc\<close> has set the deadlines if it has run, a goroutine that is gone has cancelled the bridge, the removal has cancelled
  it once that operation is done, the pipe is closed only after the wait, and what is done is no longer to be done.
\<close>

definition removal_ok :: "dtls_conn \<Rightarrow> bool" where
  "removal_ok d \<longleftrightarrow>
     (br_fired (dc_bridge d) \<longrightarrow> br_relay_dl (dc_bridge d) \<and> br_pipe_dl (dc_bridge d)) \<and>
     suffix (dc_todo d) undo_all \<and>
     (CancelBridge \<notin> set (dc_todo d) \<longrightarrow> br_cancelled (dc_bridge d)) \<and>
     (WaitBridge \<notin> set (dc_todo d) \<longrightarrow> br_rp (dc_bridge d) = GDone \<and> br_pr (dc_bridge d) = GDone) \<and>
     (dc_pipe1_closed d \<longleftrightarrow> ClosePipe1 \<notin> set (dc_todo d)) \<and> (dc_pipe2_closed d \<longleftrightarrow> ClosePipe2 \<notin> set (dc_todo d))"

lemma suffix_undo_all: "suffix xs undo_all \<longleftrightarrow> xs \<in> set [undo_all, undo_create, [WaitBridge, ClosePipe1, ClosePipe2], [ClosePipe1, ClosePipe2], [ClosePipe2], []]"
  by (auto simp: undo_all_def undo_create_def suffix_Cons)

lemma bridge_act_facts:
  assumes "bridge_act b b'"
  shows "br_fired b' \<longrightarrow> br_relay_dl b' \<and> br_pipe_dl b' \<or> br_fired b \<and> br_relay_dl b' = br_relay_dl b \<and> br_pipe_dl b' = br_pipe_dl b"
    "br_cancelled b \<longrightarrow> br_cancelled b'" "br_rp b = GDone \<longrightarrow> br_rp b' = GDone" "br_pr b = GDone \<longrightarrow> br_pr b' = GDone"
  using assms by (cases rule: bridge_act.cases; auto simp: bridge_defs Let_def)+

lemma removal_act:
  assumes "conn_act d d'" "removal_ok d"
  shows "removal_ok d'"
  using assms(1)
proof (cases rule: conn_act.cases)
  case (by_bridge b)
  then show ?thesis using bridge_act_facts [OF by_bridge(2)] assms(2) by (auto simp: removal_ok_def)
next
  case (by_caller t ts e)
  then have "suffix (t # ts) undo_all" using assms(2) by (simp add: removal_ok_def)
  then have "t # ts \<in> set [undo_all, undo_create, [WaitBridge, ClosePipe1, ClosePipe2], [ClosePipe1, ClosePipe2], [ClosePipe2], []]"
    by (simp only: suffix_undo_all)
  then consider "t = CloseDtls" "ts = undo_create" | "t = CancelBridge" "ts = [WaitBridge, ClosePipe1, ClosePipe2]" | "t = WaitBridge" "ts = [ClosePipe1, ClosePipe2]"
    | "t = ClosePipe1" "ts = [ClosePipe2]" | "t = ClosePipe2" "ts = []"
    unfolding undo_all_def undo_create_def by auto
  moreover have "suffix ts undo_all" using \<open>suffix (t # ts) undo_all\<close> by (rule suffix_ConsD)
  ultimately show ?thesis
    using by_caller assms(2) by cases (auto simp: removal_ok_def undo_create_def do_teardown_def split: if_splits)
qed

lemma bridge_env_facts:
  assumes "bridge_env (xs, ys, b) (xs', ys', b')"
  shows "br_fired b' = br_fired b" "br_relay_dl b' = br_relay_dl b" "br_pipe_dl b' = br_pipe_dl b" "br_cancelled b' = br_cancelled b"
    "br_rp b' = br_rp b" "br_pr b' = br_pr b" "br_pipe_tx b' = br_pipe_tx b"
  using assms by (cases rule: bridge_env.cases; simp)+

lemma removal_step:
  assumes "conn_step (xs, ys, d) (xs', ys', d')" "removal_ok d"
  shows "removal_ok d'"
  using assms(1)
proof (cases rule: conn_step.cases)
  case (from_outside b)
  then show ?thesis using bridge_env_facts [OF from_outside(2)] assms(2) by (simp add: removal_ok_def)
qed (use removal_act assms(2) in blast)

lemma conn_run_inv:
  assumes "conn_step\<^sup>*\<^sup>* s s'" "removal_ok (snd (snd s))" "carried (fst s) (fst (snd s)) (dc_bridge (snd (snd s)))"
  shows "removal_ok (snd (snd s')) \<and> carried (fst s') (fst (snd s')) (dc_bridge (snd (snd s')))"
  using assms
proof (induction rule: rtranclp_induct)
  case (step y z)
  obtain xs ys d where y: "y = (xs, ys, d)" by (cases y)
  obtain xs' ys' d' where z: "z = (xs', ys', d')" by (cases z)
  show ?case using step.hyps(2) step.IH [OF step.prems] removal_step [of xs ys d xs' ys' d'] carried_step [of xs ys d xs' ys' d'] by (simp add: y z)
qed simp










text \<open>A state in which nothing is left to do for the program: no goroutine can go on without a packet, and the caller is not held up.\<close>

definition quiet :: "dtls_conn \<Rightarrow> bool" where
  "quiet d \<longleftrightarrow>
     (let b = dc_bridge d
      in br_rp b \<noteq> GTop \<and> br_pr b \<noteq> GTop \<and> \<not> (br_cancelled b \<and> \<not> br_fired b) \<and> \<not> (br_rp b = GRead \<and> br_relay_dl b) \<and> \<not> (br_pr b = GRead \<and> br_pipe_dl b) \<and>
         (case dc_todo d of [] \<Rightarrow> True | t # ts \<Rightarrow> do_teardown t d = None))"

lemma gphase_cases: "g \<noteq> GTop \<Longrightarrow> g \<noteq> GRead \<Longrightarrow> g = GDone"
  by (cases g) simp_all

lemma quiet_removed:
  assumes "removal_ok d" "quiet d"
  shows "dc_todo d = [] \<and> br_rp (dc_bridge d) = GDone \<and> br_pr (dc_bridge d) = GDone \<and> dc_pipe1_closed d \<and> dc_pipe2_closed d"
proof -
  have m: "dc_todo d \<in> set [undo_all, undo_create, [WaitBridge, ClosePipe1, ClosePipe2], [ClosePipe1, ClosePipe2], [ClosePipe2], []]"
    using assms(1) suffix_undo_all by (simp add: removal_ok_def)
  have f: False if t: "dc_todo d = t # ts" for t ts
  proof -
    have n: "do_teardown t d = None" using assms(2) t by (simp add: quiet_def Let_def)
    then have t': "t = WaitBridge" "br_rp (dc_bridge d) \<noteq> GDone \<or> br_pr (dc_bridge d) \<noteq> GDone" by (auto simp: do_teardown_def split: teardown.splits if_splits)
    then have "CancelBridge \<notin> set (dc_todo d)" using t m by (auto simp: undo_all_def undo_create_def)
    then have "br_cancelled (dc_bridge d)" using assms(1) by (simp add: removal_ok_def)
    then have "br_relay_dl (dc_bridge d)" "br_pipe_dl (dc_bridge d)" using assms by (auto simp: quiet_def removal_ok_def Let_def)
    then show False using t'(2) assms(2) gphase_cases by (auto simp: quiet_def Let_def)
  qed
  have "dc_todo d = []" using f by (cases "dc_todo d") blast+
  then show ?thesis using assms(1) by (simp add: removal_ok_def)
qed

section \<open>Properties\<close>

lemma new_conn_ok: "todo \<in> {undo_create, undo_all} \<Longrightarrow> removal_ok (new_conn dl todo) \<and> carried [] [] (dc_bridge (new_conn dl todo))"
  by (auto simp: removal_ok_def carried_def new_conn_def new_bridge_def suffix_Cons undo_all_def undo_create_def)

text \<open>A run that carries a probe and a packet, after which the connection is removed.\<close>

definition demo_run :: "bytes \<Rightarrow> dtls_conn" where
  "demo_run p = (new_conn False [])\<lparr>dc_bridge := (new_bridge True)\<lparr>br_cancelled := True, br_fired := True, br_pipe_dl := True, br_rp := GDone, br_pr := GDone, br_pipe_tx := [p]\<rparr>,
     dc_dtls_closed := True, dc_pipe1_closed := True, dc_pipe2_closed := True\<rparr>"

lemma conn_bridge_step: "bridge_act (dc_bridge d) b \<Longrightarrow> conn_step (xs, ys, d) (xs, ys, d\<lparr>dc_bridge := b\<rparr>)"
  by (rule from_inside, rule by_bridge)

lemma conn_caller_step:
  assumes "dc_todo d = t # ts" "do_teardown t d \<noteq> None" "d' = (the (do_teardown t d))\<lparr>dc_todo := ts\<rparr>"
  shows "conn_step (xs, ys, d) (xs, ys, d')"
  using assms from_inside [OF by_caller [of d t ts "the (do_teardown t d)"]] by auto

lemma demo_run_reached:
  assumes "\<not> isPunch p"
  shows "conn_step\<^sup>*\<^sup>* ([], [], new_conn False undo_all) ([p], [], demo_run p)"
proof -
  let ?b0 = "new_bridge False" and ?fresh = "new_conn False undo_all"
  let ?b1 = "?b0\<lparr>br_relay_rx := [p]\<rparr>"
  let ?b2 = "?b1\<lparr>br_rp := GRead\<rparr>"
  let ?b3 = "?b0\<lparr>br_pipe_tx := [p]\<rparr>"
  let ?b4 = "?b3\<lparr>br_cancelled := True\<rparr>"
  let ?b5 = "?b4\<lparr>br_fired := True, br_relay_dl := True, br_pipe_dl := True\<rparr>"
  let ?b6 = "?b5\<lparr>br_rp := GDone\<rparr>"
  let ?b7 = "?b6\<lparr>br_pr := GDone\<rparr>"
  have 1: "conn_step ([], [], ?fresh) ([p], [], ?fresh\<lparr>dc_bridge := ?b1\<rparr>)"
    using from_outside [OF relay_arrives [of "[]" "[]" "dc_bridge ?fresh" p]] by (simp add: new_conn_def new_bridge_def)
  have 2: "conn_step ([p], [], ?fresh\<lparr>dc_bridge := ?b1\<rparr>) ([p], [], ?fresh\<lparr>dc_bridge := ?b2\<rparr>)"
    using conn_bridge_step [OF rp_at_top, of "?fresh\<lparr>dc_bridge := ?b1\<rparr>" "[p]" "[]"] by (simp add: rp_top_def new_bridge_def)
  have 3: "conn_step ([p], [], ?fresh\<lparr>dc_bridge := ?b2\<rparr>) ([p], [], ?fresh\<lparr>dc_bridge := ?b3\<rparr>)"
    using conn_bridge_step [OF rp_reads, of "?fresh\<lparr>dc_bridge := ?b2\<rparr>" p "[]" True "[p]" "[]"] assms by (simp add: rp_packet_def new_bridge_def)
  have 4: "conn_step ([p], [], ?fresh\<lparr>dc_bridge := ?b3\<rparr>) ([p], [], ?fresh\<lparr>dc_bridge := ?b3, dc_dtls_closed := True, dc_todo := undo_create\<rparr>)"
    by (rule conn_caller_step [where t = CloseDtls]) (simp_all add: new_conn_def undo_all_def undo_create_def do_teardown_def)
  have 5: "conn_step ([p], [], ?fresh\<lparr>dc_bridge := ?b3, dc_dtls_closed := True, dc_todo := undo_create\<rparr>)
      ([p], [], ?fresh\<lparr>dc_bridge := ?b4, dc_dtls_closed := True, dc_todo := [WaitBridge, ClosePipe1, ClosePipe2]\<rparr>)"
    by (rule conn_caller_step [where t = CancelBridge]) (simp_all add: new_conn_def undo_create_def do_teardown_def undo_all_def)
  let ?w = "\<lambda>b. ?fresh\<lparr>dc_bridge := b, dc_dtls_closed := True, dc_todo := [WaitBridge, ClosePipe1, ClosePipe2]\<rparr>"
  have 6: "conn_step ([p], [], ?w ?b4) ([p], [], ?w ?b5)"
    using conn_bridge_step [OF after_func, of "?w ?b4" "[p]" "[]"] by (simp add: after_cancel_def new_bridge_def new_conn_def)
  have 7: "conn_step ([p], [], ?w ?b5) ([p], [], ?w ?b6)"
    using conn_bridge_step [OF rp_at_top, of "?w ?b5" "[p]" "[]"] by (simp add: rp_top_def rp_exit_def new_bridge_def new_conn_def)
  have 8: "conn_step ([p], [], ?w ?b6) ([p], [], ?w ?b7)"
    using conn_bridge_step [OF pr_at_top, of "?w ?b6" "[p]" "[]"] by (simp add: pr_top_def pr_exit_def new_bridge_def new_conn_def)
  have 9: "conn_step ([p], [], ?w ?b7) ([p], [], ?fresh\<lparr>dc_bridge := ?b7, dc_dtls_closed := True, dc_todo := [ClosePipe1, ClosePipe2]\<rparr>)"
    by (rule conn_caller_step [where t = WaitBridge]) (simp_all add: new_conn_def do_teardown_def undo_create_def undo_all_def)
  have 10: "conn_step ([p], [], ?fresh\<lparr>dc_bridge := ?b7, dc_dtls_closed := True, dc_todo := [ClosePipe1, ClosePipe2]\<rparr>)
      ([p], [], ?fresh\<lparr>dc_bridge := ?b7, dc_dtls_closed := True, dc_pipe1_closed := True, dc_todo := [ClosePipe2]\<rparr>)"
    by (rule conn_caller_step [where t = ClosePipe1]) (simp_all add: new_conn_def do_teardown_def undo_create_def undo_all_def)
  have 11: "conn_step ([p], [], ?fresh\<lparr>dc_bridge := ?b7, dc_dtls_closed := True, dc_pipe1_closed := True, dc_todo := [ClosePipe2]\<rparr>) ([p], [], demo_run p)"
    by (rule conn_caller_step [where t = ClosePipe2]) (simp_all add: new_conn_def do_teardown_def demo_run_def new_bridge_def undo_create_def undo_all_def)
  show ?thesis
    using 1 2 3 4 5 6 7 8 9 10 11 by (meson converse_rtranclp_into_rtranclp rtranclp.rtrancl_refl)
qed

lemma demo_facts:
  "quiet (demo_run [22])" "br_cancelled (dc_bridge (demo_run [22]))" "dc_todo (demo_run [22]) = []" "dc_pipe1_closed (demo_run [22])" "br_relay_dl (dc_bridge (demo_run [22]))"
  "br_pipe_tx (dc_bridge (demo_run [22])) = [[22]]" "\<not> isPunch [22]"
  by (simp_all add: quiet_def demo_run_def new_conn_def new_bridge_def Let_def isPunch_def)

text \<open>
  C17: The bridge is transparent for the DTLS layer.  Whatever the two goroutines, the removal and the network do, in any order: what was written into the pipe are the packets
  that were taken from the relay, in their order, without the probes and without any other loss, except that the goroutine may have ended on the last
  one; likewise for the packets from the pipe to the relay, of which none is dropped.  A packet that does not begin with a zero byte, as no DTLS record does, is never taken
  for a probe, and the probes that the punch loops send always are.
\<close>

theorem bridge_transparent:
  assumes "conn_step\<^sup>*\<^sup>* ([], [], new_conn dl todo) (xs, ys, d)" "todo \<in> {undo_create, undo_all}" "length rnd = 12" "p \<noteq> []" "hd p \<noteq> 0"
  shows "(\<exists>taken sent. xs = taken @ br_relay_rx (dc_bridge d) \<and> ys = sent @ br_pipe_rx (dc_bridge d) \<and>
      prefix (br_pipe_tx (dc_bridge d)) (filter (\<lambda>p. \<not> isPunch p) taken) \<and> prefix (br_relay_tx (dc_bridge d)) sent \<and>
      (br_rp (dc_bridge d) \<noteq> GDone \<longrightarrow> br_pipe_tx (dc_bridge d) = filter (\<lambda>p. \<not> isPunch p) taken) \<and>
      (br_pr (dc_bridge d) \<noteq> GDone \<longrightarrow> br_relay_tx (dc_bridge d) = sent)) \<and>
    \<not> isPunch p \<and> isPunch (buildPunchProbe rnd)"
proof -
  have "carried xs ys (dc_bridge d)" using conn_run_inv [OF assms(1)] new_conn_ok [OF assms(2), of dl] by simp
  then show ?thesis
    using isPunch_probe [OF assms(3)] not_isPunch [OF assms(4,5)] unfolding carried_def by blast
qed

theorem bridge_transparent_witness:
  "(\<exists>taken. [[22]] = taken @ br_relay_rx (dc_bridge (demo_run [22])) \<and> prefix [[22]] (filter (\<lambda>p. \<not> isPunch p) taken)) \<and>
   \<not> isPunch [22] \<and> isPunch (buildPunchProbe (replicate 12 7))"
  using bridge_transparent [OF demo_run_reached [OF demo_facts(7)], of "replicate 12 7" "[22]"] demo_facts(6) by auto



lemma relay_dl_step:
  assumes "conn_step (xs, ys, d) (xs', ys', d')" "br_relay_dl (dc_bridge d) \<and> br_pipe_tx (dc_bridge d) = [] \<and> br_relay_tx (dc_bridge d) = []"
  shows "br_relay_dl (dc_bridge d') \<and> br_pipe_tx (dc_bridge d') = [] \<and> br_relay_tx (dc_bridge d') = []"
  using assms(1)
proof (cases rule: conn_step.cases)
  case (from_outside b)
  from from_outside(2) show ?thesis by (cases rule: bridge_env.cases) (use assms(2) from_outside(1) in auto)
next
  case from_inside
  from from_inside(3) show ?thesis
  proof (cases rule: conn_act.cases)
    case (by_bridge b)
    from by_bridge(2) show ?thesis
      by (cases rule: bridge_act.cases) (use assms(2) by_bridge(1) in \<open>auto simp: bridge_defs Let_def\<close>)
  next
    case (by_caller t ts d2)
    then show ?thesis using do_teardown_bridge [OF by_caller(3)] assms(2) by auto
  qed
qed

lemma relay_dl_run:
  assumes "conn_step\<^sup>*\<^sup>* s s'" "br_relay_dl (dc_bridge (snd (snd s))) \<and> br_pipe_tx (dc_bridge (snd (snd s))) = [] \<and> br_relay_tx (dc_bridge (snd (snd s))) = []"
  shows "br_relay_dl (dc_bridge (snd (snd s'))) \<and> br_pipe_tx (dc_bridge (snd (snd s'))) = [] \<and> br_relay_tx (dc_bridge (snd (snd s'))) = []"
  using assms
proof (induction rule: rtranclp_induct)
  case (step y z)
  obtain xs ys d where y: "y = (xs, ys, d)" by (cases y)
  obtain xs' ys' d' where z: "z = (xs', ys', d')" by (cases z)
  show ?case using step.hyps(2) step.IH [OF step.prems] relay_dl_step [of xs ys d xs' ys' d'] by (simp add: y z)
qed simp

text \<open>
  A relay that a removed connection has used carries nothing any more.  The removal sets a deadline in the past on the relay and nothing ever takes it back; under the contract of
  \<^verbatim>\<open>net.PacketConn\<close> a further attempt over the same relay, such as the second and third attempts of a slot, neither delivers a packet to the DTLS layer nor sends one.
\<close>

theorem retry_over_relay_dead:
  assumes "conn_step\<^sup>*\<^sup>* ([], [], new_conn dl todo) (xs, ys, d)" "todo \<in> {undo_create, undo_all}" "quiet d"
    and "conn_step\<^sup>*\<^sup>* ([], [], new_conn (br_relay_dl (dc_bridge d)) todo') (xs', ys', d')"
  shows "br_pipe_tx (dc_bridge d') = [] \<and> br_relay_tx (dc_bridge d') = []"
proof -
  have ok: "removal_ok d" using conn_run_inv [OF assms(1)] new_conn_ok [OF assms(2), of dl] by simp
  then have "br_cancelled (dc_bridge d)" using quiet_removed [OF ok assms(3)] by (simp add: removal_ok_def)
  then have "br_relay_dl (dc_bridge d)" using ok assms(3) by (auto simp: quiet_def removal_ok_def Let_def)
  then show ?thesis using relay_dl_run [OF assms(4)] by (simp add: new_conn_def new_bridge_def)
qed

section \<open>Pacing and probes\<close>

text \<open>With the scaled pace all connections together write at most 200 packets in a second.\<close>

lemma pace_limits_rate:
  assumes "1 \<le> n" "n \<le> 10 ^ 9"
  shows "n * (10 ^ 9 div WritePaceForConns n) \<le> 200"
proof -
  have p: "WritePaceForConns n = 5 * 10 ^ 6 * n"
  proof (cases "n \<le> 1")
    case False
    have "- (2 ^ 63) \<le> DefaultWritePace * n" "DefaultWritePace * n < 2 ^ 63" using assms by (simp_all add: DefaultWritePace_def)
    then show ?thesis using False by (simp add: WritePaceForConns_def DefaultWritePace_def)
  qed (use assms in \<open>simp add: WritePaceForConns_def DefaultWritePace_def\<close>)
  have "10 ^ 9 div (5 * 10 ^ 6 * n) = 200 div n" using div_mult_mult1 [of "5 * 10 ^ 6 :: int" 200 n] by (simp add: mult.assoc)
  then have "n * (10 ^ 9 div WritePaceForConns n) = 200 - 200 mod n" using p minus_mod_eq_mult_div [of 200 n] by simp
  moreover have "0 \<le> 200 mod n" using assms(1) by (simp add: pos_mod_sign)
  ultimately show ?thesis by linarith
qed

text \<open>\<^verbatim>\<open>PunchRelay\<close> writes at most three times and stops at the first success.\<close>

lemma punch_attempts_bound:
  "punch_attempts n ws k = (m, ok) \<Longrightarrow> m \<le> k + n \<and> (ok \<longleftrightarrow> True \<in> set (take n ws))"
  by (induction n ws k rule: punch_attempts.induct) (auto split: if_splits)

text \<open>The fast phase sends one probe for each tick before the switch, the steady phase one for each slow tick before the end.\<close>

lemma StartPunchLoop_ends:
  "set es \<subseteq> {FastTick} \<Longrightarrow> set fs \<subseteq> {SlowTick, FastTick} \<Longrightarrow>
   StartPunchLoop (es @ SwitchTimer # fs @ [PunchDone]) k = (k + length es, length (filter (\<lambda>e. e = SlowTick) fs), True)"
proof -
  have st: "steady_loop (fs @ [PunchDone]) j = (j + length (filter (\<lambda>e. e = SlowTick) fs), True)" if "set fs \<subseteq> {SlowTick, FastTick}" for j
    using that by (induction fs arbitrary: j) auto
  show "set es \<subseteq> {FastTick} \<Longrightarrow> set fs \<subseteq> {SlowTick, FastTick} \<Longrightarrow> ?thesis"
    by (induction es arbitrary: k) (auto simp: st)
qed

end
