(* ===== verification/Mobile_Connect.thy ===== *)
theory Mobile_Connect
  imports Relay_Session Go_Base64
begin

text \<open>
  How the mobile library connects (\<^verbatim>\<open>mobile/bind/tunnel.go\<close>, first half, and \<^verbatim>\<open>mobile/bind/captcha.go\<close>): the buffer of log lines, the
  choice of a mode from the configuration, the list of servers, and the functions that set up the connections of each mode.  The call services, TURN, DTLS and
  signaling are arguments, as in \<open>Call_Slot\<close> and \<open>Relay_Session\<close>.
\<close>

section \<open>The log buffer\<close>

record LogBuffer =
  lb_lines :: "string list"
  lb_cap :: nat

definition NewLogBuffer :: "nat \<Rightarrow> LogBuffer" where
  "NewLogBuffer capacity = \<lparr>lb_lines = [], lb_cap = capacity\<rparr>"

definition newline :: char where "newline = CHR 0x0A"

definition TrimRight_newline :: "string \<Rightarrow> string" where
  "TrimRight_newline s = rev (dropWhile (\<lambda>c. c = newline) (rev s))"

text \<open>A buffer of capacity 0 slices an empty slice from 1, which panics.\<close>

fun lb_append :: "nat \<Rightarrow> string list \<Rightarrow> string list \<Rightarrow> panic + string list" where
  "lb_append n [] ls = Inr ls"
| "lb_append n (l # new) ls =
     (if l = [] then lb_append n new ls
      else if length ls \<ge> n then (if ls = [] then Inl SliceBounds else lb_append n new (tl ls @ [l]))
      else lb_append n new (ls @ [l]))"

definition lb_Write :: "string \<Rightarrow> LogBuffer \<Rightarrow> panic + LogBuffer" where
  "lb_Write p lb =
     (case lb_append (lb_cap lb) (split_on newline (TrimRight_newline p)) (lb_lines lb) of
        Inl e \<Rightarrow> Inl e
      | Inr ls \<Rightarrow> Inr (lb\<lparr>lb_lines := ls\<rparr>))"

definition lb_ReadAll :: "LogBuffer \<Rightarrow> string" where
  "lb_ReadAll lb = strings_Join (lb_lines lb) [newline]"

definition lb_Clear :: "LogBuffer \<Rightarrow> LogBuffer" where
  "lb_Clear lb = lb\<lparr>lb_lines := []\<rparr>"

definition lb_ReadAndClear :: "LogBuffer \<Rightarrow> string \<times> LogBuffer" where
  "lb_ReadAndClear lb = (strings_Join (lb_lines lb) [newline], lb\<lparr>lb_lines := []\<rparr>)"

section \<open>Configuration\<close>

record TunnelConfig =
  tc_CallLink :: string
  tc_ServerAddr :: string
  tc_NumConns :: int
  tc_UseTCP :: bool
  tc_Token :: string
  tc_Fingerprint :: string
  tc_VKTokens :: string
  tc_ServerMode :: string

definition MaxRecommendedConns :: int where "MaxRecommendedConns = 8"

text \<open>Whether the number is accepted without the warning that the code returns as a text.\<close>

definition ValidateNumConns :: "int \<Rightarrow> bool" where
  "ValidateNumConns n \<longleftrightarrow> \<not> n > MaxRecommendedConns"

definition isAllDigits :: "string \<Rightarrow> bool" where
  "isAllDigits s \<longleftrightarrow> list_all is_digit s \<and> length s > 0"

definition IsTelemostLink :: "string \<Rightarrow> bool" where
  "IsTelemostLink link =
     (let l = TrimSpace link
      in Contains l ''telemost.yandex'' \<or> (length l > 10 \<and> isAllDigits l))"

definition clean_links :: "string \<Rightarrow> string list" where
  "clean_links s = filter (\<lambda>l. l \<noteq> []) (map TrimSpace (split_on CHR '','' s))"

datatype connect_mode = ModeMultiRelay | ModeDirect | ModeTelemost | ModeRelay

definition start_mode :: "TunnelConfig \<Rightarrow> connect_mode" where
  "start_mode cfg =
     (let links = clean_links (tc_CallLink cfg)
      in if length links > 1 \<and> tc_ServerAddr cfg = [] then ModeMultiRelay
         else if tc_ServerAddr cfg \<noteq> [] then ModeDirect
         else if IsTelemostLink (hd links) then ModeTelemost
         else ModeRelay)"

text \<open>The choice the reconnect loop makes.\<close>

definition reconnect_mode :: "TunnelConfig \<Rightarrow> connect_mode" where
  "reconnect_mode cfg =
     (if tc_ServerAddr cfg \<noteq> [] then ModeDirect
      else if IsTelemostLink (tc_CallLink cfg) then ModeTelemost
      else ModeRelay)"

text \<open>The checks of \<^verbatim>\<open>Start\<close> before anything is connected; \<open>hex\<close> is \<^verbatim>\<open>hex.DecodeString\<close>.\<close>

definition start_config :: "(string \<Rightarrow> bytes option) \<Rightarrow> TunnelConfig \<Rightarrow> goerr + (TunnelConfig \<times> bytes)" where
  "start_config hex cfg0 =
     (let cfg = (if tc_NumConns cfg0 \<le> 0 then cfg0\<lparr>tc_NumConns := 16\<rparr> else cfg0)
      in case (if tc_Fingerprint cfg \<noteq> []
               then (case hex (tc_Fingerprint cfg) of None \<Rightarrow> None | Some fp \<Rightarrow> if length fp = 32 then Some fp else None)
               else Some []) of
           None \<Rightarrow> Inl (Errorf ''invalid fingerprint: must be 64 hex characters (SHA-256)'')
         | Some fp \<Rightarrow>
             if clean_links (tc_CallLink cfg) = [] then Inl (Errorf ''no valid call links provided'') else Inr (cfg, fp))"

section \<open>Servers\<close>

record serverInfo =
  si_addr :: string
  si_token :: string

text \<open>\<open>resolve\<close> is \<^verbatim>\<open>net.ResolveUDPAddr\<close>.\<close>

fun parse_servers :: "(string \<Rightarrow> string option) \<Rightarrow> string list \<Rightarrow> nat \<Rightarrow> string list \<Rightarrow> serverInfo list \<Rightarrow> goerr + serverInfo list" where
  "parse_servers resolve tokens i [] servers = Inr servers"
| "parse_servers resolve tokens i (a0 # as) servers =
     (let a = TrimSpace a0
      in if a = [] then parse_servers resolve tokens (i + 1) as servers
         else case resolve a of
                None \<Rightarrow> Inl (Errorf ''resolve server'')
              | Some addr \<Rightarrow>
                  parse_servers resolve tokens (i + 1) as
                    (servers @ [\<lparr>si_addr = addr, si_token = (if i < length tokens then TrimSpace (tokens ! i) else [])\<rparr>]))"

definition parseServers :: "(string \<Rightarrow> string option) \<Rightarrow> string \<Rightarrow> string \<Rightarrow> goerr + serverInfo list" where
  "parseServers resolve addrs tokens =
     (case parse_servers resolve (split_on CHR '','' tokens) 0 (split_on CHR '','' addrs) [] of
        Inl e \<Rightarrow> Inl e
      | Inr servers \<Rightarrow> if servers = [] then Inl (Errorf ''no valid server addresses'') else Inr servers)"

section \<open>Direct mode\<close>

text \<open>
  The outcome of a connection attempt: what was set up, for the tunnel to install.  \<open>ts_dispatch\<close> counts the dispatch loops that already run.
\<close>

record tunnelState =
  ts_mgr :: "Manager option"
  ts_conns :: "nat list"
  ts_cleanups :: "nat list"
  ts_sig :: "nat option"
  ts_sessionID :: bytes
  ts_joinInfo :: "Credentials option"
  ts_pool :: bool
  ts_dispatch :: nat

text \<open>What a failed or finished attempt has closed: the cleanup functions it called, whether it closed all allocations, and the signaling clients.\<close>

record connect_trace =
  ct_cleaned :: "nat list"
  ct_allClosed :: bool
  ct_sigClosed :: "nat list"

text \<open>The writes that open a connection, as in \<^const>\<open>relay_dial\<close>: the cleanup function called, and the connection if they succeed.\<close>

definition open_writes :: "(bytes \<Rightarrow> bytes \<Rightarrow> bytes) \<Rightarrow> bytes \<Rightarrow> bytes \<Rightarrow> bytes \<Rightarrow> dconn \<Rightarrow> nat list \<times> dconn option" where
  "open_writes hmac rnd token sessionID c =
     (let auth = (if token \<noteq> [] then WriteAuthToken hmac rnd token else [])
      in if \<not> list_all (dc_write c) [0..<length auth] then ([dc_id c], None)
         else if \<not> list_all (dc_write c) [length auth..<length auth + length (WriteSessionID sessionID)] then ([dc_id c], None)
         else ([], Some c))"

text \<open>What one server offers in an attempt: the results of the allocations, the handshake over each, and random bytes.\<close>

record direct_env =
  de_allocs :: "(nat \<times> (goerr + Allocation)) list"
  de_dial :: "nat \<Rightarrow> string \<Rightarrow> goerr + dconn"
  de_rnd :: "nat \<Rightarrow> bytes"

definition dialDirectConn :: "(bytes \<Rightarrow> bytes \<Rightarrow> bytes) \<Rightarrow> direct_env \<Rightarrow> bytes \<Rightarrow> nat \<Rightarrow> serverInfo \<Rightarrow> nat list \<times> dconn option" where
  "dialDirectConn hmac env sessionID i srv =
     (case de_dial env i (si_addr srv) of
        Inl e \<Rightarrow> ([], None)
      | Inr c \<Rightarrow> open_writes hmac (de_rnd env i) (bytes_of_string (si_token srv)) sessionID c)"

text \<open>The loop over the allocations; connection \<open>i\<close> goes to server \<open>i mod n\<close>, which is the only one when there is one.\<close>

fun dial_all :: "(bytes \<Rightarrow> bytes \<Rightarrow> bytes) \<Rightarrow> direct_env \<Rightarrow> bytes \<Rightarrow> serverInfo list \<Rightarrow> nat \<Rightarrow> nat \<Rightarrow> nat list \<Rightarrow> dconn list \<Rightarrow> nat list \<times> dconn list" where
  "dial_all hmac env sessionID servers i 0 cleaned mcs = (cleaned, mcs)"
| "dial_all hmac env sessionID servers i (Suc n) cleaned mcs =
     (case dialDirectConn hmac env sessionID i (servers ! (i mod length servers)) of
        (cl, None) \<Rightarrow> dial_all hmac env sessionID servers (i + 1) n (cleaned @ cl) mcs
      | (cl, Some c) \<Rightarrow> dial_all hmac env sessionID servers (i + 1) n (cleaned @ cl) (mcs @ [c]))"

definition direct_state :: "Manager \<Rightarrow> dconn list \<Rightarrow> tunnelState" where
  "direct_state mgr mcs =
     \<lparr>ts_mgr = Some mgr, ts_conns = map dc_id mcs, ts_cleanups = map dc_id mcs, ts_sig = None, ts_sessionID = [], ts_joinInfo = None,
      ts_pool = False, ts_dispatch = 0\<rparr>"

definition connect_servers ::
  "(bytes \<Rightarrow> bytes \<Rightarrow> bytes) \<Rightarrow> TunnelConfig \<Rightarrow> direct_env \<Rightarrow> bytes \<Rightarrow> serverInfo list \<Rightarrow> connect_trace \<times> (goerr + tunnelState)" where
  "connect_servers hmac cfg env sessionID servers =
     (case Allocate (de_allocs env) (NewManager True (tc_UseTCP cfg)) of
        (mgr, Inl e) \<Rightarrow> (\<lparr>ct_cleaned = [], ct_allClosed = True, ct_sigClosed = []\<rparr>, Inl (Wrapf ''allocate TURN'' e))
      | (mgr, Inr allocs) \<Rightarrow>
          (case dial_all hmac env sessionID servers 0 (length allocs) [] [] of (cleaned, mcs) \<Rightarrow>
             if mcs = [] then (\<lparr>ct_cleaned = cleaned, ct_allClosed = True, ct_sigClosed = []\<rparr>, Inl (Errorf ''no DTLS connections''))
             else (\<lparr>ct_cleaned = cleaned, ct_allClosed = False, ct_sigClosed = []\<rparr>, Inr (direct_state mgr mcs))))"

definition connectDirectSingle ::
  "(bytes \<Rightarrow> bytes \<Rightarrow> bytes) \<Rightarrow> TunnelConfig \<Rightarrow> direct_env \<Rightarrow> bytes \<Rightarrow> serverInfo \<Rightarrow> connect_trace \<times> (goerr + tunnelState)" where
  "connectDirectSingle hmac cfg env sessionID srv = connect_servers hmac cfg env sessionID [srv]"

definition connectDirectLoadBalance ::
  "(bytes \<Rightarrow> bytes \<Rightarrow> bytes) \<Rightarrow> TunnelConfig \<Rightarrow> direct_env \<Rightarrow> bytes \<Rightarrow> serverInfo list \<Rightarrow> connect_trace \<times> (goerr + tunnelState)" where
  "connectDirectLoadBalance hmac cfg env sessionID servers = connect_servers hmac cfg env sessionID servers"

text \<open>One server after the other, each with allocations of its own; \<open>env si\<close> is what the attempt with server \<open>si\<close> meets.\<close>

fun connectDirectActiveBackup ::
  "(bytes \<Rightarrow> bytes \<Rightarrow> bytes) \<Rightarrow> TunnelConfig \<Rightarrow> (nat \<Rightarrow> direct_env) \<Rightarrow> bytes \<Rightarrow> nat \<Rightarrow> serverInfo list \<Rightarrow> goerr option
    \<Rightarrow> connect_trace list \<times> (goerr + (nat \<times> tunnelState))" where
  "connectDirectActiveBackup hmac cfg env sessionID si [] lastErr =
     ([], Inl (case lastErr of None \<Rightarrow> Errorf ''all servers failed'' | Some e \<Rightarrow> Wrapf ''all servers failed'' e))"
| "connectDirectActiveBackup hmac cfg env sessionID si (srv # servers) lastErr =
     (case connect_servers hmac cfg (env si) sessionID [srv] of
        (t, Inr st) \<Rightarrow> ([t], Inr (si, st))
      | (t, Inl e) \<Rightarrow>
          (case connectDirectActiveBackup hmac cfg env sessionID (si + 1) servers (Some (Wrapf ''server'' e)) of (ts, r) \<Rightarrow> (t # ts, r)))"

definition connectDirect ::
  "(bytes \<Rightarrow> bytes \<Rightarrow> bytes) \<Rightarrow> (string \<Rightarrow> string option) \<Rightarrow> TunnelConfig \<Rightarrow> (nat \<Rightarrow> direct_env) \<Rightarrow> bytes \<Rightarrow> connect_trace list \<times> (goerr + tunnelState)" where
  "connectDirect hmac resolve cfg env sessionID =
     (case parseServers resolve (tc_ServerAddr cfg) (tc_Token cfg) of
        Inl e \<Rightarrow> ([], Inl e)
      | Inr servers \<Rightarrow>
          let mode = (if tc_ServerMode cfg = [] then ''active-backup'' else tc_ServerMode cfg)
          in if mode = ''load-balance'' \<and> length servers > 1 then
               (case connectDirectLoadBalance hmac cfg (env 0) sessionID servers of (t, r) \<Rightarrow> ([t], r))
             else if length servers > 1 then
               (case connectDirectActiveBackup hmac cfg env sessionID 0 servers None of
                  (ts, Inl e) \<Rightarrow> (ts, Inl e)
                | (ts, Inr (si, st)) \<Rightarrow> (ts, Inr st))
             else (case connectDirectSingle hmac cfg (env 0) sessionID (servers ! 0) of (t, r) \<Rightarrow> ([t], r)))"

section \<open>Telemost\<close>

text \<open>\<open>pair i\<close> is the outcome of connecting under the \<open>i\<close>-th pair of names.\<close>

fun telemost_conns :: "(bytes \<Rightarrow> bytes \<Rightarrow> bytes) \<Rightarrow> bytes \<Rightarrow> bytes \<Rightarrow> (nat \<Rightarrow> goerr + dconn) \<Rightarrow> (nat \<Rightarrow> bytes) \<Rightarrow> nat \<Rightarrow> nat \<Rightarrow> nat list \<Rightarrow> dconn list
    \<Rightarrow> nat list \<times> dconn list" where
  "telemost_conns hmac token sessionID pair rnd i 0 cleaned mcs = (cleaned, mcs)"
| "telemost_conns hmac token sessionID pair rnd i (Suc n) cleaned mcs =
     (case pair i of
        Inl e \<Rightarrow> telemost_conns hmac token sessionID pair rnd (i + 1) n cleaned mcs
      | Inr c \<Rightarrow>
          (case open_writes hmac (rnd i) token sessionID c of
             (cl, None) \<Rightarrow> telemost_conns hmac token sessionID pair rnd (i + 1) n (cleaned @ cl) mcs
           | (cl, Some c') \<Rightarrow> telemost_conns hmac token sessionID pair rnd (i + 1) n (cleaned @ cl) (mcs @ [c'])))"

definition connectTelemost ::
  "(bytes \<Rightarrow> bytes \<Rightarrow> bytes) \<Rightarrow> TunnelConfig \<Rightarrow> (nat \<Rightarrow> goerr + dconn) \<Rightarrow> (nat \<Rightarrow> bytes) \<Rightarrow> bytes \<Rightarrow> connect_trace \<times> (goerr + tunnelState)" where
  "connectTelemost hmac cfg pair rnd sessionID =
     (case telemost_conns hmac (bytes_of_string (tc_Token cfg)) sessionID pair rnd 0 (nat (tc_NumConns cfg)) [] [] of (cleaned, mcs) \<Rightarrow>
        (\<lparr>ct_cleaned = cleaned, ct_allClosed = False, ct_sigClosed = []\<rparr>,
         if mcs = [] then Inl (Errorf ''no Telemost connections established'')
         else Inr \<lparr>ts_mgr = None, ts_conns = map dc_id mcs, ts_cleanups = map dc_id mcs, ts_sig = None, ts_sessionID = sessionID, ts_joinInfo = None,
                   ts_pool = False, ts_dispatch = 0\<rparr>))"

section \<open>Several calls\<close>

text \<open>\<open>pool\<close> is what starting the pool of calls returns.  The function starts a dispatch loop of the multiplexer itself.\<close>

definition connectMultiRelay :: "(goerr + nat list) \<Rightarrow> goerr + tunnelState" where
  "connectMultiRelay pool =
     (case pool of
        Inl e \<Rightarrow> Inl (Wrapf ''multi-relay pool start'' e)
      | Inr mcs \<Rightarrow> Inr \<lparr>ts_mgr = None, ts_conns = [], ts_cleanups = [], ts_sig = None, ts_sessionID = [], ts_joinInfo = None,
                        ts_pool = True, ts_dispatch = 1\<rparr>)"

section \<open>Relay mode\<close>

text \<open>What the setup has so far: the connections wait for being added to a multiplexer.\<close>

record mob_run =
  mb_mgr :: Manager
  mb_conns :: "nat list"
  mb_cleaned :: "nat list"
  mb_batchIdx :: nat
  mb_log :: "sig_event list"

definition mob_dial :: "(bytes \<Rightarrow> bytes \<Rightarrow> bytes) \<Rightarrow> exchange \<Rightarrow> bytes \<Rightarrow> bytes \<Rightarrow> string list \<Rightarrow> nat \<Rightarrow> nat list \<times> dconn option" where
  "mob_dial hmac x authToken sessionID serverAddrs i =
     (case ex_resolve x (serverAddrs ! i) of
        Some e \<Rightarrow> ([], None)
      | None \<Rightarrow>
          (case dtls_attempts (ex_dial x i) 1 1 of
             Inl e \<Rightarrow> ([], None)
           | Inr c \<Rightarrow> open_writes hmac (ex_rnd x i) authToken sessionID c))"

definition collectDTLS :: "nat list \<times> dconn option \<Rightarrow> mob_run \<Rightarrow> mob_run" where
  "collectDTLS res r =
     (let r1 = r\<lparr>mb_cleaned := mb_cleaned r @ fst res\<rparr>
      in case snd res of None \<Rightarrow> r1 | Some c \<Rightarrow> r1\<lparr>mb_conns := mb_conns r1 @ [dc_id c]\<rparr>)"

definition mob_handshakes ::
  "(bytes \<Rightarrow> bytes \<Rightarrow> bytes) \<Rightarrow> exchange \<Rightarrow> bytes \<Rightarrow> bytes \<Rightarrow> Allocation list \<Rightarrow> string list \<Rightarrow> mob_run \<Rightarrow> mob_run" where
  "mob_handshakes hmac x authToken sessionID allocs serverAddrs r =
     (let pairCount = min (length allocs) (length serverAddrs)
      in foldl (\<lambda>r i. collectDTLS (mob_dial hmac x authToken sessionID serverAddrs i) r) r (ex_order x pairCount))"

definition mob_log :: "sig_event \<Rightarrow> mob_run \<Rightarrow> mob_run" where
  "mob_log e r = r\<lparr>mb_log := mb_log r @ [e]\<rparr>"

text \<open>The batch of the token allocations, which ends the setup when an exchange fails.\<close>

definition mob_token_batch ::
  "(bytes \<Rightarrow> bytes \<Rightarrow> bytes) \<Rightarrow> bytes \<Rightarrow> bytes \<Rightarrow> string \<Rightarrow> exchange \<Rightarrow> nat \<Rightarrow> Allocation option list \<Rightarrow> mob_run \<Rightarrow> mob_run \<times> nat \<times> goerr option" where
  "mob_token_batch hmac authToken sessionID nonce x anonConns tokenAllocs r =
     (let successAllocs = somes tokenAllocs; failedTokens = length tokenAllocs - length successAllocs;
          fin = (\<lambda>r. (r\<lparr>mb_batchIdx := mb_batchIdx r + 1\<rparr>, failedTokens, None))
      in if successAllocs = [] then fin r
         else case ex_send x of
                Some e \<Rightarrow> (r, failedTokens, Some (Wrapf ''send token relay batch'' e))
              | None \<Rightarrow>
                  let r1 = mob_log (SendRelayBatch (allocAddrs successAllocs) RoleClient nonce (mb_batchIdx r) (anonConns = 0)) r
                  in case ex_recv x of
                       Inl e \<Rightarrow> (r1, failedTokens, Some (Wrapf ''recv token relay batch'' e))
                     | Inr serverAddrs \<Rightarrow>
                         fin (mob_handshakes hmac x authToken sessionID successAllocs serverAddrs (mob_log (RecvRelayBatch serverAddrs) r1)))"

text \<open>The loop over the batches of anonymous allocations, which a failed exchange leaves.\<close>

fun mob_batches ::
  "(bytes \<Rightarrow> bytes \<Rightarrow> bytes) \<Rightarrow> bytes \<Rightarrow> bytes \<Rightarrow> string \<Rightarrow> client_batch list \<Rightarrow> mob_run \<Rightarrow> mob_run" where
  "mob_batches hmac authToken sessionID nonce [] r = r"
| "mob_batches hmac authToken sessionID nonce ((as, final, x) # bs) r0 =
     (let r = r0\<lparr>mb_mgr := (mb_mgr r0)\<lparr>allocations := allocations (mb_mgr r0) @ as\<rparr>\<rparr>
      in if as = [] then (if final then r else mob_batches hmac authToken sessionID nonce bs r)
         else case ex_send x of
                Some e \<Rightarrow> r
              | None \<Rightarrow>
                  let r1 = mob_log (SendRelayBatch (allocAddrs as) RoleClient nonce (mb_batchIdx r) final) r
                  in case ex_recv x of
                       Inl e \<Rightarrow> r1
                     | Inr serverAddrs \<Rightarrow>
                         let r2 = mob_handshakes hmac x authToken sessionID as serverAddrs (mob_log (RecvRelayBatch serverAddrs) r1);
                             r3 = r2\<lparr>mb_batchIdx := mb_batchIdx r2 + 1\<rparr>
                         in if final then r3 else mob_batches hmac authToken sessionID nonce bs r3)"

text \<open>
  What a setup meets: the answers of the service for a fresh and a cached join, the signaling client, one acknowledgement of the disconnect request.
\<close>

record mob_env =
  me_fetch :: "goerr + Credentials"
  me_sigCached :: "goerr + nat"
  me_sig :: "goerr + nat"
  me_key :: "goerr option"
  me_ack :: "goerr option"
  me_rnd :: bytes
  me_sessionID :: bytes
  me_net :: turn_net
  me_tap :: token_join
  me_tokenOrder :: "nat \<Rightarrow> nat list"
  me_x0 :: exchange
  me_batches :: "nat \<Rightarrow> client_batch list"

definition vk_tokens :: "TunnelConfig \<Rightarrow> string list" where
  "vk_tokens cfg =
     take (nat (tc_NumConns cfg)) (dedup_seen (if tc_VKTokens cfg \<noteq> [] then split_on CHR '','' (tc_VKTokens cfg) else []) {})"

text \<open>
  Joining and signaling: cached join information is tried first, and dropped when signaling fails with it.  The flag tells whether the cache
  was emptied.
\<close>

definition mob_join :: "mob_env \<Rightarrow> Credentials option \<Rightarrow> bool \<times> (goerr + (Credentials \<times> nat))" where
  "mob_join env cached =
     (let fresh = (case me_fetch env of
                     Inl e \<Rightarrow> Inl (Wrapf ''join conference'' e)
                   | Inr jr \<Rightarrow> (case me_sig env of Inl e \<Rightarrow> Inl (Wrapf ''signaling connect'' e) | Inr c \<Rightarrow> Inr (jr, c)))
      in case cached of
           None \<Rightarrow> (False, fresh)
         | Some jr \<Rightarrow> (case me_sigCached env of Inl e \<Rightarrow> (True, fresh) | Inr c \<Rightarrow> (False, Inr (jr, c))))"

definition mob_start :: "bool \<Rightarrow> string \<Rightarrow> goerr option \<Rightarrow> Credentials \<Rightarrow> mob_run" where
  "mob_start tcp nonce ack jr =
     \<lparr>mb_mgr = SetInitialCredentials (Some jr) (NewManager True tcp), mb_conns = [], mb_cleaned = [], mb_batchIdx = 0,
      mb_log = SendDisconnectReq nonce # (case ack of None \<Rightarrow> [WaitDisconnectAck nonce] | Some e \<Rightarrow> [])\<rparr>"

definition mob_trace :: "nat list \<Rightarrow> bool \<Rightarrow> mob_run \<Rightarrow> connect_trace" where
  "mob_trace sigs all r = \<lparr>ct_cleaned = mb_cleaned r, ct_allClosed = all, ct_sigClosed = sigs\<rparr>"

definition connectRelay ::
  "(bytes \<Rightarrow> bytes \<Rightarrow> bytes) \<Rightarrow> int \<Rightarrow> TunnelConfig \<Rightarrow> Credentials option \<Rightarrow> mob_env \<Rightarrow> connect_trace \<times> bool \<times> sig_event list \<times> (goerr + tunnelState)" where
  "connectRelay hmac now cfg cached env =
     (if tc_Token cfg = [] then (\<lparr>ct_cleaned = [], ct_allClosed = False, ct_sigClosed = []\<rparr>, False, [], Inl (Errorf ''token is required for relay-to-relay mode''))
      else case mob_join env cached of
             (dropped, Inl e) \<Rightarrow> (\<lparr>ct_cleaned = [], ct_allClosed = False, ct_sigClosed = []\<rparr>, dropped, [], Inl e)
           | (dropped, Inr (jr, c)) \<Rightarrow>
               (case me_key env of
                  Some e \<Rightarrow> (\<lparr>ct_cleaned = [], ct_allClosed = False, ct_sigClosed = [c]\<rparr>, dropped, [], Inl (Wrapf ''set signaling key'' e))
                | None \<Rightarrow>
                    let tokens = vk_tokens cfg; anonConns = nat (tc_NumConns cfg) - length tokens;
                        nonce = generateNonce (me_rnd env); token = bytes_of_string (tc_Token cfg);
                        r0 = mob_start (tc_UseTCP cfg) nonce (me_ack env) jr;
                        (r1, failedTokens, err) =
                          (if tokens = [] then (r0, 0, None)
                           else case client_token_allocs (me_net env) now (me_tap env) jr tokens (me_tokenOrder env (length tokens)) (mb_mgr r0)
                                       (replicate (length tokens) None) of
                                  (mgr1, tokenAllocs) \<Rightarrow>
                                    mob_token_batch hmac token (me_sessionID env) nonce (me_x0 env) anonConns tokenAllocs (r0\<lparr>mb_mgr := mgr1\<rparr>))
                    in case err of
                         Some e \<Rightarrow> (mob_trace [c] True r1, dropped, mb_log r1, Inl e)
                       | None \<Rightarrow>
                           let n = anonConns + failedTokens;
                               r2 = (if n > 0 then mob_batches hmac token (me_sessionID env) nonce (me_batches env n) r1 else r1)
                           in if mb_conns r2 = [] then (mob_trace [c] True r2, dropped, mb_log r2, Inl (Errorf ''no relay DTLS connections established''))
                              else (mob_trace [] False r2, dropped, mb_log r2,
                                    Inr \<lparr>ts_mgr = Some (mb_mgr r2), ts_conns = mb_conns r2, ts_cleanups = mb_conns r2, ts_sig = Some c,
                                         ts_sessionID = me_sessionID env, ts_joinInfo = Some jr, ts_pool = False, ts_dispatch = 0\<rparr>)))"

section \<open>Captcha\<close>

text \<open>\<^verbatim>\<open>callbackSolver\<close>: the automatic solver first, then the user; the first flag tells whether the user was asked.\<close>

definition callback_SolveCaptcha :: "(string \<Rightarrow> string option) \<Rightarrow> (string \<Rightarrow> string) \<Rightarrow> string \<Rightarrow> bool \<times> (goerr + string)" where
  "callback_SolveCaptcha direct show redirectURI =
     (if redirectURI = [] then (False, Inl (Errorf ''captcha has no redirect_uri, cannot solve''))
      else case direct redirectURI of
             Some token \<Rightarrow> (False, Inr token)
           | None \<Rightarrow> (let token = show redirectURI
                     in (True, if token = [] then Inl (Errorf ''captcha cancelled or failed'') else Inr token)))"

end
