(* ===== verification/Mobile_Tunnel.thy ===== *)
theory Mobile_Tunnel
  imports Mobile_Connect Mux_Conns
begin

text \<open>
  The life of the tunnel of the mobile library (\<^verbatim>\<open>mobile/bind/tunnel.go\<close>, second half): starting and stopping, installing and tearing down a
  connected state, the reconnect loop, changes of the network, and raw packets.  A connected state is a number that stands for its multiplexer, its
  TURN manager, its cleanup functions, its signaling client and its pool, which are installed together and torn down together.
\<close>

section \<open>The tunnel\<close>

text \<open>
  Channels and contexts are created anew, so they are indices into lists of what became of them: \<open>tn_chans\<close> whether the ready channel is closed,
  \<open>tn_roots\<close> whether the root context is cancelled, \<open>tn_forces\<close> whether the force channel, which has room for one, holds a signal.
  \<open>tn_installed\<close> and \<open>tn_torn\<close> record the states that were installed and those that were torn down.
\<close>

record Tunnel =
  tn_running :: bool
  tn_cur :: "nat option"
  tn_ready :: nat
  tn_chans :: "bool list"
  tn_root :: nat
  tn_roots :: "bool list"
  tn_force :: nat
  tn_forces :: "bool list"
  tn_stage :: string
  tn_fatal :: string
  tn_connectedAt :: int
  tn_debounce :: bool
  tn_installed :: "nat list"
  tn_torn :: "nat list"

definition NewTunnel :: Tunnel where
  "NewTunnel = \<lparr>tn_running = False, tn_cur = None, tn_ready = 0, tn_chans = [], tn_root = 0, tn_roots = [], tn_force = 0, tn_forces = [],
     tn_stage = [], tn_fatal = [], tn_connectedAt = 0, tn_debounce = False, tn_installed = [], tn_torn = []\<rparr>"

definition root_done :: "Tunnel \<Rightarrow> bool" where
  "root_done t = tn_roots t ! tn_root t"

definition setStage :: "string \<Rightarrow> Tunnel \<Rightarrow> Tunnel" where
  "setStage s t = t\<lparr>tn_stage := s\<rparr>"

definition setFatalError :: "string \<Rightarrow> Tunnel \<Rightarrow> Tunnel" where
  "setFatalError msg t = t\<lparr>tn_fatal := msg\<rparr>"

text \<open>The first part of \<^verbatim>\<open>Start\<close>, under the lock; its configuration has passed \<^const>\<open>start_config\<close>.\<close>

definition Start_begin :: "Tunnel \<Rightarrow> Tunnel option" where
  "Start_begin t =
     (if tn_running t then None
      else Some (t\<lparr>tn_roots := tn_roots t @ [False], tn_root := length (tn_roots t), tn_chans := tn_chans t @ [False], tn_ready := length (tn_chans t),
                   tn_forces := tn_forces t @ [False], tn_force := length (tn_forces t), tn_running := True\<rparr>))"

text \<open>The end of \<^verbatim>\<open>Start\<close> when connecting has failed.\<close>

definition Start_failed :: "Tunnel \<Rightarrow> Tunnel" where
  "Start_failed t = t\<lparr>tn_roots := (tn_roots t)[tn_root t := True], tn_running := False\<rparr>"

text \<open>\<^verbatim>\<open>applyState\<close> installs the state under the lock and remembers the ready channel, which it closes at its end.\<close>

definition apply_install :: "int \<Rightarrow> nat \<Rightarrow> Tunnel \<Rightarrow> Tunnel \<times> nat" where
  "apply_install now st t = (setStage [] (t\<lparr>tn_cur := Some st, tn_connectedAt := now, tn_installed := tn_installed t @ [st]\<rparr>), tn_ready t)"

definition apply_close :: "nat \<Rightarrow> Tunnel \<Rightarrow> panic + Tunnel" where
  "apply_close ready t = (if tn_chans t ! ready then Inl CloseOfClosedChannel else Inr (t\<lparr>tn_chans := (tn_chans t)[ready := True]\<rparr>))"

definition teardownMux :: "Tunnel \<Rightarrow> Tunnel" where
  "teardownMux t =
     (case tn_cur t of
        None \<Rightarrow> t
      | Some st \<Rightarrow> t\<lparr>tn_cur := None, tn_chans := tn_chans t @ [False], tn_ready := length (tn_chans t), tn_torn := tn_torn t @ [st]\<rparr>)"

text \<open>\<^verbatim>\<open>Stop\<close> up to its teardown.\<close>

definition Stop_begin :: "Tunnel \<Rightarrow> Tunnel option" where
  "Stop_begin t =
     (if \<not> tn_running t then None
      else Some (t\<lparr>tn_running := False, tn_debounce := False, tn_roots := (tn_roots t)[tn_root t := True]\<rparr>))"

definition Stop :: "Tunnel \<Rightarrow> Tunnel" where
  "Stop t = (case Stop_begin t of None \<Rightarrow> t | Some t1 \<Rightarrow> teardownMux t1)"

section \<open>Using the tunnel\<close>

text \<open>\<^verbatim>\<open>getMux\<close>: the state, the channel it waits for, or an error.\<close>

datatype get_mux = Got nat | WaitsFor nat | GetError string

definition getMux :: "Tunnel \<Rightarrow> get_mux" where
  "getMux t = (case tn_cur t of Some st \<Rightarrow> Got st | None \<Rightarrow> if root_done t then GetError ''tunnel stopped'' else WaitsFor (tn_ready t))"

definition getMux_woken :: "Tunnel \<Rightarrow> get_mux" where
  "getMux_woken t = (case tn_cur t of Some st \<Rightarrow> Got st | None \<Rightarrow> GetError ''tunnel not available'')"

definition TunMTU :: nat where "TunMTU = 1280"

datatype packet_result = Reconnecting | Dropped | Sent "mux_error option"

definition WritePacket :: "write_oracle \<Rightarrow> int \<Rightarrow> bytes \<Rightarrow> Mux option \<Rightarrow> Mux option \<times> packet_result" where
  "WritePacket wok now d mo =
     (case mo of
        None \<Rightarrow> (None, Reconnecting)
      | Some m \<Rightarrow>
          if length d > TunMTU then (Some m, Dropped)
          else let (m1, sq) = NextSeq m;
                   (m2, err) = SendRawPacket wok now \<lparr>StreamID = 0, Type = FrameData, Sequence = sq, Length = of_nat (length d), Payload = d, connIdx = 0\<rparr> m1
               in (Some m2, Sent err))"

text \<open>
  One round of the loop of \<^verbatim>\<open>ReadPacket\<close> on the ring of raw packets: a packet for a buffer of \<open>n\<close> bytes, another round, or a wait for the ring's signal.
\<close>

datatype read_round = Packet bytes | Again | WaitReady | NotEnabled

definition read_pop :: "nat \<Rightarrow> RawRingBuffer \<Rightarrow> read_round \<times> RawRingBuffer" where
  "read_pop n rb =
     (case raw_Pop rb of
        ((Some f, True), rb1) \<Rightarrow> (if Payload f = [] then Again else Packet (take n (Payload f)), rb1)
      | ((_, _), rb1) \<Rightarrow> (WaitReady, rb1))"

definition ReadPacket_round :: "nat \<Rightarrow> Mux \<Rightarrow> read_round \<times> Mux" where
  "ReadPacket_round n m =
     (case rawPackets m of
        None \<Rightarrow> (NotEnabled, m)
      | Some rb \<Rightarrow> (case read_pop n rb of (r, rb1) \<Rightarrow> (r, m\<lparr>rawPackets := Some rb1\<rparr>)))"

section \<open>Changes of the network\<close>

definition gracePeriod :: int where "gracePeriod = 10 * 10 ^ 9"

text \<open>\<^verbatim>\<open>OnNetworkChanged\<close> arms a timer for \<open>networkSettled\<close>, replacing one that is pending.\<close>

definition OnNetworkChanged :: "int \<Rightarrow> Tunnel \<Rightarrow> Tunnel" where
  "OnNetworkChanged now t =
     (if \<not> tn_running t then t
      else if now - tn_connectedAt t < gracePeriod then t
      else t\<lparr>tn_debounce := True\<rparr>)"

datatype net_action = NoTunnel | Level0 | Level1 | Level2

text \<open>\<open>healthy\<close> is what the multiplexer answers, \<open>sig_alive\<close> whether there is a signaling client that is alive.\<close>

definition networkSettled :: "bool \<Rightarrow> bool \<Rightarrow> Tunnel \<Rightarrow> net_action \<times> Tunnel" where
  "networkSettled healthy sig_alive t =
     (if \<not> tn_running t then (NoTunnel, t)
      else case tn_cur t of
             None \<Rightarrow> (NoTunnel, t)
           | Some st \<Rightarrow>
               if healthy then (Level0, t)
               else if sig_alive then (Level1, t)
               else (Level2, let t1 = teardownMux t in t1\<lparr>tn_forces := (tn_forces t1)[tn_force t := True]\<rparr>))"

section \<open>The reconnect loop\<close>

definition rl_second :: int where "rl_second = 10 ^ 9"
definition rl_maxBackoff :: int where "rl_maxBackoff = 60 * 10 ^ 9"
definition maxConsecutiveFailures :: nat where "maxConsecutiveFailures = 10"

text \<open>
  Where a reconnect loop is: before it looks at the tunnel, waiting without a state or watching one, about to connect, waiting after a failure, having
  connected, having installed its state, or gone.
\<close>

datatype loop_pc = LTop | LIdle | LWatch nat | LAttempt | LBackoff | LApply nat | LReady nat | LEnd

record rloop =
  rl_pc :: loop_pc
  rl_force :: nat
  rl_backoff :: int
  rl_failures :: nat

definition new_rloop :: rloop where
  "new_rloop = \<lparr>rl_pc = LTop, rl_force = 0, rl_backoff = rl_second, rl_failures = 0\<rparr>"

definition loop_look :: "Tunnel \<Rightarrow> rloop \<Rightarrow> rloop" where
  "loop_look t l = l\<lparr>rl_force := tn_force t, rl_pc := (case tn_cur t of None \<Rightarrow> LIdle | Some st \<Rightarrow> LWatch st)\<rparr>"

definition drain_force :: "nat \<Rightarrow> Tunnel \<Rightarrow> Tunnel" where
  "drain_force i t = t\<lparr>tn_forces := (tn_forces t)[i := False]\<rparr>"

text \<open>The end of the wait at the top of the loop; a watched state is torn down.\<close>

definition loop_wake :: "rloop \<Rightarrow> Tunnel \<Rightarrow> Tunnel \<times> rloop" where
  "loop_wake l t =
     (let t1 = (case rl_pc l of LWatch st \<Rightarrow> teardownMux (setStage ''reconnecting'' t) | _ \<Rightarrow> t)
      in (drain_force (rl_force l) t1, l\<lparr>rl_pc := LAttempt, rl_failures := 0\<rparr>))"

text \<open>An attempt that has failed.\<close>

definition loop_failed :: "rloop \<Rightarrow> Tunnel \<Rightarrow> Tunnel \<times> rloop" where
  "loop_failed l t =
     (let n = rl_failures l + 1
      in if n \<ge> maxConsecutiveFailures then (teardownMux (setFatalError ''reconnect failed'' t), l\<lparr>rl_failures := n, rl_pc := LEnd\<rparr>)
         else let l1 = l\<lparr>rl_failures := n, rl_backoff := min (rl_backoff l * 2) rl_maxBackoff, rl_pc := LBackoff\<rparr>
              in if tn_forces t ! rl_force l then (drain_force (rl_force l) t, l1\<lparr>rl_backoff := rl_second, rl_failures := 0\<rparr>)
                 else (t, l1))"

definition loop_installed :: "int \<Rightarrow> nat \<Rightarrow> rloop \<Rightarrow> Tunnel \<Rightarrow> Tunnel \<times> rloop" where
  "loop_installed now st l t = (case apply_install now st t of (t1, r) \<Rightarrow> (t1, l\<lparr>rl_pc := LReady r\<rparr>))"

definition loop_connected :: "rloop \<Rightarrow> Tunnel \<Rightarrow> Tunnel \<times> rloop" where
  "loop_connected l t = (drain_force (rl_force l) t, l\<lparr>rl_backoff := rl_second, rl_pc := LTop\<rparr>)"

end
