(* ===== verification/Mobile_Props.thy ===== *)
theory Mobile_Props
  imports Mobile_Tunnel "HOL-Library.Multiset"
begin

text \<open>
  Properties of the mobile tunnel: its threads as steps of a system; with one session the ready channel is closed exactly while a state is installed and
  no state is lost; a second session started while the loop of the first still runs crashes; how long a loop tries; what the configuration selects.
\<close>

section \<open>The threads of the tunnel\<close>

text \<open>
  A call of \<^verbatim>\<open>Start\<close> connects, installs its state and closes the ready channel, after which its reconnect loop runs.  The teardown, which \<^verbatim>\<open>Stop\<close>, the reconnect
  manager, the end of the call and a change of the network call, can come at any time, as can a force signal.
\<close>

datatype start_pc = SConnect | SReady nat | SDone

record tsys =
  sy_t :: Tunnel
  sy_starts :: "start_pc list"
  sy_loops :: "rloop list"
  sy_panic :: bool

definition sys0 :: tsys where
  "sys0 = \<lparr>sy_t = NewTunnel, sy_starts = [], sy_loops = [], sy_panic = False\<rparr>"

definition with_loop :: "nat \<Rightarrow> Tunnel \<times> rloop \<Rightarrow> tsys \<Rightarrow> tsys" where
  "with_loop i x s = s\<lparr>sy_t := fst x, sy_loops := (sy_loops s)[i := snd x]\<rparr>"

definition waits_root :: "loop_pc \<Rightarrow> bool" where
  "waits_root pc \<longleftrightarrow> (case pc of LIdle \<Rightarrow> True | LWatch st \<Rightarrow> True | LBackoff \<Rightarrow> True | _ \<Rightarrow> False)"

inductive sys_step :: "tsys \<Rightarrow> tsys \<Rightarrow> bool" where
  start: "Start_begin (sy_t s) = Some t \<Longrightarrow> sys_step s (s\<lparr>sy_t := t, sy_starts := sy_starts s @ [SConnect]\<rparr>)"
| start_failed: "i < length (sy_starts s) \<Longrightarrow> sy_starts s ! i = SConnect \<Longrightarrow>
    sys_step s (s\<lparr>sy_t := Start_failed (sy_t s), sy_starts := (sy_starts s)[i := SDone]\<rparr>)"
| start_install: "i < length (sy_starts s) \<Longrightarrow> sy_starts s ! i = SConnect \<Longrightarrow> st \<notin> set (tn_installed (sy_t s)) \<Longrightarrow> apply_install now st (sy_t s) = (t, r) \<Longrightarrow>
    sys_step s (s\<lparr>sy_t := t, sy_starts := (sy_starts s)[i := SReady r]\<rparr>)"
| start_ready: "i < length (sy_starts s) \<Longrightarrow> sy_starts s ! i = SReady r \<Longrightarrow> apply_close r (sy_t s) = Inr t \<Longrightarrow>
    sys_step s (s\<lparr>sy_t := t, sy_starts := (sy_starts s)[i := SDone], sy_loops := sy_loops s @ [new_rloop]\<rparr>)"
| start_panics: "i < length (sy_starts s) \<Longrightarrow> sy_starts s ! i = SReady r \<Longrightarrow> apply_close r (sy_t s) = Inl e \<Longrightarrow> sys_step s (s\<lparr>sy_panic := True\<rparr>)"
| stop: "Stop_begin (sy_t s) = Some t \<Longrightarrow> sys_step s (s\<lparr>sy_t := t\<rparr>)"
| teardown: "sys_step s (s\<lparr>sy_t := teardownMux (sy_t s)\<rparr>)"
| force: "sys_step s (s\<lparr>sy_t := (sy_t s)\<lparr>tn_forces := (tn_forces (sy_t s))[tn_force (sy_t s) := True]\<rparr>\<rparr>)"
| loop_looks: "i < length (sy_loops s) \<Longrightarrow> rl_pc (sy_loops s ! i) = LTop \<Longrightarrow> sys_step s (with_loop i (sy_t s, loop_look (sy_t s) (sy_loops s ! i)) s)"
| loop_wakes: "i < length (sy_loops s) \<Longrightarrow> rl_pc (sy_loops s ! i) = LIdle \<or> rl_pc (sy_loops s ! i) = LWatch st \<Longrightarrow>
    sys_step s (with_loop i (loop_wake (sy_loops s ! i) (sy_t s)) s)"
| loop_ends: "i < length (sy_loops s) \<Longrightarrow> waits_root (rl_pc (sy_loops s ! i)) \<Longrightarrow> root_done (sy_t s) \<Longrightarrow>
    sys_step s (with_loop i (sy_t s, (sy_loops s ! i)\<lparr>rl_pc := LEnd\<rparr>) s)"
| loop_retries: "i < length (sy_loops s) \<Longrightarrow> rl_pc (sy_loops s ! i) = LBackoff \<Longrightarrow> sys_step s (with_loop i (sy_t s, (sy_loops s ! i)\<lparr>rl_pc := LAttempt\<rparr>) s)"
| loop_fails: "i < length (sy_loops s) \<Longrightarrow> rl_pc (sy_loops s ! i) = LAttempt \<Longrightarrow> sys_step s (with_loop i (loop_failed (sy_loops s ! i) (sy_t s)) s)"
| loop_connects: "i < length (sy_loops s) \<Longrightarrow> rl_pc (sy_loops s ! i) = LAttempt \<Longrightarrow> sys_step s (with_loop i (sy_t s, (sy_loops s ! i)\<lparr>rl_pc := LApply st\<rparr>) s)"
| loop_installs: "i < length (sy_loops s) \<Longrightarrow> rl_pc (sy_loops s ! i) = LApply st \<Longrightarrow> st \<notin> set (tn_installed (sy_t s)) \<Longrightarrow>
    sys_step s (with_loop i (loop_installed now st (sy_loops s ! i) (sy_t s)) s)"
| loop_ready: "i < length (sy_loops s) \<Longrightarrow> rl_pc (sy_loops s ! i) = LReady r \<Longrightarrow> apply_close r (sy_t s) = Inr t \<Longrightarrow>
    sys_step s (with_loop i (loop_connected (sy_loops s ! i) t) s)"
| loop_panics: "i < length (sy_loops s) \<Longrightarrow> rl_pc (sy_loops s ! i) = LReady r \<Longrightarrow> apply_close r (sy_t s) = Inl e \<Longrightarrow> sys_step s (s\<lparr>sy_panic := True\<rparr>)"

section \<open>The invariant of the tunnel\<close>

text \<open>\<open>p\<close> is the channel that an installation in progress is about to close.\<close>

definition tinv :: "nat option \<Rightarrow> Tunnel \<Rightarrow> bool" where
  "tinv p t \<longleftrightarrow>
     tn_ready t < length (tn_chans t) \<and>
     (p = None \<longrightarrow> (tn_chans t ! tn_ready t \<longleftrightarrow> tn_cur t \<noteq> None)) \<and>
     (\<forall>r. p = Some r \<longrightarrow> r < length (tn_chans t) \<and> \<not> tn_chans t ! r \<and> (if r = tn_ready t then tn_cur t \<noteq> None else tn_cur t = None \<and> \<not> tn_chans t ! tn_ready t)) \<and>
     distinct (tn_installed t) \<and> mset (tn_installed t) = mset (tn_torn t) + (case tn_cur t of None \<Rightarrow> {#} | Some st \<Rightarrow> {#st#})"

lemma tinv_cong:
  assumes "tinv p t" "tn_ready t' = tn_ready t" "tn_chans t' = tn_chans t" "tn_cur t' = tn_cur t" "tn_installed t' = tn_installed t" "tn_torn t' = tn_torn t"
  shows "tinv p t'"
  using assms unfolding tinv_def by simp

lemma teardown_facts [simp]:
  "tn_cur (teardownMux t) = None" "tn_installed (teardownMux t) = tn_installed t" "tn_forces (teardownMux t) = tn_forces t" "tn_force (teardownMux t) = tn_force t"
  "tn_roots (teardownMux t) = tn_roots t" "tn_root (teardownMux t) = tn_root t" "tn_running (teardownMux t) = tn_running t"
  by (simp_all add: teardownMux_def split: option.split)

lemma tinv_teardown: "tinv p t \<Longrightarrow> tinv p (teardownMux t)"
proof (cases "tn_cur t")
  case (Some st)
  assume i: "tinv p t"
  have r: "\<forall>r. p = Some r \<longrightarrow> r < length (tn_chans t) \<and> \<not> tn_chans t ! r" using i by (simp add: tinv_def)
  have m: "mset (tn_installed t) = mset (tn_torn t) + {#st#}" "distinct (tn_installed t)" using i Some by (simp_all add: tinv_def)
  have *: "\<not> (tn_chans t @ [False]) ! length (tn_chans t)" by simp
  show ?thesis using r m * by (cases p) (simp_all add: tinv_def teardownMux_def Some nth_append less_imp_neq)
qed (simp add: teardownMux_def)

lemma teardown_torn_idle: "tn_cur t = None \<Longrightarrow> teardownMux t = t"
  by (simp add: teardownMux_def)

lemma tinv_install:
  assumes "tinv None t" "tn_cur t = None" "st \<notin> set (tn_installed t)" "apply_install now st t = (t', r)"
  shows "tinv (Some r) t'"
proof -
  have t': "t' = setStage [] (t\<lparr>tn_cur := Some st, tn_connectedAt := now, tn_installed := tn_installed t @ [st]\<rparr>)" and r: "r = tn_ready t"
    using assms(4) by (simp_all add: apply_install_def)
  have "mset (tn_installed t) = mset (tn_torn t)" "distinct (tn_installed t)" "tn_ready t < length (tn_chans t)" "\<not> tn_chans t ! tn_ready t"
    using assms(1,2) by (simp_all add: tinv_def)
  then show ?thesis unfolding r t' using assms(3) by (simp add: tinv_def setStage_def)
qed

lemma tinv_close:
  assumes "tinv (Some r) t"
  shows "\<exists>t'. apply_close r t = Inr t' \<and> tinv None t' \<and> tn_cur t' = tn_cur t"
proof -
  have r: "\<not> tn_chans t ! r" "r < length (tn_chans t)" using assms by (simp_all add: tinv_def)
  then have "apply_close r t = Inr (t\<lparr>tn_chans := (tn_chans t)[r := True]\<rparr>)" by (simp add: apply_close_def)
  moreover have "tinv None (t\<lparr>tn_chans := (tn_chans t)[r := True]\<rparr>)"
    using assms r by (cases "r = tn_ready t") (simp_all add: tinv_def)
  ultimately show ?thesis by simp
qed

lemma tinv_not_panics: "tinv (Some r) t \<Longrightarrow> apply_close r t \<noteq> Inl e"
  using tinv_close by fastforce

section \<open>One session\<close>

definition loop_pending :: "loop_pc \<Rightarrow> nat option" where
  "loop_pending pc = (case pc of LReady r \<Rightarrow> Some r | _ \<Rightarrow> None)"

definition searching :: "loop_pc \<Rightarrow> bool" where
  "searching pc \<longleftrightarrow> (case pc of LIdle \<Rightarrow> True | LAttempt \<Rightarrow> True | LBackoff \<Rightarrow> True | LApply st \<Rightarrow> True | _ \<Rightarrow> False)"

definition loop_inv :: "rloop \<Rightarrow> Tunnel \<Rightarrow> bool" where
  "loop_inv l t \<longleftrightarrow> tinv (loop_pending (rl_pc l)) t \<and> (searching (rl_pc l) \<longrightarrow> tn_cur t = None)"

fun session_inv :: "start_pc list \<Rightarrow> rloop list \<Rightarrow> Tunnel \<Rightarrow> bool" where
  "session_inv [] ls t \<longleftrightarrow> ls = [] \<and> tn_cur t = None \<and> tn_installed t = [] \<and> tn_torn t = []"
| "session_inv [SConnect] ls t \<longleftrightarrow> ls = [] \<and> tinv None t \<and> tn_cur t = None"
| "session_inv [SReady r] ls t \<longleftrightarrow> ls = [] \<and> tinv (Some r) t"
| "session_inv [SDone] [] t \<longleftrightarrow> tinv None t"
| "session_inv [SDone] [l] t \<longleftrightarrow> loop_inv l t"
| "session_inv _ _ _ \<longleftrightarrow> False"

lemma single_start_cases:
  assumes "session_inv ss ls t"
  obtains "ss = []" "ls = []" | "ss = [SConnect]" "ls = []" | r where "ss = [SReady r]" "ls = []" | "ss = [SDone]" "ls = []" | l where "ss = [SDone]" "ls = [l]"
  using assms by (cases rule: session_inv.cases [of "(ss, ls, t)"]) auto

lemma loop_inv_cong:
  assumes "loop_inv l t" "tn_ready t' = tn_ready t" "tn_chans t' = tn_chans t" "tn_cur t' = tn_cur t" "tn_installed t' = tn_installed t" "tn_torn t' = tn_torn t"
  shows "loop_inv l t'"
  using assms tinv_cong [of _ t t'] unfolding loop_inv_def by auto

lemma loop_inv_teardown: "loop_inv l t \<Longrightarrow> loop_inv l (teardownMux t)"
  by (simp add: loop_inv_def tinv_teardown)

lemma session_inv_cong:
  assumes "session_inv ss ls t" "tn_ready t' = tn_ready t" "tn_chans t' = tn_chans t" "tn_cur t' = tn_cur t" "tn_installed t' = tn_installed t" "tn_torn t' = tn_torn t"
  shows "session_inv ss ls t'"
  using assms(1) tinv_cong [OF _ assms(2-6)] loop_inv_cong [OF _ assms(2-6)] assms(4-6)
  by (cases rule: single_start_cases [OF assms(1)]) auto

lemma session_inv_teardown: "session_inv ss ls t \<Longrightarrow> session_inv ss ls (teardownMux t)"
  by (cases rule: single_start_cases [of ss ls t]) (auto simp: tinv_teardown loop_inv_teardown teardown_torn_idle)

text \<open>The steps of a loop.\<close>

lemma loop_inv_drain [simp]: "loop_inv l (drain_force k t) = loop_inv l t"
  using loop_inv_cong [of l t "drain_force k t"] loop_inv_cong [of l "drain_force k t" t] by (auto simp: drain_force_def)

lemma tinv_drain [simp]: "tinv p (drain_force k t) = tinv p t"
  using tinv_cong [of p t "drain_force k t"] tinv_cong [of p "drain_force k t" t] by (auto simp: drain_force_def)

lemma drain_cur [simp]: "tn_cur (drain_force k t) = tn_cur t"
  by (simp add: drain_force_def)

lemma loop_inv_move:
  assumes "loop_inv l t" "loop_pending (rl_pc l) = None" "loop_pending pc = None" "searching pc \<longrightarrow> searching (rl_pc l)"
  shows "loop_inv (l\<lparr>rl_pc := pc\<rparr>) t"
  using assms by (simp add: loop_inv_def)

lemma loop_inv_look: "loop_inv l t \<Longrightarrow> rl_pc l = LTop \<Longrightarrow> loop_inv (loop_look t l) t"
  by (cases "tn_cur t") (auto simp: loop_inv_def loop_look_def loop_pending_def searching_def)

lemma loop_inv_wake:
  assumes "loop_inv l t" "rl_pc l = LIdle \<or> rl_pc l = LWatch st" "loop_wake l t = (t', l')"
  shows "loop_inv l' t'"
proof (cases "rl_pc l = LIdle")
  case True
  then show ?thesis using assms by (auto simp: loop_inv_def loop_wake_def loop_pending_def searching_def)
next
  case False
  then have "tinv None (setStage ''reconnecting'' t)"
    using assms by (auto simp: loop_inv_def loop_pending_def setStage_def intro: tinv_cong)
  then show ?thesis using False assms tinv_teardown by (auto simp: loop_inv_def loop_wake_def loop_pending_def searching_def)
qed

lemma loop_inv_failed:
  assumes "loop_inv l t" "rl_pc l = LAttempt" "loop_failed l t = (t', l')"
  shows "loop_inv l' t'"
proof -
  have t: "tinv None t" "tn_cur t = None" using assms by (auto simp: loop_inv_def loop_pending_def searching_def)
  then have "tinv None (teardownMux (setFatalError ''reconnect failed'' t))"
    by (auto simp: setFatalError_def intro!: tinv_teardown intro: tinv_cong)
  then show ?thesis using t assms(3) by (auto simp: loop_failed_def Let_def loop_inv_def loop_pending_def searching_def split: if_splits)
qed

lemma loop_inv_installed:
  assumes "loop_inv l t" "rl_pc l = LApply st" "st \<notin> set (tn_installed t)" "loop_installed now st l t = (t', l')"
  shows "loop_inv l' t'"
proof -
  obtain t1 r where ap: "apply_install now st t = (t1, r)" by fastforce
  have "tinv (Some r) t1" using tinv_install [OF _ _ assms(3) ap] assms(1,2) by (simp add: loop_inv_def loop_pending_def searching_def)
  then show ?thesis using assms(4) ap by (auto simp: loop_installed_def loop_inv_def loop_pending_def searching_def)
qed

lemma loop_inv_connected:
  assumes "loop_inv l t" "rl_pc l = LReady r" "apply_close r t = Inr t1" "loop_connected l t1 = (t', l')"
  shows "loop_inv l' t'"
proof -
  have "tinv (Some r) t" using assms(1,2) by (simp add: loop_inv_def loop_pending_def)
  from tinv_close [OF this] have "tinv None t1" using assms(3) by auto
  then show ?thesis using assms(4) by (auto simp: loop_connected_def loop_inv_def loop_pending_def searching_def)
qed

section \<open>Reachable systems\<close>

definition one_session :: "tsys \<Rightarrow> bool" where
  "one_session s \<longleftrightarrow> \<not> sy_panic s \<and> session_inv (sy_starts s) (sy_loops s) (sy_t s)"

lemma session_loop:
  assumes "session_inv ss ls t" "i < length ls"
  shows "i = 0" "ss = [SDone]" "ls = [ls ! i]" "loop_inv (ls ! i) t"
  using assms by (cases rule: single_start_cases [OF assms(1)]; auto)+

lemma session_start:
  assumes "session_inv ss ls t" "i < length ss" "ss ! i = x" "x \<noteq> SDone"
  shows "ss = [x] \<and> i = 0 \<and> ls = []"
  using assms by (cases rule: single_start_cases [OF assms(1)]) auto

lemma one_session_with_loop:
  assumes s: "one_session s" and i: "i < length (sy_loops s)" and l: "loop_inv l' t'" and x: "x = (t', l')"
  shows "one_session (with_loop i x s)"
proof -
  have "session_inv (sy_starts s) (sy_loops s) (sy_t s)" using s by (simp add: one_session_def)
  from session_loop [OF this i] have "sy_starts s = [SDone]" "(sy_loops s)[i := l'] = [l']" by (simp, metis list_update_code(2))
  then show ?thesis using s l x by (simp add: one_session_def with_loop_def)
qed

lemma one_session_start:
  assumes "one_session s" "Start_begin (sy_t s) = Some t" "length (sy_starts s @ [SConnect]) \<le> 1"
  shows "one_session (s\<lparr>sy_t := t, sy_starts := sy_starts s @ [SConnect]\<rparr>)"
  using assms by (auto simp: one_session_def Start_begin_def tinv_def split: if_splits)

lemma one_session_step:
  assumes "sys_step s s'" "one_session s" "length (sy_starts s') \<le> 1"
  shows "one_session s'"
proof -
  have inv: "session_inv (sy_starts s) (sy_loops s) (sy_t s)" and np: "\<not> sy_panic s" using assms(2) by (simp_all add: one_session_def)
  note loop = session_loop [OF inv]
  note sess = session_start [OF inv]
  from assms(1) show ?thesis
  proof (cases rule: sys_step.cases)
    case (start t)
    then show ?thesis using one_session_start [OF assms(2)] assms(3) by simp
  next
    case (start_failed i)
    then have ss: "sy_starts s = [SConnect] \<and> i = 0 \<and> sy_loops s = []" using sess by simp
    then show ?thesis using start_failed np inv by (auto simp: one_session_def Start_failed_def intro: tinv_cong)
  next
    case (start_install i st now t r)
    then have ss: "sy_starts s = [SConnect] \<and> i = 0 \<and> sy_loops s = []" using sess by simp
    then show ?thesis using start_install np inv tinv_install [OF _ _ start_install(4,5)] by (auto simp: one_session_def)
  next
    case (start_ready i r t)
    then have ss: "sy_starts s = [SReady r] \<and> i = 0 \<and> sy_loops s = []" using sess by simp
    then have "tinv None t" using tinv_close [of r "sy_t s"] inv start_ready by auto
    then show ?thesis using ss start_ready np by (simp add: one_session_def loop_inv_def new_rloop_def loop_pending_def searching_def)
  next
    case (start_panics i r e)
    then have ss: "sy_starts s = [SReady r] \<and> i = 0 \<and> sy_loops s = []" using sess by simp
    then show ?thesis using inv tinv_not_panics start_panics by auto
  next
    case (stop t)
    then show ?thesis using np session_inv_cong [OF inv] by (auto simp: one_session_def Stop_begin_def split: if_splits)
  next
    case teardown
    then show ?thesis using np session_inv_teardown [OF inv] by (simp add: one_session_def)
  next
    case force
    then show ?thesis using np session_inv_cong [OF inv] by (auto simp: one_session_def)
  next
    case (loop_looks i)
    then show ?thesis using one_session_with_loop [OF assms(2)] loop_inv_look [OF loop(4)] by auto
  next
    case (loop_wakes i st)
    obtain t' l' where w: "loop_wake (sy_loops s ! i) (sy_t s) = (t', l')" by fastforce
    then show ?thesis using loop_wakes one_session_with_loop [OF assms(2) loop_wakes(2) loop_inv_wake [OF loop(4) [OF loop_wakes(2)] loop_wakes(3) w]] by simp
  next
    case (loop_ends i)
    have "loop_inv ((sy_loops s ! i)\<lparr>rl_pc := LEnd\<rparr>) (sy_t s)"
      using loop_ends(3) by (auto intro!: loop_inv_move loop(4) [OF loop_ends(2)] simp: waits_root_def loop_pending_def searching_def split: loop_pc.splits)
    then show ?thesis using loop_ends one_session_with_loop [OF assms(2)] by simp
  next
    case (loop_retries i)
    have "loop_inv ((sy_loops s ! i)\<lparr>rl_pc := LAttempt\<rparr>) (sy_t s)"
      using loop_retries(3) by (auto intro!: loop_inv_move loop(4) [OF loop_retries(2)] simp: waits_root_def loop_pending_def searching_def split: loop_pc.splits)
    then show ?thesis using loop_retries one_session_with_loop [OF assms(2)] by simp
  next
    case (loop_fails i)
    obtain t' l' where w: "loop_failed (sy_loops s ! i) (sy_t s) = (t', l')" by fastforce
    then show ?thesis using loop_fails one_session_with_loop [OF assms(2) loop_fails(2) loop_inv_failed [OF loop(4) [OF loop_fails(2)] loop_fails(3) w]] by simp
  next
    case (loop_connects i st)
    have "loop_inv ((sy_loops s ! i)\<lparr>rl_pc := LApply st\<rparr>) (sy_t s)"
      using loop_connects(3) by (auto intro!: loop_inv_move loop(4) [OF loop_connects(2)] simp: waits_root_def loop_pending_def searching_def split: loop_pc.splits)
    then show ?thesis using loop_connects one_session_with_loop [OF assms(2)] by simp
  next
    case (loop_installs i st now)
    obtain t' l' where w: "loop_installed now st (sy_loops s ! i) (sy_t s) = (t', l')" by fastforce
    show ?thesis using w loop_installs(1) one_session_with_loop [OF assms(2) loop_installs(2) loop_inv_installed [OF loop(4) [OF loop_installs(2)] loop_installs(3,4) w]] by simp
  next
    case (loop_ready i r t)
    obtain t' l' where w: "loop_connected (sy_loops s ! i) t = (t', l')" by fastforce
    show ?thesis using w loop_ready(1) one_session_with_loop [OF assms(2) loop_ready(2) loop_inv_connected [OF loop(4) [OF loop_ready(2)] loop_ready(3,4) w]] by simp
  next
    case (loop_panics i r e)
    have "tinv (Some r) (sy_t s)" using loop(4) [OF loop_panics(2)] loop_panics(3) by (simp add: loop_inv_def loop_pending_def)
    then show ?thesis using tinv_not_panics loop_panics by auto
  qed
qed

lemma starts_grow: "sys_step s s' \<Longrightarrow> length (sy_starts s) \<le> length (sy_starts s')"
  by (cases rule: sys_step.cases) (auto simp: with_loop_def)

lemma one_session_reach: "sys_step\<^sup>*\<^sup>* sys0 s \<Longrightarrow> length (sy_starts s) \<le> 1 \<Longrightarrow> one_session s"
proof (induction rule: rtranclp_induct)
  case base
  show ?case by (simp add: one_session_def sys0_def NewTunnel_def)
next
  case (step s s')
  then show ?case using one_session_step [OF step(2)] starts_grow [OF step(2)] by auto
qed

text \<open>A system in which no installation is between taking the ready channel and closing it.\<close>

definition settled :: "tsys \<Rightarrow> bool" where
  "settled s \<longleftrightarrow> sy_starts s \<noteq> [] \<and> list_all (\<lambda>p. case p of SReady r \<Rightarrow> False | _ \<Rightarrow> True) (sy_starts s) \<and> list_all (\<lambda>l. loop_pending (rl_pc l) = None) (sy_loops s)"

definition states_accounted :: "Tunnel \<Rightarrow> bool" where
  "states_accounted t \<longleftrightarrow> distinct (tn_installed t) \<and> mset (tn_installed t) = mset (tn_torn t) + (case tn_cur t of None \<Rightarrow> {#} | Some st \<Rightarrow> {#st#})"

lemma tinv_accounted: "tinv p t \<Longrightarrow> states_accounted t"
  by (simp add: tinv_def states_accounted_def)

lemma session_accounted: "session_inv ss ls t \<Longrightarrow> states_accounted t"
  by (cases rule: single_start_cases [of ss ls t]) (auto simp: loop_inv_def states_accounted_def tinv_def)

text \<open>
  C9: In every interleaving of one session of the mobile tunnel - its start, its reconnect loop, and teardowns by the reconnect manager, by the end of the call,
  by a change of the network and by \<^verbatim>\<open>Stop\<close> - the library does not crash on its ready channel, every state that was installed is either the current one or was torn
  down exactly once, and whenever no installation is in progress the ready channel is closed exactly if a state is installed, so that the callers of \<^const>\<open>getMux\<close>
  that wait for it wait exactly while there is none.
\<close>

theorem single_session_sound:
  assumes "sys_step\<^sup>*\<^sup>* sys0 s" "length (sy_starts s) \<le> 1"
  shows "\<not> sy_panic s \<and> states_accounted (sy_t s) \<and>
    (settled s \<longrightarrow> (tn_chans (sy_t s) ! tn_ready (sy_t s) \<longleftrightarrow> tn_cur (sy_t s) \<noteq> None))"
proof -
  have inv: "session_inv (sy_starts s) (sy_loops s) (sy_t s)" "\<not> sy_panic s" using one_session_reach [OF assms] by (simp_all add: one_session_def)
  have "tn_chans (sy_t s) ! tn_ready (sy_t s) \<longleftrightarrow> tn_cur (sy_t s) \<noteq> None" if "settled s"
  proof -
    have "tinv None (sy_t s)" using inv(1) that
      by (cases rule: single_start_cases [OF inv(1)]) (auto simp: settled_def loop_inv_def)
    then show ?thesis by (simp add: tinv_def)
  qed
  then show ?thesis using inv session_accounted by blast
qed

lemmas sys_eval = sys0_def NewTunnel_def Start_begin_def apply_install_def apply_close_def setStage_def with_loop_def loop_look_def loop_wake_def loop_failed_def loop_installed_def loop_connected_def
  new_rloop_def Stop_begin_def teardownMux_def drain_force_def root_done_def waits_root_def Let_def maxConsecutiveFailures_def rl_second_def rl_maxBackoff_def

theorem single_session_sound_witness:
  "\<exists>s. sys_step\<^sup>*\<^sup>* sys0 s \<and> length (sy_starts s) = 1 \<and> \<not> sy_panic s"
proof -
  define s where "s = sys0\<lparr>sy_t := the (Start_begin NewTunnel), sy_starts := [SConnect]\<rparr>"
  have "sys_step sys0 s" using sys_step.start [of sys0 "the (Start_begin NewTunnel)"] by (simp add: sys_eval s_def)
  then have r: "sys_step\<^sup>*\<^sup>* sys0 s" by (rule r_into_rtranclp)
  have l: "length (sy_starts s) = 1" by (simp add: s_def)
  have "\<not> sy_panic s" using single_session_sound [OF r] l by simp
  then show ?thesis using r l by blast
qed

text \<open>
  C27: A second session started while the reconnect loop of the first is in an attempt can crash the library: the loop's attempt fails because \<^verbatim>\<open>Stop\<close> cancelled its context, but
  the loop then looks at the new root context, tries again in the new session, and the loop and \<^verbatim>\<open>Start\<close> both close the ready channel of the new session.  The state
  that the loop installed is overwritten and never torn down.
\<close>

theorem restart_double_close: "\<exists>s. sys_step\<^sup>*\<^sup>* sys0 s \<and> sy_panic s \<and> length (sy_starts s) = 2 \<and> \<not> states_accounted (sy_t s)"
  apply (rule exI, rule conjI)
   apply (rule converse_rtranclp_into_rtranclp, rule sys_step.start, simp add: sys_eval, simp add: sys_eval)
   apply (rule converse_rtranclp_into_rtranclp, rule sys_step.start_install [of 0 _ 1], simp, simp, simp, simp add: sys_eval, simp)
   apply (rule converse_rtranclp_into_rtranclp, rule sys_step.start_ready [of 0], simp, simp, simp add: sys_eval, simp)
   apply (rule converse_rtranclp_into_rtranclp, rule sys_step.loop_looks [of 0], simp, simp add: sys_eval, simp add: sys_eval)
   apply (rule converse_rtranclp_into_rtranclp, rule sys_step.loop_wakes [of 0 _ 1], simp, simp, simp add: sys_eval)
   apply (rule converse_rtranclp_into_rtranclp, rule sys_step.stop, simp add: sys_eval, simp add: sys_eval)
   apply (rule converse_rtranclp_into_rtranclp, rule sys_step.start, simp add: sys_eval, simp add: sys_eval)
   apply (rule converse_rtranclp_into_rtranclp, rule sys_step.loop_fails [of 0], simp, simp, simp add: sys_eval)
   apply (rule converse_rtranclp_into_rtranclp, rule sys_step.loop_retries [of 0], simp, simp, simp add: sys_eval)
   apply (rule converse_rtranclp_into_rtranclp, rule sys_step.loop_connects [of 0 _ 2], simp, simp, simp add: sys_eval)
   apply (rule converse_rtranclp_into_rtranclp, rule sys_step.loop_installs [of 0 _ 2], simp, simp, simp, simp add: sys_eval)
   apply (rule converse_rtranclp_into_rtranclp, rule sys_step.start_install [of 1 _ 3], simp, simp, simp, simp add: sys_eval, simp)
   apply (rule converse_rtranclp_into_rtranclp, rule sys_step.loop_ready [of 0], simp, simp, simp add: sys_eval, simp add: sys_eval)
   apply (rule converse_rtranclp_into_rtranclp, rule sys_step.start_panics [of 1], simp, simp, simp add: sys_eval, simp)
   apply (rule rtranclp.rtrancl_refl)
  apply (simp add: sys_eval states_accounted_def)
  done

text \<open>A reconnect attempt that succeeds after \<^verbatim>\<open>Stop\<close> leaves its state installed: the loop ends at the cancelled root context without tearing it down.\<close>

lemma late_install_stays:
  "\<exists>s. sys_step\<^sup>*\<^sup>* sys0 s \<and> length (sy_starts s) = 1 \<and> \<not> tn_running (sy_t s) \<and> tn_cur (sy_t s) = Some 2 \<and> map rl_pc (sy_loops s) = [LEnd]"
  apply (rule exI, rule conjI)
   apply (rule converse_rtranclp_into_rtranclp, rule sys_step.start, simp add: sys_eval, simp add: sys_eval)
   apply (rule converse_rtranclp_into_rtranclp, rule sys_step.start_install [of 0 _ 1], simp, simp, simp, simp add: sys_eval, simp)
   apply (rule converse_rtranclp_into_rtranclp, rule sys_step.start_ready [of 0], simp, simp, simp add: sys_eval, simp)
   apply (rule converse_rtranclp_into_rtranclp, rule sys_step.loop_looks [of 0], simp, simp add: sys_eval, simp add: sys_eval)
   apply (rule converse_rtranclp_into_rtranclp, rule sys_step.loop_wakes [of 0 _ 1], simp, simp, simp add: sys_eval)
   apply (rule converse_rtranclp_into_rtranclp, rule sys_step.loop_connects [of 0 _ 2], simp, simp, simp add: sys_eval)
   apply (rule converse_rtranclp_into_rtranclp, rule sys_step.stop, simp add: sys_eval, simp add: sys_eval)
   apply (rule converse_rtranclp_into_rtranclp, rule sys_step.teardown, simp add: sys_eval)
   apply (rule converse_rtranclp_into_rtranclp, rule sys_step.loop_installs [of 0 _ 2], simp, simp, simp, simp add: sys_eval)
   apply (rule converse_rtranclp_into_rtranclp, rule sys_step.loop_ready [of 0], simp, simp, simp add: sys_eval, simp add: sys_eval)
   apply (rule converse_rtranclp_into_rtranclp, rule sys_step.loop_looks [of 0], simp, simp add: sys_eval, simp add: sys_eval)
   apply (rule converse_rtranclp_into_rtranclp, rule sys_step.loop_ends [of 0], simp, simp add: sys_eval, simp add: sys_eval, simp add: sys_eval)
   apply (rule rtranclp.rtrancl_refl)
  apply simp
  done

section \<open>How long a loop tries\<close>

text \<open>A run of attempts that all fail: the waits between them, and where it ends.\<close>

fun fail_run :: "nat \<Rightarrow> Tunnel \<Rightarrow> rloop \<Rightarrow> int list \<times> Tunnel \<times> rloop" where
  "fail_run 0 t l = ([], t, l)"
| "fail_run (Suc n) t l =
     (case loop_failed l t of (t1, l1) \<Rightarrow>
        if rl_pc l1 = LEnd then ([], t1, l1)
        else (case fail_run n t1 (l1\<lparr>rl_pc := LAttempt\<rparr>) of (ws, t2, l2) \<Rightarrow> (rl_backoff l1 # ws, t2, l2)))"

lemma fail_run_ends:
  assumes "rl_failures l < maxConsecutiveFailures" "n \<ge> maxConsecutiveFailures - rl_failures l" "\<not> tn_forces t ! rl_force l" "rl_backoff l \<le> rl_maxBackoff"
    "fail_run n t l = (ws, t', l')"
  shows "rl_pc l' = LEnd \<and> length ws = maxConsecutiveFailures - rl_failures l - 1 \<and> (\<forall>w\<in>set ws. w \<le> rl_maxBackoff) \<and>
    t' = teardownMux (setFatalError ''reconnect failed'' t)"
  using assms
proof (induction n arbitrary: l ws l')
  case (Suc n)
  show ?case
  proof (cases "rl_failures l + 1 \<ge> maxConsecutiveFailures")
    case True
    then show ?thesis using Suc.prems by (auto simp: loop_failed_def Let_def)
  next
    case False
    define l1 where "l1 = l\<lparr>rl_failures := rl_failures l + 1, rl_backoff := min (rl_backoff l * 2) rl_maxBackoff, rl_pc := LAttempt\<rparr>"
    obtain ws1 l2 where r: "fail_run n t l1 = (ws1, t', l2)" "ws = rl_backoff l1 # ws1" "l' = l2"
      using Suc.prems(5) False Suc.prems(3) by (auto simp: loop_failed_def Let_def l1_def split: prod.splits)
    have "rl_pc l2 = LEnd \<and> length ws1 = maxConsecutiveFailures - rl_failures l1 - 1 \<and> (\<forall>w\<in>set ws1. w \<le> rl_maxBackoff) \<and>
        t' = teardownMux (setFatalError ''reconnect failed'' t)"
      by (rule Suc.IH) (use Suc.prems False r in \<open>auto simp: l1_def\<close>)
    then show ?thesis using r False by (auto simp: l1_def)
  qed
qed simp

text \<open>
  C28: A reconnect loop of the mobile tunnel whose attempts all fail ends: it makes ten attempts with nine waits between them, none above a minute and together 302 seconds when it
  starts from the initial delay; it then tears the tunnel down and reports a fatal error, but leaves the tunnel marked as running.
\<close>

theorem reconnect_gives_up:
  assumes "rl_pc l = LAttempt" "rl_failures l = 0" "rl_backoff l = rl_second" "\<not> tn_forces t ! rl_force l"
  shows "\<exists>ws t' l'. fail_run 10 t l = (ws, t', l') \<and> rl_pc l' = LEnd \<and> length ws = 9 \<and> sum_list ws = 302 * 10 ^ 9 \<and> list_all (\<lambda>w. w \<le> rl_maxBackoff) ws \<and>
    tn_cur t' = None \<and> tn_fatal t' \<noteq> [] \<and> tn_running t' = tn_running t"
proof -
  obtain ws t' l' where r: "fail_run 10 t l = (ws, t', l')" using prod_cases3 by blast
  have e: "rl_pc l' = LEnd" "length ws = 9" "\<forall>w\<in>set ws. w \<le> rl_maxBackoff" "t' = teardownMux (setFatalError ''reconnect failed'' t)"
    using fail_run_ends [OF _ _ assms(4) _ r] assms by (simp_all add: maxConsecutiveFailures_def rl_second_def rl_maxBackoff_def)
  have "tn_fatal t' \<noteq> []" "tn_running t' = tn_running t" by (simp_all add: e(4) teardownMux_def setFatalError_def split: option.split)
  moreover have "sum_list (fst (fail_run 10 t l)) = 302 * 10 ^ 9"
    using assms(2-4) by (simp add: numeral_eq_Suc loop_failed_def Let_def maxConsecutiveFailures_def rl_second_def rl_maxBackoff_def)
  ultimately show ?thesis using r e by (auto simp: list_all_iff)
qed

theorem reconnect_gives_up_witness:
  "rl_pc (snd (snd (fail_run 10 (NewTunnel\<lparr>tn_forces := [False]\<rparr>) (new_rloop\<lparr>rl_pc := LAttempt\<rparr>)))) = LEnd"
  using reconnect_gives_up [of "new_rloop\<lparr>rl_pc := LAttempt\<rparr>" "NewTunnel\<lparr>tn_forces := [False]\<rparr>"] by (auto simp: new_rloop_def)

section \<open>Connecting\<close>

text \<open>Connection \<open>i\<close> of a direct session is what dialling server \<open>i mod n\<close> gives, and what is cleaned up is what each failed dial had opened.\<close>

lemma dial_all_eq:
  "dial_all hmac env sid servers i n cleaned mcs =
     (cleaned @ concat (map (\<lambda>j. fst (dialDirectConn hmac env sid j (servers ! (j mod length servers)))) [i..<i + n]),
      mcs @ List.map_filter (\<lambda>j. snd (dialDirectConn hmac env sid j (servers ! (j mod length servers)))) [i..<i + n])"
proof (induction n arbitrary: i cleaned mcs)
  case (Suc n)
  have u: "[i..<i + Suc n] = i # [Suc i..<Suc i + n]" by (simp add: upt_conv_Cons)
  show ?case unfolding u dial_all.simps using Suc.IH
    by (auto simp: map_filter_simps split: prod.split option.split)
qed (simp add: map_filter_simps)

lemma connect_servers_fails_closed:
  "connect_servers hmac cfg env sid servers = (tr, Inl e) \<Longrightarrow> ct_allClosed tr"
  by (auto simp: connect_servers_def split: prod.splits sum.splits if_splits)

text \<open>
  The active-backup mode of the mobile tunnel connects to the first of its servers with which an attempt succeeds: every earlier server was tried in order and failed, and each failed attempt has
  closed all its TURN allocations.
\<close>

theorem active_backup_first:
  assumes "connectDirectActiveBackup hmac cfg env sid si servers err = (trs, Inr (k, st))"
  shows "\<exists>j < length servers. k = si + j \<and> length trs = j + 1 \<and> connect_servers hmac cfg (env k) sid [servers ! j] = (trs ! j, Inr st) \<and>
    (\<forall>i < j. \<exists>e. connect_servers hmac cfg (env (si + i)) sid [servers ! i] = (trs ! i, Inl e) \<and> ct_allClosed (trs ! i))"
  using assms
proof (induction servers arbitrary: si err trs)
  case (Cons srv servers)
  obtain t r where c: "connect_servers hmac cfg (env si) sid [srv] = (t, r)" by fastforce
  show ?case
  proof (cases r)
    case (Inr st')
    then show ?thesis using Cons.prems c by auto
  next
    case (Inl e)
    then obtain ts where ts: "connectDirectActiveBackup hmac cfg env sid (si + 1) servers (Some (Wrapf ''server'' e)) = (ts, Inr (k, st))" "trs = t # ts"
      using Cons.prems c by (auto split: prod.splits)
    from Cons.IH [OF ts(1)] obtain j where j: "j < length servers" "k = Suc si + j" "length ts = j + 1"
      "connect_servers hmac cfg (env k) sid [servers ! j] = (ts ! j, Inr st)"
      "\<forall>i < j. \<exists>e. connect_servers hmac cfg (env (Suc si + i)) sid [servers ! i] = (ts ! i, Inl e) \<and> ct_allClosed (ts ! i)" by auto
    have "\<exists>e. connect_servers hmac cfg (env (si + i)) sid [(srv # servers) ! i] = (trs ! i, Inl e) \<and> ct_allClosed (trs ! i)" if "i < Suc j" for i
      using that j(5) c Inl connect_servers_fails_closed [of hmac cfg "env si" sid "[srv]"] ts(2) by (cases i) auto
    then show ?thesis using j ts(2) by (intro exI [of _ "Suc j"]) auto
  qed
qed simp

definition wit_backup_env :: "nat \<Rightarrow> direct_env" where
  "wit_backup_env k =
     \<lparr>de_allocs = (if k = 1 then [(0, Inr \<lparr>RelayAddr = ''r'', al_Creds = \<lparr>Username = [], Password = [], Host = [], Port = [], Servers = []\<rparr>, CreatedAt = 0\<rparr>)] else []),
      de_dial = (\<lambda>i a. Inr \<lparr>dc_id = 7, dc_cleanup = True, dc_write = (\<lambda>n. True), dc_in = []\<rparr>), de_rnd = (\<lambda>i. [])\<rparr>"

definition wit_backup_servers :: "serverInfo list" where
  "wit_backup_servers = [\<lparr>si_addr = ''a'', si_token = []\<rparr>, \<lparr>si_addr = ''b'', si_token = []\<rparr>]"

definition wit_backup_cfg :: TunnelConfig where
  "wit_backup_cfg = \<lparr>tc_CallLink = ''c'', tc_ServerAddr = ''a,b'', tc_NumConns = 1, tc_UseTCP = True, tc_Token = [], tc_Fingerprint = [], tc_VKTokens = [], tc_ServerMode = []\<rparr>"

text \<open>The buffer of log lines keeps the last ones that are not empty.\<close>

definition last_n :: "nat \<Rightarrow> 'a list \<Rightarrow> 'a list" where
  "last_n n xs = drop (length xs - n) xs"

lemma last_n_drop: "length ys = n \<Longrightarrow> last_n n (y # ys @ zs) = last_n n (ys @ zs)"
  by (simp add: last_n_def Suc_diff_le)

lemma log_keeps_last:
  assumes "n > 0" "length ls \<le> n"
  shows "lb_append n new ls = Inr (last_n n (ls @ filter (\<lambda>l. l \<noteq> []) new))"
  using assms(2)
proof (induction new arbitrary: ls)
  case (Cons l new)
  consider "l = []" | "l \<noteq> []" "length ls < n" | "l \<noteq> []" "length ls = n" using Cons.prems by linarith
  then show ?case
  proof cases
    case 2
    then show ?thesis using Cons.IH [of "ls @ [l]"] by simp
  next
    case 3
    then obtain a as where ls: "ls = a # as" using assms(1) by (cases ls) auto
    then show ?thesis using 3 Cons.IH [of "as @ [l]"] last_n_drop [of "as @ [l]" n a] by simp
  qed (use Cons in simp)
qed (simp add: last_n_def)

text \<open>
  With several links and no server address, \<^verbatim>\<open>Start\<close> opens one call per link, but the reconnect loop never does.
\<close>

lemma reconnect_forgets_links:
  "length (clean_links (tc_CallLink cfg)) > 1 \<Longrightarrow> tc_ServerAddr cfg = [] \<Longrightarrow> start_mode cfg = ModeMultiRelay \<and> reconnect_mode cfg \<noteq> ModeMultiRelay"
  by (simp add: start_mode_def reconnect_mode_def Let_def)

end
