(* ===== verification/Goloom.thy ===== *)
theory Goloom
  imports Rtp_Conn Turn_Manager
begin

text \<open>
  The signaling client of the Telemost service (\<^verbatim>\<open>provider/telemost/goloom.go\<close>): messages to the media server, the handler of its messages with the channels it
  fills, the tracking of participants, and the functions that wait for a participant.  Reading JSON gives an envelope or fails; what is written is a value
  of \<open>goloom_msg\<close>.  The identifiers of messages are random; only that of an offer is looked at again, and is an argument.
\<close>

section \<open>Participants\<close>

record Participant =
  pt_ID :: string
  pt_Name :: string
  pt_Description :: string
  pt_SendVideo :: bool
  pt_DisconnectedAt :: int

definition IsLive :: "Participant \<Rightarrow> bool" where
  "IsLive p \<longleftrightarrow> pt_DisconnectedAt p = 0 \<and> pt_SendVideo p"

section \<open>Messages\<close>

record iceCandidate =
  ic_Candidate :: string
  ic_SDPMid :: string
  ic_Target :: string

datatype track_kind = TrackAudio | TrackVideo

text \<open>A slot is free or pinned to a participant.\<close>

datatype slot_request = FreeSlot | PinnedSlot string

datatype goloom_msg =
    MHello
  | MPublisherOffer string string
  | MSubscriberAnswer string
  | MUpdateMe string string bool bool
  | MTracks "track_kind list"
  | MSetSlots "slot_request list"
  | MIce iceCandidate
  | MAck string
  | MLeave
  | MPing

text \<open>Channels are queues; \<open>gc_sent\<close> are the messages written, \<open>gc_writes\<close> counts the attempts to write.\<close>

record GoloomClient =
  gc_pubAnswer :: "string list"
  gc_pubError :: "string list"
  gc_subOffer :: "string list"
  gc_serverICE :: "iceCandidate list"
  gc_peerUpdates :: "Participant list list"
  gc_upsertUpdates :: "Participant list list"
  gc_knownPeers :: "string set"
  gc_newPeerCh :: "string list"
  gc_discovery :: bool
  gc_pubOfferUID :: string
  gc_closed :: bool
  gc_sent :: "goloom_msg list"
  gc_writes :: nat

definition new_goloom :: GoloomClient where
  "new_goloom = \<lparr>gc_pubAnswer = [], gc_pubError = [], gc_subOffer = [], gc_serverICE = [], gc_peerUpdates = [], gc_upsertUpdates = [], gc_knownPeers = {},
     gc_newPeerCh = [], gc_discovery = False, gc_pubOfferUID = [], gc_closed = False, gc_sent = [], gc_writes = 0\<rparr>"

text \<open>\<open>wok n\<close> tells whether write \<open>n\<close> succeeds.\<close>

definition writeJSON :: "(nat \<Rightarrow> bool) \<Rightarrow> goloom_msg \<Rightarrow> GoloomClient \<Rightarrow> GoloomClient \<times> bool" where
  "writeJSON wok msg gc =
     (if wok (gc_writes gc) then (gc\<lparr>gc_sent := gc_sent gc @ [msg], gc_writes := gc_writes gc + 1\<rparr>, True)
      else (gc\<lparr>gc_writes := gc_writes gc + 1\<rparr>, False))"

definition sendAck :: "(nat \<Rightarrow> bool) \<Rightarrow> string \<Rightarrow> GoloomClient \<Rightarrow> GoloomClient" where
  "sendAck wok uid gc = fst (writeJSON wok (MAck uid) gc)"

definition SendSubscriberAnswer :: "(nat \<Rightarrow> bool) \<Rightarrow> string \<Rightarrow> GoloomClient \<Rightarrow> GoloomClient \<times> bool" where
  "SendSubscriberAnswer wok sdp gc = writeJSON wok (MSubscriberAnswer sdp) gc"

definition SendUpdateMe :: "(nat \<Rightarrow> bool) \<Rightarrow> string \<Rightarrow> bool \<Rightarrow> bool \<Rightarrow> GoloomClient \<Rightarrow> GoloomClient \<times> bool" where
  "SendUpdateMe wok name audio video gc = writeJSON wok (MUpdateMe name [] audio video) gc"

definition SendPublisherTrackDescription :: "(nat \<Rightarrow> bool) \<Rightarrow> bool \<Rightarrow> bool \<Rightarrow> GoloomClient \<Rightarrow> GoloomClient \<times> bool" where
  "SendPublisherTrackDescription wok audio video gc =
     writeJSON wok (MTracks ((if audio then [TrackAudio] else []) @ (if video then [TrackVideo] else []))) gc"

definition SendSetSlots :: "(nat \<Rightarrow> bool) \<Rightarrow> GoloomClient \<Rightarrow> GoloomClient \<times> bool" where
  "SendSetSlots wok gc = writeJSON wok (MSetSlots (replicate 8 FreeSlot)) gc"

definition PinToPeer :: "(nat \<Rightarrow> bool) \<Rightarrow> string \<Rightarrow> GoloomClient \<Rightarrow> GoloomClient \<times> bool" where
  "PinToPeer wok participantID gc = writeJSON wok (MSetSlots (PinnedSlot participantID # replicate 7 FreeSlot)) gc"

definition SendICECandidate :: "(nat \<Rightarrow> bool) \<Rightarrow> string \<Rightarrow> string \<Rightarrow> string \<Rightarrow> GoloomClient \<Rightarrow> GoloomClient \<times> bool" where
  "SendICECandidate wok candidate sdpMid target gc = writeJSON wok (MIce \<lparr>ic_Candidate = candidate, ic_SDPMid = sdpMid, ic_Target = target\<rparr>) gc"

definition SendVPNReady :: "(nat \<Rightarrow> bool) \<Rightarrow> string \<Rightarrow> string \<Rightarrow> GoloomClient \<Rightarrow> GoloomClient \<times> bool" where
  "SendVPNReady wok name nonce gc = writeJSON wok (MUpdateMe name (''vpn-ready:'' @ nonce) True True) gc"

text \<open>\<^verbatim>\<open>once\<close> makes the second \<^verbatim>\<open>Close\<close> do nothing.\<close>

definition goloom_Close :: "(nat \<Rightarrow> bool) \<Rightarrow> GoloomClient \<Rightarrow> GoloomClient" where
  "goloom_Close wok gc = (if gc_closed gc then gc else fst (writeJSON wok MLeave (gc\<lparr>gc_closed := True\<rparr>)))"

section \<open>Receiving\<close>

text \<open>A send that gives up when the channel is full, and one that drops the oldest entry instead.\<close>

definition try_send :: "nat \<Rightarrow> 'a \<Rightarrow> 'a list \<Rightarrow> 'a list" where
  "try_send n x ch = (if length ch < n then ch @ [x] else ch)"

definition push_newest :: "nat \<Rightarrow> 'a \<Rightarrow> 'a list \<Rightarrow> 'a list" where
  "push_newest n x ch = (if length ch < n then ch @ [x] else List.tl ch @ [x])"

definition parseUpdateDescription :: "Participant list option \<Rightarrow> GoloomClient \<Rightarrow> GoloomClient" where
  "parseUpdateDescription raw gc =
     (case raw of
        None \<Rightarrow> gc
      | Some peers \<Rightarrow> gc\<lparr>gc_knownPeers := gc_knownPeers gc \<union> set (map pt_ID peers), gc_peerUpdates := push_newest 8 peers (gc_peerUpdates gc)\<rparr>)"

definition parseUpsertDescription :: "Participant list option \<Rightarrow> GoloomClient \<Rightarrow> GoloomClient" where
  "parseUpsertDescription raw gc =
     (case raw of None \<Rightarrow> gc | Some peers \<Rightarrow> gc\<lparr>gc_upsertUpdates := push_newest 8 peers (gc_upsertUpdates gc)\<rparr>)"

text \<open>The event has an identifier, a name and a flag; the other fields are empty.\<close>

definition parseParticipantConnected :: "(string \<times> string \<times> bool) option \<Rightarrow> GoloomClient \<Rightarrow> GoloomClient" where
  "parseParticipantConnected raw gc =
     (case raw of
        None \<Rightarrow> gc
      | Some (pid, name, video) \<Rightarrow>
          if pid = [] then gc
          else gc\<lparr>gc_peerUpdates :=
                 push_newest 8 [\<lparr>pt_ID = pid, pt_Name = name, pt_Description = [], pt_SendVideo = video, pt_DisconnectedAt = 0\<rparr>] (gc_peerUpdates gc)\<rparr>)"

text \<open>A slot may name a participant in two ways, of which the second comes first.\<close>

definition slot_pid :: "string option \<times> string option \<Rightarrow> string" where
  "slot_pid s = (case snd s of Some pid \<Rightarrow> pid | None \<Rightarrow> (case fst s of Some pid \<Rightarrow> pid | None \<Rightarrow> []))"

definition discover :: "GoloomClient \<Rightarrow> string \<Rightarrow> GoloomClient" where
  "discover gc pid =
     (if pid = [] then gc
      else if pid \<in> gc_knownPeers gc then gc
      else gc\<lparr>gc_knownPeers := insert pid (gc_knownPeers gc), gc_newPeerCh := try_send 16 pid (gc_newPeerCh gc)\<rparr>)"

definition parseSlotsConfig :: "(string option \<times> string option) list option \<Rightarrow> GoloomClient \<Rightarrow> GoloomClient" where
  "parseSlotsConfig raw gc =
     (if \<not> gc_discovery gc then gc
      else case raw of None \<Rightarrow> gc | Some slots \<Rightarrow> foldl discover gc (map slot_pid slots))"

definition AddKnownPeer :: "string \<Rightarrow> GoloomClient \<Rightarrow> GoloomClient" where
  "AddKnownPeer i gc = gc\<lparr>gc_knownPeers := insert i (gc_knownPeers gc)\<rparr>"

definition EnableDiscovery :: "GoloomClient \<Rightarrow> GoloomClient" where
  "EnableDiscovery gc = gc\<lparr>gc_discovery := True\<rparr>"

text \<open>The fields of a message that are present; a field that holds a further message is what parsing that message gives.\<close>

record goloom_envelope =
  en_UID :: string
  en_Ack :: "string option"
  en_PublisherSdpAnswer :: "string option"
  en_SubscriberSdpOffer :: "string option"
  en_WebrtcIceCandidate :: "iceCandidate option"
  en_UpdateDescription :: "Participant list option option"
  en_UpsertDescription :: "Participant list option option"
  en_SlotsConfig :: "(string option \<times> string option) list option option"
  en_ParticipantConnected :: "(string \<times> string \<times> bool) option option"

definition opt :: "('a \<Rightarrow> 'b \<Rightarrow> 'b) \<Rightarrow> 'a option \<Rightarrow> 'b \<Rightarrow> 'b" where
  "opt f x gc = (case x of None \<Rightarrow> gc | Some y \<Rightarrow> f y gc)"

definition handle_ack :: "goloom_envelope \<Rightarrow> string \<Rightarrow> GoloomClient \<Rightarrow> GoloomClient" where
  "handle_ack env code gc =
     (if en_UID env = gc_pubOfferUID gc \<and> code \<noteq> ''OK'' \<and> code \<noteq> [] then gc\<lparr>gc_pubError := try_send 1 code (gc_pubError gc)\<rparr> else gc)"

definition handleMessage :: "(nat \<Rightarrow> bool) \<Rightarrow> goloom_envelope option \<Rightarrow> GoloomClient \<Rightarrow> GoloomClient" where
  "handleMessage wok msg gc =
     (case msg of
        None \<Rightarrow> gc
      | Some env \<Rightarrow>
          (case (en_Ack env, en_UID env \<noteq> []) of
             (Some code, True) \<Rightarrow> handle_ack env code gc
           | _ \<Rightarrow>
               let g1 = (if en_UID env \<noteq> [] then sendAck wok (en_UID env) gc else gc);
                   g2 = opt (\<lambda>sdp g. g\<lparr>gc_pubAnswer := try_send 1 sdp (gc_pubAnswer g)\<rparr>) (en_PublisherSdpAnswer env) g1;
                   g3 = opt (\<lambda>sdp g. g\<lparr>gc_subOffer := try_send 4 sdp (gc_subOffer g)\<rparr>) (en_SubscriberSdpOffer env) g2;
                   g4 = opt (\<lambda>ic g. g\<lparr>gc_serverICE := try_send 32 ic (gc_serverICE g)\<rparr>) (en_WebrtcIceCandidate env) g3;
                   g5 = opt parseSlotsConfig (en_SlotsConfig env) g4;
                   g6 = opt parseUpdateDescription (en_UpdateDescription env) g5;
                   g7 = opt (\<lambda>raw g. parseUpsertDescription raw (parseUpdateDescription raw g)) (en_UpsertDescription env) g6
               in opt parseParticipantConnected (en_ParticipantConnected env) g7))"

text \<open>The reader: messages until one cannot be read, which closes the client.\<close>

fun readPump :: "(nat \<Rightarrow> bool) \<Rightarrow> goloom_envelope option list \<Rightarrow> GoloomClient \<Rightarrow> GoloomClient" where
  "readPump wok [] gc = goloom_Close wok gc"
| "readPump wok (msg # msgs) gc = (if gc_closed gc then gc else readPump wok msgs (handleMessage wok msg gc))"

section \<open>Connecting\<close>

text \<open>An ICE server of the hello: its addresses, user name and credential.\<close>

type_synonym iceServer = "string list \<times> string \<times> string"

text \<open>What a message of the handshake holds: its identifier, whether it is an acknowledgement, the hello of the server.\<close>

type_synonym hello_envelope = "string \<times> bool \<times> iceServer list option"

fun readServerHello :: "(nat \<Rightarrow> bool) \<Rightarrow> hello_envelope option list \<Rightarrow> GoloomClient \<Rightarrow> GoloomClient \<times> iceServer list option" where
  "readServerHello wok [] gc = (gc, None)"
| "readServerHello wok (None # msgs) gc = readServerHello wok msgs gc"
| "readServerHello wok (Some (uid, is_ack, hello) # msgs) gc =
     (let g1 = (if \<not> is_ack \<and> uid \<noteq> [] then sendAck wok uid gc else gc)
      in case hello of Some sh \<Rightarrow> (g1, Some sh) | None \<Rightarrow> readServerHello wok msgs g1)"

definition ConnectGoloom :: "goerr option \<Rightarrow> (nat \<Rightarrow> bool) \<Rightarrow> hello_envelope option list \<Rightarrow> goerr + (GoloomClient \<times> iceServer list)" where
  "ConnectGoloom dial wok msgs =
     (case dial of
        Some e \<Rightarrow> Inl (Wrapf ''ws connect'' e)
      | None \<Rightarrow>
          (case writeJSON wok MHello new_goloom of
             (gc, False) \<Rightarrow> Inl (Errorf ''send hello'')
           | (gc, True) \<Rightarrow>
               (case readServerHello wok msgs gc of
                  (g1, None) \<Rightarrow> Inl (Errorf ''read serverHello'')
                | (g1, Some sh) \<Rightarrow> Inr (g1, sh))))"

definition ICEServers :: "iceServer list \<Rightarrow> (string list \<times> (string \<times> string) option) list" where
  "ICEServers sh = map (\<lambda>(urls, user, cred). (urls, if user \<noteq> [] then Some (user, cred) else None)) sh"

section \<open>Waiting\<close>

text \<open>
  A wait takes from its channels what they hold now; without a result it goes on waiting until more arrives or its context or the client ends.
\<close>

datatype 'a waits = Found 'a | Waiting

fun wait_match :: "(Participant \<Rightarrow> 'a option) \<Rightarrow> Participant list list \<Rightarrow> 'a waits \<times> Participant list list" where
  "wait_match f [] = (Waiting, [])"
| "wait_match f (peers # ch) = (case List.map_filter f peers of x # xs \<Rightarrow> (Found x, ch) | [] \<Rightarrow> wait_match f ch)"

definition live_id :: "string \<Rightarrow> Participant \<Rightarrow> string option" where
  "live_id peerName p = (if pt_Name p = peerName \<and> IsLive p then Some (pt_ID p) else None)"

definition WaitForPeerByName :: "string \<Rightarrow> GoloomClient \<Rightarrow> string waits \<times> GoloomClient" where
  "WaitForPeerByName peerName gc = (case wait_match (live_id peerName) (gc_peerUpdates gc) of (r, ch) \<Rightarrow> (r, gc\<lparr>gc_peerUpdates := ch\<rparr>))"

definition WaitForNewPeerByName :: "string \<Rightarrow> GoloomClient \<Rightarrow> string waits \<times> GoloomClient" where
  "WaitForNewPeerByName peerName gc = (case wait_match (live_id peerName) (gc_upsertUpdates gc) of (r, ch) \<Rightarrow> (r, gc\<lparr>gc_upsertUpdates := ch\<rparr>))"

definition ready_nonce :: "string \<Rightarrow> Participant \<Rightarrow> string option" where
  "ready_nonce peerName p =
     (if pt_Name p = peerName \<and> HasPrefix ''vpn-ready:'' (pt_Description p) \<and> IsLive p then Some (TrimPrefix ''vpn-ready:'' (pt_Description p)) else None)"

definition WaitPeerReady :: "string \<Rightarrow> GoloomClient \<Rightarrow> string waits \<times> GoloomClient" where
  "WaitPeerReady peerName gc = (case wait_match (ready_nonce peerName) (gc_upsertUpdates gc) of (r, ch) \<Rightarrow> (r, gc\<lparr>gc_upsertUpdates := ch\<rparr>))"

definition WaitForNewPeer :: "GoloomClient \<Rightarrow> string waits \<times> GoloomClient" where
  "WaitForNewPeer gc = (case gc_newPeerCh gc of [] \<Rightarrow> (Waiting, gc) | pid # ch \<Rightarrow> (Found pid, gc\<lparr>gc_newPeerCh := ch\<rparr>))"

definition is_match :: "string \<Rightarrow> Participant \<Rightarrow> bool" where
  "is_match peerName p \<longleftrightarrow> pt_Name p = peerName \<and> IsLive p"

text \<open>When both channels hold something, \<open>pick\<close> chooses: \<^verbatim>\<open>select\<close> may take either.\<close>

function find_all :: "(nat \<Rightarrow> bool) \<Rightarrow> nat \<Rightarrow> string \<Rightarrow> Participant list list \<Rightarrow> Participant list list \<Rightarrow> Participant list waits \<times> Participant list list \<times> Participant list list" where
  "find_all pick n peerName ups ins =
     (if ups \<noteq> [] \<and> (ins = [] \<or> pick n)
      then (let matches = filter (is_match peerName) (hd ups)
            in if matches \<noteq> [] then (Found matches, List.tl ups, ins) else find_all pick (n + 1) peerName (List.tl ups) ins)
      else if ins \<noteq> []
      then (case filter (is_match peerName) (hd ins) of p # ps \<Rightarrow> (Found [p], ups, List.tl ins) | [] \<Rightarrow> find_all pick (n + 1) peerName ups (List.tl ins))
      else (Waiting, ups, ins))"
  by auto
termination by (relation "measure (\<lambda>(pick, n, name, ups, ins). length ups + length ins)") auto

declare find_all.simps [simp del]

definition FindAllPeersByName :: "(nat \<Rightarrow> bool) \<Rightarrow> string \<Rightarrow> GoloomClient \<Rightarrow> Participant list waits \<times> GoloomClient" where
  "FindAllPeersByName pick peerName gc =
     (case find_all pick 0 peerName (gc_peerUpdates gc) (gc_upsertUpdates gc) of
        (r, ups, ins) \<Rightarrow> (r, gc\<lparr>gc_peerUpdates := ups, gc_upsertUpdates := ins\<rparr>))"

text \<open>The wait for the answer to an offer; which of the ready cases it takes is open.\<close>

datatype offer_result = Answer string | Rejected string | GoloomClosed

definition SendPublisherOffer :: "(nat \<Rightarrow> bool) \<Rightarrow> string \<Rightarrow> string \<Rightarrow> GoloomClient \<Rightarrow> GoloomClient \<times> bool" where
  "SendPublisherOffer wok uid sdp gc = writeJSON wok (MPublisherOffer uid sdp) (gc\<lparr>gc_pubOfferUID := uid\<rparr>)"

definition offer_ready :: "GoloomClient \<Rightarrow> (GoloomClient \<times> offer_result) list" where
  "offer_ready gc =
     (case gc_pubAnswer gc of [] \<Rightarrow> [] | a # ch \<Rightarrow> [(gc\<lparr>gc_pubAnswer := ch\<rparr>, Answer a)]) @
     (case gc_pubError gc of [] \<Rightarrow> [] | e # ch \<Rightarrow> [(gc\<lparr>gc_pubError := ch\<rparr>, Rejected e)]) @
     (if gc_closed gc then [(gc, GoloomClosed)] else [])"

definition WaitSubscriberOffer :: "GoloomClient \<Rightarrow> string waits \<times> GoloomClient" where
  "WaitSubscriberOffer gc = (case gc_subOffer gc of [] \<Rightarrow> (Waiting, gc) | o1 # ch \<Rightarrow> (Found o1, gc\<lparr>gc_subOffer := ch\<rparr>))"

text \<open>A tick of \<^verbatim>\<open>pingLoop\<close>, and whether the loop goes on.\<close>

definition gc_ping_tick :: "(nat \<Rightarrow> bool) \<Rightarrow> bool \<Rightarrow> GoloomClient \<Rightarrow> GoloomClient \<times> bool" where
  "gc_ping_tick wok ctx_done gc = (if ctx_done \<or> gc_closed gc then (gc, False) else writeJSON wok MPing gc)"

end
