(* ===== verification/Telemost.thy ===== *)
theory Telemost
  imports Goloom
begin

text \<open>
  The Telemost service (\<^verbatim>\<open>provider/telemost/telemost.go\<close>, \<^verbatim>\<open>webrtc.go\<close> and \<^verbatim>\<open>displaynames.go\<close>): display names, joining a meeting, the two peer connections to the media
  server, and pairing a client with a server.  WebRTC, HTTP, SHA-256 and the generator of names are arguments.
\<close>

section \<open>Display names\<close>

text \<open>\<open>name role i\<close> is \<^verbatim>\<open>deriveName\<close> for the token at hand.\<close>

definition deriveUniqueName :: "(string \<Rightarrow> nat \<Rightarrow> string) \<Rightarrow> string \<Rightarrow> nat \<Rightarrow> string set \<Rightarrow> string \<times> string set" where
  "deriveUniqueName name role index used =
     (case find (\<lambda>attempt. name role (index + attempt * 1000) \<notin> used) [0..<100] of
        Some attempt \<Rightarrow> (name role (index + attempt * 1000), insert (name role (index + attempt * 1000)) used)
      | None \<Rightarrow> (name role index, insert (name role index) used))"

fun derive_names :: "(string \<Rightarrow> nat \<Rightarrow> string) \<Rightarrow> string \<Rightarrow> nat list \<Rightarrow> string set \<Rightarrow> string list \<times> string set" where
  "derive_names name role [] used = ([], used)"
| "derive_names name role (i # is) used =
     (case deriveUniqueName name role i used of (n, used1) \<Rightarrow> (case derive_names name role is used1 of (ns, used2) \<Rightarrow> (n # ns, used2)))"

definition DeriveDisplayNames :: "(string \<Rightarrow> nat \<Rightarrow> string) \<Rightarrow> nat \<Rightarrow> string list \<times> string list" where
  "DeriveDisplayNames name n =
     (case derive_names name ''s'' [0..<n] {} of (serverNames, used) \<Rightarrow> (serverNames, fst (derive_names name ''c'' [0..<n] used)))"

section \<open>The service\<close>

text \<open>Comparison of strings by their bytes.\<close>

fun str_gt :: "string \<Rightarrow> string \<Rightarrow> bool" where
  "str_gt [] b = False"
| "str_gt (x # a) [] = True"
| "str_gt (x # a) (y # b) = (if x = y then str_gt a b else (of_char x :: nat) > of_char y)"

definition sortedPairID :: "string \<Rightarrow> string \<Rightarrow> string" where
  "sortedPairID a b = (if str_gt a b then b @ '':'' @ a else a @ '':'' @ b)"

text \<open>The part behind the first occurrence of \<open>sep\<close>.\<close>

fun after_first :: "string \<Rightarrow> string \<Rightarrow> string option" where
  "after_first sep [] = (if sep = [] then Some [] else None)"
| "after_first sep (c # s) = (if HasPrefix sep (c # s) then Some (drop (length sep) (c # s)) else after_first sep s)"

definition extractMeetingID :: "string \<Rightarrow> string" where
  "extractMeetingID input0 =
     (let input = TrimSpace input0
      in case after_first ''/j/'' input of
           Some rest \<Rightarrow> takeWhile (\<lambda>c. c \<noteq> CHR ''#'') (takeWhile (\<lambda>c. c \<noteq> CHR ''?'') rest)
         | None \<Rightarrow> input)"

record Service =
  sv_meetingID :: string
  sv_authToken :: string
  sv_obfKey :: bytes

definition NewService :: "(string \<Rightarrow> bytes) \<Rightarrow> string \<Rightarrow> string \<Rightarrow> Service" where
  "NewService sha256 meetingURL authToken =
     \<lparr>sv_meetingID = extractMeetingID meetingURL, sv_authToken = authToken, sv_obfKey = DeriveObfuscationKey sha256 authToken\<rparr>"

record conferenceInfo =
  cf_RoomID :: string
  cf_PeerID :: string
  cf_Credentials :: string
  cf_MediaServerURL :: string

text \<open>The response of the service: an error, or its status and the fields of its body when that can be parsed.\<close>

definition getConferenceConnection :: "(goerr + (int \<times> conferenceInfo option)) \<Rightarrow> goerr + conferenceInfo" where
  "getConferenceConnection resp =
     (case resp of
        Inl e \<Rightarrow> Inl e
      | Inr (status, body) \<Rightarrow>
          if status \<noteq> 200 then Inl (Errorf ''HTTP'')
          else case body of
                 None \<Rightarrow> Inl (Errorf ''parse response'')
               | Some conf \<Rightarrow>
                   if cf_RoomID conf = [] \<or> cf_PeerID conf = [] then Inl (Errorf ''missing room_id or peer_id'')
                   else if cf_MediaServerURL conf = [] then Inl (Errorf ''missing media_server_url'')
                   else Inr conf)"

text \<open>The \<^verbatim>\<open>urls\<close> of an ICE server: a string or a list of strings.\<close>

datatype json_urls = JString string | JStrings "string list" | JOther

fun flexURLs_Unmarshal :: "json_urls \<Rightarrow> string list option" where
  "flexURLs_Unmarshal (JString u) = Some [u]"
| "flexURLs_Unmarshal (JStrings us) = Some us"
| "flexURLs_Unmarshal JOther = None"

definition is_turn_url :: "string \<Rightarrow> bool" where
  "is_turn_url u \<longleftrightarrow> HasPrefix ''turn:'' u \<or> HasPrefix ''turns:'' u"

fun extractTURNCreds :: "iceServer list \<Rightarrow> goerr + Credentials" where
  "extractTURNCreds [] = Inl (Errorf ''no TURN credentials in serverHello'')"
| "extractTURNCreds ((urls, user, cred) # srvs) =
     (if user = [] \<or> cred = [] then extractTURNCreds srvs
      else case filter is_turn_url urls of
             [] \<Rightarrow> extractTURNCreds srvs
           | u # us \<Rightarrow> (case ParseTURNURL u of (host, port) \<Rightarrow> Inr \<lparr>Username = user, Password = cred, Host = host, Port = port, Servers = []\<rparr>))"

definition goloomHandshake :: "(goerr + (GoloomClient \<times> iceServer list)) \<Rightarrow> goerr + Credentials" where
  "goloomHandshake conn = (case conn of Inl e \<Rightarrow> Inl e | Inr (gc, sh) \<Rightarrow> extractTURNCreds sh)"

definition FetchJoinInfo :: "(goerr + (int \<times> conferenceInfo option)) \<Rightarrow> (goerr + (GoloomClient \<times> iceServer list)) \<Rightarrow> goerr + (Credentials \<times> string \<times> string)" where
  "FetchJoinInfo resp conn =
     (case getConferenceConnection resp of
        Inl e \<Rightarrow> Inl (Wrapf ''get conference'' e)
      | Inr conf \<Rightarrow>
          (case goloomHandshake conn of
             Inl e \<Rightarrow> Inl (Wrapf ''goloom handshake'' e)
           | Inr creds \<Rightarrow> Inr (creds, cf_MediaServerURL conf, cf_RoomID conf)))"

definition FetchCredentials :: "(goerr + (int \<times> conferenceInfo option)) \<Rightarrow> (goerr + (GoloomClient \<times> iceServer list)) \<Rightarrow> goerr + Credentials" where
  "FetchCredentials resp conn = (case FetchJoinInfo resp conn of Inl e \<Rightarrow> Inl e | Inr (creds, ws, conv) \<Rightarrow> Inr creds)"

section \<open>Peer connections\<close>

text \<open>A peer connection does not exist yet, is open or closed.\<close>

datatype peer = NoPeer | PeerOpen | PeerClosed

record WebRTCTransport =
  wt_publisher :: peer
  wt_subscriber :: peer
  wt_obfKey :: bytes
  wt_rtpConn :: "RTPConn option"
  wt_subReady :: bool
  wt_closed :: bool

definition new_transport :: "bytes \<Rightarrow> WebRTCTransport" where
  "new_transport key = \<lparr>wt_publisher = NoPeer, wt_subscriber = NoPeer, wt_obfKey = key, wt_rtpConn = None, wt_subReady = False, wt_closed = False\<rparr>"

definition close_peer :: "peer \<Rightarrow> peer" where
  "close_peer p = (case p of NoPeer \<Rightarrow> NoPeer | _ \<Rightarrow> PeerClosed)"

definition transport_Close :: "WebRTCTransport \<Rightarrow> WebRTCTransport" where
  "transport_Close t =
     (if wt_closed t then t
      else t\<lparr>wt_closed := True, wt_rtpConn := map_option rtp_Close (wt_rtpConn t), wt_publisher := close_peer (wt_publisher t), wt_subscriber := close_peer (wt_subscriber t)\<rparr>)"

text \<open>The handler of incoming tracks, which the subscriber calls from its own goroutine.\<close>

definition on_track :: "track_kind \<Rightarrow> WebRTCTransport \<Rightarrow> panic + WebRTCTransport" where
  "on_track kind t =
     (case kind of
        TrackAudio \<Rightarrow> Inr t
      | TrackVideo \<Rightarrow> (case wt_rtpConn t of None \<Rightarrow> Inl NilDereference | Some c \<Rightarrow> Inr (t\<lparr>wt_subReady := True\<rparr>)))"

text \<open>
  What WebRTC answers while the connections are set up: errors of each step, the descriptions made, and the results of waiting for the media server.
\<close>

record rtc_env =
  re_subNew :: "goerr option"
  re_subOffer :: "goerr + string"
  re_subRemote :: "goerr option"
  re_subAnswer :: "goerr + string"
  re_subLocal :: "goerr option"
  re_pubNew :: "goerr option"
  re_pubTrack :: "goerr option"
  re_pubAdd :: "goerr option"
  re_pubOffer :: "goerr + string"
  re_pubLocal :: "goerr option"
  re_uid :: string
  re_pubAnswer :: "goerr + string"
  re_pubRemote :: "goerr option"

text \<open>A step of a setup: it goes on with the state or ends with an error.\<close>

type_synonym setup_step = "WebRTCTransport \<times> GoloomClient \<times> goerr option"

definition setupSubscriber :: "(nat \<Rightarrow> bool) \<Rightarrow> rtc_env \<Rightarrow> WebRTCTransport \<Rightarrow> GoloomClient \<Rightarrow> setup_step" where
  "setupSubscriber wok env t gc =
     (case re_subNew env of
        Some e \<Rightarrow> (t, gc, Some e)
      | None \<Rightarrow>
          let t1 = t\<lparr>wt_subscriber := PeerOpen\<rparr>
          in case re_subOffer env of
               Inl e \<Rightarrow> (t1, gc, Some (Wrapf ''wait subscriber offer'' e))
             | Inr sdp \<Rightarrow>
                 (case re_subRemote env of
                    Some e \<Rightarrow> (t1, gc, Some (Wrapf ''set remote description'' e))
                  | None \<Rightarrow>
                      (case re_subAnswer env of
                         Inl e \<Rightarrow> (t1, gc, Some (Wrapf ''create answer'' e))
                       | Inr answer \<Rightarrow>
                           (case re_subLocal env of
                              Some e \<Rightarrow> (t1, gc, Some (Wrapf ''set local description'' e))
                            | None \<Rightarrow>
                                (case SendSubscriberAnswer wok answer gc of
                                   (g1, False) \<Rightarrow> (t1, g1, Some (Errorf ''send subscriber answer''))
                                 | (g1, True) \<Rightarrow> (t1, g1, None))))))"

definition setupPublisher :: "(nat \<Rightarrow> bool) \<Rightarrow> rtc_env \<Rightarrow> WebRTCTransport \<Rightarrow> GoloomClient \<Rightarrow> setup_step" where
  "setupPublisher wok env t gc =
     (case re_pubNew env of
        Some e \<Rightarrow> (t, gc, Some e)
      | None \<Rightarrow>
          let t1 = t\<lparr>wt_publisher := PeerOpen\<rparr>
          in case re_pubTrack env of
               Some e \<Rightarrow> (t1, gc, Some (Wrapf ''create video track'' e))
             | None \<Rightarrow>
                 (case re_pubAdd env of
                    Some e \<Rightarrow> (t1, gc, Some (Wrapf ''add video track'' e))
                  | None \<Rightarrow>
                      let t2 = t1\<lparr>wt_rtpConn := Some (NewRTPConn (wt_obfKey t))\<rparr>
                      in case re_pubOffer env of
                           Inl e \<Rightarrow> (t2, gc, Some (Wrapf ''create offer'' e))
                         | Inr sdp \<Rightarrow>
                             (case re_pubLocal env of
                                Some e \<Rightarrow> (t2, gc, Some (Wrapf ''set local description'' e))
                              | None \<Rightarrow>
                                  (case SendPublisherOffer wok (re_uid env) sdp gc of
                                     (g1, False) \<Rightarrow> (t2, g1, Some (Errorf ''publisher SDP exchange''))
                                   | (g1, True) \<Rightarrow>
                                       (case re_pubAnswer env of
                                          Inl e \<Rightarrow> (t2, g1, Some (Wrapf ''publisher SDP exchange'' e))
                                        | Inr answer \<Rightarrow>
                                            (case re_pubRemote env of
                                               Some e \<Rightarrow> (t2, g1, Some (Wrapf ''set remote description'' e))
                                             | None \<Rightarrow> (t2, g1, None)))))))"

definition announce :: "(nat \<Rightarrow> bool) \<Rightarrow> string \<Rightarrow> GoloomClient \<Rightarrow> GoloomClient \<times> goerr option" where
  "announce wok name gc =
     (case SendUpdateMe wok name True True gc of
        (g1, False) \<Rightarrow> (g1, Some (Errorf ''send updateMe''))
      | (g1, True) \<Rightarrow>
          (case SendPublisherTrackDescription wok True True g1 of
             (g2, False) \<Rightarrow> (g2, Some (Errorf ''send publisherTrackDescription''))
           | (g2, True) \<Rightarrow>
               (case SendSetSlots wok g2 of
                  (g3, False) \<Rightarrow> (g3, Some (Errorf ''send setSlots''))
                | (g3, True) \<Rightarrow> (g3, None))))"

text \<open>\<open>track\<close> is a video track that arrives before the publisher is set up.\<close>

definition SetupWebRTC :: "(nat \<Rightarrow> bool) \<Rightarrow> rtc_env \<Rightarrow> bool \<Rightarrow> bytes \<Rightarrow> string \<Rightarrow> GoloomClient \<Rightarrow> panic + setup_step" where
  "SetupWebRTC wok env track key name gc =
     (case setupSubscriber wok env (new_transport key) gc of
        (t, g, Some e) \<Rightarrow> Inr (transport_Close t, g, Some (Wrapf ''setup subscriber'' e))
      | (t0, g, None) \<Rightarrow>
          (case (if track then on_track TrackVideo t0 else Inr t0) of
             Inl p \<Rightarrow> Inl p
           | Inr t \<Rightarrow>
               (case setupPublisher wok env t g of
                  (t1, g1, Some e) \<Rightarrow> Inr (transport_Close t1, g1, Some (Wrapf ''setup publisher'' e))
                | (t1, g1, None) \<Rightarrow>
                    (case announce wok name g1 of
                       (g2, Some e) \<Rightarrow> Inr (transport_Close t1, g2, Some e)
                     | (g2, None) \<Rightarrow> Inr (t1, g2, None)))))"

text \<open>A later offer of the media server; an error leaves it unanswered, and the loop goes on.\<close>

definition renegotiate :: "(nat \<Rightarrow> bool) \<Rightarrow> goerr option \<Rightarrow> (goerr + string) \<Rightarrow> goerr option \<Rightarrow> GoloomClient \<Rightarrow> GoloomClient \<times> bool" where
  "renegotiate wok remote answer loc gc =
     (case remote of
        Some e \<Rightarrow> (gc, False)
      | None \<Rightarrow>
          (case answer of
             Inl e \<Rightarrow> (gc, False)
           | Inr sdp \<Rightarrow> (case loc of Some e \<Rightarrow> (gc, False) | None \<Rightarrow> SendSubscriberAnswer wok sdp gc)))"

text \<open>The frame that keeps the video alive is masked with the key of the transport, also after the connection has got the key of its session.\<close>

definition keepalive_frame :: "WebRTCTransport \<Rightarrow> bytes" where
  "keepalive_frame t = buildVP8Frame [] (wt_obfKey t)"

definition ResetForPin :: "WebRTCTransport \<Rightarrow> WebRTCTransport" where
  "ResetForPin t = t\<lparr>wt_rtpConn := map_option ResetSSRC (wt_rtpConn t)\<rparr>"

section \<open>Candidates of a peer connection\<close>

text \<open>
  The addresses that a peer connection finds are kept back until the descriptions are exchanged: its handler \<open>ice_found\<close> may run at any time, the setup ends with
  \<open>ice_done\<close>, which closes \<^verbatim>\<open>sdpDone\<close>, and \<open>ice_flush\<close>, under the lock of the buffer.
\<close>

record ice_state =
  is_done :: bool
  is_buffered :: "nat list"
  is_sent :: "nat list"

definition ice_found :: "nat \<Rightarrow> ice_state \<Rightarrow> ice_state" where
  "ice_found c s = (if is_done s then s\<lparr>is_sent := is_sent s @ [c]\<rparr> else s\<lparr>is_buffered := is_buffered s @ [c]\<rparr>)"

definition ice_done :: "ice_state \<Rightarrow> ice_state" where
  "ice_done s = s\<lparr>is_done := True\<rparr>"

definition ice_flush :: "ice_state \<Rightarrow> ice_state" where
  "ice_flush s = s\<lparr>is_sent := is_sent s @ is_buffered s, is_buffered := []\<rparr>"

text \<open>Where a candidate of the media server goes.\<close>

datatype pc_role = Publisher | Subscriber

definition route_ice :: "iceCandidate \<Rightarrow> WebRTCTransport \<Rightarrow> (pc_role \<times> iceCandidate) option" where
  "route_ice ic t =
     (if ic_Target ic = ''PUBLISHER'' then (if wt_publisher t = NoPeer then None else Some (Publisher, ic))
      else if ic_Target ic = ''SUBSCRIBER'' then (if wt_subscriber t = NoPeer then None else Some (Subscriber, ic))
      else None)"

section \<open>Pairing\<close>

record PendingConn =
  pc_transport :: WebRTCTransport
  pc_goloom :: GoloomClient
  pc_peerID :: string
  pc_myName :: string
  pc_authToken :: string
  pc_index :: int

text \<open>An error comes with what was opened for the attempt.\<close>

definition SetupNamedIndexed ::
  "(string \<Rightarrow> bytes) \<Rightarrow> (int \<Rightarrow> string) \<Rightarrow> (goerr + (int \<times> conferenceInfo option)) \<Rightarrow> (goerr + (GoloomClient \<times> iceServer list)) \<Rightarrow> (nat \<Rightarrow> bool) \<Rightarrow> rtc_env \<Rightarrow> bool \<Rightarrow>
    Service \<Rightarrow> string \<Rightarrow> int \<Rightarrow> panic + ((goerr \<times> (WebRTCTransport \<times> GoloomClient) option) + PendingConn)" where
  "SetupNamedIndexed sha256 dec resp conn wok env track s name index =
     (case getConferenceConnection resp of
        Inl e \<Rightarrow> Inr (Inl (Wrapf ''get conference'' e, None))
      | Inr conf \<Rightarrow>
          (case conn of
             Inl e \<Rightarrow> Inr (Inl (Wrapf ''goloom connect'' e, None))
           | Inr (gc, sh) \<Rightarrow>
               (case SetupWebRTC wok env track (DeriveIndexedObfuscationKey sha256 dec (sv_authToken s) index) name gc of
                  Inl p \<Rightarrow> Inl p
                | Inr (t, g, Some e) \<Rightarrow> Inr (Inl (Wrapf ''setup webrtc'' e, Some (t, goloom_Close wok g)))
                | Inr (t, g, None) \<Rightarrow>
                    Inr (Inr \<lparr>pc_transport = t, pc_goloom = g, pc_peerID = cf_PeerID conf, pc_myName = name, pc_authToken = sv_authToken s, pc_index = index\<rparr>))))"

definition pc_Close :: "(nat \<Rightarrow> bool) \<Rightarrow> PendingConn \<Rightarrow> PendingConn" where
  "pc_Close wok pc = pc\<lparr>pc_transport := transport_Close (pc_transport pc), pc_goloom := goloom_Close wok (pc_goloom pc)\<rparr>"

text \<open>\<open>ready\<close> is the outcome of waiting for the video track.\<close>

definition WaitReady :: "(nat \<Rightarrow> bool) \<Rightarrow> goerr option \<Rightarrow> PendingConn \<Rightarrow> PendingConn \<times> goerr option" where
  "WaitReady wok ready pc = (case ready of Some e \<Rightarrow> (pc_Close wok pc, Some e) | None \<Rightarrow> (pc, None))"

definition with_key :: "bytes \<Rightarrow> WebRTCTransport \<Rightarrow> WebRTCTransport" where
  "with_key key t = t\<lparr>wt_rtpConn := map_option (SetObfKey key) (wt_rtpConn t)\<rparr>"

definition session_key :: "(string \<Rightarrow> bytes) \<Rightarrow> (int \<Rightarrow> string) \<Rightarrow> PendingConn \<Rightarrow> string \<Rightarrow> bytes" where
  "session_key sha256 dec pc peerID = DeriveSessionObfuscationKey sha256 dec (pc_authToken pc) (pc_index pc) (sortedPairID (pc_peerID pc) peerID)"

text \<open>Both log the first eight bytes of the identifiers, which a shorter one does not have.\<close>

definition short_id :: "string \<Rightarrow> bool" where
  "short_id i \<longleftrightarrow> length i < 8"

text \<open>\<open>found\<close> is how the wait for the client ends.\<close>

definition WaitPinReady ::
  "(string \<Rightarrow> bytes) \<Rightarrow> (int \<Rightarrow> string) \<Rightarrow> (nat \<Rightarrow> bool) \<Rightarrow> (goerr + string) \<Rightarrow> goerr option \<Rightarrow> PendingConn \<Rightarrow> panic + (PendingConn \<times> goerr option)" where
  "WaitPinReady sha256 dec wok found ready pc =
     (case found of
        Inl e \<Rightarrow> Inr (pc_Close wok pc, Some (Wrapf ''wait for peer'' e))
      | Inr peerID \<Rightarrow>
          (case PinToPeer wok peerID (pc_goloom pc) of
             (g, False) \<Rightarrow> Inr (pc_Close wok (pc\<lparr>pc_goloom := g\<rparr>), Some (Errorf ''pin to peer''))
           | (g, True) \<Rightarrow>
               let pc1 = pc\<lparr>pc_goloom := g, pc_transport := ResetForPin (pc_transport pc)\<rparr>
               in case ready of
                    Some e \<Rightarrow> Inr (pc_Close wok pc1, Some e)
                  | None \<Rightarrow>
                      if short_id (pc_peerID pc) \<or> short_id peerID then Inl SliceBounds
                      else Inr (pc1\<lparr>pc_transport := with_key (session_key sha256 dec pc peerID) (pc_transport pc1)\<rparr>, None)))"

definition pinAndFinish ::
  "(string \<Rightarrow> bytes) \<Rightarrow> (int \<Rightarrow> string) \<Rightarrow> (nat \<Rightarrow> bool) \<Rightarrow> goerr option \<Rightarrow> PendingConn \<Rightarrow> string \<Rightarrow> panic + (PendingConn \<times> goerr option)" where
  "pinAndFinish sha256 dec wok ready pc peerID =
     (case PinToPeer wok peerID (pc_goloom pc) of
        (g, False) \<Rightarrow> Inr (pc_Close wok (pc\<lparr>pc_goloom := g\<rparr>), Some (Errorf ''pin to peer''))
      | (g, True) \<Rightarrow>
          let pc1 = pc\<lparr>pc_goloom := g, pc_transport := with_key (session_key sha256 dec pc peerID) (ResetForPin (pc_transport pc))\<rparr>
          in if short_id (pc_peerID pc) \<or> short_id peerID then Inl SliceBounds else Inr (WaitReady wok ready pc1))"

text \<open>\<open>valid\<close> tells whether a candidate sends data under the key within the time of a probe.\<close>

fun probe ::
  "(string \<Rightarrow> bytes) \<Rightarrow> (int \<Rightarrow> string) \<Rightarrow> (nat \<Rightarrow> bool) \<Rightarrow> (string \<Rightarrow> bool) \<Rightarrow> PendingConn \<Rightarrow> Participant list \<Rightarrow> panic + (PendingConn \<times> string option)" where
  "probe sha256 dec wok valid pc [] = Inr (pc, None)"
| "probe sha256 dec wok valid pc (cand # cands) =
     (if short_id (pt_ID cand) then Inl SliceBounds
      else case PinToPeer wok (pt_ID cand) (pc_goloom pc) of
             (g, False) \<Rightarrow> probe sha256 dec wok valid (pc\<lparr>pc_goloom := g\<rparr>) cands
           | (g, True) \<Rightarrow>
               let pc1 = pc\<lparr>pc_goloom := g, pc_transport := with_key (session_key sha256 dec pc (pt_ID cand)) (ResetForPin (pc_transport pc))\<rparr>
               in if valid (pt_ID cand) then Inr (pc1, Some (pt_ID cand)) else probe sha256 dec wok valid pc1 cands)"

text \<open>\<open>found\<close> is how the wait for candidates ends; there is at least one.  The result names the peer that was chosen.\<close>

definition ConnectPaired ::
  "(string \<Rightarrow> bytes) \<Rightarrow> (int \<Rightarrow> string) \<Rightarrow> (nat \<Rightarrow> bool) \<Rightarrow> (goerr + Participant list) \<Rightarrow> goerr option \<Rightarrow> (string \<Rightarrow> bool) \<Rightarrow> PendingConn
    \<Rightarrow> panic + (PendingConn \<times> (goerr + string))" where
  "ConnectPaired sha256 dec wok found ready valid pc =
     (case found of
        Inl e \<Rightarrow> Inr (pc_Close wok pc, Inl (Wrapf ''find peer'' e))
      | Inr candidates \<Rightarrow>
          if length candidates = 1
          then (case pinAndFinish sha256 dec wok ready pc (pt_ID (hd candidates)) of
                  Inl p \<Rightarrow> Inl p
                | Inr (pc1, Some e) \<Rightarrow> Inr (pc1, Inl e)
                | Inr (pc1, None) \<Rightarrow> Inr (pc1, Inr (pt_ID (hd candidates))))
          else (case probe sha256 dec wok valid pc candidates of
                  Inl p \<Rightarrow> Inl p
                | Inr (pc1, Some i) \<Rightarrow> Inr (pc1, Inr i)
                | Inr (pc1, None) \<Rightarrow> Inr (pc_Close wok pc1, Inl (Errorf ''no valid peer found''))))"

end
