(* ===== verification/Telemost_Props.thy ===== *)
theory Telemost_Props
  imports Telemost
begin

text \<open>
  Properties of the Telemost service: the channels of its signaling client, which peers it announces, display names, the candidates of a peer connection, and the pairing
  of a client with a server with the keys both sides use afterwards.
\<close>

section \<open>The signaling client\<close>

definition goloom_wf :: "GoloomClient \<Rightarrow> bool" where
  "goloom_wf gc \<longleftrightarrow> length (gc_pubAnswer gc) \<le> 1 \<and> length (gc_pubError gc) \<le> 1 \<and> length (gc_subOffer gc) \<le> 4 \<and> length (gc_serverICE gc) \<le> 32 \<and>
     length (gc_peerUpdates gc) \<le> 8 \<and> length (gc_upsertUpdates gc) \<le> 8 \<and> length (gc_newPeerCh gc) \<le> 16 \<and> set (gc_newPeerCh gc) \<subseteq> gc_knownPeers gc"

lemma try_send_length: "length ch \<le> n \<Longrightarrow> length (try_send n x ch) \<le> n"
  by (simp add: try_send_def)

lemma push_newest_length: "0 < n \<Longrightarrow> length ch \<le> n \<Longrightarrow> length (push_newest n x ch) \<le> n"
  by (auto simp: push_newest_def)

text \<open>A channel whose oldest entry is dropped holds the newest ones.\<close>

lemma push_newest_run: "0 < n \<Longrightarrow> foldl (\<lambda>ch x. push_newest n x ch) [] xs = drop (length xs - n) xs"
proof (induction xs rule: rev_induct)
  case (snoc x xs)
  then show ?case
    by (cases "length xs < n") (auto simp: push_newest_def Suc_diff_le drop_Suc tl_drop [symmetric])
qed simp

definition same_peers :: "GoloomClient \<Rightarrow> GoloomClient \<Rightarrow> bool" where
  "same_peers g g' \<longleftrightarrow> gc_newPeerCh g' = gc_newPeerCh g \<and> gc_knownPeers g' = gc_knownPeers g"

text \<open>
  An operation of the client keeps its channels within their capacity, never forgets a known peer, and puts only peers that were unknown into the channel of new
  peers, each once.
\<close>

definition goloom_ok :: "GoloomClient \<Rightarrow> GoloomClient \<Rightarrow> bool" where
  "goloom_ok g g' \<longleftrightarrow> (goloom_wf g \<longrightarrow> goloom_wf g') \<and> gc_knownPeers g \<subseteq> gc_knownPeers g' \<and>
     (\<exists>new. gc_newPeerCh g' = gc_newPeerCh g @ new \<and> distinct new \<and> set new \<inter> gc_knownPeers g = {} \<and> set new \<subseteq> gc_knownPeers g')"

lemma goloom_ok_refl [simp, intro]: "goloom_ok g g"
  by (simp add: goloom_ok_def)

lemma goloom_ok_trans:
  assumes "goloom_ok a b" "goloom_ok b c"
  shows "goloom_ok a c"
proof -
  obtain n1 where 1: "gc_newPeerCh b = gc_newPeerCh a @ n1" "distinct n1" "set n1 \<inter> gc_knownPeers a = {}" "set n1 \<subseteq> gc_knownPeers b"
    using assms(1) by (auto simp: goloom_ok_def)
  obtain n2 where 2: "gc_newPeerCh c = gc_newPeerCh b @ n2" "distinct n2" "set n2 \<inter> gc_knownPeers b = {}" "set n2 \<subseteq> gc_knownPeers c"
    using assms(2) by (auto simp: goloom_ok_def)
  have k: "gc_knownPeers a \<subseteq> gc_knownPeers b" "gc_knownPeers b \<subseteq> gc_knownPeers c" using assms by (auto simp: goloom_ok_def)
  have "gc_newPeerCh c = gc_newPeerCh a @ (n1 @ n2) \<and> distinct (n1 @ n2) \<and> set (n1 @ n2) \<inter> gc_knownPeers a = {} \<and> set (n1 @ n2) \<subseteq> gc_knownPeers c"
    using 1 2 k by auto
  then show ?thesis using assms k unfolding goloom_ok_def by blast
qed

lemma goloom_ok_keep:
  assumes "gc_newPeerCh g' = gc_newPeerCh g" "gc_knownPeers g \<subseteq> gc_knownPeers g'" "goloom_wf g \<Longrightarrow> goloom_wf g'"
  shows "goloom_ok g g'"
  using assms by (simp add: goloom_ok_def)

lemma writeJSON_ok: "goloom_ok g (fst (writeJSON wok m g))"
  by (auto simp: writeJSON_def goloom_wf_def intro!: goloom_ok_keep)

lemma Close_ok: "goloom_ok g (goloom_Close wok g)"
proof -
  have "goloom_ok g (g\<lparr>gc_closed := True\<rparr>)" by (rule goloom_ok_keep) (simp_all add: goloom_wf_def)
  then show ?thesis by (auto simp: goloom_Close_def intro: goloom_ok_trans writeJSON_ok)
qed

lemma discover_ok: "goloom_ok g (discover g pid)"
proof (cases "pid = [] \<or> pid \<in> gc_knownPeers g")
  case False
  then show ?thesis
    by (auto simp: goloom_ok_def discover_def goloom_wf_def try_send_def)
qed (auto simp: discover_def)

lemma foldl_ok: "(\<And>g x. goloom_ok g (f g x)) \<Longrightarrow> goloom_ok g (foldl f g xs)"
  by (induction xs arbitrary: g) (auto intro: goloom_ok_trans)

lemma parseSlotsConfig_ok: "goloom_ok g (parseSlotsConfig raw g)"
  by (auto simp: parseSlotsConfig_def intro: foldl_ok discover_ok split: option.split)

lemma parseUpdateDescription_ok: "goloom_ok g (parseUpdateDescription raw g)"
  by (cases raw) (auto simp: parseUpdateDescription_def goloom_wf_def push_newest_length intro!: goloom_ok_keep)

lemma parseUpsertDescription_ok: "goloom_ok g (parseUpsertDescription raw g)"
  by (cases raw) (auto simp: parseUpsertDescription_def goloom_wf_def push_newest_length intro!: goloom_ok_keep)

lemma parseParticipantConnected_ok: "goloom_ok g (parseParticipantConnected raw g)"
  by (cases raw) (auto simp: parseParticipantConnected_def goloom_wf_def push_newest_length intro!: goloom_ok_keep)

lemma opt_ok: "(\<And>y g. goloom_ok g (f y g)) \<Longrightarrow> goloom_ok g (opt f x g)"
  by (cases x) (auto simp: opt_def)

lemma channel_sends_ok:
  "goloom_ok g (g\<lparr>gc_pubAnswer := try_send 1 sdp (gc_pubAnswer g)\<rparr>)" "goloom_ok g (g\<lparr>gc_subOffer := try_send 4 sdp (gc_subOffer g)\<rparr>)"
  "goloom_ok g (g\<lparr>gc_serverICE := try_send 32 ic (gc_serverICE g)\<rparr>)" "goloom_ok g (g\<lparr>gc_pubError := try_send 1 sdp (gc_pubError g)\<rparr>)"
  by (rule goloom_ok_keep; simp add: goloom_wf_def try_send_length)+

lemma handle_ack_ok: "goloom_ok g (handle_ack env code g)"
  using channel_sends_ok(4) by (auto simp: handle_ack_def)

lemma upsert_ok: "goloom_ok g (parseUpsertDescription raw (parseUpdateDescription raw g))"
  using goloom_ok_trans parseUpdateDescription_ok parseUpsertDescription_ok by blast

lemma handleMessage_ok: "goloom_ok g (handleMessage wok msg g)"
proof (cases msg)
  case (Some env)
  have a: "goloom_ok g (sendAck wok (en_UID env) g)" by (auto simp: sendAck_def writeJSON_ok)
  show ?thesis unfolding Some handleMessage_def option.case Let_def
    by (auto intro!: goloom_ok_trans [OF _ opt_ok] a handle_ack_ok parseParticipantConnected_ok upsert_ok parseUpdateDescription_ok parseSlotsConfig_ok channel_sends_ok channel_sends_ok(1) [simplified]
      split: option.split bool.split)
qed (simp add: handleMessage_def)

text \<open>
  What can happen to a client, from its own goroutine and from its users; the peers that \<^const>\<open>WaitForNewPeer\<close> returns are collected.
\<close>

inductive goloom_run :: "GoloomClient \<Rightarrow> string list \<Rightarrow> GoloomClient \<Rightarrow> bool" for g0 where
  run_start: "goloom_run g0 [] g0"
| run_message: "goloom_run g0 ids g \<Longrightarrow> goloom_run g0 ids (handleMessage wok msg g)"
| run_write: "goloom_run g0 ids g \<Longrightarrow> goloom_run g0 ids (fst (writeJSON wok m g))"
| run_close: "goloom_run g0 ids g \<Longrightarrow> goloom_run g0 ids (goloom_Close wok g)"
| run_known: "goloom_run g0 ids g \<Longrightarrow> goloom_run g0 ids (AddKnownPeer i g)"
| run_enable: "goloom_run g0 ids g \<Longrightarrow> goloom_run g0 ids (EnableDiscovery g)"
| run_peer: "goloom_run g0 ids g \<Longrightarrow> goloom_run g0 ids (snd (WaitForPeerByName name g))"
| run_new_by_name: "goloom_run g0 ids g \<Longrightarrow> goloom_run g0 ids (snd (WaitForNewPeerByName name g))"
| run_ready: "goloom_run g0 ids g \<Longrightarrow> goloom_run g0 ids (snd (WaitPeerReady name g))"
| run_find: "goloom_run g0 ids g \<Longrightarrow> goloom_run g0 ids (snd (FindAllPeersByName pick name g))"
| run_offer: "goloom_run g0 ids g \<Longrightarrow> (g', r) \<in> set (offer_ready g) \<Longrightarrow> goloom_run g0 ids g'"
| run_sub_offer: "goloom_run g0 ids g \<Longrightarrow> goloom_run g0 ids (snd (WaitSubscriberOffer g))"
| run_new: "goloom_run g0 ids g \<Longrightarrow> WaitForNewPeer g = (Found i, g') \<Longrightarrow> goloom_run g0 (ids @ [i]) g'"

lemma wait_match_length: "length (snd (wait_match f ch)) \<le> length ch"
  by (induction f ch rule: wait_match.induct) (auto split: list.split)

lemma find_all_length: "find_all pick n name ups ins = (r, ups', ins') \<Longrightarrow> length ups' \<le> length ups \<and> length ins' \<le> length ins"
proof (induction pick n name ups ins rule: find_all.induct)
  case (1 pick n name ups ins)
  show ?case using 1 by (subst (asm) (3) find_all.simps) (fastforce split: if_splits list.splits simp: Let_def)
qed

lemma waits_ok:
  "goloom_ok g (snd (WaitForPeerByName name g))" "goloom_ok g (snd (WaitForNewPeerByName name g))" "goloom_ok g (snd (WaitPeerReady name g))"
  "goloom_ok g (snd (WaitSubscriberOffer g))" "goloom_ok g (AddKnownPeer i g)" "goloom_ok g (EnableDiscovery g)"
  using wait_match_length [of "live_id name" "gc_peerUpdates g"] wait_match_length [of "live_id name" "gc_upsertUpdates g"] wait_match_length [of "ready_nonce name" "gc_upsertUpdates g"]
  by (auto simp: WaitForPeerByName_def WaitForNewPeerByName_def WaitPeerReady_def WaitSubscriberOffer_def AddKnownPeer_def EnableDiscovery_def goloom_wf_def
    intro!: goloom_ok_keep split: prod.splits list.splits)

lemma find_ok: "goloom_ok g (snd (FindAllPeersByName pick name g))"
  using find_all_length [of pick 0 name "gc_peerUpdates g" "gc_upsertUpdates g"]
  by (auto simp: FindAllPeersByName_def goloom_wf_def intro!: goloom_ok_keep split: prod.splits)

lemma offer_ready_ok: "(g', r) \<in> set (offer_ready g) \<Longrightarrow> goloom_ok g g'"
  by (cases "gc_pubAnswer g"; cases "gc_pubError g") (auto simp: offer_ready_def goloom_wf_def intro!: goloom_ok_keep split: if_splits)

definition announced_ok :: "string list \<Rightarrow> GoloomClient \<Rightarrow> bool" where
  "announced_ok ids g \<longleftrightarrow> goloom_wf g \<and> distinct (ids @ gc_newPeerCh g) \<and> set ids \<subseteq> gc_knownPeers g"

lemma announced_ok_step:
  assumes "announced_ok ids g" "goloom_ok g g'"
  shows "announced_ok ids g'"
proof -
  obtain new where n: "gc_newPeerCh g' = gc_newPeerCh g @ new" "distinct new" "set new \<inter> gc_knownPeers g = {}" using assms(2) by (auto simp: goloom_ok_def)
  have k: "gc_knownPeers g \<subseteq> gc_knownPeers g'" "goloom_wf g'" using assms by (auto simp: goloom_ok_def announced_ok_def)
  have "set (gc_newPeerCh g) \<subseteq> gc_knownPeers g" "set ids \<subseteq> gc_knownPeers g" using assms(1) by (auto simp: announced_ok_def goloom_wf_def)
  then show ?thesis using n k assms(1) unfolding announced_ok_def by auto
qed

text \<open>
  C37: Whatever messages the Telemost media server sends and however the calls of the client's users are interleaved with them, the channels of the signaling client stay within their
  capacities, and no participant is announced as new twice, nor one that was known before.
\<close>

theorem goloom_announces_once:
  assumes "goloom_run new_goloom ids g"
  shows "goloom_wf g \<and> distinct (ids @ gc_newPeerCh g) \<and> set ids \<subseteq> gc_knownPeers g"
proof -
  have "announced_ok ids g" using assms
  proof (induction rule: goloom_run.induct)
    case run_start
    show ?case by (simp add: announced_ok_def goloom_wf_def new_goloom_def)
  next
    case (run_new ids g i g')
    then obtain ch where "gc_newPeerCh g = i # ch" "g' = g\<lparr>gc_newPeerCh := ch\<rparr>" by (auto simp: WaitForNewPeer_def split: list.splits)
    then show ?case using run_new.IH by (auto simp: announced_ok_def goloom_wf_def)
  qed (auto intro: announced_ok_step handleMessage_ok writeJSON_ok Close_ok waits_ok find_ok offer_ready_ok)
  then show ?thesis by (simp add: announced_ok_def)
qed

theorem goloom_announces_once_witness:
  "\<exists>g. goloom_run new_goloom [] g \<and> gc_newPeerCh g = [''p''] \<and> goloom_wf g"
proof -
  define env where "env = \<lparr>en_UID = [], en_Ack = None, en_PublisherSdpAnswer = None, en_SubscriberSdpOffer = None, en_WebrtcIceCandidate = None, en_UpdateDescription = None,
    en_UpsertDescription = None, en_SlotsConfig = Some (Some [(Some ''p'', None), (None, None), (None, Some ''p'')]), en_ParticipantConnected = None\<rparr>"
  define g where "g = handleMessage (\<lambda>n. True) (Some env) (EnableDiscovery new_goloom)"
  have r: "goloom_run new_goloom [] g" unfolding g_def by (intro run_message run_enable run_start)
  have "gc_newPeerCh g = [''p'']"
    by (simp add: g_def env_def handleMessage_def opt_def parseSlotsConfig_def EnableDiscovery_def new_goloom_def discover_def slot_pid_def try_send_def)
  then show ?thesis using goloom_announces_once [OF r] r by blast
qed

text \<open>A peer that is discovered while the channel is full is lost: it counts as known and is not announced later.\<close>

lemma full_channel_loses_peer:
  "length (gc_newPeerCh g) = 16 \<Longrightarrow> pid \<noteq> [] \<Longrightarrow> pid \<notin> gc_knownPeers g \<Longrightarrow>
   gc_newPeerCh (discover g pid) = gc_newPeerCh g \<and> pid \<in> gc_knownPeers (discover g pid) \<and> discover (discover g pid) pid = discover g pid"
  by (simp add: discover_def try_send_def)

section \<open>Waiting\<close>

lemma map_filter_Nil: "List.map_filter f xs = [] \<longleftrightarrow> (\<forall>x\<in>set xs. f x = None)"
  by (induction xs) (auto simp: map_filter_simps split: option.splits)

lemma wait_match_found: "fst (wait_match f ch) = Found x \<Longrightarrow> \<exists>peers\<in>set ch. \<exists>p\<in>set peers. f p = Some x"
proof (induction f ch rule: wait_match.induct)
  case (2 f peers ch)
  show ?case
  proof (cases "List.map_filter f peers")
    case Nil
    then show ?thesis using 2 by auto
  next
    case (Cons y ys)
    then have "y \<in> set (List.map_filter f peers)" by simp
    then obtain p where "p \<in> set peers" "f p = Some y" by (auto simp: map_filter_def)
    then show ?thesis using Cons 2(2) by auto
  qed
qed simp

lemma wait_match_waiting: "fst (wait_match f ch) = Waiting \<longleftrightarrow> (\<forall>peers\<in>set ch. \<forall>p\<in>set peers. f p = None)"
proof (induction f ch rule: wait_match.induct)
  case (2 f peers ch)
  then show ?case by (cases "List.map_filter f peers") (auto simp: map_filter_Nil [symmetric] dest: map_filter_Nil [THEN iffD2])
qed simp

text \<open>The server's wait for a client ends exactly if a live participant of that name has been announced, and gives the identifier of such a one.\<close>

lemma WaitForNewPeerByName_exact:
  "fst (WaitForNewPeerByName name g) = Waiting \<longleftrightarrow> \<not> (\<exists>peers\<in>set (gc_upsertUpdates g). \<exists>p\<in>set peers. is_match name p)"
  "fst (WaitForNewPeerByName name g) = Found i \<Longrightarrow> \<exists>peers\<in>set (gc_upsertUpdates g). \<exists>p\<in>set peers. is_match name p \<and> pt_ID p = i"
  using wait_match_waiting [of "live_id name" "gc_upsertUpdates g"] wait_match_found [of "live_id name" "gc_upsertUpdates g" i]
  by (auto simp: WaitForNewPeerByName_def live_id_def is_match_def split: prod.splits if_splits)

lemma find_all_found:
  "find_all pick n name ups ins = (Found ps, ups', ins') \<Longrightarrow> ps \<noteq> [] \<and> (\<forall>p\<in>set ps. is_match name p \<and> (\<exists>peers\<in>set ups \<union> set ins. p \<in> set peers))"
proof (induction pick n name ups ins rule: find_all.induct)
  case (1 pick n name ups ins)
  consider (ups) "ups \<noteq> [] \<and> (ins = [] \<or> pick n)" | (ins) "\<not> (ups \<noteq> [] \<and> (ins = [] \<or> pick n))" "ins \<noteq> []" | (no) "\<not> (ups \<noteq> [] \<and> (ins = [] \<or> pick n))" "ins = []" by blast
  then show ?case
  proof cases
    case ups
    then have t: "hd ups \<in> set ups" "set (List.tl ups) \<subseteq> set ups" using list.set_sel by (auto dest: list.set_sel(2))
    show ?thesis
    proof (cases "filter (is_match name) (hd ups) = []")
      case True
      then have "find_all pick (n + 1) name (List.tl ups) ins = (Found ps, ups', ins')" using 1(3) ups by (subst (asm) find_all.simps) (simp add: Let_def)
      then show ?thesis using 1(1) [OF ups refl] True t by fastforce
    next
      case False
      then have "ps = filter (is_match name) (hd ups)" using 1(3) ups by (subst (asm) find_all.simps) (simp add: Let_def)
      then show ?thesis using False t by auto
    qed
  next
    case ins
    then have t: "hd ins \<in> set ins" "set (List.tl ins) \<subseteq> set ins" using list.set_sel by (auto dest: list.set_sel(2))
    show ?thesis
    proof (cases "filter (is_match name) (hd ins)")
      case Nil
      then have "find_all pick (n + 1) name ups (List.tl ins) = (Found ps, ups', ins')" using 1(3) ins by (subst (asm) find_all.simps) auto
      then show ?thesis using 1(2) [OF ins Nil] t by fastforce
    next
      case (Cons p qs)
      then have "ps = [p]" using 1(3) ins by (subst (asm) find_all.simps) auto
      moreover have "p \<in> set (filter (is_match name) (hd ins))" using Cons by simp
      ultimately show ?thesis using t by auto
    qed
  next
    case no
    then show ?thesis using 1(3) by (subst (asm) find_all.simps) simp
  qed
qed

section \<open>Identifiers of a pair\<close>

lemma of_char_inj: "(of_char x :: nat) = of_char y \<longleftrightarrow> x = y"
  by (metis char_of_char)

lemma str_gt_asym: "str_gt a b \<Longrightarrow> \<not> str_gt b a"
  by (induction a b rule: str_gt.induct) (auto split: if_splits)

lemma str_gt_total: "a \<noteq> b \<Longrightarrow> str_gt a b \<or> str_gt b a"
proof (induction a b rule: str_gt.induct)
  case (1 b)
  then show ?case by (cases b) auto
next
  case (3 x a y b)
  have "x \<noteq> y \<Longrightarrow> (of_char x :: nat) < of_char y \<or> (of_char y :: nat) < of_char x" using of_char_inj nat_neq_iff by metis
  then show ?case using 3 by auto
qed simp

lemma sortedPairID_commute: "sortedPairID a b = sortedPairID b a"
  using str_gt_asym [of a b] str_gt_total [of a b] by (cases "a = b") (auto simp: sortedPairID_def)

lemma colon_split:
  assumes "CHR '':'' \<notin> set a" "CHR '':'' \<notin> set c" "a @ '':'' @ b = c @ '':'' @ d"
  shows "a = c \<and> b = d"
proof -
  have "a = takeWhile (\<lambda>x. x \<noteq> CHR '':'') (a @ '':'' @ b)" using assms(1) by (simp add: takeWhile_append)
  moreover have "c = takeWhile (\<lambda>x. x \<noteq> CHR '':'') (c @ '':'' @ d)" using assms(2) by (simp add: takeWhile_append)
  ultimately show ?thesis using assms(3) by (metis append_same_eq same_append_eq)
qed

lemma sortedPairID_inj:
  assumes "CHR '':'' \<notin> set a" "CHR '':'' \<notin> set b" "CHR '':'' \<notin> set c" "CHR '':'' \<notin> set d"
  shows "sortedPairID a b = sortedPairID c d \<longleftrightarrow> {a, b} = {c, d}"
proof
  assume "sortedPairID a b = sortedPairID c d"
  then show "{a, b} = {c, d}" using colon_split [of _ _ _] assms unfolding sortedPairID_def
    by (smt (verit, best) colon_split insert_commute)
qed (use sortedPairID_commute in \<open>auto simp: doubleton_eq_iff\<close>)

section \<open>Pairing\<close>

text \<open>What the session key is the hash of.\<close>

definition key_material :: "(int \<Rightarrow> string) \<Rightarrow> PendingConn \<Rightarrow> string \<Rightarrow> string" where
  "key_material dec pc peerID =
     (if pc_authToken pc = [] then defaultPassphrase else pc_authToken pc) @ [CHR 0x00] @ ''obfuscate'' @ [CHR 0x00] @ dec (pc_index pc) @ [CHR 0x00] @ sortedPairID (pc_peerID pc) peerID"

lemma session_key_material: "session_key sha256 dec pc peerID = sha256 (key_material dec pc peerID)"
  by (simp add: session_key_def DeriveSessionObfuscationKey_def key_material_def Let_def)

definition keyed :: "bytes \<Rightarrow> WebRTCTransport \<Rightarrow> bool" where
  "keyed key t \<longleftrightarrow> (\<exists>c. wt_rtpConn t = Some c \<and> obfKey c = key)"

lemma with_key_keyed: "wt_rtpConn t \<noteq> None \<Longrightarrow> keyed key (with_key key t)"
  by (auto simp: keyed_def with_key_def SetObfKey_def)

lemma ResetForPin_conn [simp]: "wt_rtpConn (ResetForPin t) = None \<longleftrightarrow> wt_rtpConn t = None"
  by (simp add: ResetForPin_def)

lemma with_key_conn [simp]: "wt_rtpConn (with_key k t) = None \<longleftrightarrow> wt_rtpConn t = None"
  by (simp add: with_key_def)

lemma keys_keep_state [simp]:
  "wt_closed (with_key k t) = wt_closed t" "wt_closed (ResetForPin t) = wt_closed t"
  by (simp_all add: with_key_def ResetForPin_def)

lemma session_key_cong:
  "pc_authToken pc' = pc_authToken pc \<Longrightarrow> pc_index pc' = pc_index pc \<Longrightarrow> pc_peerID pc' = pc_peerID pc \<Longrightarrow> session_key sha256 dec pc' i = session_key sha256 dec pc i"
  by (simp add: session_key_def)

lemma probe_keyed:
  "probe sha256 dec wok valid pc cands = Inr (pc', Some i) \<Longrightarrow> wt_rtpConn (pc_transport pc) \<noteq> None \<Longrightarrow>
   keyed (session_key sha256 dec pc i) (pc_transport pc') \<and> valid i \<and> i \<in> pt_ID ` set cands"
proof (induction cands arbitrary: pc)
  case (Cons cand cands)
  obtain g ok where pin: "PinToPeer wok (pt_ID cand) (pc_goloom pc) = (g, ok)" by fastforce
  have short: "\<not> short_id (pt_ID cand)" using Cons.prems(1) by (auto split: if_splits)
  show ?case
  proof (cases ok)
    case False
    then have *: "probe sha256 dec wok valid (pc\<lparr>pc_goloom := g\<rparr>) cands = Inr (pc', Some i)" using Cons.prems(1) pin short by simp
    have "keyed (session_key sha256 dec (pc\<lparr>pc_goloom := g\<rparr>) i) (pc_transport pc') \<and> valid i \<and> i \<in> pt_ID ` set cands"
      by (rule Cons.IH) (use * Cons.prems(2) in auto)
    then show ?thesis by (simp add: session_key_def)
  next
    case True
    define pc1 where "pc1 = pc\<lparr>pc_goloom := g, pc_transport := with_key (session_key sha256 dec pc (pt_ID cand)) (ResetForPin (pc_transport pc))\<rparr>"
    show ?thesis
    proof (cases "valid (pt_ID cand)")
      case v: True
      then have "pc' = pc1" "i = pt_ID cand" using Cons.prems(1) pin short True by (auto simp: pc1_def Let_def)
      then show ?thesis using v Cons.prems(2) by (simp add: pc1_def with_key_keyed)
    next
      case v: False
      then have *: "probe sha256 dec wok valid pc1 cands = Inr (pc', Some i)" using Cons.prems(1) pin short True by (simp add: pc1_def Let_def)
      have "keyed (session_key sha256 dec pc1 i) (pc_transport pc') \<and> valid i \<and> i \<in> pt_ID ` set cands"
        by (rule Cons.IH) (use * Cons.prems(2) in \<open>auto simp: pc1_def\<close>)
      then show ?thesis by (simp add: session_key_def pc1_def)
    qed
  qed
qed simp

lemma pinAndFinish_keyed:
  assumes "pinAndFinish sha256 dec wok ready pc i = Inr (pc', None)" "wt_rtpConn (pc_transport pc) \<noteq> None"
  shows "keyed (session_key sha256 dec pc i) (pc_transport pc')"
  using assms by (auto simp: pinAndFinish_def WaitReady_def Let_def with_key_keyed split: prod.splits bool.splits if_splits option.splits)

lemma ConnectPaired_keyed:
  assumes "ConnectPaired sha256 dec wok found ready valid pc = Inr (pc', Inr i)" "wt_rtpConn (pc_transport pc) \<noteq> None"
  shows "keyed (session_key sha256 dec pc i) (pc_transport pc')"
proof -
  obtain cands where f: "found = Inr cands" using assms(1) by (cases found) (auto simp: ConnectPaired_def)
  show ?thesis
  proof (cases "length cands = 1")
    case True
    then have "pinAndFinish sha256 dec wok ready pc i = Inr (pc', None)"
      using assms(1) f by (auto simp: ConnectPaired_def split: sum.splits prod.splits option.splits)
    then show ?thesis by (rule pinAndFinish_keyed) fact
  next
    case False
    then have "probe sha256 dec wok valid pc cands = Inr (pc', Some i)"
      using assms(1) f by (auto simp: ConnectPaired_def split: sum.splits prod.splits option.splits)
    then show ?thesis using probe_keyed assms(2) by blast
  qed
qed

lemma WaitPinReady_keyed:
  assumes "WaitPinReady sha256 dec wok (Inr i) ready pc = Inr (pc', None)" "wt_rtpConn (pc_transport pc) \<noteq> None"
  shows "keyed (session_key sha256 dec pc i) (pc_transport pc')"
  using assms by (auto simp: WaitPinReady_def Let_def with_key_keyed split: prod.splits bool.splits if_splits option.splits)

text \<open>
  C8: A client that has been paired by \<^verbatim>\<open>ConnectPaired\<close> - with its only candidate or with the one of several that passed the probe - and a server connection that has been paired by
  \<^verbatim>\<open>WaitPinReady\<close>, with the same token and index, mask their video frames with the same key exactly if they have chosen each other, as long as SHA-256 has no collision on the two inputs; so the
  frames of a ghost of an earlier session are never taken for those of the peer.
\<close>

theorem telemost_pair_keys:
  assumes "ConnectPaired sha256 dec wok found ready valid cl = Inr (cl', Inr i)" "WaitPinReady sha256 dec wok2 (Inr j) ready2 srv = Inr (srv', None)"
    and "wt_rtpConn (pc_transport cl) \<noteq> None" "wt_rtpConn (pc_transport srv) \<noteq> None" "pc_authToken cl = pc_authToken srv" "pc_index cl = pc_index srv"
    and "list_all (\<lambda>s. CHR '':'' \<notin> set s) [pc_peerID cl, i, pc_peerID srv, j]"
    and "sha256 (key_material dec cl i) = sha256 (key_material dec srv j) \<Longrightarrow> key_material dec cl i = key_material dec srv j"
  shows "map_option obfKey (wt_rtpConn (pc_transport cl')) = map_option obfKey (wt_rtpConn (pc_transport srv')) \<longleftrightarrow> {pc_peerID cl, i} = {pc_peerID srv, j}"
proof -
  have k: "keyed (session_key sha256 dec cl i) (pc_transport cl')" "keyed (session_key sha256 dec srv j) (pc_transport srv')"
    using ConnectPaired_keyed [OF assms(1,3)] WaitPinReady_keyed [OF assms(2,4)] by auto
  have "key_material dec cl i = key_material dec srv j \<longleftrightarrow> sortedPairID (pc_peerID cl) i = sortedPairID (pc_peerID srv) j"
    using assms(5,6) by (simp add: key_material_def)
  also have "\<dots> \<longleftrightarrow> {pc_peerID cl, i} = {pc_peerID srv, j}" using assms(7) sortedPairID_inj by simp
  finally show ?thesis using k assms(8) by (auto simp: keyed_def session_key_material)
qed

definition wit_transport :: WebRTCTransport where
  "wit_transport = \<lparr>wt_publisher = PeerOpen, wt_subscriber = PeerOpen, wt_obfKey = [], wt_rtpConn = Some (NewRTPConn []), wt_subReady = True, wt_closed = False\<rparr>"

definition wit_pending :: "string \<Rightarrow> PendingConn" where
  "wit_pending me = \<lparr>pc_transport = wit_transport, pc_goloom = new_goloom, pc_peerID = me, pc_myName = ''n'', pc_authToken = ''t'', pc_index = 0\<rparr>"

definition wit_hash :: "string \<Rightarrow> bytes" where
  "wit_hash s = map of_char s"

theorem telemost_pair_keys_witness:
  "\<exists>cl' srv'. ConnectPaired wit_hash (\<lambda>i. ''0'') (\<lambda>n. True) (Inr [\<lparr>pt_ID = ''server-1'', pt_Name = ''s'', pt_Description = [], pt_SendVideo = True, pt_DisconnectedAt = 0\<rparr>]) None
       (\<lambda>i. False) (wit_pending ''client-1'') = Inr (cl', Inr ''server-1'') \<and>
     WaitPinReady wit_hash (\<lambda>i. ''0'') (\<lambda>n. True) (Inr ''client-1'') None (wit_pending ''server-1'') = Inr (srv', None) \<and>
     map_option obfKey (wt_rtpConn (pc_transport cl')) = map_option obfKey (wt_rtpConn (pc_transport srv'))"
proof -
  obtain cl' where cl: "ConnectPaired wit_hash (\<lambda>i. ''0'') (\<lambda>n. True) (Inr [\<lparr>pt_ID = ''server-1'', pt_Name = ''s'', pt_Description = [], pt_SendVideo = True, pt_DisconnectedAt = 0\<rparr>]) None
       (\<lambda>i. False) (wit_pending ''client-1'') = Inr (cl', Inr ''server-1'')"
    by (simp add: ConnectPaired_def pinAndFinish_def PinToPeer_def writeJSON_def Let_def short_id_def WaitReady_def wit_pending_def)
  obtain srv' where srv: "WaitPinReady wit_hash (\<lambda>i. ''0'') (\<lambda>n. True) (Inr ''client-1'') None (wit_pending ''server-1'') = Inr (srv', None)"
    by (simp add: WaitPinReady_def PinToPeer_def writeJSON_def Let_def short_id_def wit_pending_def)
  have m: "key_material (\<lambda>i. ''0'') (wit_pending ''client-1'') ''server-1'' = key_material (\<lambda>i. ''0'') (wit_pending ''server-1'') ''client-1''"
    by (simp add: key_material_def wit_pending_def sortedPairID_def)
  show ?thesis
    using telemost_pair_keys [OF cl srv _ _ _ _ _ m] cl srv by (simp add: wit_pending_def wit_transport_def insert_commute)
qed

section \<open>Nothing stays open\<close>

lemma transport_Close_closed [simp]: "wt_closed (transport_Close t)"
  by (simp add: transport_Close_def)

lemma goloom_Close_closed [simp]: "gc_closed (goloom_Close wok g)"
  by (simp add: goloom_Close_def writeJSON_def)

lemma pc_Close_closed [simp]: "gc_closed (pc_goloom (pc_Close wok pc))" "wt_closed (pc_transport (pc_Close wok pc))"
  by (simp_all add: pc_Close_def)

definition all_closed :: "PendingConn \<Rightarrow> bool" where
  "all_closed pc \<longleftrightarrow> gc_closed (pc_goloom pc) \<and> wt_closed (pc_transport pc)"

lemma pinAndFinish_closes: "pinAndFinish sha256 dec wok ready pc i = Inr (pc', Some e) \<Longrightarrow> all_closed pc'"
  by (auto simp: pinAndFinish_def WaitReady_def all_closed_def Let_def split: prod.splits bool.splits if_splits option.splits)

lemma ConnectPaired_closes: "ConnectPaired sha256 dec wok found ready valid pc = Inr (pc', Inl e) \<Longrightarrow> all_closed pc'"
  by (auto simp: ConnectPaired_def all_closed_def dest: pinAndFinish_closes [unfolded all_closed_def] split: sum.splits prod.splits option.splits if_splits)

lemma WaitPinReady_closes: "WaitPinReady sha256 dec wok found ready pc = Inr (pc', Some e) \<Longrightarrow> all_closed pc'"
  by (auto simp: WaitPinReady_def all_closed_def Let_def split: sum.splits prod.splits option.splits if_splits bool.splits)

lemma SetupWebRTC_closes: "SetupWebRTC wok env track key name gc = Inr (t, g, Some e) \<Longrightarrow> wt_closed t"
  by (auto simp: SetupWebRTC_def split: sum.splits prod.splits option.splits if_splits)

lemma SetupNamedIndexed_closes:
  "SetupNamedIndexed sha256 dec resp conn wok env track s name index = Inr (Inl (e, Some (t, g))) \<Longrightarrow> wt_closed t \<and> gc_closed g"
  by (auto simp: SetupNamedIndexed_def dest!: SetupWebRTC_closes split: sum.splits prod.splits option.splits)

text \<open>
  C38: A video track that reaches the client after the exchange with the subscriber and before the publisher is set up crashes it: the handler of tracks uses the connection that only the setup of the
  publisher creates.  Without such a track the setup does not crash.
\<close>

theorem early_track_panics:
  "snd (snd (setupSubscriber wok env (new_transport key) gc)) = None \<longleftrightarrow> SetupWebRTC wok env True key name gc = Inl NilDereference"
proof -
  have "wt_rtpConn (fst (setupSubscriber wok env (new_transport key) gc)) = None"
    by (simp add: setupSubscriber_def new_transport_def Let_def split: option.split sum.split prod.split bool.split)
  then show ?thesis by (auto simp: SetupWebRTC_def on_track_def split: prod.splits option.splits)
qed

lemma late_track_fine: "\<exists>r. SetupWebRTC wok env False key name gc = Inr r"
  by (auto simp: SetupWebRTC_def split: prod.splits option.splits)

lemma setup_has_conn: "SetupWebRTC wok env track key name gc = Inr (t, g, None) \<Longrightarrow> \<exists>c. wt_rtpConn t = Some c \<and> obfKey c = key"
  by (auto simp: SetupWebRTC_def setupSubscriber_def setupPublisher_def new_transport_def on_track_def NewRTPConn_def Let_def
    split: prod.splits option.splits sum.splits bool.splits if_splits)

section \<open>Candidates\<close>

text \<open>Each candidate of a peer connection is sent once, whenever it is found.\<close>

lemma ice_found_run:
  "foldl (\<lambda>s c. ice_found c s) s cs = (if is_done s then s\<lparr>is_sent := is_sent s @ cs\<rparr> else s\<lparr>is_buffered := is_buffered s @ cs\<rparr>)"
  by (induction cs arbitrary: s) (auto simp: ice_found_def)

lemma ice_candidates_once:
  "foldl (\<lambda>s c. ice_found c s) (ice_flush (foldl (\<lambda>s c. ice_found c s) (ice_done (foldl (\<lambda>s c. ice_found c s) \<lparr>is_done = False, is_buffered = [], is_sent = []\<rparr> cs1)) cs2)) cs3 =
     \<lparr>is_done = True, is_buffered = [], is_sent = cs2 @ cs1 @ cs3\<rparr>"
  by (simp add: ice_found_run ice_done_def ice_flush_def)

section \<open>Names\<close>

lemma find_unused:
  assumes "finite used" "card used < card (f ` {..<100})"
  shows "find (\<lambda>a. f a \<notin> used) [0..<100] \<noteq> None"
proof
  assume "find (\<lambda>a. f a \<notin> used) [0..<100] = None"
  then have "f ` {..<100} \<subseteq> used" by (auto simp: find_None_iff)
  then show False using assms card_mono [of used "f ` {..<100}"] by simp
qed

lemma deriveUniqueName_fresh:
  assumes "finite used" "card used < card ((\<lambda>a. name role (i + a * 1000)) ` {..<100})" "deriveUniqueName name role i used = (n, used')"
  shows "n \<notin> used \<and> used' = insert n used"
proof -
  obtain a where a: "find (\<lambda>a. name role (i + a * 1000) \<notin> used) [0..<100] = Some a" using find_unused [OF assms(1,2)] by auto
  then have "name role (i + a * 1000) \<notin> used" by (auto simp: find_Some_iff)
  then show ?thesis using assms(3) a by (auto simp: deriveUniqueName_def)
qed

lemma derive_names_fresh:
  assumes "finite used" "\<forall>i\<in>set is. card used + length is \<le> card ((\<lambda>a. name role (i + a * 1000)) ` {..<100})" "derive_names name role is used = (ns, used')"
  shows "distinct ns \<and> set ns \<inter> used = {} \<and> used' = used \<union> set ns \<and> length ns = length is"
  using assms
proof (induction "is" arbitrary: used ns used')
  case (Cons i "is")
  obtain n used1 where n: "deriveUniqueName name role i used = (n, used1)" by fastforce
  obtain ms used2 where ms: "derive_names name role is used1 = (ms, used2)" by fastforce
  have f: "n \<notin> used" "used1 = insert n used" using deriveUniqueName_fresh [OF Cons.prems(1) _ n] Cons.prems(2) by auto
  have "distinct ms \<and> set ms \<inter> used1 = {} \<and> used2 = used1 \<union> set ms \<and> length ms = length is"
    by (rule Cons.IH [OF _ _ ms]) (use Cons.prems(1,2) f in auto)
  then show ?case using Cons.prems(3) n ms f by auto
qed simp

text \<open>
  The names of the participants are all different as long as, for every index, the hundred attempts give as many different names as there are participants.
\<close>

lemma display_names_distinct:
  assumes "\<forall>i<n. \<forall>role\<in>{''s'', ''c''}. 2 * n \<le> card ((\<lambda>a. name role (i + a * 1000)) ` {..<100})" "DeriveDisplayNames name n = (serverNames, clientNames)"
  shows "distinct (serverNames @ clientNames) \<and> length serverNames = n \<and> length clientNames = n"
proof -
  obtain used where s: "derive_names name ''s'' [0..<n] {} = (serverNames, used)" using assms(2) by (auto simp: DeriveDisplayNames_def split: prod.splits)
  have 1: "distinct serverNames \<and> set serverNames \<inter> {} = {} \<and> used = {} \<union> set serverNames \<and> length serverNames = length [0..<n]"
    by (rule derive_names_fresh [OF _ _ s]) (use assms(1) in force)+
  have "clientNames = fst (derive_names name ''c'' [0..<n] used)" using assms(2) s by (simp add: DeriveDisplayNames_def)
  then obtain used2 where c: "derive_names name ''c'' [0..<n] used = (clientNames, used2)" by (metis prod.collapse)
  have "card used = n" using 1 distinct_card [of serverNames] by simp
  then have "distinct clientNames \<and> set clientNames \<inter> used = {} \<and> used2 = used \<union> set clientNames \<and> length clientNames = length [0..<n]"
    using 1 assms(1) by (intro derive_names_fresh [OF _ _ c]) auto
  then show ?thesis using 1 by auto
qed

lemma derive_names_append: "fst (derive_names name role (xs @ ys) used) = fst (derive_names name role xs used) @ fst (derive_names name role ys (snd (derive_names name role xs used)))"
  by (induction xs arbitrary: used) (simp_all add: split_beta)

lemma derive_names_length: "length (fst (derive_names name role is used)) = length is"
  by (induction "is" arbitrary: used) (simp_all add: split_beta)

text \<open>The names of the servers do not depend on the number of connections, but those of the clients do: with a clash of names, two sides that use different numbers differ.\<close>

lemma server_names_prefix: "k \<le> n \<Longrightarrow> take k (fst (DeriveDisplayNames name n)) = fst (DeriveDisplayNames name k)"
proof -
  assume "k \<le> n"
  then have u: "[0..<n] = [0..<k] @ [k..<n]" using upt_add_eq_append [of 0 k "n - k"] by simp
  have "fst (DeriveDisplayNames name m) = fst (derive_names name ''s'' [0..<m] {})" for m by (simp add: DeriveDisplayNames_def split: prod.splits)
  then show ?thesis by (simp add: u derive_names_append derive_names_length)
qed

lemma find_upt: "i < j \<Longrightarrow> find P [i..<j] = (if P i then Some i else find P [Suc i..<j])"
  by (simp add: upt_conv_Cons)

lemma client_names_depend:
  "\<exists>name. fst (DeriveDisplayNames name 1) = [''a''] \<and> snd (DeriveDisplayNames name 1) = [''b''] \<and> snd (DeriveDisplayNames name 2) ! 0 = ''c''"
  by (rule exI [of _ "\<lambda>role i. if role = ''s'' then (if i = 0 then ''a'' else ''b'') else if i = 0 then ''b'' else if i = 1 then ''d'' else ''c''"])
    (simp add: DeriveDisplayNames_def deriveUniqueName_def find_upt upt_rec [of _ 1] upt_rec [of _ 2])

end
