(* ===== verification/Vk_Service.thy ===== *)
theory Vk_Service
  imports Turn_Manager
begin

text \<open>
  The VK service (\<^verbatim>\<open>provider/vk/vk.go\<close>): the chain of requests that gives TURN credentials and the signaling endpoint of a call, with captchas and rate limits, anonymously or
  with a token.  The network answers requests; JSON text is read into a value of \<open>json\<close> or cannot be read.
\<close>

section \<open>JSON\<close>

text \<open>Numbers are kept as their text; the fields of an object have different names.\<close>

datatype json = JNull | JBool bool | JNum string | JStr string | JArr "json list" | JObj "(string \<times> json) list"

text \<open>
  Reading a field of a structure: a missing field or null gives the zero value, a value of another type is an error.
\<close>

fun j_string :: "json option \<Rightarrow> string option" where
  "j_string None = Some []"
| "j_string (Some JNull) = Some []"
| "j_string (Some (JStr s)) = Some s"
| "j_string (Some _) = None"

fun j_int :: "json option \<Rightarrow> int option" where
  "j_int None = Some 0"
| "j_int (Some JNull) = Some 0"
| "j_int (Some (JNum s)) = ParseInt64 s"
| "j_int (Some _) = None"

fun j_number :: "json option \<Rightarrow> string option" where
  "j_number None = Some ''0''"
| "j_number (Some JNull) = Some ''0''"
| "j_number (Some (JNum s)) = Some s"
| "j_number (Some _) = None"

fun j_object :: "json option \<Rightarrow> (string \<times> json) list option option" where
  "j_object None = Some None"
| "j_object (Some JNull) = Some None"
| "j_object (Some (JObj fs)) = Some (Some fs)"
| "j_object (Some _) = None"

fun j_strings :: "json option \<Rightarrow> string list option" where
  "j_strings None = Some []"
| "j_strings (Some JNull) = Some []"
| "j_strings (Some (JArr xs)) = (let ys = map (\<lambda>x. j_string (Some x)) xs in if None \<in> set ys then None else Some (map the ys))"
| "j_strings (Some _) = None"

text \<open>The fields of the structure that a body holds; null leaves the structure as it is.\<close>

definition j_fields :: "json option \<Rightarrow> (string \<times> json) list option" where
  "j_fields body = (case body of None \<Rightarrow> None | Some j \<Rightarrow> (case j_object (Some j) of None \<Rightarrow> None | Some None \<Rightarrow> Some [] | Some (Some fs) \<Rightarrow> Some fs))"

text \<open>A structure inside a structure: its fields, none if it is missing.\<close>

definition j_struct :: "string \<Rightarrow> (string \<times> json) list \<Rightarrow> (string \<times> json) list option" where
  "j_struct key fs = (case j_object (map_of fs key) of None \<Rightarrow> None | Some None \<Rightarrow> Some [] | Some (Some gs) \<Rightarrow> Some gs)"

text \<open>One string field of a body, or of a structure in it.\<close>

definition body_string :: "string \<Rightarrow> json option \<Rightarrow> string option" where
  "body_string key body = (case j_fields body of None \<Rightarrow> None | Some fs \<Rightarrow> j_string (map_of fs key))"

definition body_nested :: "string \<Rightarrow> string \<Rightarrow> json option \<Rightarrow> string option" where
  "body_nested outer key body =
     (case j_fields body of None \<Rightarrow> None | Some fs \<Rightarrow> (case j_struct outer fs of None \<Rightarrow> None | Some gs \<Rightarrow> j_string (map_of gs key)))"

section \<open>Errors of the service\<close>

record vkError =
  ve_Code :: int
  ve_Msg :: string
  ve_RedirectURI :: string
  ve_CaptchaSID :: string
  ve_CaptchaTS :: string
  ve_CaptchaImg :: string

definition decode_error :: "(string \<times> json) list \<Rightarrow> vkError option" where
  "decode_error fs =
     (case (j_int (map_of fs ''error_code''), j_string (map_of fs ''error_msg''), j_string (map_of fs ''redirect_uri''),
            j_string (map_of fs ''captcha_sid''), j_number (map_of fs ''captcha_ts''), j_string (map_of fs ''captcha_img'')) of
        (Some code, Some msg, Some uri, Some sid, Some ts, Some img) \<Rightarrow>
          Some \<lparr>ve_Code = code, ve_Msg = msg, ve_RedirectURI = uri, ve_CaptchaSID = sid, ve_CaptchaTS = ts, ve_CaptchaImg = img\<rparr>
      | _ \<Rightarrow> None)"

text \<open>The error of a response that can be read and has one.\<close>

definition vkErrorResponse :: "json option \<Rightarrow> vkError option" where
  "vkErrorResponse body =
     (case j_fields body of
        None \<Rightarrow> None
      | Some fs \<Rightarrow> (case j_object (map_of fs ''error'') of Some (Some gs) \<Rightarrow> decode_error gs | _ \<Rightarrow> None))"

definition vkRateLimitCodes :: "int list" where
  "vkRateLimitCodes = [6, 9, 14, 29]"

definition checkVKRateLimit :: "json option \<Rightarrow> goerr option" where
  "checkVKRateLimit body =
     (case vkErrorResponse body of
        None \<Rightarrow> None
      | Some e \<Rightarrow> if ve_Code e \<in> set vkRateLimitCodes then Some (RateLimitError (ve_Code e) (ve_Msg e)) else None)"

definition checkLoginRateLimit :: "json option \<Rightarrow> goerr option" where
  "checkLoginRateLimit body =
     (case j_fields body of
        None \<Rightarrow> None
      | Some fs \<Rightarrow>
          (case (j_string (map_of fs ''error''), j_int (map_of fs ''error_code''), j_string (map_of fs ''error_description'')) of
             (Some err, Some code, Some desc) \<Rightarrow> if code = 1105 \<or> Contains desc ''Too many'' then Some (RateLimitError 1105 desc) else None
           | _ \<Rightarrow> None))"

section \<open>Requests\<close>

type_synonym form = "(string \<times> string) list"

text \<open>What the network answers to a request: an error, or a status and a body.\<close>

type_synonym vk_net = "string \<Rightarrow> form \<Rightarrow> goerr + (int \<times> json option)"

definition httpPost :: "vk_net \<Rightarrow> string \<Rightarrow> form \<Rightarrow> goerr + json option" where
  "httpPost net endpoint form =
     (case net endpoint form of
        Inl e \<Rightarrow> Inl e
      | Inr (status, body) \<Rightarrow> if status \<noteq> 200 then Inl (Errorf ''HTTP'') else Inr body)"

definition vkAPIPost :: "vk_net \<Rightarrow> string \<Rightarrow> form \<Rightarrow> goerr + json option" where
  "vkAPIPost net endpoint form =
     (case httpPost net endpoint form of
        Inl e \<Rightarrow> Inl e
      | Inr body \<Rightarrow> (case checkVKRateLimit body of Some rle \<Rightarrow> Inl rle | None \<Rightarrow> Inr body))"

text \<open>The end of most requests: a field that has to be there.\<close>

definition required :: "string option \<Rightarrow> goerr + string" where
  "required r = (case r of None \<Rightarrow> Inl (Errorf ''parse response'') | Some s \<Rightarrow> if s = [] then Inl (Errorf ''empty token in response'') else Inr s)"

definition vkClientID :: string where "vkClientID = ''6287487''"
definition vkClientSecret :: string where "vkClientSecret = ''QbYic1K3lEV5kTGiqlq2''"
definition vkAPIVersion :: string where "vkAPIVersion = ''5.274''"
definition okAppKey :: string where "okAppKey = ''CGMMEJLGDIHBABABA''"

definition vkMessagesToken :: "vk_net \<Rightarrow> goerr + string" where
  "vkMessagesToken net =
     (case httpPost net ''https://login.vk.ru/?act=get_anonym_token''
             [(''client_id'', vkClientID), (''token_type'', ''messages''), (''client_secret'', vkClientSecret), (''version'', ''1''), (''app_id'', vkClientID)] of
        Inl e \<Rightarrow> Inl e
      | Inr body \<Rightarrow>
          (case checkLoginRateLimit body of
             Some rle \<Rightarrow> Inl rle
           | None \<Rightarrow> required (body_nested ''data'' ''access_token'' body)))"

definition join_endpoint :: string where
  "join_endpoint = ''https://api.vk.ru/method/calls.getAnonymousToken?v='' @ vkAPIVersion"

definition join_form :: "string \<Rightarrow> string \<Rightarrow> string \<Rightarrow> form" where
  "join_form link name token3 = [(''vk_join_link'', ''https://vk.com/call/join/'' @ link), (''name'', name), (''access_token'', token3)]"

text \<open>\<open>fmt2\<close> prints a number with two digits behind the point.\<close>

definition captcha_form :: "(string \<Rightarrow> string) \<Rightarrow> vkError \<Rightarrow> string \<Rightarrow> form" where
  "captcha_form fmt2 e token =
     [(''success_token'', token), (''captcha_sid'', ve_CaptchaSID e), (''captcha_ts'', fmt2 (ve_CaptchaTS e)), (''captcha_attempt'', ''1'')]"

text \<open>\<open>solver\<close> is the solver of captchas, if there is one.\<close>

definition vkJoinToken :: "vk_net \<Rightarrow> (string \<Rightarrow> string) \<Rightarrow> (vkError \<Rightarrow> goerr + string) option \<Rightarrow> string \<Rightarrow> string \<Rightarrow> string \<Rightarrow> goerr + string" where
  "vkJoinToken net fmt2 solver name link token3 =
     (case httpPost net join_endpoint (join_form link name token3) of
        Inl e \<Rightarrow> Inl e
      | Inr body \<Rightarrow>
          (case vkErrorResponse body of
             Some e \<Rightarrow>
               if ve_Code e = 14 then
                 (case solver of
                    None \<Rightarrow> Inl (RateLimitError 14 (ve_Msg e))
                  | Some solve \<Rightarrow>
                      (case solve e of
                         Inl err \<Rightarrow> Inl (Wrapf ''captcha solve'' err)
                       | Inr token \<Rightarrow>
                           (case vkAPIPost net join_endpoint (join_form link name token3 @ captcha_form fmt2 e token) of
                              Inl err \<Rightarrow> Inl (Wrapf ''retry after captcha'' err)
                            | Inr body2 \<Rightarrow> required (body_nested ''response'' ''token'' body2))))
               else (case checkVKRateLimit body of Some rle \<Rightarrow> Inl rle | None \<Rightarrow> required (body_nested ''response'' ''token'' body))
           | None \<Rightarrow> required (body_nested ''response'' ''token'' body)))"

definition ok_endpoint :: string where "ok_endpoint = ''https://calls.okcdn.ru/fb.do''"

text \<open>A text inside quotation marks, as the code puts it there: nothing in it is escaped.\<close>

definition quoted :: "string \<Rightarrow> string" where
  "quoted s = CHR 0x22 # s @ [CHR 0x22]"

definition session_data :: "string \<Rightarrow> string \<Rightarrow> string option \<Rightarrow> string" where
  "session_data version deviceID authToken =
     ''{'' @ quoted ''version'' @ '':'' @ version @ '','' @ quoted ''device_id'' @ '':'' @ quoted deviceID @ '','' @ quoted ''client_version'' @ '':1.1,'' @
     quoted ''client_type'' @ '':'' @ quoted ''SDK_JS'' @ (case authToken of None \<Rightarrow> [] | Some t \<Rightarrow> '','' @ quoted ''auth_token'' @ '':'' @ quoted t) @ ''}''"

definition login_form :: "string \<Rightarrow> form" where
  "login_form sessionData = [(''session_data'', sessionData), (''method'', ''auth.anonymLogin''), (''format'', ''JSON''), (''application_key'', okAppKey)]"

definition okAnonLogin :: "vk_net \<Rightarrow> string \<Rightarrow> goerr + string" where
  "okAnonLogin net deviceID =
     (case httpPost net ok_endpoint (login_form (session_data ''2'' deviceID None)) of
        Inl e \<Rightarrow> Inl e
      | Inr body \<Rightarrow> required (body_string ''session_key'' body))"

definition okAuthWithToken :: "vk_net \<Rightarrow> string \<Rightarrow> string \<Rightarrow> goerr + string" where
  "okAuthWithToken net authToken deviceID =
     (case httpPost net ok_endpoint (login_form (session_data ''3'' deviceID (Some authToken))) of
        Inl e \<Rightarrow> Inl e
      | Inr body \<Rightarrow> required (body_string ''session_key'' body))"

definition vkGetCallToken :: "vk_net \<Rightarrow> string \<Rightarrow> goerr + string" where
  "vkGetCallToken net accessToken =
     (case httpPost net (''https://api.vk.com/method/messages.getCallToken?v='' @ vkAPIVersion @ ''&client_id='' @ vkClientID) [(''env'', ''production''), (''access_token'', accessToken)] of
        Inl e \<Rightarrow> Inl e
      | Inr body \<Rightarrow>
          (case vkErrorResponse body of
             Some e \<Rightarrow>
               Inl (if ve_Code e = 5 then Errorf ''VK token expired (error 5)''
                    else case checkVKRateLimit body of Some rle \<Rightarrow> rle | None \<Rightarrow> Errorf ''VK API error'')
           | None \<Rightarrow>
               (case j_fields body of
                  None \<Rightarrow> Inl (Errorf ''parse getCallToken response'')
                | Some fs \<Rightarrow>
                    (case j_struct ''response'' fs of
                       None \<Rightarrow> Inl (Errorf ''parse getCallToken response'')
                     | Some gs \<Rightarrow> required (if j_string (map_of gs ''api_base_url'') = None then None else j_string (map_of gs ''token''))))))"

record joinConferenceResult =
  jc_creds :: Credentials
  jc_endpoint :: string
  jc_convID :: string
  jc_deviceIdx :: int

definition turn_server :: "string \<Rightarrow> TURNServer" where
  "turn_server u = \<lparr>srv_Host = fst (ParseTURNURL u), srv_Port = snd (ParseTURNURL u)\<rparr>"

definition decode_join :: "json option \<Rightarrow> (string \<times> string \<times> string list \<times> string \<times> string \<times> int) option" where
  "decode_join body =
     (case j_fields body of
        None \<Rightarrow> None
      | Some fs \<Rightarrow>
          (case j_struct ''turn_server'' fs of
             None \<Rightarrow> None
           | Some ts \<Rightarrow>
               (case (j_string (map_of ts ''username''), j_string (map_of ts ''credential''), j_strings (map_of ts ''urls''),
                      j_string (map_of fs ''endpoint''), j_string (map_of fs ''id''), j_int (map_of fs ''device_idx'')) of
                  (Some user, Some cred, Some urls, Some endpoint, Some conv, Some idx) \<Rightarrow> Some (user, cred, urls, endpoint, conv, idx)
                | _ \<Rightarrow> None)))"

definition okJoinConference :: "vk_net \<Rightarrow> string \<Rightarrow> string \<Rightarrow> string \<Rightarrow> goerr + joinConferenceResult" where
  "okJoinConference net link anonymToken sessionKey =
     (case httpPost net ok_endpoint
             ([(''joinLink'', link), (''isVideo'', ''false''), (''protocolVersion'', ''5''), (''capabilities'', ''2F7F''), (''method'', ''vchat.joinConversationByLink''),
               (''format'', ''JSON''), (''application_key'', okAppKey), (''session_key'', sessionKey)] @ (if anonymToken \<noteq> [] then [(''anonymToken'', anonymToken)] else [])) of
        Inl e \<Rightarrow> Inl e
      | Inr body \<Rightarrow>
          (case decode_join body of
             None \<Rightarrow> Inl (Errorf ''parse response'')
           | Some (user, cred, urls, endpoint, conv, idx) \<Rightarrow>
               if urls = [] then Inl (Errorf ''no TURN URLs in response'')
               else (case ParseTURNURL (hd urls) of
                       (host, port) \<Rightarrow>
                         Inr \<lparr>jc_creds = \<lparr>Username = user, Password = cred, Host = host, Port = port, Servers = map turn_server urls\<rparr>,
                              jc_endpoint = endpoint, jc_convID = conv, jc_deviceIdx = idx\<rparr>)))"

section \<open>Joining a call\<close>

text \<open>The login runs beside the first two steps and is waited for in any case, so that only the order in which errors are looked at matters.\<close>

definition vk_FetchJoinInfo ::
  "vk_net \<Rightarrow> (string \<Rightarrow> string) \<Rightarrow> (vkError \<Rightarrow> goerr + string) option \<Rightarrow> string \<Rightarrow> string \<Rightarrow> string \<Rightarrow> goerr + joinConferenceResult" where
  "vk_FetchJoinInfo net fmt2 solver name deviceID link =
     (let login = okAnonLogin net deviceID
      in case vkMessagesToken net of
           Inl e \<Rightarrow> Inl (Wrapf ''step1 messages token'' e)
         | Inr messagesToken \<Rightarrow>
             (case vkJoinToken net fmt2 solver name link messagesToken of
                Inl e \<Rightarrow> Inl (Wrapf ''step2 join token'' e)
              | Inr joinToken \<Rightarrow>
                  (case login of
                     Inl e \<Rightarrow> Inl (Wrapf ''step3 ok login'' e)
                   | Inr sessionKey \<Rightarrow>
                       (case okJoinConference net link joinToken sessionKey of
                          Inl e \<Rightarrow> Inl (Wrapf ''step4 join conference'' e)
                        | Inr r \<Rightarrow> Inr r))))"

definition vk_FetchCredentials ::
  "vk_net \<Rightarrow> (string \<Rightarrow> string) \<Rightarrow> (vkError \<Rightarrow> goerr + string) option \<Rightarrow> string \<Rightarrow> string \<Rightarrow> string \<Rightarrow> goerr + Credentials" where
  "vk_FetchCredentials net fmt2 solver name deviceID link =
     (case vk_FetchJoinInfo net fmt2 solver name deviceID link of Inl e \<Rightarrow> Inl e | Inr r \<Rightarrow> Inr (jc_creds r))"

datatype token_kind = VkToken | OkToken | UnknownToken

definition classifyToken :: "string \<Rightarrow> token_kind" where
  "classifyToken token = (if HasPrefix ''vk1.a.'' token then VkToken else if HasPrefix ''$'' token then OkToken else UnknownToken)"

definition resolveOKAuthToken :: "vk_net \<Rightarrow> string \<Rightarrow> goerr + string" where
  "resolveOKAuthToken net token =
     (case classifyToken token of VkToken \<Rightarrow> vkGetCallToken net token | OkToken \<Rightarrow> Inr token | UnknownToken \<Rightarrow> Inl (Errorf ''unrecognized token format''))"

definition FetchJoinInfoWithToken :: "vk_net \<Rightarrow> string \<Rightarrow> string \<Rightarrow> string \<Rightarrow> goerr + joinConferenceResult" where
  "FetchJoinInfoWithToken net deviceID link token =
     (case resolveOKAuthToken net token of
        Inl e \<Rightarrow> Inl (Wrapf ''resolve auth token'' e)
      | Inr authToken \<Rightarrow>
          (case okAuthWithToken net authToken deviceID of
             Inl e \<Rightarrow> Inl (Wrapf ''ok auth with token'' e)
           | Inr sessionKey \<Rightarrow>
               (case okJoinConference net link [] sessionKey of
                  Inl e \<Rightarrow> Inl (Wrapf ''join conference'' e)
                | Inr r \<Rightarrow> Inr r)))"

section \<open>Properties\<close>

text \<open>The network and the solver fail with errors of their own, which are not rate limits.\<close>

definition plain_net :: "vk_net \<Rightarrow> bool" where
  "plain_net net \<longleftrightarrow> (\<forall>endpoint form e. net endpoint form = Inl e \<longrightarrow> IsRateLimitError e = None)"

lemma required_plain [simp]: "required r = Inl e \<Longrightarrow> IsRateLimitError e = None"
  by (auto simp: required_def split: option.splits if_splits)

lemma httpPost_plain: "plain_net net \<Longrightarrow> httpPost net endpoint form = Inl e \<Longrightarrow> IsRateLimitError e = None"
  by (auto simp: httpPost_def plain_net_def split: sum.splits if_splits)

lemma rate_limit_code: "checkVKRateLimit body = Some e \<Longrightarrow> \<exists>x. vkErrorResponse body = Some x \<and> ve_Code x \<in> {6, 9, 14, 29} \<and> IsRateLimitError e = Some (ve_Code x)"
  by (auto simp: checkVKRateLimit_def vkRateLimitCodes_def split: option.splits if_splits)

text \<open>Whether a response of the VK interface asks for fewer requests.\<close>

definition limited :: "vk_net \<Rightarrow> string \<Rightarrow> form \<Rightarrow> int \<Rightarrow> bool" where
  "limited net endpoint form code \<longleftrightarrow> (\<exists>body x. httpPost net endpoint form = Inr body \<and> vkErrorResponse body = Some x \<and> ve_Code x = code \<and> code \<in> {6, 9, 14, 29})"

lemma vkAPIPost_limited:
  assumes "plain_net net" "vkAPIPost net endpoint form = Inl e"
  shows "IsRateLimitError e = Some code \<longleftrightarrow> limited net endpoint form code"
  using assms httpPost_plain [OF assms(1)]
  by (auto simp: vkAPIPost_def limited_def checkVKRateLimit_def vkRateLimitCodes_def split: sum.splits option.splits if_splits)

text \<open>
  A join fails with a rate limit exactly if the response asks for fewer requests, or for a captcha that nobody can solve, or if the response to the solved captcha does.
\<close>

lemma vkJoinToken_rate_limits:
  assumes "plain_net net" "\<And>solve x e. solver = Some solve \<Longrightarrow> solve x = Inl e \<Longrightarrow> IsRateLimitError e = None"
    "vkJoinToken net fmt2 solver name link t3 = Inl err" "IsRateLimitError err = Some code"
  shows "limited net join_endpoint (join_form link name t3) code \<and> (code = 14 \<longrightarrow> solver = None) \<or>
    (\<exists>solve x token. solver = Some solve \<and> solve x = Inr token \<and> ve_Code x = 14 \<and> limited net join_endpoint (join_form link name t3 @ captcha_form fmt2 x token) code)"
proof -
  obtain body where b: "httpPost net join_endpoint (join_form link name t3) = Inr body"
    using assms(3,4) httpPost_plain [OF assms(1)] by (fastforce simp: vkJoinToken_def split: sum.splits)
  show ?thesis
  proof (cases "vkErrorResponse body")
    case None
    then show ?thesis using assms(3,4) b by (auto simp: vkJoinToken_def)
  next
    case (Some x)
    show ?thesis
    proof (cases "ve_Code x = 14")
      case True
      then show ?thesis
        using assms b Some vkAPIPost_limited [OF assms(1)] by (auto simp: vkJoinToken_def limited_def split: option.splits sum.splits)
    next
      case False
      then show ?thesis
        using assms(3,4) b Some by (auto simp: vkJoinToken_def limited_def checkVKRateLimit_def vkRateLimitCodes_def split: if_splits)
    qed
  qed
qed

text \<open>
  A join of a call whose second step is told to slow down fails with an error that the allocator of TURN connections recognises as a rate limit; a solved captcha that is followed by another
  one as well.
\<close>

lemma join_rate_limit_seen:
  assumes "vkMessagesToken net = Inr t3" "limited net join_endpoint (join_form link name t3) code" "code \<noteq> 14 \<or> solver = None"
  shows "\<exists>err. vk_FetchJoinInfo net fmt2 solver name deviceID link = Inl err \<and> IsRateLimitError err = Some code"
  using assms by (auto simp: vk_FetchJoinInfo_def vkJoinToken_def limited_def checkVKRateLimit_def vkRateLimitCodes_def Let_def)

lemma second_captcha_is_limit:
  assumes "vkMessagesToken net = Inr t3" "httpPost net join_endpoint (join_form link name t3) = Inr body" "vkErrorResponse body = Some x" "ve_Code x = 14"
    "solve x = Inr token" "limited net join_endpoint (join_form link name t3 @ captcha_form fmt2 x token) 14"
  shows "\<exists>err. vk_FetchJoinInfo net fmt2 (Some solve) name deviceID link = Inl err \<and> IsRateLimitError err = Some 14"
  using assms by (auto simp: vk_FetchJoinInfo_def vkJoinToken_def vkAPIPost_def limited_def checkVKRateLimit_def vkRateLimitCodes_def Let_def)

text \<open>The address in the credentials is the first of the servers that come with them.\<close>

lemma join_credentials:
  assumes "okJoinConference net link anonymToken sessionKey = Inr r"
  shows "Servers (jc_creds r) \<noteq> [] \<and> Host (jc_creds r) = srv_Host (hd (Servers (jc_creds r))) \<and> Port (jc_creds r) = srv_Port (hd (Servers (jc_creds r)))"
  using assms by (auto simp: okJoinConference_def turn_server_def hd_map split: sum.splits option.splits if_splits prod.splits)

text \<open>A token of an unknown form is not sent anywhere.\<close>

lemma unknown_token_unsent:
  "classifyToken token = UnknownToken \<Longrightarrow> FetchJoinInfoWithToken net deviceID link token = FetchJoinInfoWithToken net2 deviceID link token"
  by (simp add: FetchJoinInfoWithToken_def resolveOKAuthToken_def)

end
