(* ===== verification/Client_Modes.thy ===== *)
theory Client_Modes
  imports Mobile_Connect Telemost_Props
begin

text \<open>
  The run modes of the client without a session object (\<^verbatim>\<open>internal/client/client.go\<close> and \<^verbatim>\<open>proxy.go\<close>): direct mode, Telemost mode, several calls, and the front ends that
  all of them start, up to the end of the run and what is closed then.
\<close>

section \<open>The front ends\<close>

text \<open>
  While the front ends run, one of them can end, the context can end, or the multiplexer can lose its last connection.
\<close>

datatype front_event = FrontEnds | CtxEnds | MuxDies

text \<open>\<open>remaining\<close> after some events; at 0 the run is over.\<close>

definition front_step :: "nat \<Rightarrow> front_event \<Rightarrow> nat" where
  "front_step remaining e = (if remaining = 0 then 0 else case e of FrontEnds \<Rightarrow> remaining - 1 | CtxEnds \<Rightarrow> 0 | MuxDies \<Rightarrow> remaining)"

definition front_wait :: "front_event list \<Rightarrow> nat" where
  "front_wait es = foldl front_step 2 es"

text \<open>The alert for a tunnel with fewer connections than wanted.\<close>

definition degraded :: "nat \<Rightarrow> int \<Rightarrow> (nat \<times> int) option" where
  "degraded active target = (if int active < target then Some (active, target) else None)"

section \<open>Runs\<close>

text \<open>
  How a run ends: waiting for a peer until its context ends, without having started the front ends, or after them.  The record tells which connections were closed, which cleanup functions
  called, in order, and with which connections the multiplexer was made.
\<close>

record run_end =
  re_connsClosed :: "nat list"
  re_cleaned :: "nat list"
  re_mux :: "nat list option"
  re_alert :: "(nat \<times> int) option"
  re_allClosed :: bool




definition direct_preamble_ok :: "(bytes \<Rightarrow> bytes \<Rightarrow> bytes) \<Rightarrow> bytes \<Rightarrow> bytes \<Rightarrow> bytes \<Rightarrow> dconn \<Rightarrow> bool" where
  "direct_preamble_ok hmac rnd token sessionID c \<longleftrightarrow> list_all (dc_write c) [0..<length (client_preamble hmac rnd token sessionID)]"


text \<open>Direct mode: the loop over the allocations; a connection that cannot be opened is cleaned up at once, and again at the end of the run.\<close>

fun direct_conns :: "(bytes \<Rightarrow> bytes \<Rightarrow> bytes) \<Rightarrow> (nat \<Rightarrow> bytes) \<Rightarrow> bytes \<Rightarrow> bytes \<Rightarrow> (nat \<Rightarrow> goerr + dconn) \<Rightarrow> nat list \<Rightarrow> nat list \<times> nat list \<times> nat list
    \<Rightarrow> nat list \<times> nat list \<times> nat list" where
  "direct_conns hmac rnd token sessionID dial [] acc = acc"
| "direct_conns hmac rnd token sessionID dial (i # is) (cleanups, cleaned, mcs) =
     (case dial i of
        Inl e \<Rightarrow> direct_conns hmac rnd token sessionID dial is (cleanups, cleaned, mcs)
      | Inr c \<Rightarrow>
          if direct_preamble_ok hmac (rnd i) token sessionID c then direct_conns hmac rnd token sessionID dial is (cleanups @ [dc_id c], cleaned, mcs @ [dc_id c])
          else direct_conns hmac rnd token sessionID dial is (cleanups @ [dc_id c], cleaned @ [dc_id c], mcs))"

definition RunDirect ::
  "(bytes \<Rightarrow> bytes \<Rightarrow> bytes) \<Rightarrow> (nat \<Rightarrow> bytes) \<Rightarrow> bytes \<Rightarrow> bytes \<Rightarrow> bool \<Rightarrow> (goerr + nat) \<Rightarrow> (nat \<Rightarrow> goerr + dconn) \<Rightarrow> nat \<Rightarrow> run_end" where
  "RunDirect hmac rnd token sessionID resolved allocs dial n =
     (if \<not> resolved then \<lparr>re_connsClosed = [], re_cleaned = [], re_mux = None, re_alert = None, re_allClosed = False\<rparr>
      else case allocs of
             Inl e \<Rightarrow> \<lparr>re_connsClosed = [], re_cleaned = [], re_mux = None, re_alert = None, re_allClosed = True\<rparr>
           | Inr k \<Rightarrow>
               (case direct_conns hmac rnd token sessionID dial [0..<k] ([], [], []) of
                  (cleanups, cleaned, mcs) \<Rightarrow>
                    if mcs = [] then \<lparr>re_connsClosed = [], re_cleaned = cleaned @ cleanups, re_mux = None, re_alert = None, re_allClosed = True\<rparr>
                    else \<lparr>re_connsClosed = mcs, re_cleaned = cleaned @ cleanups, re_mux = Some mcs, re_alert = degraded (length mcs) (int n), re_allClosed = True\<rparr>))"

text \<open>\<open>pool\<close> is what starting the pool returns, \<open>status\<close> the connections of each of its calls.\<close>

definition RunMultiRelay :: "(goerr + nat) \<Rightarrow> nat list \<Rightarrow> (nat \<times> (nat \<times> int) option) option" where
  "RunMultiRelay pool status = (case pool of Inl e \<Rightarrow> None | Inr active \<Rightarrow> Some (sum_list status, degraded active (int (sum_list status))))"

section \<open>Properties\<close>

text \<open>The death of the tunnel does not end a run, however often it is announced.\<close>

lemma front_zero: "foldl front_step 0 es = 0"
  by (induction es) (simp_all add: front_step_def)

lemma dead_tunnel_unnoticed: "front_wait (replicate k MuxDies) = 2"
  by (induction k) (simp_all add: front_wait_def front_step_def)

lemma ctx_ends_run: "CtxEnds \<in> set es \<Longrightarrow> front_wait es = 0"
proof -
  have "CtxEnds \<in> set es \<Longrightarrow> foldl front_step r es = 0" for r
    by (induction es arbitrary: r) (auto simp: front_step_def front_zero)
  then show "CtxEnds \<in> set es \<Longrightarrow> front_wait es = 0" by (simp add: front_wait_def)
qed

text \<open>Every connection that was opened in direct mode is cleaned up, those whose preamble could not be written twice.\<close>

lemma direct_conns_acc:
  "direct_conns hmac rnd token sid dial is (cu, cl, cs) =
     (cu @ fst (direct_conns hmac rnd token sid dial is ([], [], [])), cl @ fst (snd (direct_conns hmac rnd token sid dial is ([], [], []))),
      cs @ snd (snd (direct_conns hmac rnd token sid dial is ([], [], []))))"
proof (induction "is" arbitrary: cu cl cs)
  case (Cons i "is")
  show ?case
  proof (cases "dial i")
    case (Inl e)
    then show ?thesis using Cons [of cu cl cs] by simp
  next
    case (Inr c)
    show ?thesis
    proof (cases "direct_preamble_ok hmac (rnd i) token sid c")
      case True
      then show ?thesis using Inr Cons [of "cu @ [dc_id c]" cl "cs @ [dc_id c]"] Cons [of "[dc_id c]" "[]" "[dc_id c]"] by simp
    next
      case False
      then show ?thesis using Inr Cons [of "cu @ [dc_id c]" "cl @ [dc_id c]" cs] Cons [of "[dc_id c]" "[dc_id c]" "[]"] by simp
    qed
  qed
qed simp

lemma direct_conns_count:
  "direct_conns hmac rnd token sid dial is ([], [], []) = (cu, cl, cs) \<Longrightarrow> mset cu = mset cl + mset cs"
proof (induction "is" arbitrary: cu cl cs)
  case (Cons i "is")
  obtain cu' cl' cs' where r: "direct_conns hmac rnd token sid dial is ([], [], []) = (cu', cl', cs')" by (metis prod_cases3)
  have m: "mset cu' = mset cl' + mset cs'" by (rule Cons.IH [OF r])
  note acc = direct_conns_acc [of hmac rnd token sid dial "is", unfolded r fst_conv snd_conv]
  show ?case
  proof (cases "dial i")
    case (Inl e)
    then show ?thesis using Cons.prems m r by simp
  next
    case (Inr c)
    then show ?thesis
      using Cons.prems m acc [of "[dc_id c]" "[]" "[dc_id c]"] acc [of "[dc_id c]" "[dc_id c]" "[]"]
      by (cases "direct_preamble_ok hmac (rnd i) token sid c") auto
  qed
qed simp

lemma RunDirect_cleans:
  assumes "RunDirect hmac rnd token sid True (Inr k) dial n = e" "direct_conns hmac rnd token sid dial [0..<k] ([], [], []) = (cu, cl, cs)"
  shows "mset (re_cleaned e) = mset cl + mset cl + mset cs" "re_allClosed e" "re_connsClosed e = cs"
  using assms direct_conns_count [OF assms(2)] by (auto simp: RunDirect_def)







end
