(* ===== verification/Commands.thy ===== *)
theory Commands
  imports Client_Modes Server_Sessions
begin

text \<open>
  The commands \<^verbatim>\<open>cmd/client/main.go\<close> and \<^verbatim>\<open>cmd/server/main.go\<close>: what is made of the options and the environment, up to the call that runs the mode.  The values of the options are those after
  \<^verbatim>\<open>flag.Parse\<close>; the texts of options that can be repeated are kept in order.
\<close>

section \<open>Lists in options and in the environment\<close>

definition stringSlice_Set :: "string \<Rightarrow> string list \<Rightarrow> string list" where
  "stringSlice_Set v s = foldl (\<lambda>s part. let p = TrimSpace part in if p \<noteq> [] then s @ [p] else s) s (split_on CHR '','' v)"

definition parse_slices :: "string list \<Rightarrow> string list" where
  "parse_slices vs = foldl (\<lambda>s v. stringSlice_Set v s) [] vs"

text \<open>Tokens of the environment are only split; links of the environment are read like an option.\<close>

definition vk_token_list :: "string list \<Rightarrow> string \<Rightarrow> string list" where
  "vk_token_list vkTokens env = (if vkTokens = [] \<and> env \<noteq> [] then split_on CHR '','' env else vkTokens)"

definition env_links :: "string list \<Rightarrow> string \<Rightarrow> string list" where
  "env_links callLinks env =
     (if callLinks = [] \<and> env \<noteq> []
      then foldl (\<lambda>s part. let p = TrimSpace part in if p \<noteq> [] then s @ [p] else s) [] (split_on CHR '','' env)
      else callLinks)"

section \<open>The client\<close>

record client_flags =
  cl_links :: "string list"
  cl_server :: string
  cl_vkTokens :: "string list"
  cl_fingerprint :: string

datatype client_exit = TooManyTokens | InvalidFingerprint | NoLink

datatype client_call =
    CallMulti "bool list"
  | CallTelemost
  | CallDirect
  | CallRelay

text \<open>The mode, the VK tokens and the fingerprint it is run with; \<open>CallMulti\<close> lists for each link whether its service is Telemost.\<close>

definition client_main :: "(string \<Rightarrow> bytes option) \<Rightarrow> string \<Rightarrow> client_flags \<Rightarrow> client_exit + (client_call \<times> string list \<times> bytes)" where
  "client_main hex env_VK_TOKENS f =
     (let callLinks = parse_slices (cl_links f); vkTokens = vk_token_list (parse_slices (cl_vkTokens f)) env_VK_TOKENS
      in if length vkTokens > 16 then Inl TooManyTokens
         else case (if cl_fingerprint f \<noteq> []
                    then (case hex (cl_fingerprint f) of None \<Rightarrow> None | Some fp \<Rightarrow> if length fp \<noteq> 32 then None else Some fp)
                    else Some []) of
                None \<Rightarrow> Inl InvalidFingerprint
              | Some fpBytes \<Rightarrow>
                  if callLinks = [] then Inl NoLink
                  else if length callLinks > 1 then Inr (CallMulti (map IsTelemostLink callLinks), vkTokens, fpBytes)
                  else if IsTelemostLink (callLinks ! 0) then Inr (CallTelemost, vkTokens, fpBytes)
                  else if cl_server f \<noteq> [] then Inr (CallDirect, vkTokens, fpBytes)
                  else Inr (CallRelay, vkTokens, fpBytes))"

section \<open>The server\<close>

record server_flags =
  sf_links :: "string list"
  sf_token :: string
  sf_vkTokens :: "string list"

record server_environ =
  en_VPN_TOKEN :: string
  en_VK_CALL_LINK :: string
  en_VK_TOKENS :: string

record server_config =
  sc_AuthToken :: string
  sc_VKTokens :: "string list"
  sc_Service :: "bool option"
  sc_Services :: "bool list"

definition server_main :: "server_environ \<Rightarrow> server_flags \<Rightarrow> server_config option" where
  "server_main en f =
     (let authToken = (if sf_token f = [] then en_VPN_TOKEN en else sf_token f);
          callLinks = env_links (parse_slices (sf_links f)) (en_VK_CALL_LINK en);
          vkTokens = vk_token_list (parse_slices (sf_vkTokens f)) (en_VK_TOKENS en)
      in if length vkTokens > 16 then None
         else let services = map IsTelemostLink callLinks
              in Some \<lparr>sc_AuthToken = authToken, sc_VKTokens = vkTokens,
                       sc_Service = (if callLinks \<noteq> [] then Some (services ! 0) else None),
                       sc_Services = (if length services > 1 then services else [])\<rparr>)"

definition config_mode :: "server_config \<Rightarrow> server_mode" where
  "config_mode c = Start_mode (length (sc_Services c)) (sc_Service c)"

section \<open>Properties\<close>

lemma fold_trim: "foldl (\<lambda>s part. let p = TrimSpace part in if p \<noteq> [] then s @ [p] else s) s ws = s @ filter (\<lambda>l. l \<noteq> []) (map TrimSpace ws)"
  by (induction ws arbitrary: s) (simp_all add: Let_def)

text \<open>The phone reads a list of links the way the options are read.\<close>

lemma stringSlice_Set_eq: "stringSlice_Set v s = s @ clean_links v"
  by (simp add: stringSlice_Set_def clean_links_def fold_trim)

lemma parse_slices_eq: "parse_slices vs = concat (map clean_links vs)"
proof -
  have "foldl (\<lambda>s v. stringSlice_Set v s) s vs = s @ concat (map clean_links vs)" for s
    by (induction vs arbitrary: s) (simp_all add: stringSlice_Set_eq)
  then show ?thesis by (simp add: parse_slices_def)
qed

lemma env_links_eq: "env_links ls env = (if ls = [] then clean_links env else ls)"
proof (cases "env = []")
  case True
  then show ?thesis by (simp add: env_links_def clean_links_def TrimSpace_def)
next
  case False
  then show ?thesis unfolding env_links_def clean_links_def fold_trim by simp
qed

lemma parse_slices_nonempty: "[] \<notin> set (parse_slices vs)"
  by (auto simp: parse_slices_eq clean_links_def)

text \<open>Tokens from the environment keep their blanks, and a comma too many counts as a token.\<close>

lemma env_tokens_raw: "vk_token_list [] ''a, b,'' = [''a'', '' b'', '''']" "parse_slices [''a, b,''] = [''a'', ''b'']"
  by (simp_all add: vk_token_list_def parse_slices_eq clean_links_def TrimSpace_def is_space_def)

text \<open>The mode of the server that belongs to a mode of the client.\<close>

fun served_by :: "client_call \<Rightarrow> server_mode \<Rightarrow> bool" where
  "served_by (CallMulti _) m \<longleftrightarrow> m = MultiRelay"
| "served_by CallTelemost m \<longleftrightarrow> m = Server_Sessions.Telemost"
| "served_by CallDirect m \<longleftrightarrow> m = Direct"
| "served_by CallRelay m \<longleftrightarrow> m = Relay"

text \<open>
  A client and a server that are started with the same links run modes that belong together, provided that the client is given no address; with an address and one VK link it
  asks for the direct mode, which a server with a link does not offer.
\<close>

lemma modes_agree:
  assumes "client_main hex tok f = Inr (call, vk, fp)" "server_main en g = Some c" "sf_links g = cl_links f" "cl_server f = []"
  shows "served_by call (config_mode c)"
proof -
  define ls where "ls = parse_slices (cl_links f)"
  have ne: "ls \<noteq> []" using assms(1) by (auto simp: client_main_def Let_def ls_def split: if_splits option.splits)
  then have c: "sc_Service c = Some (IsTelemostLink (ls ! 0))" "sc_Services c = (if length ls > 1 then map IsTelemostLink ls else [])"
    using assms(2,3) by (auto simp: server_main_def env_links_def Let_def ls_def nth_map split: if_splits)
  have "call = (if length ls > 1 then CallMulti (map IsTelemostLink ls) else if IsTelemostLink (ls ! 0) then CallTelemost else CallRelay)"
    using assms(1,4) by (auto simp: client_main_def Let_def ls_def split: if_splits option.splits)
  then show ?thesis using c by (simp add: config_mode_def Start_mode_def)
qed

lemma direct_needs_server_without_links:
  assumes "client_main hex tok f = Inr (CallDirect, vk, fp)" "server_main en g = Some c"
  shows "served_by CallDirect (config_mode c) \<longleftrightarrow> parse_slices (sf_links g) = [] \<and> clean_links (en_VK_CALL_LINK en) = []"
proof -
  have "env_links (parse_slices (sf_links g)) (en_VK_CALL_LINK en) = [] \<longleftrightarrow>
      parse_slices (sf_links g) = [] \<and> clean_links (en_VK_CALL_LINK en) = []"
    by (simp add: env_links_eq)
  moreover have "config_mode c = Direct \<longleftrightarrow> env_links (parse_slices (sf_links g)) (en_VK_CALL_LINK en) = []"
    using assms(2) by (auto simp: server_main_def Let_def config_mode_def Start_mode_def split: if_splits)
  ultimately show ?thesis by simp
qed

text \<open>What a command accepts.\<close>

lemma client_main_tokens: "client_main hex tok f = Inr (call, vk, fp) \<Longrightarrow> length vk \<le> 16 \<and> (fp = [] \<or> length fp = 32)"
  by (auto simp: client_main_def Let_def split: if_splits option.splits)

end
