(* ===== verification/Server_Ui.thy ===== *)
theory Server_Ui
  imports Go_Ip "HOL-Library.Multiset"
begin

text \<open>
  The local web interface of the server (\<^verbatim>\<open>cmd/server-ui/main.go\<close>) and the history of alerts (\<^verbatim>\<open>internal/monitoring/siren.go\<close>): links, logs with subscribers, the configuration file, the list of
  instances, and the requests that start and stop their servers, in the steps between which other requests can run.
\<close>

section \<open>Links\<close>

definition link_char :: "char \<Rightarrow> bool" where
  "link_char c \<longleftrightarrow> (let n = (of_char c :: nat) in 65 \<le> n \<and> n \<le> 90 \<or> 97 \<le> n \<and> n \<le> 122 \<or> 48 \<le> n \<and> n \<le> 57 \<or> c = CHR ''_'' \<or> c = CHR ''-'')"

definition link_prefix :: string where "link_prefix = ''vk.com/call/join/''"

text \<open>The first match of the pattern, which asks for at least one character behind the prefix.\<close>

fun find_link :: "string \<Rightarrow> string option" where
  "find_link [] = None"
| "find_link (c # s) =
     (let rest = drop (length link_prefix) (c # s); i = takeWhile link_char rest
      in if HasPrefix link_prefix (c # s) \<and> i \<noteq> [] then Some i else find_link s)"

definition parseCallLink :: "string \<Rightarrow> string" where
  "parseCallLink input = (case find_link input of Some i \<Rightarrow> i | None \<Rightarrow> TrimSpace input)"

section \<open>Logs\<close>

text \<open>A subscriber is a channel of 64 lines.\<close>

record logWriter =
  lw_lines :: "string list"
  lw_clients :: "(nat \<times> string list) list"
  lw_next :: nat
  lw_closed :: "nat list"

definition newLogWriter :: logWriter where
  "newLogWriter = \<lparr>lw_lines = [], lw_clients = [], lw_next = 0, lw_closed = []\<rparr>"

definition lw_line :: "string \<Rightarrow> logWriter \<Rightarrow> logWriter" where
  "lw_line line w =
     (let ls = lw_lines w @ [line]
      in w\<lparr>lw_lines := (if length ls > 5000 then drop (length ls - 5000) ls else ls),
           lw_clients := map (\<lambda>(i, ch). (i, if length ch < 64 then ch @ [line] else ch)) (lw_clients w)\<rparr>)"

definition lw_Write :: "string \<Rightarrow> logWriter \<Rightarrow> logWriter" where
  "lw_Write p w =
     foldl (\<lambda>w line. if line = [] then w else lw_line line w) w (split_on CHR 0x0A (rev (dropWhile (\<lambda>c. c = CHR 0x0A) (rev p))))"

definition lw_subscribe :: "logWriter \<Rightarrow> logWriter \<times> nat" where
  "lw_subscribe w = (w\<lparr>lw_clients := (lw_next w, []) # lw_clients w, lw_next := lw_next w + 1\<rparr>, lw_next w)"

definition lw_unsubscribe :: "nat \<Rightarrow> logWriter \<Rightarrow> logWriter" where
  "lw_unsubscribe i w = w\<lparr>lw_clients := filter (\<lambda>c. fst c \<noteq> i) (lw_clients w), lw_closed := i # lw_closed w\<rparr>"

section \<open>Configuration\<close>

record instanceConfig =
  cfg_CallLink :: string
  cfg_CallLinks :: "string list"
  cfg_AuthToken :: string

definition empty_config :: instanceConfig where
  "empty_config = \<lparr>cfg_CallLink = [], cfg_CallLinks = [], cfg_AuthToken = []\<rparr>"

definition config_links :: "instanceConfig \<Rightarrow> string list" where
  "config_links ic = (if cfg_CallLinks ic \<noteq> [] then cfg_CallLinks ic else if cfg_CallLink ic \<noteq> [] then [cfg_CallLink ic] else [])"

text \<open>The file: what reading it as a list of instances and in the old format gives.\<close>

record config_file =
  cf_new :: "instanceConfig list option"
  cf_legacy :: "(string \<times> string) option"

definition saveConfig :: "instanceConfig list \<Rightarrow> config_file option" where
  "saveConfig cfg = Some \<lparr>cf_new = Some cfg, cf_legacy = Some ([], [])\<rparr>"

definition loadConfig :: "config_file option \<Rightarrow> instanceConfig list \<times> config_file option" where
  "loadConfig file =
     (case file of
        None \<Rightarrow> ([empty_config], file)
      | Some f \<Rightarrow>
          (case cf_new f of
             Some (c # cs) \<Rightarrow> (c # cs, file)
           | _ \<Rightarrow>
               (case cf_legacy f of
                  Some (link, token) \<Rightarrow>
                    if link \<noteq> [] \<or> token \<noteq> []
                    then (let cfg = [\<lparr>cfg_CallLink = link, cfg_CallLinks = [], cfg_AuthToken = token\<rparr>] in (cfg, saveConfig cfg))
                    else ([empty_config], file)
                | None \<Rightarrow> ([empty_config], file))))"

definition extend_config :: "nat \<Rightarrow> instanceConfig list \<Rightarrow> instanceConfig list" where
  "extend_config i cfg = cfg @ replicate (i + 1 - length cfg) empty_config"

text \<open>What \<^verbatim>\<open>handleConnect\<close> saves.\<close>

definition connect_config :: "nat \<Rightarrow> string \<Rightarrow> string \<Rightarrow> instanceConfig list \<Rightarrow> instanceConfig list" where
  "connect_config i link token cfg = (extend_config i cfg)[i := \<lparr>cfg_CallLink = link, cfg_CallLinks = [], cfg_AuthToken = token\<rparr>]"

definition remove_config :: "nat \<Rightarrow> instanceConfig list \<Rightarrow> instanceConfig list" where
  "remove_config i cfg = (if i < length cfg then take i cfg @ drop (i + 1) cfg else cfg)"

section \<open>Instances\<close>

text \<open>Instances are shared by pointer: \<open>ui_list\<close> holds indices into \<open>ui_store\<close>.  Servers are numbered in the order they are started; \<open>ui_running\<close> are those that run.\<close>

record ui_instance =
  ui_srv :: "nat option"
  ui_connected :: bool

record appState =
  ui_list :: "nat list"
  ui_store :: "ui_instance list"
  ui_running :: "nat list"
  ui_started :: nat

definition new_instance :: ui_instance where
  "new_instance = \<lparr>ui_srv = None, ui_connected = False\<rparr>"

definition newAppState :: "nat \<Rightarrow> appState" where
  "newAppState n = \<lparr>ui_list = [0..<n], ui_store = replicate n new_instance, ui_running = [], ui_started = 0\<rparr>"

definition getInstance :: "int \<Rightarrow> appState \<Rightarrow> nat option" where
  "getInstance i s = (if i < 0 \<or> i \<ge> int (length (ui_list s)) then None else Some (ui_list s ! nat i))"

definition addInstance :: "appState \<Rightarrow> appState \<times> nat" where
  "addInstance s = (s\<lparr>ui_store := ui_store s @ [new_instance], ui_list := ui_list s @ [length (ui_store s)]\<rparr>, length (ui_list s))"

definition removeInstance :: "int \<Rightarrow> appState \<Rightarrow> appState \<times> bool" where
  "removeInstance i s =
     (if i < 0 \<or> i \<ge> int (length (ui_list s)) \<or> length (ui_list s) \<le> 1 then (s, False)
      else if ui_connected (ui_store s ! (ui_list s ! nat i)) then (s, False)
      else (s\<lparr>ui_list := take (nat i) (ui_list s) @ drop (nat i + 1) (ui_list s)\<rparr>, True))"

text \<open>The steps of \<^verbatim>\<open>handleConnect\<close>: the checks, starting a server, and storing it in the instance.\<close>

datatype ui_error = EmptyLink | InvalidInstance | AlreadyConnected

definition connect_check :: "string \<Rightarrow> int \<Rightarrow> appState \<Rightarrow> ui_error + nat" where
  "connect_check link i s =
     (if parseCallLink link = [] then Inl EmptyLink
      else case getInstance i s of
             None \<Rightarrow> Inl InvalidInstance
           | Some p \<Rightarrow> if ui_connected (ui_store s ! p) then Inl AlreadyConnected else Inr p)"

definition connect_start :: "appState \<Rightarrow> appState \<times> nat" where
  "connect_start s = (s\<lparr>ui_running := ui_running s @ [ui_started s], ui_started := ui_started s + 1\<rparr>, ui_started s)"

definition connect_install :: "nat \<Rightarrow> nat \<Rightarrow> appState \<Rightarrow> appState" where
  "connect_install p srv s = s\<lparr>ui_store := (ui_store s)[p := \<lparr>ui_srv = Some srv, ui_connected = True\<rparr>]\<rparr>"

definition ui_handleConnect :: "string \<Rightarrow> int \<Rightarrow> appState \<Rightarrow> appState \<times> ui_error option" where
  "ui_handleConnect link i s =
     (case connect_check link i s of
        Inl e \<Rightarrow> (s, Some e)
      | Inr p \<Rightarrow> (case connect_start s of (s1, srv) \<Rightarrow> (connect_install p srv s1, None)))"

text \<open>The goroutine that watches a server: what happens when it has stopped.\<close>

definition server_stopped :: "nat \<Rightarrow> nat \<Rightarrow> appState \<Rightarrow> appState" where
  "server_stopped p srv s =
     (let s1 = s\<lparr>ui_running := remove1 srv (ui_running s)\<rparr>
      in if ui_srv (ui_store s1 ! p) = Some srv then s1\<lparr>ui_store := (ui_store s1)[p := new_instance]\<rparr> else s1)"

text \<open>\<^verbatim>\<open>handleDisconnect\<close> waits for the server it has cancelled.\<close>

definition ui_handleDisconnect :: "int \<Rightarrow> appState \<Rightarrow> appState \<times> ui_error option" where
  "ui_handleDisconnect i s =
     (case getInstance i s of
        None \<Rightarrow> (s, Some InvalidInstance)
      | Some p \<Rightarrow>
          (let s1 = s\<lparr>ui_store := (ui_store s)[p := new_instance]\<rparr>
           in (case ui_srv (ui_store s ! p) of None \<Rightarrow> s1 | Some srv \<Rightarrow> s1\<lparr>ui_running := remove1 srv (ui_running s1)\<rparr>, None)))"

text \<open>The requests that change the file as well.\<close>

definition handleConfig :: "instanceConfig list option \<Rightarrow> config_file option \<Rightarrow> instanceConfig list \<times> config_file option" where
  "handleConfig post file =
     (case post of
        None \<Rightarrow> loadConfig file
      | Some cfg \<Rightarrow> (let cfg = (if cfg = [] then [empty_config] else cfg) in (cfg, saveConfig cfg)))"

definition handleAddInstance :: "appState \<Rightarrow> config_file option \<Rightarrow> appState \<times> config_file option \<times> nat" where
  "handleAddInstance s file = (case addInstance s of (s1, i) \<Rightarrow> (s1, saveConfig (extend_config i (fst (loadConfig file))), i))"

definition handleRemoveInstance :: "int \<Rightarrow> appState \<Rightarrow> config_file option \<Rightarrow> appState \<times> config_file option \<times> bool" where
  "handleRemoveInstance i s file =
     (case removeInstance i s of
        (s1, False) \<Rightarrow> (s1, file, False)
      | (s1, True) \<Rightarrow> (s1, saveConfig (remove_config (nat i) (fst (loadConfig file))), True))"

section \<open>Alerts\<close>

definition maxHistory :: nat where "maxHistory = 1000"

definition siren_Send :: "'a \<Rightarrow> 'a list \<Rightarrow> 'a list" where
  "siren_Send alert history = (let h = history @ [alert] in if length h > maxHistory then drop (length h - maxHistory) h else h)"

section \<open>Properties\<close>

lemma last_step:
  "drop (length (drop (length xs - m) xs @ [a]) - m) (drop (length xs - m) xs @ [a]) = drop (length (xs @ [a]) - m) (xs @ [a])"
  by (cases "length xs < m") (auto simp: Suc_diff_le)

lemma siren_Send_eq: "siren_Send a history = drop (length (history @ [a]) - maxHistory) (history @ [a])"
  by (auto simp: siren_Send_def Let_def)

text \<open>The history holds the last alerts.\<close>

lemma siren_history: "length history \<le> maxHistory \<Longrightarrow> foldl (\<lambda>h a. siren_Send a h) history as = drop (length (history @ as) - maxHistory) (history @ as)"
proof (induction as rule: rev_induct)
  case (snoc a as)
  have "foldl (\<lambda>h a. siren_Send a h) history (as @ [a]) = siren_Send a (drop (length (history @ as) - maxHistory) (history @ as))" using snoc by simp
  also have "\<dots> = drop (length ((history @ as) @ [a]) - maxHistory) ((history @ as) @ [a])" unfolding siren_Send_eq by (rule last_step)
  finally show ?case by simp
qed simp

text \<open>No line is sent to a channel after it was closed: a closed channel is no subscriber any more.\<close>

definition lw_ok :: "logWriter \<Rightarrow> bool" where
  "lw_ok w \<longleftrightarrow> distinct (map fst (lw_clients w)) \<and> (\<forall>c\<in>set (lw_clients w). fst c < lw_next w \<and> length (snd c) \<le> 64 \<and> fst c \<notin> set (lw_closed w)) \<and>
     (\<forall>i\<in>set (lw_closed w). i < lw_next w) \<and> length (lw_lines w) \<le> 5000"

lemma lw_line_ok: "lw_ok w \<Longrightarrow> lw_ok (lw_line line w)"
  by (auto simp: lw_ok_def lw_line_def Let_def split_beta comp_def)

lemma lw_Write_ok: "lw_ok w \<Longrightarrow> lw_ok (lw_Write p w)"
proof -
  have "lw_ok w \<Longrightarrow> lw_ok (foldl (\<lambda>w line. if line = [] then w else lw_line line w) w ls)" for ls
    by (induction ls arbitrary: w) (auto intro: lw_line_ok)
  then show "lw_ok w \<Longrightarrow> lw_ok (lw_Write p w)" by (simp add: lw_Write_def)
qed

lemma lw_subscribe_ok: "lw_ok w \<Longrightarrow> lw_ok (fst (lw_subscribe w))"
  by (auto simp: lw_ok_def lw_subscribe_def less_Suc_eq)

lemma lw_unsubscribe_ok: "lw_ok w \<Longrightarrow> i < lw_next w \<Longrightarrow> lw_ok (lw_unsubscribe i w)"
  by (auto simp: lw_ok_def lw_unsubscribe_def intro: distinct_map_filter)

text \<open>Saving what was loaded changes nothing.\<close>

lemma config_roundtrip: "cfg \<noteq> [] \<Longrightarrow> fst (loadConfig (saveConfig cfg)) = cfg"
  by (cases cfg) (simp_all add: loadConfig_def saveConfig_def)

text \<open>
  The list of instances and the one in the file keep the same length when instances are added and removed, so that an instance gets back its own link when the program starts again.
\<close>

lemma loadConfig_nonempty: "fst (loadConfig file) \<noteq> []"
  by (auto simp: loadConfig_def Let_def split: option.splits list.splits)

lemma add_keeps_config:
  assumes "length (fst (loadConfig file)) = length (ui_list s)" "handleAddInstance s file = (s1, file1, i)"
  shows "length (fst (loadConfig file1)) = length (ui_list s1)" "i = length (ui_list s)" "take i (fst (loadConfig file1)) = fst (loadConfig file)"
  using assms by (auto simp: handleAddInstance_def addInstance_def extend_config_def config_roundtrip)

lemma remove_keeps_config:
  assumes "length (fst (loadConfig file)) = length (ui_list s)" "handleRemoveInstance i s file = (s1, file1, ok)"
  shows "length (fst (loadConfig file1)) = length (ui_list s1)"
proof (cases "snd (removeInstance i s)")
  case True
  then have r: "0 \<le> i" "nat i < length (ui_list s)" "length (ui_list s) > 1"
    and s1: "removeInstance i s = (s\<lparr>ui_list := take (nat i) (ui_list s) @ drop (nat i + 1) (ui_list s)\<rparr>, True)"
    by (auto simp: removeInstance_def split: if_splits)
  define cfg where "cfg = fst (loadConfig file)"
  have l: "length cfg = length (ui_list s)" using assms(1) by (simp add: cfg_def)
  then have n: "length (remove_config (nat i) cfg) = length (ui_list s) - 1" using r by (simp add: remove_config_def)
  then have "remove_config (nat i) cfg \<noteq> []" using r(3) by (metis length_0_conv zero_less_diff less_numeral_extra(3))
  then show ?thesis using assms(2) s1 n r(2) by (simp add: handleRemoveInstance_def config_roundtrip flip: cfg_def) (auto simp: config_roundtrip)
next
  case False
  then show ?thesis using assms by (auto simp: handleRemoveInstance_def removeInstance_def split: if_splits)
qed

text \<open>Connecting an instance forgets its list of links.\<close>

lemma connect_drops_links: "config_links (connect_config i link token cfg ! i) = (if link = [] then [] else [link])"
  by (simp add: connect_config_def extend_config_def config_links_def)

lemma find_link_skip: "c \<noteq> CHR ''v'' \<Longrightarrow> find_link (c # s) = find_link s"
  by (simp add: HasPrefix_def link_prefix_def Let_def)

lemma find_link_here:
  assumes "i \<noteq> []" "list_all link_char i"
  shows "find_link (link_prefix @ i) = Some i"
proof -
  have "HasPrefix link_prefix (link_prefix @ i)" "takeWhile link_char (drop (length link_prefix) (link_prefix @ i)) = i"
    using assms by (simp_all add: HasPrefix_def takeWhile_eq_all_conv list_all_iff)
  then show ?thesis using assms(1) by (cases "link_prefix @ i") (simp_all add: Let_def)
qed

lemma parse_full_link: "i \<noteq> [] \<Longrightarrow> list_all link_char i \<Longrightarrow> parseCallLink (''https://'' @ link_prefix @ i) = i"
  using find_link_here [of i] by (simp add: parseCallLink_def find_link_skip del: find_link.simps)

text \<open>The servers of the instances that can be reached.\<close>

definition owned :: "appState \<Rightarrow> nat list" where
  "owned s = List.map_filter (\<lambda>p. ui_srv (ui_store s ! p)) (ui_list s)"

definition ui_ok :: "appState \<Rightarrow> bool" where
  "ui_ok s \<longleftrightarrow> distinct (ui_list s) \<and> list_all (\<lambda>p. p < length (ui_store s)) (ui_list s) \<and> list_all (\<lambda>p. ui_connected (ui_store s ! p) \<longleftrightarrow> ui_srv (ui_store s ! p) \<noteq> None) (ui_list s) \<and>
     mset (owned s) = mset (ui_running s) \<and> list_all (\<lambda>r. r < ui_started s) (ui_running s) \<and> distinct (ui_running s)"

text \<open>Requests one after the other, and servers that stop by themselves.\<close>

inductive ui_step :: "appState \<Rightarrow> appState \<Rightarrow> bool" where
  ui_add: "ui_step s (fst (addInstance s))"
| ui_remove: "ui_step s (fst (removeInstance i s))"
| ui_connect: "ui_step s (fst (ui_handleConnect link i s))"
| ui_disconnect: "ui_step s (fst (ui_handleDisconnect i s))"
| ui_stop: "p \<in> set (ui_list s) \<Longrightarrow> ui_srv (ui_store s ! p) = Some srv \<Longrightarrow> ui_step s (server_stopped p srv s)"

lemma map_filter_cong_upd:
  "p \<notin> set ps \<Longrightarrow> List.map_filter (\<lambda>q. f (xs[p := x] ! q)) ps = List.map_filter (\<lambda>q. f (xs ! q)) ps"
  by (induction ps) (auto simp: map_filter_simps split: option.split)

lemma owned_update:
  assumes "distinct ps" "p \<in> set ps" "p < length xs"
  shows "mset (List.map_filter (\<lambda>q. ui_srv (xs[p := x] ! q)) ps) + (case ui_srv (xs ! p) of None \<Rightarrow> {#} | Some a \<Rightarrow> {#a#}) =
     mset (List.map_filter (\<lambda>q. ui_srv (xs ! q)) ps) + (case ui_srv x of None \<Rightarrow> {#} | Some a \<Rightarrow> {#a#})"
  using assms
proof (induction ps)
  case (Cons q ps)
  show ?case
  proof (cases "p = q")
    case True
    then show ?thesis using Cons.prems map_filter_cong_upd [of p ps ui_srv xs x] by (auto simp: map_filter_simps split: option.split)
  next
    case False
    then show ?thesis using Cons by (auto simp: map_filter_simps split: option.splits)
  qed
qed simp

lemma map_filter_append_store: "set ps \<subseteq> {..<length xs} \<Longrightarrow> List.map_filter (\<lambda>q. f ((xs @ ys) ! q)) ps = List.map_filter (\<lambda>q. f (xs ! q)) ps"
  by (induction ps) (auto simp: map_filter_simps nth_append split: option.split)

lemma getInstance_mem: "getInstance i s = Some p \<Longrightarrow> p \<in> set (ui_list s)"
  by (auto simp: getInstance_def split: if_splits)

lemma ui_ok_instance:
  assumes "ui_ok s" "p \<in> set (ui_list s)"
  shows "p < length (ui_store s)" "ui_connected (ui_store s ! p) \<longleftrightarrow> ui_srv (ui_store s ! p) \<noteq> None"
  using assms by (auto simp: ui_ok_def list_all_iff)

text \<open>Replacing the record of an instance together with the servers that run.\<close>

lemma ui_ok_update:
  assumes ok: "ui_ok s" and p: "p \<in> set (ui_list s)" and x: "ui_connected x \<longleftrightarrow> ui_srv x \<noteq> None"
    and r: "mset run + (case ui_srv (ui_store s ! p) of None \<Rightarrow> {#} | Some a \<Rightarrow> {#a#}) = mset (ui_running s) + (case ui_srv x of None \<Rightarrow> {#} | Some a \<Rightarrow> {#a#})"
    and run: "list_all (\<lambda>r. r < ui_started s') run" "distinct run"
    and s': "ui_list s' = ui_list s" "ui_store s' = (ui_store s)[p := x]" "ui_running s' = run"
  shows "ui_ok s'"
proof -
  have l: "p < length (ui_store s)" "distinct (ui_list s)" using ok p by (auto simp: ui_ok_def list_all_iff)
  have "mset (List.map_filter (\<lambda>q. ui_srv ((ui_store s)[p := x] ! q)) (ui_list s)) + (case ui_srv (ui_store s ! p) of None \<Rightarrow> {#} | Some a \<Rightarrow> {#a#}) =
      mset (ui_running s) + (case ui_srv x of None \<Rightarrow> {#} | Some a \<Rightarrow> {#a#})"
    using owned_update [OF l(2) p l(1), of x] ok by (simp add: ui_ok_def owned_def)
  then have "mset (List.map_filter (\<lambda>q. ui_srv ((ui_store s)[p := x] ! q)) (ui_list s)) = mset run" using r by (metis add_right_cancel)
  moreover have "list_all (\<lambda>q. ui_connected ((ui_store s)[p := x] ! q) \<longleftrightarrow> ui_srv ((ui_store s)[p := x] ! q) \<noteq> None) (ui_list s)"
    using ok x l(1) by (auto simp: ui_ok_def list_all_iff nth_list_update)
  ultimately show ?thesis using ok run s' by (simp add: ui_ok_def owned_def)
qed

lemma ui_ok_connect: "ui_ok s \<Longrightarrow> ui_ok (fst (ui_handleConnect link i s))"
proof (cases "connect_check link i s")
  case (Inr p)
  assume ok: "ui_ok s"
  have p: "p \<in> set (ui_list s)" "\<not> ui_connected (ui_store s ! p)" using Inr getInstance_mem by (auto simp: connect_check_def split: if_splits option.splits)
  have n: "ui_srv (ui_store s ! p) = None" using ui_ok_instance [OF ok p(1)] p(2) by simp
  have "ui_ok (connect_install p (ui_started s) (fst (connect_start s)))"
    by (rule ui_ok_update [OF ok p(1), of "\<lparr>ui_srv = Some (ui_started s), ui_connected = True\<rparr>" "ui_running s @ [ui_started s]"])
      (use ok n in \<open>auto simp: ui_ok_def list_all_iff connect_start_def connect_install_def\<close>)
  then show ?thesis by (simp add: ui_handleConnect_def Inr connect_start_def)
qed (simp add: ui_handleConnect_def)

lemma owned_running: "ui_ok s \<Longrightarrow> p \<in> set (ui_list s) \<Longrightarrow> ui_srv (ui_store s ! p) = Some srv \<Longrightarrow> srv \<in> set (ui_running s)"
proof -
  assume ok: "ui_ok s" and p: "p \<in> set (ui_list s)" "ui_srv (ui_store s ! p) = Some srv"
  have "srv \<in> set (owned s)" using p by (force simp: owned_def map_filter_def)
  moreover have "set (owned s) = set (ui_running s)" using ok by (metis ui_ok_def mset_eq_setD)
  ultimately show ?thesis by simp
qed

lemma ui_ok_cleared:
  assumes "ui_ok s" "p \<in> set (ui_list s)" "ui_srv (ui_store s ! p) = Some srv"
    "ui_list s' = ui_list s" "ui_store s' = (ui_store s)[p := new_instance]" "ui_running s' = remove1 srv (ui_running s)" "ui_started s' = ui_started s"
  shows "ui_ok s'"
proof (rule ui_ok_update [OF assms(1,2) _ _ _ _ assms(4-6)])
  show "ui_connected new_instance \<longleftrightarrow> ui_srv new_instance \<noteq> None" by (simp add: new_instance_def)
  show "mset (remove1 srv (ui_running s)) + (case ui_srv (ui_store s ! p) of None \<Rightarrow> {#} | Some a \<Rightarrow> {#a#}) =
      mset (ui_running s) + (case ui_srv new_instance of None \<Rightarrow> {#} | Some a \<Rightarrow> {#a#})"
    using owned_running [OF assms(1-3)] assms(3) by (simp add: new_instance_def)
  show "list_all (\<lambda>r. r < ui_started s') (remove1 srv (ui_running s))" "distinct (remove1 srv (ui_running s))"
    using assms(1,7) by (auto simp: ui_ok_def list_all_iff dest: in_set_remove1 [THEN iffD1, rotated] notin_set_remove1)
qed

lemma ui_ok_disconnect: "ui_ok s \<Longrightarrow> ui_ok (fst (ui_handleDisconnect i s))"
proof (cases "getInstance i s")
  case (Some p)
  assume ok: "ui_ok s"
  have p: "p \<in> set (ui_list s)" using getInstance_mem [OF Some] .
  show ?thesis
  proof (cases "ui_srv (ui_store s ! p)")
    case None
    have "ui_ok (s\<lparr>ui_store := (ui_store s)[p := new_instance]\<rparr>)"
      by (rule ui_ok_update [OF ok p, of new_instance "ui_running s"]) (use None ok in \<open>auto simp: new_instance_def ui_ok_def\<close>)
    then show ?thesis using Some None by (simp add: ui_handleDisconnect_def)
  next
    case (Some srv)
    show ?thesis by (rule ui_ok_cleared [OF ok p Some]) (simp_all add: ui_handleDisconnect_def Some \<open>getInstance i s = Some p\<close>)
  qed
qed (simp add: ui_handleDisconnect_def)

lemma ui_ok_stopped: "ui_ok s \<Longrightarrow> p \<in> set (ui_list s) \<Longrightarrow> ui_srv (ui_store s ! p) = Some srv \<Longrightarrow> ui_ok (server_stopped p srv s)"
  by (rule ui_ok_cleared [of s p srv]) (simp_all add: server_stopped_def Let_def)

lemma ui_ok_add: "ui_ok s \<Longrightarrow> ui_ok (fst (addInstance s))"
proof -
  assume ok: "ui_ok s"
  then have "set (ui_list s) \<subseteq> {..<length (ui_store s)}" by (auto simp: ui_ok_def list_all_iff)
  then show ?thesis using ok map_filter_append_store [of "ui_list s" "ui_store s" ui_srv "[new_instance]"]
    by (auto simp: ui_ok_def addInstance_def owned_def list_all_iff nth_append new_instance_def map_filter_def)
qed

lemma ui_ok_remove: "ui_ok s \<Longrightarrow> ui_ok (fst (removeInstance i s))"
proof (cases "snd (removeInstance i s)")
  case True
  assume ok: "ui_ok s"
  define k where "k = nat i"
  have k: "k < length (ui_list s)" "\<not> ui_connected (ui_store s ! (ui_list s ! k))"
    and r: "removeInstance i s = (s\<lparr>ui_list := take k (ui_list s) @ drop (k + 1) (ui_list s)\<rparr>, True)"
    using True by (auto simp: removeInstance_def k_def split: if_splits)
  have l: "ui_list s = take k (ui_list s) @ ui_list s ! k # drop (k + 1) (ui_list s)" using k(1) by (simp add: id_take_nth_drop)
  have "ui_srv (ui_store s ! (ui_list s ! k)) = None" using ui_ok_instance [OF ok, of "ui_list s ! k"] k by simp
  then have "owned (s\<lparr>ui_list := take k (ui_list s) @ drop (k + 1) (ui_list s)\<rparr>) = owned s"
    by (subst (2) owned_def, subst l) (simp add: owned_def map_filter_def)
  moreover have "distinct (take k (ui_list s) @ drop (k + 1) (ui_list s)) \<and> set (take k (ui_list s) @ drop (k + 1) (ui_list s)) \<subseteq> set (ui_list s)"
    using ok l by (metis (no_types, lifting) distinct_append distinct.simps(2) set_append set_subset_Cons ui_ok_def Un_mono disjoint_insert(1) list.simps(15) order_refl)
  ultimately show ?thesis using ok r by (auto simp: ui_ok_def list_all_iff subset_iff)
next
  case False
  assume ok: "ui_ok s"
  have "fst (removeInstance i s) = s" using False by (auto simp: removeInstance_def split: if_splits)
  then show ?thesis using ok by simp
qed

text \<open>
  As long as the requests to the web interface are handled one after the other, every server that runs belongs to exactly one instance of the list, and an instance is shown as connected
  exactly if it has one, so that every server can be stopped.
\<close>

lemma ui_servers_owned:
  assumes "ui_step\<^sup>*\<^sup>* (newAppState n) s"
  shows "mset (owned s) = mset (ui_running s) \<and> distinct (ui_running s) \<and>
    list_all (\<lambda>p. ui_connected (ui_store s ! p) \<longleftrightarrow> ui_srv (ui_store s ! p) \<noteq> None) (ui_list s)"
proof -
  have "ui_ok s" using assms
  proof (induction rule: rtranclp_induct)
    case base
    have "List.map_filter (\<lambda>p. ui_srv (replicate n new_instance ! p)) [0..<n] = []" by (auto simp: map_filter_def filter_empty_conv new_instance_def)
    then show ?case by (auto simp: ui_ok_def newAppState_def owned_def list_all_iff new_instance_def)
  next
    case (step s s')
    from step(2,3) show ?case by (cases rule: ui_step.cases) (auto intro: ui_ok_add ui_ok_remove ui_ok_connect ui_ok_disconnect ui_ok_stopped)
  qed
  then show ?thesis by (simp add: ui_ok_def)
qed

text \<open>
  Two requests to connect the same instance at the same time both pass the check; the server of the first is overwritten, runs on, and no request can stop it.
\<close>

lemma concurrent_connects_leak:
  "\<exists>p s1 srv1 s2 srv2. connect_check ''a'' 0 (newAppState 1) = Inr p \<and> connect_start (newAppState 1) = (s1, srv1) \<and> connect_check ''a'' 0 s1 = Inr p \<and>
     connect_start (connect_install p srv1 s1) = (s2, srv2) \<and>
     (let s3 = connect_install p srv2 s2; s4 = fst (ui_handleDisconnect 0 s3) in owned s3 = [srv2] \<and> ui_running s4 = [srv1] \<and> owned s4 = [])"
proof -
  have "parseCallLink ''a'' = ''a''" by (simp add: parseCallLink_def HasPrefix_def link_prefix_def TrimSpace_def is_space_def Let_def)
  then show ?thesis
    by (simp add: connect_check_def connect_start_def connect_install_def getInstance_def newAppState_def new_instance_def ui_handleDisconnect_def owned_def map_filter_def Let_def)
qed

end
