(* ===== verification/Spec2Isabelle.thy ===== *)
theory Spec2Isabelle
  imports Mux_Swrr Mux_Conns Mux_Invariant Mux_Lifecycle Mux_Conn_Props Rtp_Transfer Turn_Props Socks5 Pool_Props Server_Props Speedtest_Props Tunnel_Proxy Dtls_Props Mobile_Props Telemost_Props Vk_Service Client_Modes Commands Server_Ui
begin

text \<open>
  Verification of the core of the proxy, a VPN that carries the traffic of a client to a server through the calls of VK and Yandex Telemost (Go sources under
  \<^verbatim>\<open>src/\<close>).

  \<^bold>\<open>How the program works.\<close>  A front end of the client (SOCKS5, HTTP, or raw packets of a phone) opens a stream of the multiplexer and writes the address of the
  target to it; the multiplexer cuts what is written into frames and spreads them over several connections; each connection is DTLS over a TURN relay of a call, or video
  frames through the media server of a meeting; the server's multiplexer puts the frames of a stream in order again, reads the address and dials it.  Which relays talk to each other is agreed
  through the signaling channel of the call.  Connections, calls and sessions that die are replaced.

  \<^bold>\<open>Parts.\<close>
  \<^item> \<open>Proxy_Prelude\<close>: types of machine words, byte order, slices, \<^verbatim>\<open>io.ReadFull\<close>, panics, comparisons of wrapping numbers, shared lemmas.  \<open>Go_Net\<close>, \<open>Go_Ip\<close>,
    \<open>Go_Base64\<close>, \<open>Go_Heap\<close>: what the sources use of Go's \<^verbatim>\<open>strings\<close>, \<^verbatim>\<open>strconv\<close>, \<^verbatim>\<open>net\<close>, \<^verbatim>\<open>encoding/base64\<close> and \<^verbatim>\<open>container/heap\<close>, and errors with wrapping.
  \<^item> Multiplexer (\<^verbatim>\<open>internal/mux\<close>): \<open>Mux_Frame\<close> (\<^verbatim>\<open>protocol.go\<close>, \<^verbatim>\<open>session.go\<close>), \<open>Ring_Buffers\<close> (\<^verbatim>\<open>ringbuf.go\<close>, the retransmission ring), \<open>Reorder_Buffer\<close>,
    \<open>Mux_State\<close>, \<open>Mux_Conns\<close> and \<open>Mux_Stream\<close> (\<^verbatim>\<open>mux.go\<close>: state and choice of a connection; connections; streams and dispatcher).  Facts: \<open>Mux_Swrr\<close> (fair choice), \<open>Mux_Invariant\<close>
    (bookkeeping, no panics), \<open>Mux_Transfer\<close> (from \<^verbatim>\<open>Write\<close> to \<^verbatim>\<open>Read\<close>), \<open>Mux_Lifecycle\<close> (shutdown under every interleaving), \<open>Mux_Conn_Props\<close> (latency, rotation).
  \<^item> Telemost (\<^verbatim>\<open>internal/provider/telemost\<close>): \<open>Fec\<close>, \<open>Nack\<close>, \<open>Rtp_Frame\<close>, \<open>Rtp_Conn\<close> (\<^verbatim>\<open>fec.go\<close>, \<^verbatim>\<open>nack.go\<close>, \<^verbatim>\<open>rtpconn.go\<close>) with \<open>Rtp_Reassembly\<close> and \<open>Rtp_Transfer\<close> (delivery over a lossy track);
    \<open>Goloom\<close> (\<^verbatim>\<open>goloom.go\<close>), \<open>Telemost\<close> (\<^verbatim>\<open>telemost.go\<close>, \<^verbatim>\<open>webrtc.go\<close>, \<^verbatim>\<open>displaynames.go\<close>) with \<open>Telemost_Props\<close> (pairing, keys, discovery of participants).
  \<^item> VK (\<^verbatim>\<open>internal/provider/vk\<close>): \<open>Vk_Service\<close> (\<^verbatim>\<open>vk.go\<close>: the chain of requests that joins a call), \<open>Vk_Signal\<close> (\<^verbatim>\<open>signal.go\<close>) with \<open>Vk_Signal_Props\<close> (batches of addresses arrive once and in order).
  \<^item> TURN and DTLS: \<open>Turn_Manager\<close> with \<open>Turn_Props\<close> (\<^verbatim>\<open>internal/turn\<close>: credentials, one allocation, allocation in batches with retries), \<open>Dtls_Bridge\<close> with \<open>Dtls_Props\<close>
    (\<^verbatim>\<open>internal/dtls\<close>: punch probes, the bridge between relay and DTLS as two goroutines, removal).
  \<^item> Several calls (\<^verbatim>\<open>internal/tunnel\<close>): \<open>Call_Slot\<close> with \<open>Slot_Props\<close> (one call, both sides), \<open>Signaling_Router\<close>, \<open>Call_Pool\<close> with \<open>Pool_Props\<close> (the pool, its monitor and its reconnecting goroutines in steps).
  \<^item> Client (\<^verbatim>\<open>internal/client\<close>): \<open>Relay_Session\<close> with \<open>Relay_Props\<close> (a session over one call and the server's side of it), \<open>Reconnect\<close> with \<open>Reconnect_Props\<close>, \<open>Socks5\<close>, \<open>Http_Proxy\<close> and
    \<open>Tunnel_Proxy\<close> (front ends and dialling through the tunnel); \<open>Client_Modes\<close> (\<^verbatim>\<open>client.go\<close>: direct mode, Telemost mode and several calls).
  \<^item> Server (\<^verbatim>\<open>internal/server\<close>): \<open>Server_Sessions\<close> with \<open>Server_Props\<close>; \<open>Speedtest\<close> with \<open>Speedtest_Props\<close> (\<^verbatim>\<open>internal/speedtest\<close>).
  \<^item> Commands (\<^verbatim>\<open>cmd\<close>): \<open>Commands\<close> (options, environment and the mode that client and server run), \<open>Server_Ui\<close> (the web interface of the server and the history of alerts of \<^verbatim>\<open>internal/monitoring\<close>).
  \<^item> Phone (\<^verbatim>\<open>mobile/bind\<close>): \<open>Mobile_Connect\<close>, \<open>Mobile_Tunnel\<close> with \<open>Mobile_Props\<close> (the threads of the library as a transition system).

  \<^bold>\<open>Conventions.\<close>  A struct is a record and an enumeration a datatype; a field of a fixed width is a word, other integers are \<open>int\<close> or \<open>nat\<close> (\<open>i64\<close> where a sum may wrap); objects that goroutines share are numbers
  that index a store inside the state; channels are lists; a failing call returns \<open>Inl\<close>, a panic is a value of type \<open>panic\<close>, a call that may wait is an option or an \<open>outcome\<close>.  Transport, TURN, DTLS, WebRTC, WebSocket, HTTP, HMAC and hash functions,
  random bytes, clocks and the choices of \<^verbatim>\<open>select\<close>, map ranges and the scheduler are arguments (often called \<open>wok\<close>, \<open>net\<close>, \<open>env\<close>, \<open>hmac\<close>, \<open>now\<close>, \<open>pick\<close>), so that a theorem holds for all of
  their answers.  Goroutines that interleave are steps of an inductive relation, and a theorem about them speaks of every reachable state.

  \<^bold>\<open>What is shown.\<close>  Round trips: frames, streams (striped and plain), video frames, addresses, batches and preambles come out as they went in.  Invariants of the multiplexer, the pool, the allocator, a slot, the reconnect manager and the
  phone's tunnel hold after every operation.  Both sides of a call use the same pairs of relays, and both sides of a meeting the same key.  Sessions of the server are isolated, nothing that fails stays open, loops end within their bounds, no received frame crashes
  the dispatcher.  Where the code does something else than it means to, a theorem exhibits the run.

  \<^bold>\<open>Interfaces\<close> are locales: \<open>heap_order\<close> of \<open>Go_Heap\<close> (what \<^verbatim>\<open>container/heap\<close> asks of \<^verbatim>\<open>Less\<close>), \<open>evicting_queue\<close> of \<open>Ring_Buffers\<close>, \<open>nonce_table\<close> of
  \<open>Signaling_Router\<close> and \<open>slot_steps\<close> of \<open>Slot_Props\<close> state the laws their clients rely on; each is interpreted on the definitions of the code and used through the facts of the interpretation.

  \<^bold>\<open>Fuel and bounds.\<close>  Functions end by structural recursion or by a measure; loops that can go on for ever are step relations or return an option, and where a theorem says that a loop ends it gives the
  number of rounds (ten attempts of the reconnect loops, the rounds of the allocator, the chunks of a message, the phases of a speed test).

  \<^bold>\<open>Not modelled\<close> are: the gVisor network stack of \<^verbatim>\<open>internal/netstack\<close>, whose protocol code and header functions are a library that is not part of the sources; \<^verbatim>\<open>internal/captcha\<close>, which sends random
  data that imitates a browser; the seeded generators of names, whose tables are data; signals, flags and pages of the commands under \<^verbatim>\<open>cmd/\<close>, the benchmark, the test rig and the replacement of Android's network interfaces
  (\<^verbatim>\<open>internal/anetfix\<close>), which is operating-system code; logging, and deadlines and timers beyond the moment they choose.
\<close>

end
